(* ===== verification/Prelude.thy ===== *)
theory Prelude
  imports Main "HOL-Library.Word" "HOL-Library.Monad_Syntax"
begin

unbundle bit_operations_syntax

text \<open>
  Shared vocabulary of the development: the machine integer types, byte buffers, the
  treatment of panics, and the generic facts about lists and words that the component
  theories use.

  A Rust computation that may panic is a value of type \<open>'a option\<close>: \<^const>\<open>None\<close> is the panic,
  \<^const>\<open>Some\<close> a regular return. Arithmetic on \<^verbatim>\<open>usize\<close> is arithmetic on \<^typ>\<open>nat\<close>, with every
  subtraction checked (\<open>checked_sub\<close>): an underflow panics in a debug build and wraps in a release
  build, so a proof that \<^const>\<open>None\<close> is not reached covers both.

  The buffers of the \<^verbatim>\<open>bytes\<close> crate (\<^verbatim>\<open>Bytes\<close>, \<^verbatim>\<open>BytesMut\<close>) are byte sequences; the model uses byte
  lists, and the operations the code calls on them are the list operations their documentation
  describes, including the panic on an out-of-range length.
\<close>

section \<open>Types\<close>

type_synonym u8 = "8 word"
type_synonym u16 = "16 word"
type_synonym u32 = "32 word"
type_synonym u64 = "64 word"
type_synonym bytes = "u8 list"

abbreviation u32_max :: nat where
  "u32_max \<equiv> 4294967295"

section \<open>Collections of rules\<close>

named_theorems wire_simps \<open>evaluation of wire-level accessors on constructed values\<close>
named_theorems inv_intros \<open>preservation of invariants by operations\<close>
named_theorems op_defs \<open>definitions of the operations of a component\<close>

section \<open>Panicking primitives\<close>

definition checked_sub :: "nat \<Rightarrow> nat \<Rightarrow> nat option" where
  "checked_sub a b = (if b \<le> a then Some (a - b) else None)"

definition rust_assert :: "bool \<Rightarrow> unit option" where
  "rust_assert b = (if b then Some () else None)"

definition buf_advance :: "nat \<Rightarrow> bytes \<Rightarrow> bytes option" where
  "buf_advance n buf = (if n \<le> length buf then Some (drop n buf) else None)"

definition buf_split_to :: "nat \<Rightarrow> bytes \<Rightarrow> (bytes \<times> bytes) option" where
  "buf_split_to n buf = (if n \<le> length buf then Some (take n buf, drop n buf) else None)"

definition buf_slice :: "nat \<Rightarrow> nat \<Rightarrow> 'a list \<Rightarrow> 'a list option" where
  "buf_slice i j xs = (if i \<le> j \<and> j \<le> length xs then Some (take (j - i) (drop i xs)) else None)"

definition array_get :: "'a list \<Rightarrow> nat \<Rightarrow> 'a option" where
  "array_get xs i = (if i < length xs then Some (xs ! i) else None)"

lemma checked_sub_Some [simp]: "b \<le> a \<Longrightarrow> checked_sub a b = Some (a - b)"
  by (simp add: checked_sub_def)

lemma checked_sub_eq_Some_iff: "checked_sub a b = Some c \<longleftrightarrow> b \<le> a \<and> c = a - b"
  by (auto simp: checked_sub_def)

lemma checked_sub_eq_None_iff [simp]: "checked_sub a b = None \<longleftrightarrow> a < b"
  by (auto simp: checked_sub_def)

lemma rust_assert_Some [simp]: "b \<Longrightarrow> rust_assert b = Some ()"
  by (simp add: rust_assert_def)

lemma rust_assert_False [simp]: "rust_assert False = None"
  by (simp add: rust_assert_def)

lemma rust_assert_eq_Some_iff [simp]: "rust_assert b = Some u \<longleftrightarrow> b"
  by (simp add: rust_assert_def)

lemma buf_advance_Some [simp]: "n \<le> length buf \<Longrightarrow> buf_advance n buf = Some (drop n buf)"
  by (simp add: buf_advance_def)

lemma buf_split_to_Some [simp]:
  "n \<le> length buf \<Longrightarrow> buf_split_to n buf = Some (take n buf, drop n buf)"
  by (simp add: buf_split_to_def)

lemma buf_slice_Some [simp]:
  "i \<le> j \<Longrightarrow> j \<le> length xs \<Longrightarrow> buf_slice i j xs = Some (take (j - i) (drop i xs))"
  by (simp add: buf_slice_def)

lemma array_get_Some [simp]: "i < length xs \<Longrightarrow> array_get xs i = Some (xs ! i)"
  by (simp add: array_get_def)

lemma array_get_eq_None_iff [simp]: "array_get xs i = None \<longleftrightarrow> length xs \<le> i"
  by (auto simp: array_get_def)

lemma array_get_eq_Some_iff: "array_get xs i = Some x \<longleftrightarrow> i < length xs \<and> x = xs ! i"
  by (auto simp: array_get_def)

section \<open>Lists\<close>

lemma take_append_le: "n \<le> length xs \<Longrightarrow> take n (xs @ ys) = take n xs"
  by simp

lemma drop_append_le: "n \<le> length xs \<Longrightarrow> drop n (xs @ ys) = drop n xs @ ys"
  by simp

lemma list_all_nth_update:
  "list_all P xs \<Longrightarrow> P x \<Longrightarrow> list_all P (xs[i := x])"
  by (auto simp: list_all_iff dest: set_update_subset_insert [THEN subsetD])

lemma nth_list_update': "i < length xs \<Longrightarrow> xs[j := x] ! i = (if j = i then x else xs ! i)"
  by (cases "j = i") simp_all

lemma replicate_update_last: "(replicate (Suc j) a)[j := x] = replicate j a @ [x]"
  by (induction j) auto

section \<open>Words\<close>

lemma unat_ucast_u8_u32 [simp]: "unat (ucast (x :: u8) :: u32) = unat x"
  by (simp add: unsigned_ucast_eq take_bit_nat_eq_self less_le_trans [OF unsigned_less])

lemma unat_u8_less: "unat (x :: u8) < 256"
  using unsigned_less [of x, where ?'a = nat] by simp

lemma unat_u32_less: "unat (x :: u32) < 4294967296"
  using unsigned_less [of x, where ?'a = nat] by simp

lemma unat_u32_le: "unat (x :: u32) \<le> u32_max"
  using unat_u32_less [of x] by simp

lemma unat_of_nat_u32: "n \<le> u32_max \<Longrightarrow> unat (of_nat n :: u32) = n"
  by (simp add: unat_of_nat take_bit_nat_eq_self)

lemma unat_of_nat_u8: "n < 256 \<Longrightarrow> unat (of_nat n :: u8) = n"
  by (simp add: unat_of_nat take_bit_nat_eq_self)

lemma unat_less_32: "unat (v :: u32) < 2 ^ 32"
  using unat_u32_less [of v] by simp

lemma and_not_mask_eq_0_iff:
  "(c :: 'a :: len word) AND NOT (mask n) = 0 \<longleftrightarrow> unat c < 2 ^ n"
proof -
  have "c AND NOT (mask n) = 0 \<longleftrightarrow> take_bit n c = c"
    by (auto simp: bit_eq_iff bit_simps)
  also have "\<dots> \<longleftrightarrow> take_bit n (unat c) = unat c"
    by (metis unsigned_take_bit_eq word_unat_eq_iff)
  finally show ?thesis
    by (simp add: take_bit_nat_eq_self_iff)
qed

lemma eq_of_nat_unat: "unat w = n \<Longrightarrow> w = of_nat n"
  by auto

lemma or_push_bit_eq_add:
  fixes acc d :: "'a :: len word"
  assumes "unat acc < 2 ^ s" and fits: "(unat d + 1) * 2 ^ s \<le> 2 ^ LENGTH('a)"
  shows "unat (acc OR push_bit s d) = unat acc + unat d * 2 ^ s"
proof -
  have bound: "unat acc + unat d * 2 ^ s < 2 ^ LENGTH('a)"
    using assms by (simp add: algebra_simps)
  have "take_bit s acc = acc"
    using assms(1) by (metis unsigned_take_bit_eq word_unat_eq_iff take_bit_nat_eq_self_iff)
  then have "acc OR push_bit s d = acc + push_bit s d"
    by (metis disjunctive_add bit_push_bit_iff bit_take_bit_iff not_le)
  moreover have "unat (push_bit s d) = unat d * 2 ^ s"
  proof -
    have "push_bit s d = of_nat (unat d * 2 ^ s)"
      by (simp add: push_bit_eq_mult)
    then show ?thesis
      using bound by (simp only: unat_of_nat) (simp add: take_bit_nat_eq_self_iff)
  qed
  ultimately show ?thesis
    using bound by (simp add: unat_word_ariths)
qed

end
