(* ===== verification/Core_Types.thy ===== *)
theory Core_Types
  imports Prelude
begin

text \<open>
  The types of \<^verbatim>\<open>src/src/lib.rs\<close>: the newtypes \<^verbatim>\<open>ChannelId\<close> and \<^verbatim>\<open>Id\<close>, the parser result
  \<^verbatim>\<open>Outcome\<close> with its combinators and the \<^verbatim>\<open>try_outcome!\<close> macro, and the builder-style
  \<^verbatim>\<open>ChannelConfiguration\<close>.
\<close>

section \<open>Identifiers\<close>

datatype channel_id = ChannelId (channel_get: u8)

datatype msg_id = Id (id_get: u16)

text \<open>
  The request sets of a channel are \<^verbatim>\<open>HashSet<Id>\<close>. The identifiers are finite in number, so every
  set of them has a cardinality, which is what \<^verbatim>\<open>HashSet::len\<close> returns.
\<close>

lemma UNIV_msg_id: "(UNIV :: msg_id set) = range Id"
proof
  show "(UNIV :: msg_id set) \<subseteq> range Id"
    by (metis msg_id.exhaust rangeI subsetI)
qed simp

instance msg_id :: finite
proof
  show "finite (UNIV :: msg_id set)"
    by (simp add: UNIV_msg_id)
qed

lemma card_msg_id: "card (UNIV :: msg_id set) = 65536"
proof -
  have "card (range Id) = card (UNIV :: u16 set)"
    by (rule card_image) (simp add: inj_on_def)
  then show ?thesis
    by (simp add: UNIV_msg_id card_word)
qed

section \<open>Outcomes\<close>

datatype ('t, 'e) outcome =
    Incomplete u32
  | Fatal 'e
  | Success 't

definition outcome_expect :: "('t, 'e) outcome \<Rightarrow> 't option" where
  "outcome_expect oc = (case oc of
       Success v \<Rightarrow> Some v
     | Incomplete _ \<Rightarrow> None
     | Fatal _ \<Rightarrow> None)"

definition outcome_map :: "('t \<Rightarrow> 'u) \<Rightarrow> ('t, 'e) outcome \<Rightarrow> ('u, 'e) outcome" where
  "outcome_map f oc = (case oc of
       Incomplete n \<Rightarrow> Incomplete n
     | Fatal err \<Rightarrow> Fatal err
     | Success v \<Rightarrow> Success (f v))"

definition outcome_map_err :: "('e \<Rightarrow> 'f) \<Rightarrow> ('t, 'e) outcome \<Rightarrow> ('t, 'f) outcome" where
  "outcome_map_err f oc = (case oc of
       Incomplete n \<Rightarrow> Incomplete n
     | Fatal err \<Rightarrow> Fatal (f err)
     | Success v \<Rightarrow> Success v)"

text \<open>
  \<^verbatim>\<open>Outcome::incomplete\<close> panics when the number does not fit a \<^verbatim>\<open>u32\<close> (\<^verbatim>\<open>try_from\<close>) or is zero
  (\<^verbatim>\<open>NonZeroU32::new\<close>).
\<close>

definition outcome_incomplete :: "nat \<Rightarrow> ('t, 'e) outcome option" where
  "outcome_incomplete remaining =
     (if remaining \<le> u32_max \<and> remaining \<noteq> 0 then Some (Incomplete (of_nat remaining)) else None)"

definition outcome_to_result :: "('t, 'e) outcome \<Rightarrow> ('e + 't) option" where
  "outcome_to_result oc = (case oc of
       Incomplete _ \<Rightarrow> None
     | Fatal e \<Rightarrow> Some (Inl e)
     | Success s \<Rightarrow> Some (Inr s))"

text \<open>
  The macro \<^verbatim>\<open>try_outcome!\<close> leaves the calling function early; the early return is the continuation
  \<open>return\<close>, the rest of the function is \<open>rest\<close>. Every use in the crate keeps the error type, so
  \<^verbatim>\<open>err.into()\<close> is the identity.
\<close>

definition try_outcome ::
  "('a, 'e) outcome \<Rightarrow> (('b, 'e) outcome \<Rightarrow> 'r) \<Rightarrow> ('a \<Rightarrow> 'r) \<Rightarrow> 'r" where
  "try_outcome src return rest = (case src of
       Incomplete n \<Rightarrow> return (Incomplete n)
     | Fatal err \<Rightarrow> return (Fatal err)
     | Success v \<Rightarrow> rest v)"

lemma try_outcome_simps [simp]:
  "try_outcome (Incomplete n) return rest = return (Incomplete n)"
  "try_outcome (Fatal err) return rest = return (Fatal err)"
  "try_outcome (Success v) return rest = rest v"
  by (simp_all add: try_outcome_def)

lemma try_outcome_cong [fundef_cong]:
  assumes "src = src'" and "\<And>oc. return oc = return' oc"
    and "\<And>v. src' = Success v \<Longrightarrow> rest v = rest' v"
  shows "try_outcome src return rest = try_outcome src' return' rest'"
  using assms by (cases src') simp_all

lemma outcome_map_err_simps [simp]:
  "outcome_map_err f (Incomplete n) = Incomplete n"
  "outcome_map_err f (Fatal err) = Fatal (f err)"
  "outcome_map_err f (Success v) = Success v"
  by (simp_all add: outcome_map_err_def)

lemma outcome_map_simps [simp]:
  "outcome_map f (Incomplete n) = Incomplete n"
  "outcome_map f (Fatal err) = Fatal err"
  "outcome_map f (Success v) = Success (f v)"
  by (simp_all add: outcome_map_def)

lemma outcome_incomplete_Some [simp]:
  "0 < n \<Longrightarrow> n \<le> u32_max \<Longrightarrow> outcome_incomplete n = Some (Incomplete (of_nat n))"
  by (simp add: outcome_incomplete_def)

lemma outcome_incomplete_eq_Some_iff:
  "outcome_incomplete n = Some oc \<longleftrightarrow> 0 < n \<and> n \<le> u32_max \<and> oc = Incomplete (of_nat n)"
  by (auto simp: outcome_incomplete_def)

lemma outcome_incomplete_eq_None_iff [simp]:
  "outcome_incomplete n = None \<longleftrightarrow> n = 0 \<or> u32_max < n"
  by (auto simp: outcome_incomplete_def)

section \<open>Channel configuration\<close>

record channel_configuration =
  request_limit :: u16
  max_request_payload_size :: u32
  max_response_payload_size :: u32

definition channel_configuration_new :: channel_configuration where
  "channel_configuration_new =
     \<lparr>request_limit = 1, max_request_payload_size = 0, max_response_payload_size = 0\<rparr>"

definition channel_configuration_default :: channel_configuration where
  "channel_configuration_default = channel_configuration_new"

definition with_request_limit :: "u16 \<Rightarrow> channel_configuration \<Rightarrow> channel_configuration" where
  "with_request_limit n cfg = cfg\<lparr>request_limit := n\<rparr>"

definition with_max_request_payload_size ::
  "u32 \<Rightarrow> channel_configuration \<Rightarrow> channel_configuration" where
  "with_max_request_payload_size n cfg = cfg\<lparr>max_request_payload_size := n\<rparr>"

definition with_max_response_payload_size ::
  "u32 \<Rightarrow> channel_configuration \<Rightarrow> channel_configuration" where
  "with_max_response_payload_size n cfg = cfg\<lparr>max_response_payload_size := n\<rparr>"

lemmas channel_configuration_defs =
  channel_configuration_new_def channel_configuration_default_def with_request_limit_def
  with_max_request_payload_size_def with_max_response_payload_size_def

end
