(* ===== verification/Header.thy ===== *)
theory Header
  imports Core_Types
begin

text \<open>
  \<^verbatim>\<open>src/src/header.rs\<close>: the four byte frame header. A header is the array \<^verbatim>\<open>[u8; 4]\<close> of the source;
  the accessors that can reach \<^verbatim>\<open>unreachable!()\<close> or a \<^verbatim>\<open>debug_assert!\<close> return an option. The headers
  that \<^verbatim>\<open>Header::parse\<close> lets through are shown to be exactly those of \<^verbatim>\<open>Header::new\<close> and
  \<^verbatim>\<open>Header::new_error\<close>, so the accessors never panic on a received header.
\<close>

section \<open>Model\<close>

datatype header = Header (header_b0: u8) (header_b1: u8) (header_b2: u8) (header_b3: u8)

datatype error_kind =
    Other
  | MaxFrameSizeExceeded
  | InvalidHeader
  | SegmentViolation
  | BadVarInt
  | InvalidChannel
  | InProgress
  | ResponseTooLarge
  | RequestTooLarge
  | DuplicateRequest
  | FictitiousRequest
  | RequestLimitExceeded
  | FictitiousCancel
  | CancellationLimitExceeded

datatype frame_kind =
    Request
  | Response
  | RequestPl
  | ResponsePl
  | CancelReq
  | CancelResp

text \<open>The discriminants, read off the source; \<^verbatim>\<open>COUNT\<close> and \<^verbatim>\<open>from_repr\<close> are derived from them.\<close>

primrec error_kind_repr :: "error_kind \<Rightarrow> u8" where
  "error_kind_repr Other = 0"
| "error_kind_repr MaxFrameSizeExceeded = 1"
| "error_kind_repr InvalidHeader = 2"
| "error_kind_repr SegmentViolation = 3"
| "error_kind_repr BadVarInt = 4"
| "error_kind_repr InvalidChannel = 5"
| "error_kind_repr InProgress = 6"
| "error_kind_repr ResponseTooLarge = 7"
| "error_kind_repr RequestTooLarge = 8"
| "error_kind_repr DuplicateRequest = 9"
| "error_kind_repr FictitiousRequest = 10"
| "error_kind_repr RequestLimitExceeded = 11"
| "error_kind_repr FictitiousCancel = 12"
| "error_kind_repr CancellationLimitExceeded = 13"

definition error_kind_variants :: "error_kind list" where
  "error_kind_variants =
     [Other, MaxFrameSizeExceeded, InvalidHeader, SegmentViolation, BadVarInt, InvalidChannel,
      InProgress, ResponseTooLarge, RequestTooLarge, DuplicateRequest, FictitiousRequest,
      RequestLimitExceeded, FictitiousCancel, CancellationLimitExceeded]"

definition error_kind_COUNT :: nat where
  "error_kind_COUNT = length error_kind_variants"

definition error_kind_from_repr :: "u8 \<Rightarrow> error_kind option" where
  "error_kind_from_repr b = find (\<lambda>k. error_kind_repr k = b) error_kind_variants"

primrec frame_kind_repr :: "frame_kind \<Rightarrow> u8" where
  "frame_kind_repr Request = 0"
| "frame_kind_repr Response = 1"
| "frame_kind_repr RequestPl = 2"
| "frame_kind_repr ResponsePl = 3"
| "frame_kind_repr CancelReq = 4"
| "frame_kind_repr CancelResp = 5"

definition frame_kind_variants :: "frame_kind list" where
  "frame_kind_variants = [Request, Response, RequestPl, ResponsePl, CancelReq, CancelResp]"

definition frame_kind_COUNT :: nat where
  "frame_kind_COUNT = length frame_kind_variants"

definition frame_kind_from_repr :: "u8 \<Rightarrow> frame_kind option" where
  "frame_kind_from_repr b = find (\<lambda>k. frame_kind_repr k = b) frame_kind_variants"

definition header_SIZE :: nat where
  "header_SIZE = 4"

definition KIND_ERR_BIT :: u8 where
  "KIND_ERR_BIT = 0b10000000"

definition KIND_ERR_MASK :: u8 where
  "KIND_ERR_MASK = 0b00001111"

definition KIND_MASK :: u8 where
  "KIND_MASK = 0b00000111"

definition u16_to_le_bytes :: "u16 \<Rightarrow> u8 \<times> u8" where
  "u16_to_le_bytes n = (ucast n, ucast (drop_bit 8 n))"

definition u16_from_le_bytes :: "u8 \<Rightarrow> u8 \<Rightarrow> u16" where
  "u16_from_le_bytes lo hi = ucast lo OR push_bit 8 (ucast hi)"

definition header_new :: "frame_kind \<Rightarrow> channel_id \<Rightarrow> msg_id \<Rightarrow> header" where
  "header_new kind channel i =
     (case u16_to_le_bytes (id_get i) of
        (id0, id1) \<Rightarrow> Header (frame_kind_repr kind) (channel_get channel) id0 id1)"

definition header_new_error :: "error_kind \<Rightarrow> channel_id \<Rightarrow> msg_id \<Rightarrow> header" where
  "header_new_error kind channel i =
     (case u16_to_le_bytes (id_get i) of
        (id0, id1) \<Rightarrow> Header (error_kind_repr kind OR KIND_ERR_BIT) (channel_get channel) id0 id1)"

definition header_kind_byte :: "header \<Rightarrow> u8" where
  "header_kind_byte h = header_b0 h"

definition header_channel :: "header \<Rightarrow> channel_id" where
  "header_channel h = ChannelId (header_b1 h)"

definition header_id :: "header \<Rightarrow> msg_id" where
  "header_id h = Id (u16_from_le_bytes (header_b2 h) (header_b3 h))"

definition header_is_error :: "header \<Rightarrow> bool" where
  "header_is_error h \<longleftrightarrow> header_kind_byte h AND KIND_ERR_BIT = KIND_ERR_BIT"

definition header_error_kind :: "header \<Rightarrow> error_kind option" where
  "header_error_kind h =
     do { rust_assert (header_is_error h);
          error_kind_from_repr (header_kind_byte h AND KIND_ERR_MASK) }"

definition header_kind :: "header \<Rightarrow> frame_kind option" where
  "header_kind h =
     do { rust_assert (\<not> header_is_error h);
          frame_kind_from_repr (header_kind_byte h AND KIND_MASK) }"

definition header_is_request :: "header \<Rightarrow> bool option" where
  "header_is_request h =
     (if \<not> header_is_error h then
        do { kind \<leftarrow> header_kind h; Some (kind = Request \<or> kind = RequestPl) }
      else Some False)"

definition header_with_err :: "error_kind \<Rightarrow> header \<Rightarrow> header" where
  "header_with_err kind h = header_new_error kind (header_channel h) (header_id h)"

definition header_parse :: "u8 \<Rightarrow> u8 \<Rightarrow> u8 \<Rightarrow> u8 \<Rightarrow> header option" where
  "header_parse raw0 raw1 raw2 raw3 =
     (let raw0 = raw0 AND (KIND_ERR_MASK OR KIND_MASK OR KIND_ERR_BIT);
          h = Header raw0 raw1 raw2 raw3
      in if header_is_error h then
           (if of_nat error_kind_COUNT \<le> header_kind_byte h AND KIND_ERR_MASK then None
            else Some h)
         else if of_nat frame_kind_COUNT \<le> header_kind_byte h AND KIND_MASK then None
         else if header_kind_byte h AND KIND_MASK \<noteq> header_kind_byte h then None
         else Some h)"

definition header_as_ref :: "header \<Rightarrow> bytes" where
  "header_as_ref h = [header_b0 h, header_b1 h, header_b2 h, header_b3 h]"

section \<open>Discriminants\<close>

lemmas kind_consts = error_kind_COUNT_def error_kind_variants_def frame_kind_COUNT_def
  frame_kind_variants_def KIND_ERR_BIT_def KIND_ERR_MASK_def KIND_MASK_def

lemma error_kind_from_repr_repr [simp]: "error_kind_from_repr (error_kind_repr k) = Some k"
  by (cases k) (simp_all add: error_kind_from_repr_def kind_consts)

lemma frame_kind_from_repr_repr [simp]: "frame_kind_from_repr (frame_kind_repr k) = Some k"
  by (cases k) (simp_all add: frame_kind_from_repr_def kind_consts)

lemma u8_less_numeral_cases:
  "(b :: u8) < 14 \<Longrightarrow> b \<in> {0, 1, 2, 3, 4, 5, 6, 7, 8, 9, 10, 11, 12, 13}"
  "(b :: u8) < 6 \<Longrightarrow> b \<in> {0, 1, 2, 3, 4, 5}"
  by (simp_all add: word_less_nat_alt word_unat_eq_iff) arith+

lemma error_kind_repr_surj: "b < of_nat error_kind_COUNT \<Longrightarrow> \<exists>k. error_kind_repr k = b"
proof -
  assume "b < of_nat error_kind_COUNT"
  then have "b \<in> set (map error_kind_repr error_kind_variants)"
    using u8_less_numeral_cases(1) [of b] by (simp add: kind_consts)
  then show ?thesis by auto
qed

lemma frame_kind_repr_surj: "b < of_nat frame_kind_COUNT \<Longrightarrow> \<exists>k. frame_kind_repr k = b"
proof -
  assume "b < of_nat frame_kind_COUNT"
  then have "b \<in> set (map frame_kind_repr frame_kind_variants)"
    using u8_less_numeral_cases(2) [of b] by (simp add: kind_consts)
  then show ?thesis by auto
qed

section \<open>Identifier bytes\<close>

lemma u16_le_bytes_roundtrip [simp]:
  "u16_from_le_bytes (ucast n) (ucast (drop_bit 8 n)) = n"
  by (rule bit_eqI) (auto simp: u16_from_le_bytes_def bit_simps)

lemma u16_le_bytes_inverse [simp]:
  "ucast (u16_from_le_bytes lo hi) = lo" "ucast (drop_bit 8 (u16_from_le_bytes lo hi)) = hi"
  by (rule bit_eqI, auto simp: u16_from_le_bytes_def bit_simps dest: bit_imp_le_length)+

section \<open>Constructed headers\<close>

lemmas header_defs = header_new_def header_new_error_def u16_to_le_bytes_def header_kind_byte_def
  header_channel_def header_id_def header_is_error_def header_error_kind_def header_kind_def
  header_with_err_def header_as_ref_def

lemma header_new_access [simp]:
  "header_channel (header_new k c i) = c"
  "header_id (header_new k c i) = i"
  "\<not> header_is_error (header_new k c i)"
  "header_kind (header_new k c i) = Some k"
proof -
  show "header_channel (header_new k c i) = c" "header_id (header_new k c i) = i"
    by (simp_all add: header_defs)
  show err: "\<not> header_is_error (header_new k c i)"
    by (cases k) (simp_all add: header_defs kind_consts)
  have "frame_kind_repr k AND KIND_MASK = frame_kind_repr k"
    by (cases k) (simp_all add: kind_consts)
  with err show "header_kind (header_new k c i) = Some k"
    by (simp add: header_kind_def) (simp add: header_defs)
qed

lemma header_new_error_access [simp]:
  "header_channel (header_new_error k c i) = c"
  "header_id (header_new_error k c i) = i"
  "header_is_error (header_new_error k c i)"
  "header_error_kind (header_new_error k c i) = Some k"
proof -
  show "header_channel (header_new_error k c i) = c" "header_id (header_new_error k c i) = i"
    by (simp_all add: header_defs)
  show err: "header_is_error (header_new_error k c i)"
    by (cases k) (simp_all add: header_defs kind_consts)
  have "(error_kind_repr k OR KIND_ERR_BIT) AND KIND_ERR_MASK = error_kind_repr k"
    by (cases k) (simp_all add: kind_consts)
  with err show "header_error_kind (header_new_error k c i) = Some k"
    by (simp add: header_error_kind_def) (simp add: header_defs)
qed

lemma header_with_err_access [simp]:
  "header_channel (header_with_err k h) = header_channel h"
  "header_id (header_with_err k h) = header_id h"
  "header_is_error (header_with_err k h)"
  "header_error_kind (header_with_err k h) = Some k"
  by (simp_all add: header_with_err_def)

lemma length_header_as_ref [simp]: "length (header_as_ref h) = 4"
  by (simp add: header_as_ref_def)

section \<open>Parsed headers\<close>

definition header_valid :: "header \<Rightarrow> bool" where
  "header_valid h \<longleftrightarrow> header_parse (header_b0 h) (header_b1 h) (header_b2 h) (header_b3 h) = Some h"

lemma header_new_valid [simp]: "header_valid (header_new k c i)"
  by (cases k)
     (simp_all add: header_valid_def header_parse_def header_defs kind_consts Let_def word_le_nat_alt)

lemma header_new_error_valid [simp]: "header_valid (header_new_error k c i)"
  by (cases k)
     (simp_all add: header_valid_def header_parse_def header_defs kind_consts Let_def word_le_nat_alt)

lemma header_channel_id_eq:
  "header_new k (header_channel h) (header_id h) =
     Header (frame_kind_repr k) (header_b1 h) (header_b2 h) (header_b3 h)"
  "header_new_error e (header_channel h) (header_id h) =
     Header (error_kind_repr e OR KIND_ERR_BIT) (header_b1 h) (header_b2 h) (header_b3 h)"
  by (simp_all add: header_defs)

lemma kind_byte_error_split:
  "b AND (KIND_ERR_MASK OR KIND_MASK OR KIND_ERR_BIT) = b' \<Longrightarrow> b' AND KIND_ERR_BIT = KIND_ERR_BIT \<Longrightarrow>
   (b' AND KIND_ERR_MASK) OR KIND_ERR_BIT = b'"
proof -
  assume b: "b AND (KIND_ERR_MASK OR KIND_MASK OR KIND_ERR_BIT) = b'"
    and err: "b' AND KIND_ERR_BIT = KIND_ERR_BIT"
  have "b' = b' AND (KIND_ERR_MASK OR KIND_ERR_BIT)"
    unfolding b [symmetric] by (simp add: kind_consts and.assoc)
  also have "\<dots> = (b' AND KIND_ERR_MASK) OR (b' AND KIND_ERR_BIT)"
    by (simp only: bit.conj_disj_distrib)
  finally show ?thesis
    by (simp only: err)
qed

lemma header_parse_cases:
  assumes "header_parse r0 r1 r2 r3 = Some h"
  obtains (frame) k where "h = header_new k (header_channel h) (header_id h)"
      "header_b1 h = r1" "header_b2 h = r2" "header_b3 h = r3"
  | (error) e where "h = header_new_error e (header_channel h) (header_id h)"
      "header_b1 h = r1" "header_b2 h = r2" "header_b3 h = r3"
proof -
  define b where "b = r0 AND (KIND_ERR_MASK OR KIND_MASK OR KIND_ERR_BIT)"
  from assms have h: "h = Header b r1 r2 r3"
    by (auto simp: header_parse_def b_def Let_def split: if_splits)
  show thesis
  proof (cases "header_is_error h")
    case True
    with assms have "b AND KIND_ERR_MASK < of_nat error_kind_COUNT"
      by (auto simp: header_parse_def b_def Let_def h header_kind_byte_def not_le split: if_splits)
    then obtain e where "error_kind_repr e = b AND KIND_ERR_MASK"
      using error_kind_repr_surj by blast
    moreover have "(b AND KIND_ERR_MASK) OR KIND_ERR_BIT = b"
      using kind_byte_error_split [OF b_def [symmetric]] True
      by (simp add: h header_is_error_def header_kind_byte_def)
    ultimately show thesis
      by (intro error [of e]) (simp_all add: header_channel_id_eq h)
  next
    case False
    with assms have "b AND KIND_MASK < of_nat frame_kind_COUNT" "b AND KIND_MASK = b"
      by (auto simp: header_parse_def b_def Let_def h header_kind_byte_def not_le split: if_splits)
    then obtain k where "frame_kind_repr k = b"
      using frame_kind_repr_surj by metis
    then show thesis
      by (intro frame [of k]) (simp_all add: header_channel_id_eq h)
  qed
qed

lemma header_valid_iff:
  "header_valid h \<longleftrightarrow> (\<exists>k c i. h = header_new k c i) \<or> (\<exists>e c i. h = header_new_error e c i)"
  unfolding header_valid_def
  by (metis header_parse_cases header_valid_def header_new_valid header_new_error_valid)

lemma header_parse_valid: "header_parse r0 r1 r2 r3 = Some h \<Longrightarrow> header_valid h"
  using header_parse_cases header_valid_iff by metis

text \<open>The headers of error messages.\<close>

definition error_header :: "header \<Rightarrow> bool" where
  "error_header h \<longleftrightarrow> header_valid h \<and> header_is_error h"

lemma error_header_new [simp]: "error_header (header_new_error k c i)"
  by (simp add: error_header_def)

lemma header_valid_no_panic:
  assumes "header_valid h"
  shows "header_is_error h \<Longrightarrow> \<exists>e. header_error_kind h = Some e"
    and "\<not> header_is_error h \<Longrightarrow> \<exists>k. header_kind h = Some k"
  using assms by (auto simp: header_valid_iff)

lemma error_header_kind: "error_header h \<Longrightarrow> \<exists>e. header_error_kind h = Some e"
  using header_valid_no_panic by (simp add: error_header_def)

section \<open>Rejected headers\<close>

lemma kind_masks: "KIND_ERR_MASK = mask 4" "KIND_MASK = mask 3" "KIND_ERR_BIT = 2 ^ 7"
   by (simp_all add: kind_consts mask_eq_exp_minus_1)

lemma unat_and_mask: "unat ((c::u8) AND mask n) = unat c mod 2 ^ n"
  by (metis take_bit_eq_mask take_bit_eq_mod unsigned_take_bit_eq)

lemma KIND_ERR_BIT_nonzero: "KIND_ERR_BIT \<noteq> 0"
  by (simp add: KIND_ERR_BIT_def)

lemma and_error_bit: "b AND KIND_ERR_BIT = (if unat b < 128 then 0 else KIND_ERR_BIT)"
proof -
  have "KIND_ERR_BIT = NOT (mask 7)"
    by (simp add: kind_consts mask_eq_exp_minus_1 word_eq_iff_unsigned)
  then have "b AND KIND_ERR_BIT = 0 \<longleftrightarrow> unat b < 128"
    using and_not_mask_eq_0_iff [of b 7] by simp
  moreover have "b AND 2 ^ 7 = 0 \<or> b AND 2 ^ 7 = 2 ^ 7"
    by (metis (no_types) and_exp_eq_0_iff_not_bit bit_and_iff bit_exp_iff bit_eq_iff)
  ultimately show ?thesis
    unfolding kind_masks by (auto split: if_splits)
qed

text \<open>The bits of the kind byte that parsing keeps.\<close>

abbreviation kept :: "u8 \<Rightarrow> u8" where
  "kept b \<equiv> b AND (KIND_ERR_MASK OR KIND_MASK OR KIND_ERR_BIT)"

lemma kept_and:
  "kept b AND KIND_ERR_BIT = b AND KIND_ERR_BIT"
  "kept b AND KIND_ERR_MASK = b AND KIND_ERR_MASK"
  "kept b AND KIND_MASK = b AND KIND_MASK"
  by (simp_all add: kind_consts and.assoc)

lemma kept_frame: "unat b < 128 \<Longrightarrow> kept b = b AND KIND_ERR_MASK"
  by (simp only: bit.conj_disj_distrib and_error_bit) (simp add: kind_masks mask_eq_exp_minus_1 and.assoc
     flip: bit.conj_disj_distrib)

lemma header_parse_kept:
  "header_parse r0 r1 r2 r3 =
     (if r0 AND KIND_ERR_BIT = KIND_ERR_BIT then
        (if of_nat error_kind_COUNT \<le> r0 AND KIND_ERR_MASK then None
         else Some (Header (kept r0) r1 r2 r3))
      else if of_nat frame_kind_COUNT \<le> r0 AND KIND_MASK \<or> r0 AND KIND_MASK \<noteq> kept r0 then None
      else Some (Header (kept r0) r1 r2 r3))"
  by (auto simp: header_parse_def Let_def header_is_error_def header_kind_byte_def kept_and)

lemma low_nibble_iff: "(x :: nat) < 16 \<Longrightarrow> (6 \<le> x mod 8 \<or> x mod 8 \<noteq> x) \<longleftrightarrow> 6 \<le> x"
  by (cases "x < 8") (auto simp: mod_if)

section \<open>Properties\<close>

text \<open>Which first bytes are rejected; the other three never cause a rejection.\<close>

lemma header_parse_None_iff:
  "header_parse r0 r1 r2 r3 = None \<longleftrightarrow>
     (if unat r0 < 128 then 6 \<le> unat r0 mod 16 else 14 \<le> unat r0 mod 16)"
proof (cases "unat r0 < 128")
  case True
  then have "r0 AND KIND_ERR_BIT \<noteq> KIND_ERR_BIT"
    using KIND_ERR_BIT_nonzero by (simp only: and_error_bit if_True)
  then have eq: "header_parse r0 r1 r2 r3 = None \<longleftrightarrow>
       of_nat frame_kind_COUNT \<le> r0 AND KIND_MASK \<or> r0 AND KIND_MASK \<noteq> r0 AND KIND_ERR_MASK"
    by (simp only: header_parse_kept kept_frame [OF True] if_False) (simp, metis)
  have "\<dots> \<longleftrightarrow> 6 \<le> unat r0 mod 8 \<or> unat r0 mod 8 \<noteq> unat r0 mod 16"
    by (simp add: kind_masks unat_and_mask word_le_nat_alt word_unat_eq_iff frame_kind_COUNT_def frame_kind_variants_def)
  also have "\<dots> \<longleftrightarrow> 6 \<le> unat r0 mod 16"
    using low_nibble_iff [of "unat r0 mod 16"] by (simp add: mod_mod_cancel)
  finally show ?thesis
    using eq True by simp
next
  case False
  then have "header_parse r0 r1 r2 r3 = None \<longleftrightarrow> of_nat error_kind_COUNT \<le> r0 AND KIND_ERR_MASK"
    using and_error_bit [of r0] by (simp add: header_parse_kept)
  then show ?thesis
    using False by (simp add: kind_masks unat_and_mask word_le_nat_alt error_kind_COUNT_def error_kind_variants_def)
qed

text \<open>
  C30: a header built by \<^verbatim>\<open>Header::new\<close> or \<^verbatim>\<open>Header::new_error\<close> survives the wire: its four bytes parse
  back to the same header, and the accessors return exactly the kind, channel and identifier it was
  built from. Error headers and regular headers are never confused.
\<close>

theorem header_roundtrip:
  "(\<exists>b0 b1 b2 b3. header_as_ref (header_new k c i) = [b0, b1, b2, b3] \<and>
      header_parse b0 b1 b2 b3 = Some (header_new k c i)) \<and>
   header_kind (header_new k c i) = Some k \<and> \<not> header_is_error (header_new k c i) \<and>
   header_channel (header_new k c i) = c \<and> header_id (header_new k c i) = i \<and>
   (\<exists>b0 b1 b2 b3. header_as_ref (header_new_error e c i) = [b0, b1, b2, b3] \<and>
      header_parse b0 b1 b2 b3 = Some (header_new_error e c i)) \<and>
   header_error_kind (header_new_error e c i) = Some e \<and> header_is_error (header_new_error e c i) \<and>
   header_channel (header_new_error e c i) = c \<and> header_id (header_new_error e c i) = i"
  using header_new_valid [of k c i] header_new_error_valid [of e c i]
  by (simp add: header_valid_def header_as_ref_def)

text \<open>
  C31: parsing accepts exactly the well-formed headers. The reserved bits 4 to 6 of the first byte are
  ignored. With the error bit set, a header is rejected when its error number is 14 or 15; with the
  error bit clear, when bit 3 is set or the kind number is 6 or 7. Whatever else a peer sends, the
  parsed header is one that \<^verbatim>\<open>Header::new\<close> or \<^verbatim>\<open>Header::new_error\<close> builds, its channel and identifier
  bytes are the received ones, and the kind accessor that applies to it does not reach its
  \<^verbatim>\<open>unreachable!()\<close>.
\<close>

theorem header_parse_sound:
  "case header_parse r0 r1 r2 r3 of
     None \<Rightarrow> (if unat r0 < 128 then 6 \<le> unat r0 mod 16 else 14 \<le> unat r0 mod 16)
   | Some h \<Rightarrow> (if unat r0 < 128 then unat r0 mod 16 < 6 else unat r0 mod 16 < 14)
       \<and> ((\<exists>k. h = header_new k (header_channel h) (header_id h) \<and> header_kind h = Some k)
          \<or> (\<exists>e. h = header_new_error e (header_channel h) (header_id h) \<and> header_error_kind h = Some e))
       \<and> tl (header_as_ref h) = [r1, r2, r3]"
proof (cases "header_parse r0 r1 r2 r3")
  case None
  then have "if unat r0 < 128 then 6 \<le> unat r0 mod 16 else 14 \<le> unat r0 mod 16"
    by (simp only: header_parse_None_iff)
  then show ?thesis
    by (simp only: None option.case)
next
  case (Some h)
  then have "\<not> (if unat r0 < 128 then 6 \<le> unat r0 mod 16 else 14 \<le> unat r0 mod 16)"
    by (metis header_parse_None_iff option.distinct(1))
  then have accepted: "if unat r0 < 128 then unat r0 mod 16 < 6 else unat r0 mod 16 < 14"
    by (simp add: not_le split: if_splits)
  have "header_kind h = Some k" if "h = header_new k c i" for k c i
    by (simp add: that)
  moreover have "header_error_kind h = Some e" if "h = header_new_error e c i" for e c i
    by (simp add: that)
  ultimately have "((\<exists>k. h = header_new k (header_channel h) (header_id h) \<and> header_kind h = Some k)
      \<or> (\<exists>e. h = header_new_error e (header_channel h) (header_id h) \<and> header_error_kind h = Some e))
      \<and> tl (header_as_ref h) = [r1, r2, r3]"
    unfolding header_as_ref_def list.sel(3) by (cases rule: header_parse_cases [OF Some]) metis+
  with accepted show ?thesis
    by (simp only: Some option.case simp_thms)
qed

end
