(* ===== verification/Varint.thy ===== *)
theory Varint
  imports Core_Types
begin

text \<open>
  \<^verbatim>\<open>src/src/varint.rs\<close>: the variable length encoding of 32 bit integers. A reference encoder on
  natural numbers (\<open>leb128\<close>) states what the bytes of an encoding are; the imperative encoder
  is shown equal to it, and the decoder to be its left inverse.
\<close>

section \<open>Model\<close>

definition VARINT_MASK :: u8 where
  "VARINT_MASK = 0b01111111"

datatype varint_overflow = Overflow

record parsed_u32 =
  parsed_offset :: u8
  parsed_value :: u32

text \<open>
  The loop of \<^verbatim>\<open>decode_varint32\<close>: the list is the part of the input from index \<open>idx\<close> on.
\<close>

fun decode_varint32_loop ::
  "nat \<Rightarrow> u32 \<Rightarrow> bytes \<Rightarrow> (parsed_u32, varint_overflow) outcome" where
  "decode_varint32_loop idx val [] = Incomplete 1"
| "decode_varint32_loop idx val (c # input) =
     (if 4 \<le> idx \<and> c AND 0b11110000 \<noteq> 0 then Fatal Overflow
      else
        let val' = val OR push_bit (idx * 7) (ucast (c AND VARINT_MASK)) in
        if c AND NOT VARINT_MASK = 0
        then Success \<lparr>parsed_offset = of_nat (idx + 1), parsed_value = val'\<rparr>
        else decode_varint32_loop (idx + 1) val' input)"

definition decode_varint32 :: "bytes \<Rightarrow> (parsed_u32, varint_overflow) outcome" where
  "decode_varint32 input = decode_varint32_loop 0 0 input"

text \<open>The six byte array of \<^verbatim>\<open>Varint32\<close>; the last byte records the length.\<close>

datatype varint32 = Varint32 (varint32_raw: bytes)

definition varint32_SENTINEL :: varint32 where
  "varint32_SENTINEL = Varint32 (replicate 6 0)"

definition varint32_MAX_LEN :: nat where
  "varint32_MAX_LEN = 5"

lemma drop_bit_7_decreases:
  "0 < (v :: u32) \<Longrightarrow> unat (drop_bit 7 v) < unat v"
  by (simp add: drop_bit_eq_div unat_div word_gt_0 unat_gt_0)

function varint32_encode_loop :: "u32 \<Rightarrow> bytes \<Rightarrow> nat \<Rightarrow> bytes \<times> nat" where
  "varint32_encode_loop val output count =
     (if 0 < val then
        let output = output[count := ucast val AND VARINT_MASK];
            val' = drop_bit 7 val
        in if 0 < val'
           then varint32_encode_loop val'
                  (output[count := output ! count OR NOT VARINT_MASK]) (count + 1)
           else varint32_encode_loop val' output count
      else (output, count))"
  by pat_completeness auto
termination
  by (relation "measure (\<lambda>(v, _, _). unat v)") (simp_all add: drop_bit_7_decreases)

declare varint32_encode_loop.simps [simp del]

definition varint32_encode :: "u32 \<Rightarrow> varint32" where
  "varint32_encode val =
     (case varint32_encode_loop val (replicate 6 0) 0 of
        (output, count) \<Rightarrow> Varint32 (output[5 := of_nat count + 1]))"

definition varint32_len :: "varint32 \<Rightarrow> nat" where
  "varint32_len v = unat (varint32_raw v ! 5)"

definition varint32_is_sentinel :: "varint32 \<Rightarrow> bool" where
  "varint32_is_sentinel v \<longleftrightarrow> varint32_len v = 0"

definition varint32_decode :: "varint32 \<Rightarrow> u32" where
  "varint32_decode v =
     (if varint32_is_sentinel v then 0
      else case decode_varint32 (varint32_raw v) of
          Incomplete _ \<Rightarrow> 0
        | Fatal _ \<Rightarrow> 0
        | Success p \<Rightarrow> parsed_value p)"

definition varint32_length_of :: "u32 \<Rightarrow> nat" where
  "varint32_length_of val =
     (if val < push_bit 7 1 then 1
      else if val < push_bit 14 1 then 2
      else if val < push_bit 21 1 then 3
      else if val < push_bit 28 1 then 4
      else 5)"

definition varint32_as_ref :: "varint32 \<Rightarrow> bytes" where
  "varint32_as_ref v = take (varint32_len v) (varint32_raw v)"

section \<open>Reference encoder\<close>

text \<open>
  Little endian groups of seven bits, the top bit of each byte set when more bytes follow.
\<close>

fun leb128 :: "nat \<Rightarrow> bytes" where
  "leb128 n =
     (if n < 128 then [of_nat n] else of_nat (n mod 128 + 128) # leb128 (n div 128))"

declare leb128.simps [simp del]

lemma leb128_small: "n < 128 \<Longrightarrow> leb128 n = [of_nat n]"
  by (simp add: leb128.simps)

lemma leb128_step: "128 \<le> n \<Longrightarrow> leb128 n = of_nat (n mod 128 + 128) # leb128 (n div 128)"
  by (simp add: leb128.simps)

lemma length_leb128:
  "n < 2 ^ 32 \<Longrightarrow> length (leb128 n) =
     (if n < 2 ^ 7 then 1 else if n < 2 ^ 14 then 2 else if n < 2 ^ 21 then 3
      else if n < 2 ^ 28 then 4 else 5)"
  by (simp add: leb128.simps [of n] leb128.simps [of "n div 128"]
        leb128.simps [of "n div 16384"] leb128.simps [of "n div 2097152"]
        leb128.simps [of "n div 268435456"] div_mult2_eq [symmetric] div_less_iff_less_mult)

section \<open>Bits\<close>

lemma VARINT_MASK_eq: "VARINT_MASK = mask 7"
  by (simp add: VARINT_MASK_def mask_eq_exp_minus_1)

lemma stop_bit_iff: "c AND NOT VARINT_MASK = 0 \<longleftrightarrow> unat c < 128"
  using and_not_mask_eq_0_iff [of c 7] by (simp add: VARINT_MASK_eq)

lemma high_nibble_iff: "(c :: u8) AND 0b11110000 = 0 \<longleftrightarrow> unat c < 16"
proof -
  have "(0b11110000 :: u8) = NOT (mask 4)"
    by (simp add: mask_eq_exp_minus_1 word_eq_iff_unsigned)
  then show ?thesis
    using and_not_mask_eq_0_iff [of c 4] by simp
qed

lemma unat_and_VARINT_MASK: "unat (c AND VARINT_MASK) = unat c mod 128"
  by (simp add: VARINT_MASK_eq unat_mod flip: take_bit_eq_mask)
     (simp add: take_bit_eq_mod unat_mod)

section \<open>The decoder inverts the reference encoder\<close>

text \<open>Seven bits of a number are moved from the input to the accumulator.\<close>

lemma seven_bits_moved:
  fixes acc acc' n idx :: nat
  assumes "acc' = acc + (n mod 128) * 2 ^ (idx * 7)" and "acc < 2 ^ (idx * 7)" and "n * 2 ^ (idx * 7) < 2 ^ 32"
  shows "acc' + (n div 128) * 2 ^ ((idx + 1) * 7) = acc + n * 2 ^ (idx * 7)"
    and "acc' < 2 ^ ((idx + 1) * 7)" and "n div 128 * 2 ^ ((idx + 1) * 7) < 2 ^ 32"
proof -
  let ?s = "idx * 7"
  have "n * 2 ^ ?s = (n mod 128 + (n div 128) * 128) * 2 ^ ?s"
    by simp
  then show "acc' + (n div 128) * 2 ^ ((idx + 1) * 7) = acc + n * 2 ^ ?s"
    unfolding assms(1) by (simp only: power_add add_mult_distrib) simp
  have "acc' < (n mod 128 + 1) * 2 ^ ?s"
    using assms(2) by (simp add: assms(1) algebra_simps)
  also have "\<dots> \<le> 128 * 2 ^ ?s"
    using mod_less_divisor [of 128 n] by (intro mult_le_mono1) simp
  finally show "acc' < 2 ^ ((idx + 1) * 7)"
    by (simp add: power_add)
  have "n div 128 * 2 ^ ((idx + 1) * 7) = n div 128 * 128 * 2 ^ ?s"
    by (simp add: power_add)
  also have "\<dots> \<le> n * 2 ^ ?s"
    by (rule mult_le_mono1) simp
  finally show "n div 128 * 2 ^ ((idx + 1) * 7) < 2 ^ 32"
    using assms(3) by simp
qed

lemma decode_loop_leb128:
  assumes "idx \<le> 4" and "unat acc < 2 ^ (idx * 7)" and "n * 2 ^ (idx * 7) < 2 ^ 32"
  shows "decode_varint32_loop idx acc (leb128 n @ rest) =
     Success \<lparr>parsed_offset = of_nat (idx + length (leb128 n)),
              parsed_value = of_nat (unat acc + n * 2 ^ (idx * 7))\<rparr>"
  using assms
proof (induction n arbitrary: idx acc rule: leb128.induct)
  case (1 n)
  let ?s = "idx * 7"
  consider "idx = 0" | "idx = 1" | "idx = 2" | "idx = 3" | "idx = 4"
    using "1.prems"(1) by linarith
  then have fits: "(n mod 128 + 1) * 2 ^ ?s \<le> 2 ^ 32" and idx4: "idx = 4 \<Longrightarrow> n < 16"
    using "1.prems"(3) by (cases; simp)+
  define c :: u8 where "c = of_nat (if n < 128 then n else n mod 128 + 128)"
  have c: "unat c = (if n < 128 then n else n mod 128 + 128)"
    unfolding c_def by (subst unat_of_nat_u8) (use mod_less_divisor [of 128 n] in auto)
  have c_low: "unat c mod 128 = n mod 128"
    by (simp add: c)
  define acc' where "acc' = acc OR push_bit ?s (ucast (c AND VARINT_MASK))"
  have acc': "unat acc' = unat acc + (n mod 128) * 2 ^ ?s"
    unfolding acc'_def using "1.prems"(2) fits
    by (subst or_push_bit_eq_add) (simp_all add: unat_and_VARINT_MASK c_low)
  show ?case
  proof (cases "n < 128")
    case True
    then have "acc' = of_nat (unat acc + n * 2 ^ ?s)"
      using acc' True by (intro eq_of_nat_unat) simp
    with True c idx4 "1.prems"(1) show ?thesis
      by (auto simp: leb128_small stop_bit_iff high_nibble_iff Let_def acc'_def c_def)
  next
    case False
    then have "idx < 4"
      using idx4 "1.prems"(1) by fastforce
    note moved = seven_bits_moved [OF acc' "1.prems"(2,3)]
    have "idx + 1 \<le> 4"
      using \<open>idx < 4\<close> by simp
    then have "decode_varint32_loop (idx + 1) acc' (leb128 (n div 128) @ rest) =
        Success \<lparr>parsed_offset = of_nat (idx + 1 + length (leb128 (n div 128))),
          parsed_value = of_nat (unat acc + n * 2 ^ ?s)\<rparr>"
      using "1.IH" [OF False _ moved(2,3)] unfolding moved(1) by blast
    with False c \<open>idx < 4\<close> show ?thesis
      by (simp add: leb128_step stop_bit_iff Let_def acc'_def c_def)
  qed
qed

section \<open>The encoder computes the reference encoding\<close>

lemma encode_loop_0: "varint32_encode_loop 0 out count = (out, count)"
  by (simp add: varint32_encode_loop.simps)

lemma unat_low_bits: "unat (ucast (val :: u32) AND VARINT_MASK :: u8) = unat val mod 128"
  by (simp add: unat_and_VARINT_MASK unsigned_ucast_eq take_bit_eq_mod mod_mod_cancel)

lemma unat_drop_7: "unat (drop_bit 7 (val :: u32)) = unat val div 128"
  by (simp add: drop_bit_eq_div unat_div)

lemma encode_loop_last:
  assumes "0 < val" and "unat val < 128" and "count < length out"
  shows "varint32_encode_loop val out count = (out[count := of_nat (unat val)], count)"
proof -
  have "drop_bit 7 val = 0"
    using unat_drop_7 [of val] assms(2) by (simp add: unat_eq_zero)
  moreover have "(ucast val AND VARINT_MASK :: u8) = of_nat (unat val)"
    using assms(2) by (intro eq_of_nat_unat) (simp add: unat_low_bits)
  ultimately show ?thesis
    using assms by (simp add: varint32_encode_loop.simps [of val] encode_loop_0)
qed

lemma encode_loop_step:
  assumes "128 \<le> unat val" and "count < length out"
  shows "varint32_encode_loop val out count =
     varint32_encode_loop (drop_bit 7 val)
       (out[count := of_nat (unat val mod 128 + 128)]) (count + 1)"
proof -
  have "0 < unat val" "0 < unat (drop_bit 7 val)"
    using assms(1) by (simp_all add: unat_drop_7 div_greater_zero_iff)
  then have pos: "0 < val" "0 < drop_bit 7 val"
    by (simp_all add: unat_gt_0 word_gt_0)
  have "(ucast val AND VARINT_MASK) OR NOT VARINT_MASK = (of_nat (unat val mod 128 + 128) :: u8)"
  proof (rule eq_of_nat_unat)
    have "NOT VARINT_MASK = push_bit 7 (1 :: u8)"
      by (simp add: VARINT_MASK_def word_eq_iff_unsigned)
    then show "unat ((ucast val AND VARINT_MASK :: u8) OR NOT VARINT_MASK) = unat val mod 128 + 128"
      using or_push_bit_eq_add [of "ucast val AND VARINT_MASK :: u8" 7 1]
      by (simp add: unat_low_bits)
  qed
  then show ?thesis
    using pos assms(2) by (simp add: varint32_encode_loop.simps [of val] Let_def)
qed

lemma leb128_nonempty [simp]: "leb128 n \<noteq> []"
  by (simp add: leb128.simps [of n])

lemma encode_loop_leb128:
  assumes "unat val = n" and "0 < n" and "count + length (leb128 n) \<le> length out"
  shows "varint32_encode_loop val out count =
     (take count out @ leb128 n @ drop (count + length (leb128 n)) out,
      count + length (leb128 n) - 1)"
  using assms
proof (induction n arbitrary: val out count rule: leb128.induct)
  case (1 n)
  have count: "count < length out"
    using "1.prems"(3) by (cases "leb128 n") auto
  show ?case
  proof (cases "n < 128")
    case True
    moreover have "0 < val"
      using "1.prems" by (auto simp: word_gt_0)
    ultimately show ?thesis
      using "1.prems" count by (simp add: encode_loop_last leb128_small upd_conv_take_nth_drop)
  next
    case False
    let ?out = "out[count := of_nat (n mod 128 + 128)]"
    have "varint32_encode_loop (drop_bit 7 val) ?out (count + 1) =
      (take (count + 1) ?out @ leb128 (n div 128) @ drop (count + 1 + length (leb128 (n div 128))) ?out,
       count + 1 + length (leb128 (n div 128)) - 1)"
      using False "1.prems" by (intro "1.IH") (auto simp: unat_drop_7 leb128_step)
    with False "1.prems" count show ?thesis
      by (simp add: encode_loop_step leb128_step take_Suc_conv_app_nth)
  qed
qed

lemma encode_eq_leb128:
  "varint32_encode val =
     Varint32 (leb128 (unat val) @ replicate (5 - length (leb128 (unat val))) 0 @
       [of_nat (length (leb128 (unat val)))])"
proof (cases "val = 0")
  case True
  then show ?thesis
    by (simp add: varint32_encode_def encode_loop_0 leb128_small numeral_eq_Suc)
next
  case False
  let ?l = "leb128 (unat val)"
  have len: "1 \<le> length ?l" "length ?l \<le> 5"
    using length_leb128 [OF unat_less_32] by (auto simp: Suc_le_eq)
  have "varint32_encode_loop val (replicate 6 0) 0 =
      (?l @ drop (length ?l) (replicate 6 0), length ?l - 1)"
    using encode_loop_leb128 [of val "unat val" 0 "replicate 6 0"] False len
    by (simp add: unat_gt_0)
  moreover obtain j where j: "5 - length ?l = j" "6 - length ?l = Suc j"
    using len by simp
  ultimately show ?thesis
    using len by (simp add: varint32_encode_def list_update_append replicate_update_last del: replicate_Suc)
qed


section \<open>Decoding a growing input\<close>

lemma decode_loop_append:
  assumes "\<And>n. decode_varint32_loop idx acc xs \<noteq> Incomplete n"
  shows "decode_varint32_loop idx acc (xs @ ys) = decode_varint32_loop idx acc xs"
  using assms by (induction idx acc xs rule: decode_varint32_loop.induct) (auto simp: Let_def)

lemma decode_loop_Incomplete:
  assumes "decode_varint32_loop idx acc xs = Incomplete n" and "idx \<le> 4"
  shows "n = 1 \<and> idx + length xs \<le> 4"
  using assms
proof (induction idx acc xs rule: decode_varint32_loop.induct)
  case (2 idx val c input)
  have "\<not> (4 \<le> idx \<and> c AND 0b11110000 \<noteq> 0)" and nz: "c AND NOT VARINT_MASK \<noteq> 0"
    using "2.prems" by (auto simp: Let_def split: if_splits)
  then have "idx < 4"
    using "2.prems"(2) by (auto simp: stop_bit_iff high_nibble_iff)
  with 2 nz show ?case
    by (auto simp: Let_def split: if_splits)
qed simp

lemma unat_Suc_offset: "idx \<le> 4 \<Longrightarrow> unat (1 + of_nat idx :: u8) = Suc idx"
  using unat_of_nat_u8 [of "Suc idx"] by simp

lemma decode_loop_Success:
  assumes "decode_varint32_loop idx acc xs = Success p" and "idx \<le> 4"
  shows "\<exists>k. unat (parsed_offset p) = idx + k \<and> 1 \<le> k \<and> k \<le> length xs \<and> idx + k \<le> 5 \<and>
     (\<forall>j < k. decode_varint32_loop idx acc (take j xs) = Incomplete 1)"
  using assms
proof (induction idx acc xs rule: decode_varint32_loop.induct)
  case (2 idx val c input)
  let ?val = "val OR push_bit (idx * 7) (ucast (c AND VARINT_MASK))"
  show ?case
  proof (cases "c AND NOT VARINT_MASK = 0")
    case True
    with 2 show ?thesis
      by (intro exI [of _ 1]) (auto simp: Let_def unat_Suc_offset split: if_splits)
  next
    case False
    with 2 have "idx < 4"
      by (auto simp: stop_bit_iff high_nibble_iff split: if_splits)
    have rec: "decode_varint32_loop (idx + 1) ?val input = Success p"
      using False 2 by (auto simp: Let_def split: if_splits)
    obtain k where k: "unat (parsed_offset p) = idx + 1 + k" "1 \<le> k" "k \<le> length input"
        "idx + 1 + k \<le> 5"
        "\<And>j. j < k \<Longrightarrow> decode_varint32_loop (idx + 1) ?val (take j input) = Incomplete 1"
      using "2.IH" [OF _ refl False rec] \<open>idx < 4\<close> by auto
    have "decode_varint32_loop idx val (take j (c # input)) = Incomplete 1" if "j < k + 1" for j
      using that k(5) False \<open>idx < 4\<close> by (cases j) (auto simp: Let_def)
    with k show ?thesis
      by (intro exI [of _ "k + 1"]) auto
  qed
qed simp


lemma decode_varint32_append:
  "decode_varint32 xs = Success p \<Longrightarrow> decode_varint32 (xs @ ys) = Success p"
  "decode_varint32 xs = Fatal e \<Longrightarrow> decode_varint32 (xs @ ys) = Fatal e"
  by (simp_all add: decode_varint32_def decode_loop_append)

lemma decode_varint32_Incomplete:
  "decode_varint32 xs = Incomplete n \<Longrightarrow> n = 1 \<and> length xs \<le> 4"
  using decode_loop_Incomplete [of 0 0 xs n] by (simp add: decode_varint32_def)

lemma decode_varint32_Success:
  assumes "decode_varint32 xs = Success p"
  shows "1 \<le> unat (parsed_offset p)" "unat (parsed_offset p) \<le> 5"
    "unat (parsed_offset p) \<le> length xs"
    "j < unat (parsed_offset p) \<Longrightarrow> decode_varint32 (take j xs) = Incomplete 1"
  using decode_loop_Success [of 0 0 xs p] assms by (auto simp: decode_varint32_def)

lemma varint32_as_ref_encode [wire_simps]: "varint32_as_ref (varint32_encode v) = leb128 (unat v)"
  and varint32_len_encode [wire_simps]: "varint32_len (varint32_encode v) = length (leb128 (unat v))"
proof -
  let ?l = "leb128 (unat v)"
  have len: "1 \<le> length ?l" "length ?l \<le> 5"
    using length_leb128 [OF unat_less_32] by (auto simp: Suc_le_eq)
  show "varint32_len (varint32_encode v) = length ?l"
    using len by (simp add: varint32_len_def encode_eq_leb128 nth_append unat_of_nat_u8)
  then show "varint32_as_ref (varint32_encode v) = ?l"
    using len by (simp add: varint32_as_ref_def encode_eq_leb128)
qed

lemma varint32_length_of_eq: "varint32_length_of v = length (leb128 (unat v))"
  by (simp add: varint32_length_of_def length_leb128 [OF unat_less_32] word_less_nat_alt)

lemma decode_varint32_leb128:
  "n < 2 ^ 32 \<Longrightarrow> decode_varint32 (leb128 n @ rest) =
     Success \<lparr>parsed_offset = of_nat (length (leb128 n)), parsed_value = of_nat n\<rparr>"
  using decode_loop_leb128 [of 0 0 n rest] by (simp add: decode_varint32_def)


lemma decode_varint32_leb128_u32 [wire_simps]:
  "decode_varint32 (leb128 (unat v) @ rest) =
     Success \<lparr>parsed_offset = of_nat (length (leb128 (unat v))), parsed_value = v\<rparr>"
  using decode_varint32_leb128 [OF unat_less_32, of v rest] by simp

section \<open>Properties\<close>

text \<open>
  C32: the encoder's loop over the six byte array produces exactly the reference encoding: seven
  bits per byte, least significant first. Its length is the value of \<^verbatim>\<open>length_of\<close>, at least one and at
  most \<^verbatim>\<open>MAX_LEN\<close>; the result is never the sentinel, and \<^verbatim>\<open>Varint32::decode\<close> inverts it. Decoding it with any
  input behind it returns the integer and this length, so that the payload starts where the sender put it.
\<close>

theorem varint_encode_reference:
  "varint32_as_ref (varint32_encode v) = leb128 (unat v) \<and>
   varint32_len (varint32_encode v) = varint32_length_of v \<and>
   1 \<le> varint32_length_of v \<and> varint32_length_of v \<le> varint32_MAX_LEN \<and>
   \<not> varint32_is_sentinel (varint32_encode v) \<and>
   varint32_decode (varint32_encode v) = v \<and>
   decode_varint32 (varint32_as_ref (varint32_encode v) @ rest) =
     Success \<lparr>parsed_offset = of_nat (varint32_length_of v), parsed_value = v\<rparr>"
proof -
  have len: "1 \<le> varint32_length_of v" "varint32_length_of v \<le> 5"
    by (simp_all add: varint32_length_of_def)
  have "varint32_raw (varint32_encode v) =
      leb128 (unat v) @ replicate (5 - length (leb128 (unat v))) 0 @ [of_nat (length (leb128 (unat v)))]"
    by (simp add: encode_eq_leb128)
  with len show ?thesis
    by (simp add: wire_simps varint32_is_sentinel_def varint32_decode_def varint32_length_of_eq
        varint32_MAX_LEN_def)
qed

text \<open>
  The decoder commits only to what it has read. A successful decode consumed between one and
  five bytes, all of them present; its result does not change when more input follows, and on every
  shorter prefix of the same input the decoder asks for one more byte. An incomplete input has at
  most four bytes, so a decoder that keeps receiving bytes decides after the fifth.
\<close>

theorem varint_incremental:
  "(decode_varint32 xs = Success p \<longrightarrow>
      1 \<le> unat (parsed_offset p) \<and> unat (parsed_offset p) \<le> min 5 (length xs) \<and>
      decode_varint32 (xs @ ys) = Success p \<and>
      (\<forall>j < unat (parsed_offset p). decode_varint32 (take j xs) = Incomplete 1)) \<and>
   (decode_varint32 xs = Fatal Overflow \<longrightarrow> decode_varint32 (xs @ ys) = Fatal Overflow) \<and>
   (decode_varint32 xs = Incomplete n \<longrightarrow> n = 1 \<and> length xs \<le> 4)"
  using decode_varint32_Success [of xs p] decode_varint32_append [of xs] decode_varint32_Incomplete
  by auto

theorem varint_incremental_witness:
  "decode_varint32 ([0x80, 0x01] @ [7]) = Success \<lparr>parsed_offset = 2, parsed_value = 128\<rparr> \<and>
   decode_varint32 [0x80] = Incomplete 1"
proof -
  have eq: "decode_varint32 [0x80, 0x01] = Success \<lparr>parsed_offset = 2, parsed_value = 128\<rparr>"
    by code_simp
  have "(1 :: nat) < unat (2 :: u8)"
    by simp
  with eq show ?thesis
    using varint_incremental [of "[0x80, 0x01]" "\<lparr>parsed_offset = 2, parsed_value = 128\<rparr>" "[7]"]
    by (auto dest: spec [of _ "1 :: nat"])
qed

end
