(* ===== verification/Buf.thy ===== *)
theory Buf
  imports Prelude
begin

text \<open>
  The \<^verbatim>\<open>bytes::Buf\<close> interface as a contract. An implementation offers \<open>remaining\<close>, \<open>chunk\<close> and
  \<open>advance\<close>; it stands for the bytes still to be read, \<open>content\<close>. The consumers (\<open>write_all_buf\<close>, a
  writer that accepts some bytes of each chunk, and \<open>copy_to_bytes\<close>, which reads everything) are
  proved once, from the laws.
\<close>

section \<open>Consumers\<close>

text \<open>
  A writer that accepts at most the given number of bytes of the chunk offered in each call, until the
  buffer is empty or the schedule of calls ends.
\<close>

fun write_all_buf ::
  "('s \<Rightarrow> nat option) \<Rightarrow> ('s \<Rightarrow> bytes option) \<Rightarrow> (nat \<Rightarrow> 's \<Rightarrow> 's option)
   \<Rightarrow> nat list \<Rightarrow> 's \<Rightarrow> (bytes \<times> 's) option" where
  "write_all_buf remaining chunk advance [] s = Some ([], s)"
| "write_all_buf remaining chunk advance (n # ns) s =
     do { r \<leftarrow> remaining s;
          if r = 0 then Some ([], s)
          else do { c \<leftarrow> chunk s;
                    let k = min n (length c);
                    s' \<leftarrow> advance k s;
                    (written, t) \<leftarrow> write_all_buf remaining chunk advance ns s';
                    Some (take k c @ written, t) } }"

text \<open>\<^verbatim>\<open>self.copy_to_bytes(self.remaining())\<close>: chunk after chunk until nothing remains.\<close>

partial_function (option) copy_to_bytes ::
  "('s \<Rightarrow> nat option) \<Rightarrow> ('s \<Rightarrow> bytes option) \<Rightarrow> (nat \<Rightarrow> 's \<Rightarrow> 's option)
   \<Rightarrow> 's \<Rightarrow> bytes option" where
  "copy_to_bytes remaining chunk advance s =
     do { r \<leftarrow> remaining s;
          if r = 0 then Some []
          else do { c \<leftarrow> chunk s;
                    s' \<leftarrow> advance (length c) s;
                    rest \<leftarrow> copy_to_bytes remaining chunk advance s';
                    Some (c @ rest) } }"

section \<open>Contract\<close>

locale byte_source =
  fixes remaining :: "'s \<Rightarrow> nat option"
    and chunk :: "'s \<Rightarrow> bytes option"
    and advance :: "nat \<Rightarrow> 's \<Rightarrow> 's option"
    and content :: "'s \<Rightarrow> bytes"
    and inv :: "'s \<Rightarrow> bool"
  assumes remaining_content: "inv s \<Longrightarrow> remaining s = Some (length (content s))"
    and chunk_content: "inv s \<Longrightarrow> content s \<noteq> [] \<Longrightarrow>
      \<exists>c rest. chunk s = Some c \<and> c \<noteq> [] \<and> content s = c @ rest"
    and advance_content: "inv s \<Longrightarrow> n \<le> length (content s) \<Longrightarrow>
      \<exists>s'. advance n s = Some s' \<and> inv s' \<and> content s' = drop n (content s)"
begin

lemma read_step:
  assumes "inv s" and "content s \<noteq> []"
  obtains c s' where "chunk s = Some c" and "c \<noteq> []"
    and "advance (min n (length c)) s = Some s'" and "inv s'"
    and "content s = take n c @ content s'"
proof -
  obtain c rest where c: "chunk s = Some c" "c \<noteq> []" "content s = c @ rest"
    using chunk_content [OF assms] by blast
  have "min n (length c) \<le> length (content s)"
    using c(3) by (simp add: min.coboundedI2)
  then obtain s' where s': "advance (min n (length c)) s = Some s'" "inv s'"
      "content s' = drop (min n (length c)) (content s)"
    using advance_content [OF assms(1)] by blast
  have "take (min n (length c)) c = take n c"
    by (simp add: min_def)
  then have "content s = take n c @ content s'"
    using c(3) s'(3) by (metis append_take_drop_id min.cobounded2 take_append_le)
  with c s' show ?thesis
    using that by blast
qed

lemma write_all_buf_prefix:
  assumes "inv s"
  shows "\<exists>written t. write_all_buf remaining chunk advance ns s = Some (written, t) \<and> inv t
           \<and> content s = written @ content t"
  using assms
proof (induction ns arbitrary: s)
  case (Cons n ns)
  show ?case
  proof (cases "content s = []")
    case True
    then show ?thesis
      using Cons.prems by (simp add: remaining_content)
  next
    case False
    obtain c s' where step: "chunk s = Some c" "advance (min n (length c)) s = Some s'" "inv s'"
        "content s = take n c @ content s'"
      using read_step [OF Cons.prems False] by metis
    have "take (min n (length c)) c = take n c"
      by (simp add: min_def)
    with step False Cons.IH [OF step(3)] show ?thesis
      using Cons.prems by (auto simp: remaining_content)
  qed
qed simp

lemma write_all_buf_complete:
  assumes "inv s" and "\<forall>n \<in> set ns. 0 < n" and "length (content s) \<le> length ns"
  shows "\<exists>t. write_all_buf remaining chunk advance ns s = Some (content s, t) \<and> content t = []"
  using assms
proof (induction ns arbitrary: s)
  case (Cons n ns)
  show ?case
  proof (cases "content s = []")
    case True
    then show ?thesis
      using Cons.prems by (simp add: remaining_content)
  next
    case False
    obtain c s' where step: "chunk s = Some c" "c \<noteq> []" "advance (min n (length c)) s = Some s'"
        "inv s'" "content s = take n c @ content s'"
      using read_step [OF Cons.prems(1) False] by metis
    have taken: "take (min n (length c)) c = take n c"
      by (simp add: min_def)
    have "0 < length (take n c)"
      using step(2) Cons.prems(2) by simp
    then have "length (content s') \<le> length ns"
      using arg_cong [OF step(5), of length] Cons.prems(3) by (simp only: length_append list.size)
    then show ?thesis
      using Cons.IH [OF step(4)] Cons.prems False step taken by (auto simp: remaining_content)
  qed
qed simp

lemma copy_to_bytes_content:
  assumes "inv s"
  shows "copy_to_bytes remaining chunk advance s = Some (content s)"
  using assms
proof (induction "length (content s)" arbitrary: s rule: less_induct)
  case less
  show ?case
  proof (cases "content s = []")
    case True
    then show ?thesis
      using less.prems by (simp add: copy_to_bytes.simps remaining_content)
  next
    case False
    obtain c rest where c: "chunk s = Some c" "c \<noteq> []" "content s = c @ rest"
      using chunk_content [OF less.prems False] by blast
    then obtain s' where s': "advance (length c) s = Some s'" "inv s'" "content s' = rest"
      using advance_content [OF less.prems, of "length c"] by auto
    have "copy_to_bytes remaining chunk advance s' = Some rest"
      using less.hyps [of s'] c s' by simp
    then show ?thesis
      using c s' False less.prems by (simp add: copy_to_bytes.simps [of _ _ _ s] remaining_content)
  qed
qed

end

end
