(* ===== verification/Outgoing_Message.thy ===== *)
theory Outgoing_Message
  imports Header Varint Buf
begin

text \<open>
  \<^verbatim>\<open>src/src/protocol/outgoing_message.rs\<close> with \<^verbatim>\<open>MaxFrameSize\<close> and \<^verbatim>\<open>payload_is_multi_frame\<close> of
  \<^verbatim>\<open>src/src/protocol.rs\<close>: messages to be sent, their division into frames (\<^verbatim>\<open>FrameIter\<close>) and the
  byte-wise view of all frames (\<^verbatim>\<open>ByteIter\<close>).

  The reference for both is \<open>wire_frames\<close>: the length prefix and the payload, cut into pieces of at
  most the frame size less the header size, each piece behind a copy of the header.
\<close>

section \<open>Maximum frame size\<close>

datatype max_frame_size = MaxFrameSize (mfs_get: u32)

definition mfs_MIN :: u32 where
  "mfs_MIN = of_nat header_SIZE + of_nat varint32_MAX_LEN + 1"

definition mfs_DEFAULT :: max_frame_size where
  "mfs_DEFAULT = MaxFrameSize 4096"

definition mfs_new :: "u32 \<Rightarrow> max_frame_size option" where
  "mfs_new n = do { rust_assert (mfs_MIN \<le> n); Some (MaxFrameSize n) }"

definition mfs_get_usize :: "max_frame_size \<Rightarrow> nat" where
  "mfs_get_usize m = unat (mfs_get m)"

definition mfs_without_header :: "max_frame_size \<Rightarrow> nat option" where
  "mfs_without_header m = checked_sub (mfs_get_usize m) header_SIZE"

definition mfs_without_preamble :: "max_frame_size \<Rightarrow> u32 \<Rightarrow> nat option" where
  "mfs_without_preamble m payload_len =
     do { n \<leftarrow> mfs_without_header m; checked_sub n (varint32_length_of payload_len) }"

definition payload_is_multi_frame :: "max_frame_size \<Rightarrow> nat \<Rightarrow> bool option" where
  "payload_is_multi_frame m payload_len =
     do { rust_assert (payload_len \<le> u32_max);
          n \<leftarrow> mfs_without_preamble m (of_nat payload_len);
          Some (n < payload_len) }"

section \<open>Messages\<close>

record outgoing_message =
  om_header :: header
  om_payload :: "bytes option"

definition outgoing_message_new :: "header \<Rightarrow> bytes option \<Rightarrow> outgoing_message" where
  "outgoing_message_new h payload = \<lparr>om_header = h, om_payload = payload\<rparr>"

definition om_is_multi_frame :: "max_frame_size \<Rightarrow> outgoing_message \<Rightarrow> bool option" where
  "om_is_multi_frame m msg =
     (case om_payload msg of
        Some payload \<Rightarrow> payload_is_multi_frame m (length payload)
      | None \<Rightarrow> Some False)"

record frame_iter =
  fi_msg :: outgoing_message
  fi_bytes_processed :: nat

definition om_frames :: "outgoing_message \<Rightarrow> frame_iter" where
  "om_frames msg = \<lparr>fi_msg = msg, fi_bytes_processed = 0\<rparr>"

definition om_non_header_len :: "outgoing_message \<Rightarrow> nat" where
  "om_non_header_len msg =
     (case om_payload msg of
        Some pl \<Rightarrow> varint32_length_of (of_nat (length pl)) + length pl
      | None \<Rightarrow> 0)"

definition om_num_frames :: "max_frame_size \<Rightarrow> outgoing_message \<Rightarrow> nat option" where
  "om_num_frames m msg =
     do { usable_size \<leftarrow> mfs_without_header m;
          n \<leftarrow> checked_sub (om_non_header_len msg + usable_size) 1;
          rust_assert (usable_size \<noteq> 0);
          let num_frames = n div usable_size;
          Some (if num_frames = 0 then 1 else num_frames) }"

definition om_total_len :: "max_frame_size \<Rightarrow> outgoing_message \<Rightarrow> nat option" where
  "om_total_len m msg =
     do { n \<leftarrow> om_num_frames m msg; Some (n * header_SIZE + om_non_header_len msg) }"

definition om_truncate_to_single_frame ::
  "max_frame_size \<Rightarrow> outgoing_message \<Rightarrow> outgoing_message option" where
  "om_truncate_to_single_frame m msg =
     do { multi \<leftarrow> om_is_multi_frame m msg;
          if multi then
            (case om_payload msg of
               Some payload \<Rightarrow>
                 do { n \<leftarrow> mfs_without_preamble m (of_nat (length payload));
                      Some (msg\<lparr>om_payload := Some (take n payload)\<rparr>) }
             | None \<Rightarrow> Some msg)
          else Some msg }"

section \<open>Frames\<close>

record preamble =
  pre_header :: header
  pre_payload_length :: varint32

definition preamble_new :: "header \<Rightarrow> varint32 \<Rightarrow> preamble" where
  "preamble_new h len = \<lparr>pre_header = h, pre_payload_length = len\<rparr>"

definition preamble_len :: "preamble \<Rightarrow> nat" where
  "preamble_len p = header_SIZE + varint32_len (pre_payload_length p)"

text \<open>\<^verbatim>\<open>bytemuck::bytes_of\<close> gives the memory of the \<^verbatim>\<open>repr(C)\<close> struct: header, then the six bytes.\<close>

definition preamble_as_ref :: "preamble \<Rightarrow> bytes" where
  "preamble_as_ref p =
     take (preamble_len p) (header_as_ref (pre_header p) @ varint32_raw (pre_payload_length p))"

text \<open>
  \<^verbatim>\<open>OutgoingFrame\<close> is a \<^verbatim>\<open>Chain\<close> of a cursor over the preamble and the payload segment. The cursor
  keeps its position, the segment shrinks from the front as it is consumed.
\<close>

record outgoing_frame =
  of_preamble :: preamble
  of_position :: nat
  of_segment :: bytes

definition frame_new_with_payload :: "preamble \<Rightarrow> bytes \<Rightarrow> outgoing_frame option" where
  "frame_new_with_payload p payload =
     do { rust_assert (length payload \<le> u32_max);
          Some \<lparr>of_preamble = p, of_position = 0, of_segment = payload\<rparr> }"

definition frame_new :: "preamble \<Rightarrow> outgoing_frame option" where
  "frame_new p =
     do { rust_assert (varint32_is_sentinel (pre_payload_length p));
          frame_new_with_payload p [] }"

definition frame_header :: "outgoing_frame \<Rightarrow> header" where
  "frame_header f = pre_header (of_preamble f)"

definition frame_remaining :: "outgoing_frame \<Rightarrow> nat" where
  "frame_remaining f = (preamble_len (of_preamble f) - of_position f) + length (of_segment f)"

definition frame_chunk :: "outgoing_frame \<Rightarrow> bytes option" where
  "frame_chunk f =
     Some (let rest = drop (of_position f) (preamble_as_ref (of_preamble f))
           in if rest \<noteq> [] then rest else of_segment f)"

definition frame_advance :: "nat \<Rightarrow> outgoing_frame \<Rightarrow> outgoing_frame option" where
  "frame_advance cnt f =
     (let a_rem = preamble_len (of_preamble f) - of_position f
      in if cnt \<le> a_rem then Some (f\<lparr>of_position := of_position f + cnt\<rparr>)
         else do { seg \<leftarrow> buf_advance (cnt - a_rem) (of_segment f);
                   Some (f\<lparr>of_position := of_position f + a_rem, of_segment := seg\<rparr>) })"

definition frame_segment :: "outgoing_frame \<Rightarrow> bytes" where
  "frame_segment f = of_segment f"

definition frame_to_bytes :: "outgoing_frame \<Rightarrow> bytes option" where
  "frame_to_bytes f = copy_to_bytes (\<lambda>f. Some (frame_remaining f)) frame_chunk frame_advance f"

definition frame_iter_next_owned ::
  "max_frame_size \<Rightarrow> frame_iter \<Rightarrow> (outgoing_frame \<times> frame_iter option) option" where
  "frame_iter_next_owned m self =
     (case om_payload (fi_msg self) of
        Some payload \<Rightarrow>
          do { payload_remaining \<leftarrow> checked_sub (length payload) (fi_bytes_processed self);
               let length_prefix =
                 (if fi_bytes_processed self = 0
                  then varint32_encode (of_nat payload_remaining)
                  else varint32_SENTINEL);
               let preamble = preamble_new (om_header (fi_msg self)) length_prefix;
               frame_capacity \<leftarrow> checked_sub (mfs_get_usize m) (preamble_len preamble);
               let frame_payload_len = min frame_capacity payload_remaining;
               frame_payload \<leftarrow> buf_slice (fi_bytes_processed self)
                 (fi_bytes_processed self + frame_payload_len) payload;
               let self = self\<lparr>fi_bytes_processed := fi_bytes_processed self + frame_payload_len\<rparr>;
               payload_remaining \<leftarrow> checked_sub (length payload) (fi_bytes_processed self);
               frame \<leftarrow> frame_new_with_payload preamble frame_payload;
               Some (frame, if 0 < payload_remaining then Some self else None) }
      | None \<Rightarrow>
          do { frame \<leftarrow> frame_new (preamble_new (om_header (fi_msg self)) varint32_SENTINEL);
               Some (frame, None) })"

text \<open>All frames of a message, as the iterator of \<^verbatim>\<open>frame_iter\<close> yields them.\<close>

partial_function (option) frame_iter_collect ::
  "max_frame_size \<Rightarrow> frame_iter \<Rightarrow> outgoing_frame list option" where
  "frame_iter_collect m self =
     do { (frame, more) \<leftarrow> frame_iter_next_owned m self;
          case more of
            None \<Rightarrow> Some [frame]
          | Some it \<Rightarrow> do { frames \<leftarrow> frame_iter_collect m it; Some (frame # frames) } }"

definition om_frame_iter :: "max_frame_size \<Rightarrow> outgoing_message \<Rightarrow> outgoing_frame list option" where
  "om_frame_iter m msg = frame_iter_collect m (om_frames msg)"

section \<open>Byte iterator\<close>

record byte_iter =
  bi_msg :: outgoing_message
  bi_length_prefix :: varint32
  bi_consumed :: nat
  bi_max_frame_size :: max_frame_size

definition om_iter_bytes :: "max_frame_size \<Rightarrow> outgoing_message \<Rightarrow> byte_iter" where
  "om_iter_bytes m msg =
     \<lparr>bi_msg = msg,
      bi_length_prefix =
        (case om_payload msg of
           Some pl \<Rightarrow> varint32_encode (of_nat (length pl))
         | None \<Rightarrow> varint32_SENTINEL),
      bi_consumed = 0, bi_max_frame_size = m\<rparr>"

definition byte_iter_total :: "byte_iter \<Rightarrow> nat option" where
  "byte_iter_total it = om_total_len (bi_max_frame_size it) (bi_msg it)"

definition byte_iter_remaining :: "byte_iter \<Rightarrow> nat option" where
  "byte_iter_remaining it =
     do { total \<leftarrow> byte_iter_total it; checked_sub total (bi_consumed it) }"

definition byte_iter_chunk :: "byte_iter \<Rightarrow> bytes option" where
  "byte_iter_chunk it =
     do { remaining \<leftarrow> byte_iter_remaining it;
          let mfs = mfs_get_usize (bi_max_frame_size it);
          rust_assert (remaining = 0 \<or> mfs \<noteq> 0);
          let frames_completed = bi_consumed it div mfs;
          let frame_progress = bi_consumed it mod mfs;
          let in_first_frame = (frames_completed = 0);
          let prefix_len = varint32_len (bi_length_prefix it);
          if remaining = 0 then Some []
          else if frame_progress < header_SIZE then
            buf_slice frame_progress header_SIZE (header_as_ref (om_header (bi_msg it)))
          else do {
            rust_assert (\<not> varint32_is_sentinel (bi_length_prefix it));
            if in_first_frame \<and> frame_progress < header_SIZE + prefix_len then
              do { varint_progress \<leftarrow> checked_sub frame_progress header_SIZE;
                   buf_slice varint_progress prefix_len (varint32_as_ref (bi_length_prefix it)) }
            else do {
              space_in_frame \<leftarrow> mfs_without_header (bi_max_frame_size it);
              let first_preamble = header_SIZE + prefix_len;
              (start, progress, stop) \<leftarrow>
                (if in_first_frame then
                   do { p \<leftarrow> checked_sub frame_progress first_preamble;
                        e \<leftarrow> checked_sub mfs first_preamble;
                        Some (0, p, e) }
                 else
                   do { start \<leftarrow> checked_sub (frames_completed * space_in_frame) prefix_len;
                        p \<leftarrow> checked_sub frame_progress header_SIZE;
                        Some (start, p, start + space_in_frame) });
              current \<leftarrow>
                (case om_payload (bi_msg it) of
                   Some pl \<Rightarrow> buf_slice start (min stop (length pl)) pl
                 | None \<Rightarrow> Some []);
              buf_slice progress (length current) current } } }"

definition byte_iter_advance :: "nat \<Rightarrow> byte_iter \<Rightarrow> byte_iter option" where
  "byte_iter_advance cnt it =
     do { total \<leftarrow> byte_iter_total it;
          Some (it\<lparr>bi_consumed := min (bi_consumed it + cnt) total\<rparr>) }"

definition om_to_bytes :: "max_frame_size \<Rightarrow> outgoing_message \<Rightarrow> bytes option" where
  "om_to_bytes m msg =
     copy_to_bytes byte_iter_remaining byte_iter_chunk byte_iter_advance (om_iter_bytes m msg)"

section \<open>Reference: the wire format of a message\<close>

fun split_chunks :: "nat \<Rightarrow> 'a list \<Rightarrow> 'a list list" where
  "split_chunks k xs =
     (if k = 0 \<or> length xs \<le> k then [xs] else take k xs # split_chunks k (drop k xs))"

declare split_chunks.simps [simp del]

definition message_stream :: "bytes option \<Rightarrow> bytes" where
  "message_stream payload =
     (case payload of None \<Rightarrow> [] | Some pl \<Rightarrow> leb128 (length pl) @ pl)"

definition wire_frames :: "max_frame_size \<Rightarrow> outgoing_message \<Rightarrow> bytes list" where
  "wire_frames m msg =
     map ((@) (header_as_ref (om_header msg)))
       (split_chunks (mfs_get_usize m - header_SIZE) (message_stream (om_payload msg)))"

definition mfs_valid :: "max_frame_size \<Rightarrow> bool" where
  "mfs_valid m = (10 \<le> unat (mfs_get m))"

definition payload_fits :: "outgoing_message \<Rightarrow> bool" where
  "payload_fits msg = (case om_payload msg of None \<Rightarrow> True | Some pl \<Rightarrow> length pl \<le> u32_max)"

section \<open>Chunks of a list\<close>

lemma split_chunks_short: "length xs \<le> k \<Longrightarrow> split_chunks k xs = [xs]"
  by (simp add: split_chunks.simps)

lemma split_chunks_long:
  "0 < k \<Longrightarrow> k < length xs \<Longrightarrow> split_chunks k xs = take k xs # split_chunks k (drop k xs)"
  by (subst split_chunks.simps) simp

lemma split_chunks_not_Nil [simp]: "split_chunks k xs \<noteq> []"
  by (simp add: split_chunks.simps)

lemma concat_split_chunks: "concat (split_chunks k xs) = xs"
proof (induction k xs rule: split_chunks.induct)
  case (1 k xs)
  then show ?case
    by (subst split_chunks.simps) simp
qed

lemma split_chunks_bound: "0 < k \<Longrightarrow> c \<in> set (split_chunks k xs) \<Longrightarrow> length c \<le> k"
proof (induction k xs rule: split_chunks.induct)
  case (1 k xs)
  then show ?case
    by (subst (asm) (2) split_chunks.simps) (auto split: if_splits)
qed

lemma length_split_chunks:
  "0 < k \<Longrightarrow> length (split_chunks k xs) = (if xs = [] then 1 else (length xs + k - 1) div k)"
proof (induction k xs rule: split_chunks.induct)
  case (1 k xs)
  show ?case
  proof (cases "k < length xs")
    case True
    have "(length xs + k - 1) div k = Suc ((length xs - k + k - 1) div k)"
    proof -
      have "length xs + k - 1 = (length xs - k + k - 1) + k"
        using True 1(2) by simp
      then show ?thesis
        using 1(2) by (metis div_add_self2 less_numeral_extra(3) Suc_eq_plus1)
    qed
    then show ?thesis
      using True 1 by (simp add: split_chunks_long)
  next
    case False
    have "(length xs + k - 1) div k = 1" if "xs \<noteq> []"
    proof (rule div_nat_eqI)
      have "0 < length xs"
        using that by simp
      then show "k * 1 \<le> length xs + k - 1" and "length xs + k - 1 < k * Suc 1"
        using False 1(2) by (simp_all only: mult_Suc_right mult_0_right One_nat_def)
    qed
    then show ?thesis
      using False by (simp add: split_chunks_short)
  qed
qed

lemma length_concat_framed:
  "length (concat (map ((@) h) xss)) = length xss * length h + length (concat xss)"
  by (induction xss) auto

text \<open>The bytes of framed chunks from an arbitrary position on, without going through the frames.\<close>

text \<open>A position behind the first frame is a position in the rest, one frame later.\<close>

lemma next_frame_position:
  fixes h xs :: "'a list"
  assumes "0 < k" and "k < length xs" and "p = length h + k + p'"
  shows "drop p (concat (map ((@) h) (split_chunks k xs))) = drop p' (concat (map ((@) h) (split_chunks k (drop k xs))))"
    and "p < length (concat (map ((@) h) (split_chunks k xs))) \<longleftrightarrow> p' < length (concat (map ((@) h) (split_chunks k (drop k xs))))"
    and "p mod (length h + k) = p' mod (length h + k)" and "p div (length h + k) = Suc (p' div (length h + k))"
proof -
  have chunks: "concat (map ((@) h) (split_chunks k xs)) = (h @ take k xs) @ concat (map ((@) h) (split_chunks k (drop k xs)))"
    using assms(1,2) by (simp add: split_chunks_long)
  have first: "length (h @ take k xs) = length h + k"
    using assms(2) by simp
  show "drop p (concat (map ((@) h) (split_chunks k xs))) = drop p' (concat (map ((@) h) (split_chunks k (drop k xs))))"
    using first unfolding chunks assms(3) by (simp only: drop_append) simp
  show "p < length (concat (map ((@) h) (split_chunks k xs))) \<longleftrightarrow> p' < length (concat (map ((@) h) (split_chunks k (drop k xs))))"
    using first unfolding chunks assms(3) by (simp only: length_append) simp
  show "p mod (length h + k) = p' mod (length h + k)"
    by (simp add: assms(3))
  show "p div (length h + k) = Suc (p' div (length h + k))"
    using assms(1) div_add_self1 [of "length h + k" p'] by (simp add: assms(3))
qed

lemma drop_framed_chunks:
  assumes "0 < k" and "h \<noteq> []" and "p < length (concat (map ((@) h) (split_chunks k xs)))"
  defines "j \<equiv> p div (length h + k)" and "q \<equiv> p mod (length h + k)"
  shows "\<exists>rest. drop p (concat (map ((@) h) (split_chunks k xs)))
                = drop q (h @ take k (drop (j * k) xs)) @ rest"
    and "q < length (h @ take k (drop (j * k) xs))"
proof -
  have "(\<exists>rest. drop p (concat (map ((@) h) (split_chunks k xs)))
            = drop (p mod (length h + k)) (h @ take k (drop (p div (length h + k) * k) xs)) @ rest)
        \<and> p mod (length h + k) < length (h @ take k (drop (p div (length h + k) * k) xs))"
    using assms(1-3)
  proof (induction k xs arbitrary: p rule: split_chunks.induct)
    case (1 k xs)
    let ?m = "length h + k"
    consider "\<not> k < length xs" | "k < length xs" "p < ?m" | p' where "k < length xs" "p = ?m + p'"
      by (metis le_Suc_ex not_less)
    then show ?case
    proof cases
      case 1
      then have "p < ?m"
        using "1.prems" by (simp add: split_chunks_short)
      then show ?thesis
        using 1 "1.prems" by (simp add: split_chunks_short)
    next
      case 2
      then show ?thesis
        using "1.prems"(1) by (simp add: split_chunks_long)
    next
      case (3 p')
      note later = next_frame_position [OF "1.prems"(1) 3]
      then show ?thesis
        using "1.IH" [of p'] "1.prems" 3(1) by (simp add: add.commute)
    qed
  qed
  then show "\<exists>rest. drop p (concat (map ((@) h) (split_chunks k xs)))
                = drop q (h @ take k (drop (j * k) xs)) @ rest"
    and "q < length (h @ take k (drop (j * k) xs))"
    by (simp_all add: j_def q_def)
qed

section \<open>Frames as buffers\<close>

lemma mfs_valid_get: "mfs_valid m \<Longrightarrow> 10 \<le> mfs_get_usize m"
  by (simp add: mfs_valid_def mfs_get_usize_def)

lemma mfs_without_header_valid [simp]:
  "mfs_valid m \<Longrightarrow> mfs_without_header m = Some (mfs_get_usize m - 4)"
  by (auto simp: mfs_without_header_def header_SIZE_def dest: mfs_valid_get)

lemma length_leb128_bounds:
  "1 \<le> length (leb128 n)" "n \<le> u32_max \<Longrightarrow> length (leb128 n) \<le> 5"
  by (simp_all add: length_leb128 Suc_le_eq)

lemma mfs_without_preamble_valid [simp]:
  assumes "mfs_valid m" and "n \<le> u32_max"
  shows "mfs_without_preamble m (of_nat n) = Some (mfs_get_usize m - 4 - length (leb128 n))"
  using mfs_valid_get [OF assms(1)] length_leb128_bounds(2) [OF assms(2)] assms
  by (simp add: mfs_without_preamble_def varint32_length_of_eq unat_of_nat_u32)

lemma mfs_new_valid: "mfs_new n = Some m \<Longrightarrow> mfs_valid m"
  by (auto simp: mfs_new_def mfs_MIN_def header_SIZE_def varint32_MAX_LEN_def mfs_valid_def
      word_le_nat_alt bind_eq_Some_conv)

definition frame_content :: "outgoing_frame \<Rightarrow> bytes" where
  "frame_content f = drop (of_position f) (preamble_as_ref (of_preamble f)) @ of_segment f"

definition frame_inv :: "outgoing_frame \<Rightarrow> bool" where
  "frame_inv f = (of_position f \<le> preamble_len (of_preamble f)
     \<and> length (preamble_as_ref (of_preamble f)) = preamble_len (of_preamble f))"

interpretation frame_buf: byte_source "\<lambda>f. Some (frame_remaining f)" frame_chunk frame_advance
  frame_content frame_inv
proof
  fix f n
  assume "frame_inv f"
  then show "Some (frame_remaining f) = Some (length (frame_content f))"
    by (simp add: frame_inv_def frame_remaining_def frame_content_def)
  show "\<exists>c rest. frame_chunk f = Some c \<and> c \<noteq> [] \<and> frame_content f = c @ rest"
    if "frame_content f \<noteq> []"
    using that by (auto simp: frame_chunk_def frame_content_def Let_def)
  show "\<exists>f'. frame_advance n f = Some f' \<and> frame_inv f' \<and> frame_content f' = drop n (frame_content f)"
    if "n \<le> length (frame_content f)"
    using that \<open>frame_inv f\<close>
    by (auto simp: frame_advance_def frame_inv_def frame_content_def Let_def add.commute)
qed

lemma varint32_len_SENTINEL [simp]: "varint32_len varint32_SENTINEL = 0"
  by (simp add: varint32_len_def varint32_SENTINEL_def)

lemma preamble_as_ref_sentinel [wire_simps]:
  "preamble_as_ref (preamble_new h varint32_SENTINEL) = header_as_ref h"
  "preamble_len (preamble_new h varint32_SENTINEL) = 4"
  by (simp_all add: preamble_as_ref_def preamble_len_def preamble_new_def header_SIZE_def)

lemma preamble_as_ref_encode [wire_simps]:
  "preamble_as_ref (preamble_new h (varint32_encode v)) = header_as_ref h @ leb128 (unat v)"
  "preamble_len (preamble_new h (varint32_encode v)) = 4 + length (leb128 (unat v))"
  using varint32_as_ref_encode [of v]
  by (simp_all add: preamble_as_ref_def preamble_len_def preamble_new_def header_SIZE_def
      varint32_as_ref_def varint32_len_encode)

section \<open>Frames of a message\<close>

lemma next_owned_later:
  assumes "mfs_valid m" and "om_payload msg = Some pl" and "length pl \<le> u32_max"
    and "0 < p" and "p < length pl"
  defines "k \<equiv> mfs_get_usize m - 4"
  shows "frame_iter_next_owned m \<lparr>fi_msg = msg, fi_bytes_processed = p\<rparr> =
    Some (\<lparr>of_preamble = preamble_new (om_header msg) varint32_SENTINEL, of_position = 0,
            of_segment = take k (drop p pl)\<rparr>,
          if length (drop p pl) \<le> k then None
          else Some \<lparr>fi_msg = msg, fi_bytes_processed = p + k\<rparr>)"
  using assms(2-5) mfs_valid_get [OF assms(1)] unfolding k_def
  by (auto simp: frame_iter_next_owned_def frame_new_with_payload_def Let_def wire_simps min_def)

lemma next_owned_first:
  assumes "mfs_valid m" and "om_payload msg = Some pl" and "length pl \<le> u32_max"
  defines "k \<equiv> mfs_get_usize m - 4 - length (leb128 (length pl))"
  shows "frame_iter_next_owned m (om_frames msg) =
    Some (\<lparr>of_preamble = preamble_new (om_header msg) (varint32_encode (of_nat (length pl))),
            of_position = 0, of_segment = take k pl\<rparr>,
          if length pl \<le> k then None
          else Some \<lparr>fi_msg = msg, fi_bytes_processed = k\<rparr>)"
  using assms(2-3) mfs_valid_get [OF assms(1)] length_leb128_bounds(2) [OF assms(3)] unfolding k_def
  by (auto simp: frame_iter_next_owned_def frame_new_with_payload_def om_frames_def Let_def wire_simps
      min_def unat_of_nat_u32)

definition frames_render :: "outgoing_frame list \<Rightarrow> header \<Rightarrow> bytes list \<Rightarrow> bool" where
  "frames_render fs h wires \<longleftrightarrow>
     list_all (\<lambda>f. frame_inv f \<and> frame_header f = h) fs \<and> map frame_content fs = wires"

lemma frames_render_Cons:
  "frames_render (f # fs) h (w # ws) \<longleftrightarrow>
     frame_inv f \<and> frame_header f = h \<and> frame_content f = w \<and> frames_render fs h ws"
  by (auto simp: frames_render_def)

lemma frames_render_Nil [simp]: "frames_render [] h []"
  by (simp add: frames_render_def)

lemma frame_of_sentinel:
  "frames_render (\<lparr>of_preamble = preamble_new h varint32_SENTINEL, of_position = 0,
     of_segment = seg\<rparr> # fs) h ((header_as_ref h @ seg) # ws) \<longleftrightarrow> frames_render fs h ws"
  by (simp add: frames_render_Cons frame_inv_def frame_content_def frame_header_def preamble_new_def
      wire_simps [unfolded preamble_new_def])

lemma frame_of_encode:
  "frames_render (\<lparr>of_preamble = preamble_new h (varint32_encode v), of_position = 0,
     of_segment = seg\<rparr> # fs) h ((header_as_ref h @ leb128 (unat v) @ seg) # ws)
   \<longleftrightarrow> frames_render fs h ws"
  by (simp add: frames_render_Cons frame_inv_def frame_content_def frame_header_def preamble_new_def
      wire_simps [unfolded preamble_new_def])

lemma collect_later:
  assumes "mfs_valid m" and "om_payload msg = Some pl" and "length pl \<le> u32_max"
    and "0 < p" and "p < length pl"
  shows "\<exists>fs. frame_iter_collect m \<lparr>fi_msg = msg, fi_bytes_processed = p\<rparr> = Some fs
    \<and> frames_render fs (om_header msg)
        (map ((@) (header_as_ref (om_header msg))) (split_chunks (mfs_get_usize m - 4) (drop p pl)))"
  using assms(4,5)
proof (induction "length pl - p" arbitrary: p rule: less_induct)
  case less
  let ?k = "mfs_get_usize m - 4"
  note next_frame = next_owned_later [OF assms(1-3) less.prems]
  show ?case
  proof (cases "length (drop p pl) \<le> ?k")
    case True
    then show ?thesis
      using next_frame
      by (subst frame_iter_collect.simps) (simp add: split_chunks_short frame_of_sentinel)
  next
    case False
    have k: "0 < ?k"
      using mfs_valid_get [OF assms(1)] by simp
    then obtain fs where "frame_iter_collect m \<lparr>fi_msg = msg, fi_bytes_processed = p + ?k\<rparr> = Some fs"
      and "frames_render fs (om_header msg)
        (map ((@) (header_as_ref (om_header msg))) (split_chunks ?k (drop (p + ?k) pl)))"
      using less.hyps [of "p + ?k"] False less.prems by fastforce
    then show ?thesis
      using next_frame False k
      by (subst frame_iter_collect.simps)
         (simp add: split_chunks_long frame_of_sentinel add.commute)
  qed
qed

lemma om_frame_iter_wire:
  assumes "mfs_valid m" and "payload_fits msg"
  shows "\<exists>fs. om_frame_iter m msg = Some fs \<and> frames_render fs (om_header msg) (wire_frames m msg)"
proof (cases "om_payload msg")
  case None
  have "frame_iter_next_owned m (om_frames msg) =
    Some (\<lparr>of_preamble = preamble_new (om_header msg) varint32_SENTINEL, of_position = 0,
            of_segment = []\<rparr>, None)"
    using None by (simp add: frame_iter_next_owned_def om_frames_def frame_new_def
        frame_new_with_payload_def preamble_new_def varint32_is_sentinel_def varint32_len_def
        varint32_SENTINEL_def)
  moreover have "wire_frames m msg = [header_as_ref (om_header msg) @ []]"
    using None by (simp add: wire_frames_def message_stream_def split_chunks_short)
  ultimately show ?thesis
    by (simp add: om_frame_iter_def frame_iter_collect.simps frame_of_sentinel del: append_Nil2)
next
  case (Some pl)
  then have fits: "length pl \<le> u32_max"
    using assms(2) by (simp add: payload_fits_def)
  let ?l = "leb128 (length pl)" and ?k = "mfs_get_usize m - 4"
  note first = next_owned_first [OF assms(1) Some fits]
  have room: "length ?l < ?k"
    using mfs_valid_get [OF assms(1)] length_leb128_bounds(2) [OF fits] by simp
  have wires: "wire_frames m msg =
      map ((@) (header_as_ref (om_header msg))) (split_chunks ?k (?l @ pl))"
    using Some by (simp add: wire_frames_def message_stream_def header_SIZE_def)
  have enc: "unat (of_nat (length pl) :: u32) = length pl"
    using fits by (rule unat_of_nat_u32)
  note render = frame_of_encode [of _ "of_nat (length pl)", unfolded enc]
  show ?thesis
  proof (cases "length pl \<le> ?k - length ?l")
    case True
    then have "split_chunks ?k (?l @ pl) = [?l @ pl]"
      using room by (simp add: split_chunks_short)
    then show ?thesis
      using first True render wires by (simp add: om_frame_iter_def frame_iter_collect.simps)
  next
    case False
    then have "split_chunks ?k (?l @ pl)
        = (?l @ take (?k - length ?l) pl) # split_chunks ?k (drop (?k - length ?l) pl)"
      using room by (simp add: split_chunks_long)
    moreover obtain fs where
        "frame_iter_collect m \<lparr>fi_msg = msg, fi_bytes_processed = ?k - length ?l\<rparr> = Some fs"
        "frames_render fs (om_header msg) (map ((@) (header_as_ref (om_header msg)))
           (split_chunks ?k (drop (?k - length ?l) pl)))"
      using collect_later [OF assms(1) Some fits, of "?k - length ?l"] room False
      by (metis not_less zero_less_diff)
    ultimately show ?thesis
      using first False render wires
      by (simp add: om_frame_iter_def frame_iter_collect.simps [of m "om_frames msg"])
  qed
qed

lemma length_message_stream:
  "payload_fits msg \<Longrightarrow> length (message_stream (om_payload msg)) = om_non_header_len msg"
  by (simp add: message_stream_def om_non_header_len_def payload_fits_def varint32_length_of_eq
      unat_of_nat_u32 split: option.splits)

lemma om_num_frames_wire:
  assumes "mfs_valid m" and "payload_fits msg"
  shows "om_num_frames m msg = Some (length (wire_frames m msg))"
proof -
  let ?k = "mfs_get_usize m - 4" and ?s = "message_stream (om_payload msg)"
  have k: "0 < ?k"
    using mfs_valid_get [OF assms(1)] by simp
  have "?s = [] \<Longrightarrow> (length ?s + ?k - 1) div ?k = 0"
    using k by simp
  moreover have "(length ?s + ?k - 1) div ?k \<noteq> 0" if "?s \<noteq> []"
  proof -
    have "0 < length ?s"
      using that by simp
    then have "\<not> length ?s + ?k - 1 < ?k"
      by linarith
    then show ?thesis
      using k by (simp add: div_eq_0_iff)
  qed
  ultimately have "length (split_chunks ?k ?s)
      = (if (length ?s + ?k - 1) div ?k = 0 then 1 else (length ?s + ?k - 1) div ?k)"
    using length_split_chunks [OF k, of ?s] by metis
  then show ?thesis
    using k assms(1) length_message_stream [OF assms(2)]
    by (simp add: om_num_frames_def wire_frames_def header_SIZE_def Let_def)
qed

lemma om_total_len_wire:
  assumes "mfs_valid m" and "payload_fits msg"
  shows "om_total_len m msg = Some (length (concat (wire_frames m msg)))"
  using om_num_frames_wire [OF assms] length_message_stream [OF assms(2)]
  by (simp add: om_total_len_def wire_frames_def length_concat_framed concat_split_chunks
      header_SIZE_def)

section \<open>The byte iterator as a buffer\<close>

definition byte_iter_content :: "byte_iter \<Rightarrow> bytes" where
  "byte_iter_content it = drop (bi_consumed it) (concat (wire_frames (bi_max_frame_size it) (bi_msg it)))"

definition byte_iter_inv :: "byte_iter \<Rightarrow> bool" where
  "byte_iter_inv it = (mfs_valid (bi_max_frame_size it) \<and> payload_fits (bi_msg it)
     \<and> bi_length_prefix it = (case om_payload (bi_msg it) of
           Some pl \<Rightarrow> varint32_encode (of_nat (length pl))
         | None \<Rightarrow> varint32_SENTINEL)
     \<and> bi_consumed it \<le> length (concat (wire_frames (bi_max_frame_size it) (bi_msg it))))"

lemma byte_iter_remaining_eq:
  "byte_iter_inv it \<Longrightarrow> byte_iter_remaining it = Some (length (byte_iter_content it))"
  by (simp add: byte_iter_remaining_def byte_iter_total_def byte_iter_inv_def byte_iter_content_def
      om_total_len_wire)

lemma byte_iter_advance_eq:
  assumes "byte_iter_inv it" and "n \<le> length (byte_iter_content it)"
  shows "byte_iter_advance n it = Some (it\<lparr>bi_consumed := bi_consumed it + n\<rparr>)"
proof -
  let ?total = "length (concat (wire_frames (bi_max_frame_size it) (bi_msg it)))"
  have "bi_consumed it + n \<le> ?total"
    using assms by (auto simp: byte_iter_inv_def byte_iter_content_def)
  then have "min (bi_consumed it + n) ?total = bi_consumed it + n"
    by (rule min_absorb1)
  then show ?thesis
    using assms(1)
    by (simp add: byte_iter_advance_def byte_iter_total_def byte_iter_inv_def om_total_len_wire)
qed

text \<open>
  The chunk at position \<open>p\<close> lies inside frame \<open>p div mfs\<close>; the stream of length prefix and payload is
  cut at multiples of the frame capacity, so the first frame holds the prefix.
\<close>

lemma byte_iter_position:
  assumes inv: "byte_iter_inv it" and "byte_iter_content it \<noteq> []"
  defines "m \<equiv> mfs_get_usize (bi_max_frame_size it)" and "h \<equiv> header_as_ref (om_header (bi_msg it))"
    and "stream \<equiv> message_stream (om_payload (bi_msg it))"
  defines "j \<equiv> bi_consumed it div m" and "q \<equiv> bi_consumed it mod m"
  shows "\<exists>rest. byte_iter_content it = drop q (h @ take (m - 4) (drop (j * (m - 4)) stream)) @ rest"
    and "q < 4 + length (take (m - 4) (drop (j * (m - 4)) stream))"
proof -
  have m: "length h + (m - 4) = m" "0 < m - 4" "h \<noteq> []" "length h = 4"
    using mfs_valid_get [of "bi_max_frame_size it"] inv length_header_as_ref [of "om_header (bi_msg it)"]
    by (auto simp: byte_iter_inv_def m_def h_def simp del: length_header_as_ref)
  have "bi_consumed it < length (concat (map ((@) h) (split_chunks (m - 4) stream)))"
    using assms(2) by (simp add: byte_iter_content_def wire_frames_def m_def h_def stream_def
        header_SIZE_def)
  from drop_framed_chunks [OF m(2,3) this]
  show "\<exists>rest. byte_iter_content it = drop q (h @ take (m - 4) (drop (j * (m - 4)) stream)) @ rest"
    and "q < 4 + length (take (m - 4) (drop (j * (m - 4)) stream))"
    unfolding m(1) by (simp_all add: byte_iter_content_def wire_frames_def m_def h_def stream_def
        j_def q_def header_SIZE_def [symmetric] m(4) [unfolded h_def header_SIZE_def [symmetric]])
qed

lemma buf_slice_to_end: "i \<le> length xs \<Longrightarrow> buf_slice i (length xs) xs = Some (drop i xs)"
  by simp

lemma buf_slice_clipped:
  "i \<le> length xs \<Longrightarrow> i \<le> j \<Longrightarrow> buf_slice i (min j (length xs)) xs = Some (take (j - i) (drop i xs))"
  by (auto simp: buf_slice_def min_def)

text \<open>The value of \<open>chunk\<close>: the rest of the header, of the length prefix, or of the frame's payload.\<close>

text \<open>Behind the header of a frame, the iterator is in a message with a payload.\<close>

lemma byte_iter_in_payload:
  assumes "byte_iter_inv it" and "message_stream (om_payload (bi_msg it)) \<noteq> []"
  obtains pl where "om_payload (bi_msg it) = Some pl" and "varint32_len (bi_length_prefix it) = length (leb128 (length pl))"
    and "varint32_as_ref (bi_length_prefix it) = leb128 (length pl)" and "\<not> varint32_is_sentinel (bi_length_prefix it)"
    and "1 \<le> length (leb128 (length pl))" and "length (leb128 (length pl)) \<le> 5"
    and "mfs_without_header (bi_max_frame_size it) = Some (mfs_get_usize (bi_max_frame_size it) - 4)"
proof -
  obtain pl where pl: "om_payload (bi_msg it) = Some pl"
    using assms(2) by (cases "om_payload (bi_msg it)") (auto simp: message_stream_def)
  then have fits: "length pl \<le> u32_max" and pre: "bi_length_prefix it = varint32_encode (of_nat (length pl))"
    using assms(1) by (simp_all add: byte_iter_inv_def payload_fits_def)
  have l: "varint32_len (bi_length_prefix it) = length (leb128 (length pl))"
      "varint32_as_ref (bi_length_prefix it) = leb128 (length pl)"
    using fits by (simp_all add: pre wire_simps unat_of_nat_u32)
  have bounds: "1 \<le> length (leb128 (length pl))" "length (leb128 (length pl)) \<le> 5"
    using length_leb128_bounds fits by simp_all
  show thesis
    by (rule that [OF pl l _ bounds])
       (use bounds l assms(1) in \<open>simp_all add: varint32_is_sentinel_def byte_iter_inv_def\<close>)
qed

text \<open>The segment of the first frame, which shares its space with the length prefix, and that of a later frame.\<close>

lemma first_segment:
  assumes "x \<le> length (take n pl)"
  shows "buf_slice 0 (min n (length pl)) pl = Some (take n pl)"
    and "buf_slice x (min n (length pl)) (take n pl) = Some (drop x (take n pl))"
  using assms buf_slice_clipped [of 0 pl n] buf_slice_to_end [of x "take n pl"] by (simp_all add: min.commute)

lemma later_segment:
  assumes "x < length (take n (drop start pl))"
  shows "buf_slice start (min (start + n) (length pl)) pl = Some (take n (drop start pl))"
    and "buf_slice x (length (take n (drop start pl))) (take n (drop start pl)) = Some (drop x (take n (drop start pl)))"
proof -
  have "start \<le> length pl"
    using assms by (simp, linarith)
  then show "buf_slice start (min (start + n) (length pl)) pl = Some (take n (drop start pl))"
    using buf_slice_clipped [of start pl "start + n"] by simp
  show "buf_slice x (length (take n (drop start pl))) (take n (drop start pl)) = Some (drop x (take n (drop start pl)))"
    using assms buf_slice_to_end [of x "take n (drop start pl)"] by (simp del: length_take)
qed

lemma byte_iter_chunk_eq:
  assumes inv: "byte_iter_inv it" and some: "byte_iter_content it \<noteq> []"
  defines "m \<equiv> mfs_get_usize (bi_max_frame_size it)" and "h \<equiv> header_as_ref (om_header (bi_msg it))"
    and "stream \<equiv> message_stream (om_payload (bi_msg it))"
  defines "j \<equiv> bi_consumed it div m" and "q \<equiv> bi_consumed it mod m"
  defines "l \<equiv> varint32_len (bi_length_prefix it)"
  shows "byte_iter_chunk it = Some
    (if q < 4 then drop q h
     else if j = 0 \<and> q < 4 + l then drop (q - 4) (take l stream)
     else drop (q - 4) (take (m - 4) (drop (j * (m - 4)) stream)))"
proof (cases "q < 4")
  case True
  have "10 \<le> m" "byte_iter_remaining it = Some (length (byte_iter_content it))"
    using inv mfs_valid_get byte_iter_remaining_eq [OF inv] by (auto simp: byte_iter_inv_def m_def)
  then show ?thesis
    using True some buf_slice_to_end [of q h]
    by (simp add: byte_iter_chunk_def Let_def header_SIZE_def m_def q_def h_def)
next
  case False
  have m: "10 \<le> m" and rem: "byte_iter_remaining it = Some (length (byte_iter_content it))" "length (byte_iter_content it) \<noteq> 0"
    and q: "q < 4 + length (take (m - 4) (drop (j * (m - 4)) stream))"
    using inv mfs_valid_get byte_iter_remaining_eq [OF inv] some byte_iter_position(2) [OF inv some]
    by (auto simp: byte_iter_inv_def m_def h_def stream_def j_def q_def)
  then have "message_stream (om_payload (bi_msg it)) \<noteq> []"
    using False by (auto simp: stream_def)
  from inv this obtain pl where pl: "om_payload (bi_msg it) = Some pl" "l = length (leb128 (length pl))"
      "varint32_as_ref (bi_length_prefix it) = leb128 (length pl)" "\<not> varint32_is_sentinel (bi_length_prefix it)"
      "1 \<le> l" "l \<le> 5" "mfs_without_header (bi_max_frame_size it) = Some (m - 4)"
    unfolding l_def m_def by (rule byte_iter_in_payload) (use l_def in auto)
  have stream: "stream = leb128 (length pl) @ pl"
    by (simp add: stream_def message_stream_def pl(1))
  note unfold = byte_iter_chunk_def Let_def header_SIZE_def rem(1)
    m_def [symmetric] q_def [symmetric] j_def [symmetric] l_def [symmetric] pl(1,3,7)
  show ?thesis
  proof (cases "j = 0")
    case True
    then have "q - (4 + l) \<le> length (take (m - (4 + l)) pl)"
      using q m pl(5,6) by (simp add: stream pl(2) min_def split: if_splits)
    note first_segment [OF this]
    then show ?thesis
      using True False rem(2) m pl(2,4-6) q buf_slice_to_end [of "q - 4" "leb128 (length pl)"]
      by (auto simp: unfold stream drop_Cons')
  next
    case later: False
    then have "m - 4 \<le> j * (m - 4)"
      by simp
    then have start: "l \<le> j * (m - 4)"
      using pl(6) m by linarith
    then have drop: "drop (j * (m - 4)) stream = drop (j * (m - 4) - l) pl"
      by (simp add: stream pl(2))
    have "q - 4 < length (take (m - 4) (drop (j * (m - 4) - l) pl))"
      using q False unfolding drop by linarith
    note later_segment [OF this]
    then show ?thesis
      using False later rem(2) m pl(4) start by (simp add: unfold drop)
  qed
qed

lemma byte_iter_prefix_room:
  assumes "byte_iter_inv it"
  shows "varint32_len (bi_length_prefix it) \<le> mfs_get_usize (bi_max_frame_size it) - 4"
proof -
  have "varint32_len (bi_length_prefix it) \<le> 5"
    using assms length_leb128_bounds(2)
    by (auto simp: byte_iter_inv_def payload_fits_def varint32_len_encode unat_of_nat_u32
        varint32_len_SENTINEL split: option.splits)
  then show ?thesis
    using assms mfs_valid_get [of "bi_max_frame_size it"] by (simp add: byte_iter_inv_def)
qed

interpretation byte_iter_buf: byte_source byte_iter_remaining byte_iter_chunk byte_iter_advance
  byte_iter_content byte_iter_inv
proof
  fix it n
  assume inv: "byte_iter_inv it"
  then show "byte_iter_remaining it = Some (length (byte_iter_content it))"
    by (rule byte_iter_remaining_eq)
  show "\<exists>it'. byte_iter_advance n it = Some it' \<and> byte_iter_inv it'
      \<and> byte_iter_content it' = drop n (byte_iter_content it)"
    if n: "n \<le> length (byte_iter_content it)"
    using byte_iter_advance_eq [OF inv n] inv n
    by (auto simp: byte_iter_inv_def byte_iter_content_def add.commute)
  show "\<exists>c rest. byte_iter_chunk it = Some c \<and> c \<noteq> [] \<and> byte_iter_content it = c @ rest"
    if some: "byte_iter_content it \<noteq> []"
  proof -
    let ?m = "mfs_get_usize (bi_max_frame_size it)"
    let ?h = "header_as_ref (om_header (bi_msg it))"
    let ?s = "message_stream (om_payload (bi_msg it))"
    let ?j = "bi_consumed it div ?m" and ?q = "bi_consumed it mod ?m"
    let ?l = "varint32_len (bi_length_prefix it)"
    let ?x = "take (?m - 4) (drop (?j * (?m - 4)) ?s)"
    obtain rest where content: "byte_iter_content it = drop ?q (?h @ ?x) @ rest" and q: "?q < 4 + length ?x"
      using byte_iter_position [OF inv some] by blast
    have "take (?m - 4) ?s = take ?l ?s @ take (?m - 4 - ?l) (drop ?l ?s)"
      using byte_iter_prefix_room [OF inv] by (metis le_add_diff_inverse take_add)
    then show ?thesis
      using byte_iter_chunk_eq [OF inv some] content q by (auto simp: not_less)
  qed
qed

section \<open>Properties\<close>

lemma frames_render_to_bytes:
  assumes "frames_render fs h ws"
  shows "map frame_to_bytes fs = map Some ws"
proof -
  have "\<forall>f \<in> set fs. frame_to_bytes f = Some (frame_content f)"
    using assms frame_buf.copy_to_bytes_content
    by (auto simp: frames_render_def list_all_iff frame_to_bytes_def)
  then show ?thesis
    using assms by (auto simp: frames_render_def)
qed

lemma frames_render_headers:
  "frames_render fs h ws \<Longrightarrow> f \<in> set fs \<Longrightarrow> frame_header f = h"
  by (auto simp: frames_render_def list_all_iff)

lemma frames_render_length: "frames_render fs h ws \<Longrightarrow> length fs = length ws"
  by (auto simp: frames_render_def)

lemma wire_frames_bound:
  assumes "mfs_valid m" and "w \<in> set (wire_frames m msg)"
  shows "length w \<le> mfs_get_usize m"
  using assms mfs_valid_get [OF assms(1)] split_chunks_bound [of "mfs_get_usize m - header_SIZE"]
  by (fastforce simp: wire_frames_def header_SIZE_def)

lemma om_iter_bytes_inv:
  assumes "mfs_valid m" and "payload_fits msg"
  shows "byte_iter_inv (om_iter_bytes m msg)"
    and "byte_iter_content (om_iter_bytes m msg) = concat (wire_frames m msg)"
  using assms by (simp_all add: byte_iter_inv_def byte_iter_content_def om_iter_bytes_def)

lemma om_is_multi_frame_wire:
  assumes "mfs_valid m" and "payload_fits msg"
  shows "om_is_multi_frame m msg = Some (1 < length (wire_frames m msg))"
proof (cases "om_payload msg")
  case None
  then show ?thesis
    by (simp add: om_is_multi_frame_def wire_frames_def message_stream_def split_chunks_short)
next
  case (Some pl)
  then have fits: "length pl \<le> u32_max"
    using assms(2) by (simp add: payload_fits_def)
  let ?k = "mfs_get_usize m - 4" and ?l = "leb128 (length pl)"
  have room: "length ?l < ?k"
    using mfs_valid_get [OF assms(1)] length_leb128_bounds(2) [OF fits] by simp
  have "om_is_multi_frame m msg = Some (?k - length ?l < length pl)"
    using Some fits assms(1) by (simp add: om_is_multi_frame_def payload_is_multi_frame_def)
  moreover have "?k - length ?l < length pl \<longleftrightarrow> 1 < length (split_chunks ?k (?l @ pl))"
    using room by (cases "?k < length (?l @ pl)")
      (simp_all add: split_chunks_long split_chunks_short Suc_lessI)
  ultimately show ?thesis
    using Some by (simp add: wire_frames_def message_stream_def header_SIZE_def)
qed

text \<open>
  C22: \<^verbatim>\<open>OutgoingMessage::frame_iter\<close> terminates without a panic and yields exactly the reference frames:
  the length prefix and payload cut into pieces of the frame capacity, each behind a copy of the
  message header, none longer than the maximum frame size; \<^verbatim>\<open>num_frames\<close> is their number.
\<close>

theorem frame_iter_wire_format:
  assumes "mfs_valid m" and "payload_fits msg"
  shows "\<exists>fs. om_frame_iter m msg = Some fs
    \<and> map frame_to_bytes fs = map Some (wire_frames m msg)
    \<and> (\<forall>f \<in> set fs. frame_header f = om_header msg)
    \<and> (\<forall>w \<in> set (wire_frames m msg). length w \<le> mfs_get_usize m)
    \<and> om_num_frames m msg = Some (length fs)"
  using om_frame_iter_wire [OF assms] om_num_frames_wire [OF assms] wire_frames_bound [OF assms(1)]
    frames_render_to_bytes frames_render_headers frames_render_length
  by (metis (no_types, lifting))

theorem frame_iter_wire_format_witness:
  "\<exists>fs. om_frame_iter (MaxFrameSize 10)
        (outgoing_message_new (header_new RequestPl (ChannelId 1) (Id 2)) (Some (replicate 8 7))) = Some fs
    \<and> map frame_to_bytes fs = map Some (wire_frames (MaxFrameSize 10)
        (outgoing_message_new (header_new RequestPl (ChannelId 1) (Id 2)) (Some (replicate 8 7))))
    \<and> length fs = 2"
proof -
  let ?m = "MaxFrameSize 10"
  let ?msg = "outgoing_message_new (header_new RequestPl (ChannelId 1) (Id 2)) (Some (replicate 8 7))"
  have "mfs_valid ?m" "payload_fits ?msg"
    by (simp_all add: mfs_valid_def payload_fits_def outgoing_message_new_def)
  moreover have "om_num_frames ?m ?msg = Some 2"
    by (simp add: om_num_frames_def mfs_without_header_def mfs_get_usize_def header_SIZE_def
        om_non_header_len_def outgoing_message_new_def varint32_length_of_def Let_def)
  ultimately show ?thesis
    using frame_iter_wire_format [of ?m ?msg] by auto
qed

text \<open>
  C21: The byte-wise view of a message equals the concatenation of its frames: \<^verbatim>\<open>to_bytes\<close> returns it,
  \<^verbatim>\<open>total_len\<close> is its length, and a writer that takes the bytes in pieces of arbitrary sizes gets a prefix
  of it and leaves exactly the rest in the iterator, all without a panic.
\<close>

theorem byte_iter_matches_frames:
  assumes "mfs_valid m" and "payload_fits msg"
  shows "om_to_bytes m msg = Some (concat (wire_frames m msg))
    \<and> om_total_len m msg = Some (length (concat (wire_frames m msg)))
    \<and> (\<exists>written it. write_all_buf byte_iter_remaining byte_iter_chunk byte_iter_advance steps
           (om_iter_bytes m msg) = Some (written, it)
         \<and> concat (wire_frames m msg) = written @ byte_iter_content it
         \<and> copy_to_bytes byte_iter_remaining byte_iter_chunk byte_iter_advance it
             = Some (byte_iter_content it))"
proof (intro conjI)
  note it = om_iter_bytes_inv [OF assms]
  show "om_to_bytes m msg = Some (concat (wire_frames m msg))"
    using byte_iter_buf.copy_to_bytes_content [OF it(1)] by (simp add: om_to_bytes_def it(2))
  show "om_total_len m msg = Some (length (concat (wire_frames m msg)))"
    by (rule om_total_len_wire [OF assms])
  show "\<exists>written it. write_all_buf byte_iter_remaining byte_iter_chunk byte_iter_advance steps
           (om_iter_bytes m msg) = Some (written, it)
         \<and> concat (wire_frames m msg) = written @ byte_iter_content it
         \<and> copy_to_bytes byte_iter_remaining byte_iter_chunk byte_iter_advance it
             = Some (byte_iter_content it)"
    using byte_iter_buf.write_all_buf_prefix [OF it(1), of steps] it(2)
      byte_iter_buf.copy_to_bytes_content by metis
qed

theorem byte_iter_matches_frames_witness:
  "om_to_bytes (MaxFrameSize 10) (outgoing_message_new (header_new Request (ChannelId 3) (Id 258)) None)
     = Some [0, 3, 2, 1]
   \<and> om_total_len (MaxFrameSize 10)
       (outgoing_message_new (header_new Request (ChannelId 3) (Id 258)) None) = Some 4"
proof -
  let ?m = "MaxFrameSize 10"
  let ?msg = "outgoing_message_new (header_new Request (ChannelId 3) (Id 258)) None"
  have hyps: "mfs_valid ?m" "payload_fits ?msg"
    by (simp_all add: mfs_valid_def payload_fits_def outgoing_message_new_def)
  have "concat (wire_frames ?m ?msg) = [0, 3, 2, 1]"
    by (simp add: wire_frames_def outgoing_message_new_def message_stream_def split_chunks_short
        header_defs header_as_ref_def)
  then show ?thesis
    using byte_iter_matches_frames [OF hyps] by simp
qed

lemma truncated_fits:
  assumes "mfs_valid m" and "om_payload msg = Some pl" and "length pl \<le> u32_max"
    and "n = mfs_get_usize m - 4 - length (leb128 (length pl))" and "n < length pl"
  shows "om_is_multi_frame m (msg\<lparr>om_payload := Some (take n pl)\<rparr>) = Some False"
proof -
  have "length (leb128 n) \<le> length (leb128 (length pl))"
    using assms(3,5) length_leb128 [of n] length_leb128 [of "length pl"] by (simp split: if_splits)
  then have "n \<le> mfs_get_usize m - 4 - length (leb128 n)"
    using assms(4) by simp
  then show ?thesis
    using assms by (simp add: om_is_multi_frame_def payload_is_multi_frame_def)
qed

lemma om_truncate_wire:
  assumes "mfs_valid m" and "payload_fits msg"
  shows "\<exists>msg'. om_truncate_to_single_frame m msg = Some msg' \<and> om_header msg' = om_header msg
         \<and> length (wire_frames m msg') = 1
         \<and> (\<exists>n. om_payload msg' = map_option (take n) (om_payload msg))
         \<and> (length (wire_frames m msg) = 1 \<longrightarrow> msg' = msg)"
proof -
  have multi: "om_is_multi_frame m msg = Some (1 < length (wire_frames m msg))"
    by (rule om_is_multi_frame_wire [OF assms])
  have nonempty: "length (wire_frames m msg') \<noteq> 0" for msg'
    by (simp add: wire_frames_def)
  show "\<exists>msg'. om_truncate_to_single_frame m msg = Some msg' \<and> om_header msg' = om_header msg
         \<and> length (wire_frames m msg') = 1
         \<and> (\<exists>n. om_payload msg' = map_option (take n) (om_payload msg))
         \<and> (length (wire_frames m msg) = 1 \<longrightarrow> msg' = msg)"
  proof (cases "1 < length (wire_frames m msg)")
    case False
    have single: "length (wire_frames m msg) = 1"
      using False nonempty [of msg] by linarith
    have "\<exists>n. om_payload msg = map_option (take n) (om_payload msg)"
      by (cases "om_payload msg") (auto, metis take_all order_refl)
    then show ?thesis
      using False multi single by (auto simp: om_truncate_to_single_frame_def)
  next
    case True
    then obtain pl where pl: "om_payload msg = Some pl"
      by (cases "om_payload msg") (auto simp: wire_frames_def message_stream_def split_chunks_short)
    let ?n = "mfs_get_usize m - 4 - length (leb128 (length pl))"
    let ?msg' = "msg\<lparr>om_payload := Some (take ?n pl)\<rparr>"
    have fits: "length pl \<le> u32_max"
      using assms(2) pl by (simp add: payload_fits_def)
    then have "?n < length pl"
      using multi True pl assms(1) by (simp add: om_is_multi_frame_def payload_is_multi_frame_def)
    then have "om_is_multi_frame m ?msg' = Some False" "payload_fits ?msg'"
      using truncated_fits [OF assms(1) pl fits refl] fits by (simp_all add: payload_fits_def)
    then have "\<not> 1 < length (wire_frames m ?msg')"
      using om_is_multi_frame_wire [OF assms(1), of ?msg'] by simp
    then have "length (wire_frames m ?msg') = 1"
      using nonempty [of ?msg'] by linarith
    moreover have "om_truncate_to_single_frame m msg = Some ?msg'"
      using multi True pl fits assms(1) by (simp add: om_truncate_to_single_frame_def)
    ultimately show ?thesis
      using True pl by (intro exI [of _ ?msg']) auto
  qed
qed

text \<open>
  \<^verbatim>\<open>is_multi_frame\<close> holds exactly of the messages sent in more than one frame, and
  \<^verbatim>\<open>truncate_to_single_frame\<close> returns a message with the same header that is sent in one frame, whose
  payload is a prefix of the original, and leaves single-frame messages alone.
\<close>

theorem truncate_single_frame:
  assumes "mfs_valid m" and "payload_fits msg"
  shows "om_is_multi_frame m msg = Some (1 < length (wire_frames m msg))
    \<and> (\<exists>msg'. om_truncate_to_single_frame m msg = Some msg' \<and> om_header msg' = om_header msg
         \<and> length (wire_frames m msg') = 1
         \<and> (\<exists>n. om_payload msg' = map_option (take n) (om_payload msg))
         \<and> (length (wire_frames m msg) = 1 \<longrightarrow> msg' = msg))"
  using om_is_multi_frame_wire [OF assms] om_truncate_wire [OF assms] by blast

theorem truncate_single_frame_witness:
  "\<exists>msg'. om_truncate_to_single_frame (MaxFrameSize 10)
      (outgoing_message_new (header_new_error Other (ChannelId 3) (Id 1)) (Some (replicate 8 7))) = Some msg'
    \<and> length (wire_frames (MaxFrameSize 10) msg') = 1"
  using truncate_single_frame [of "MaxFrameSize 10"
      "outgoing_message_new (header_new_error Other (ChannelId 3) (Id 1)) (Some (replicate 8 7))"]
  by (auto simp: mfs_valid_def payload_fits_def outgoing_message_new_def)

end
