(* ===== verification/Multiframe.thy ===== *)
theory Multiframe
  imports Outgoing_Message
begin

text \<open>
  \<^verbatim>\<open>src/src/protocol/multiframe.rs\<close>: the state machine that puts the frames of a multi-frame message
  together. \<open>accept\<close> consumes at most one frame from the front of the receive buffer. The first group of
  lemmas rewrites it into \<open>accept_spec\<close>, in which no panic is left; the rest derives from there that it
  keeps its invariant, consumes one frame or nothing, and does not depend on bytes behind the frame.
\<close>

section \<open>Definitions\<close>

datatype multiframe_receiver =
    Ready
  | InProgress header bytes u32

datatype completed_frame =
    NewMultiFrame
  | IntermediateMultiFrame
  | SingleFrame bytes
  | CompletedMultiFrame bytes

fun completed_frame_was_new :: "completed_frame \<Rightarrow> bool" where
  "completed_frame_was_new NewMultiFrame = True"
| "completed_frame_was_new IntermediateMultiFrame = False"
| "completed_frame_was_new (SingleFrame _) = True"
| "completed_frame_was_new (CompletedMultiFrame _) = False"

fun into_completed_payload :: "completed_frame \<Rightarrow> bytes option" where
  "into_completed_payload NewMultiFrame = None"
| "into_completed_payload IntermediateMultiFrame = None"
| "into_completed_payload (SingleFrame payload) = Some payload"
| "into_completed_payload (CompletedMultiFrame payload) = Some payload"

definition err_msg :: "header \<Rightarrow> error_kind \<Rightarrow> ('t, outgoing_message) outcome" where
  "err_msg h kind = Fatal (outgoing_message_new (header_with_err kind h) None)"

record initial_frame_data =
  ifd_preamble_len :: nat
  ifd_segment_len :: nat
  ifd_payload_size :: u32

definition ifd_is_complete :: "initial_frame_data \<Rightarrow> bool option" where
  "ifd_is_complete d =
     do { rust_assert (ifd_segment_len d \<le> unat (ifd_payload_size d));
          Some (ifd_segment_len d = unat (ifd_payload_size d)) }"

definition detect_starting_segment ::
  "header \<Rightarrow> bytes \<Rightarrow> max_frame_size \<Rightarrow> u32 \<Rightarrow> error_kind
   \<Rightarrow> (initial_frame_data, outgoing_message) outcome option" where
  "detect_starting_segment h buffer max_frame_size max_payload_size payload_exceeded_error_kind =
     do { segment_buf \<leftarrow> buf_slice header_SIZE (length buffer) buffer;
          try_outcome (outcome_map_err
              (\<lambda>_. outgoing_message_new (header_with_err BadVarInt h) None)
              (decode_varint32 segment_buf))
            Some
            (\<lambda>payload_size.
              if max_payload_size < parsed_value payload_size
              then Some (err_msg h payload_exceeded_error_kind)
              else do {
                let preamble_len = header_SIZE + unat (parsed_offset payload_size);
                max_data_in_frame \<leftarrow> checked_sub (unat (mfs_get max_frame_size)) preamble_len;
                let segment_len = min max_data_in_frame (unat (parsed_value payload_size));
                let frame_end = preamble_len + segment_len;
                if length buffer < frame_end
                then outcome_incomplete (frame_end - length buffer)
                else Some (Success \<lparr>ifd_preamble_len = preamble_len, ifd_segment_len = segment_len,
                                    ifd_payload_size = parsed_value payload_size\<rparr>) }) }"

text \<open>\<open>extract_segment\<close> returns its outcome with the updated \<open>incoming\<close> and \<open>stored_payload\<close>.\<close>

definition extract_segment ::
  "bytes \<Rightarrow> bytes \<Rightarrow> nat \<Rightarrow> max_frame_size
   \<Rightarrow> ((bool, outgoing_message) outcome \<times> bytes \<times> bytes) option" where
  "extract_segment incoming stored_payload total_payload_size max_frame_size =
     do { bytes_remaining \<leftarrow> checked_sub total_payload_size (length stored_payload);
          space \<leftarrow> mfs_without_header max_frame_size;
          let segment_size = min bytes_remaining space;
          let frame_end = segment_size + header_SIZE;
          if length incoming < frame_end
          then do { oc \<leftarrow> outcome_incomplete (frame_end - length incoming);
                    Some (oc, incoming, stored_payload) }
          else do {
            incoming \<leftarrow> buf_advance header_SIZE incoming;
            segment \<leftarrow> buf_slice 0 segment_size incoming;
            let stored_payload = stored_payload @ segment;
            incoming \<leftarrow> buf_advance segment_size incoming;
            Some (Success (length stored_payload = total_payload_size), incoming, stored_payload) } }"

text \<open>\<open>accept\<close> returns its outcome with the updated receiver and buffer.\<close>

definition accept ::
  "multiframe_receiver \<Rightarrow> header \<Rightarrow> bytes \<Rightarrow> max_frame_size \<Rightarrow> u32 \<Rightarrow> error_kind
   \<Rightarrow> ((completed_frame, outgoing_message) outcome \<times> multiframe_receiver \<times> bytes) option" where
  "accept self h buffer max_frame_size max_payload_size payload_exceeded_error_kind =
     (case self of
        Ready \<Rightarrow>
          do { detected \<leftarrow> detect_starting_segment h buffer max_frame_size max_payload_size
                 payload_exceeded_error_kind;
               try_outcome detected (\<lambda>oc. Some (oc, self, buffer))
                 (\<lambda>frame_data. do {
                    buffer \<leftarrow> buf_advance (ifd_preamble_len frame_data) buffer;
                    (segment, buffer) \<leftarrow> buf_split_to (ifd_segment_len frame_data) buffer;
                    complete \<leftarrow> ifd_is_complete frame_data;
                    if complete then Some (Success (SingleFrame segment), self, buffer)
                    else Some (Success NewMultiFrame,
                               InProgress h segment (ifd_payload_size frame_data), buffer) }) }
      | InProgress active_header payload total_payload_size \<Rightarrow>
          if h \<noteq> active_header then
            do { detected \<leftarrow> detect_starting_segment h buffer max_frame_size max_payload_size
                   payload_exceeded_error_kind;
                 try_outcome detected (\<lambda>oc. Some (oc, self, buffer))
                   (\<lambda>frame_data. do {
                      complete \<leftarrow> ifd_is_complete frame_data;
                      if complete then do {
                        buffer \<leftarrow> buf_advance (ifd_preamble_len frame_data) buffer;
                        (segment, buffer) \<leftarrow> buf_split_to (ifd_segment_len frame_data) buffer;
                        Some (Success (SingleFrame segment), self, buffer) }
                      else Some (err_msg h error_kind.InProgress, self, buffer) }) }
          else
            do { (extracted, buffer, payload) \<leftarrow>
                   extract_segment buffer payload (unat total_payload_size) max_frame_size;
                 let self = InProgress active_header payload total_payload_size;
                 try_outcome extracted (\<lambda>oc. Some (oc, self, buffer))
                   (\<lambda>finished.
                      if finished then Some (Success (CompletedMultiFrame payload), Ready, buffer)
                      else Some (Success IntermediateMultiFrame, self, buffer)) })"

fun in_progress_header :: "multiframe_receiver \<Rightarrow> header option" where
  "in_progress_header Ready = None"
| "in_progress_header (InProgress h _ _) = Some h"

section \<open>Specification without panics\<close>

definition receiver_inv :: "multiframe_receiver \<Rightarrow> bool" where
  "receiver_inv r = (case r of
       Ready \<Rightarrow> True
     | InProgress h payload size_total \<Rightarrow> header_valid h \<and> length payload < unat size_total)"

definition start_spec ::
  "max_frame_size \<Rightarrow> u32 \<Rightarrow> error_kind \<Rightarrow> header \<Rightarrow> bytes
   \<Rightarrow> (initial_frame_data, outgoing_message) outcome" where
  "start_spec m maxp ek h buf = (case decode_varint32 (drop 4 buf) of
       Incomplete n \<Rightarrow> Incomplete n
     | Fatal _ \<Rightarrow> err_msg h BadVarInt
     | Success p \<Rightarrow>
         if maxp < parsed_value p then err_msg h ek
         else let pre = 4 + unat (parsed_offset p);
                  seg = min (mfs_get_usize m - pre) (unat (parsed_value p))
              in if length buf < pre + seg then Incomplete (of_nat (pre + seg - length buf))
                 else Success \<lparr>ifd_preamble_len = pre, ifd_segment_len = seg,
                               ifd_payload_size = parsed_value p\<rparr>)"

lemma mfs_get_usize_le: "mfs_get_usize m \<le> u32_max"
  by (simp add: mfs_get_usize_def unat_u32_le)

lemma detect_starting_segment_spec:
  assumes "mfs_valid m" and "4 \<le> length buf"
  shows "detect_starting_segment h buf m maxp ek = Some (start_spec m maxp ek h buf)"
proof (cases "decode_varint32 (drop 4 buf)")
  case (Success p)
  have room: "4 + unat (parsed_offset p) < mfs_get_usize m"
    using decode_varint32_Success(2) [OF Success] mfs_valid_get [OF assms(1)] by simp
  have "4 + unat (parsed_offset p) + min (mfs_get_usize m - (4 + unat (parsed_offset p))) v - length buf
      \<le> u32_max" for v
    using room mfs_get_usize_le [of m] by linarith
  then show ?thesis
    using Success assms room
    by (simp add: detect_starting_segment_def start_spec_def header_SIZE_def mfs_get_usize_def
        outcome_incomplete_def Let_def)
qed (use assms in \<open>simp_all add: detect_starting_segment_def start_spec_def header_SIZE_def
      err_msg_def\<close>)

lemma start_spec_Success:
  assumes "start_spec m maxp ek h buf = Success d" and "mfs_valid m"
  shows "ifd_preamble_len d + ifd_segment_len d \<le> length buf" "5 \<le> ifd_preamble_len d"
    "ifd_segment_len d \<le> unat (ifd_payload_size d)" "ifd_payload_size d \<le> maxp"
    "ifd_preamble_len d + ifd_segment_len d \<le> mfs_get_usize m"
  using assms decode_varint32_Success(1,2) [of "drop 4 buf"] mfs_valid_get [OF assms(2)]
  by (fastforce simp: start_spec_def err_msg_def Let_def split: outcome.splits if_splits)+

definition single_spec :: "initial_frame_data \<Rightarrow> bytes \<Rightarrow> bytes \<times> bytes" where
  "single_spec d buf = (take (ifd_segment_len d) (drop (ifd_preamble_len d) buf),
                        drop (ifd_preamble_len d + ifd_segment_len d) buf)"

definition continue_spec ::
  "max_frame_size \<Rightarrow> header \<Rightarrow> bytes \<Rightarrow> u32 \<Rightarrow> bytes
   \<Rightarrow> (completed_frame, outgoing_message) outcome \<times> multiframe_receiver \<times> bytes" where
  "continue_spec m h payload size_total buf =
     (let seg = min (unat size_total - length payload) (mfs_get_usize m - 4)
      in if length buf < seg + 4
         then (Incomplete (of_nat (seg + 4 - length buf)), InProgress h payload size_total, buf)
         else let payload = payload @ take seg (drop 4 buf); rest = drop (4 + seg) buf
              in if length payload = unat size_total
                 then (Success (CompletedMultiFrame payload), Ready, rest)
                 else (Success IntermediateMultiFrame, InProgress h payload size_total, rest))"

definition accept_spec ::
  "max_frame_size \<Rightarrow> u32 \<Rightarrow> error_kind \<Rightarrow> multiframe_receiver \<Rightarrow> header \<Rightarrow> bytes
   \<Rightarrow> (completed_frame, outgoing_message) outcome \<times> multiframe_receiver \<times> bytes" where
  "accept_spec m maxp ek r h buf =
     (if in_progress_header r = Some h
      then (case r of Ready \<Rightarrow> (Incomplete 0, r, buf)
            | InProgress _ payload size_total \<Rightarrow> continue_spec m h payload size_total buf)
      else (case start_spec m maxp ek h buf of
              Incomplete n \<Rightarrow> (Incomplete n, r, buf)
            | Fatal e \<Rightarrow> (Fatal e, r, buf)
            | Success d \<Rightarrow>
                if ifd_segment_len d = unat (ifd_payload_size d)
                then (Success (SingleFrame (fst (single_spec d buf))), r, snd (single_spec d buf))
                else if r = Ready
                then (Success NewMultiFrame, InProgress h (fst (single_spec d buf)) (ifd_payload_size d),
                      snd (single_spec d buf))
                else (err_msg h error_kind.InProgress, r, buf)))"

lemma extract_segment_spec:
  assumes "mfs_valid m" and "length payload < unat size_total"
  shows "extract_segment buf payload (unat size_total) m =
    (let seg = min (unat size_total - length payload) (mfs_get_usize m - 4)
     in if length buf < seg + 4
        then Some (Incomplete (of_nat (seg + 4 - length buf)), buf, payload)
        else Some (Success (length (payload @ take seg (drop 4 buf)) = unat size_total),
                   drop (4 + seg) buf, payload @ take seg (drop 4 buf)))"
proof -
  define seg where "seg = min (unat size_total - length payload) (mfs_get_usize m - 4)"
  have "seg + 4 \<le> u32_max"
    using mfs_get_usize_le [of m] mfs_valid_get [OF assms(1)] unfolding seg_def by linarith
  then have "seg + 4 - length buf \<le> u32_max"
    by linarith
  then show ?thesis
    using assms unfolding extract_segment_def Let_def header_SIZE_def
    by (cases "length buf < seg + 4") (simp_all add: seg_def [symmetric] not_less add.commute)
qed

lemma accept_accept_spec:
  assumes "mfs_valid m" and "receiver_inv r" and "4 \<le> length buf"
  shows "accept r h buf m maxp ek = Some (accept_spec m maxp ek r h buf)"
proof (cases "in_progress_header r = Some h")
  case True
  then obtain payload size_total where "r = InProgress h payload size_total"
    by (cases r) auto
  then show ?thesis
    using extract_segment_spec [OF assms(1), of payload size_total buf] assms(2)
    by (simp add: accept_def accept_spec_def continue_spec_def receiver_inv_def Let_def)
next
  case False
  note detect = detect_starting_segment_spec [OF assms(1,3)]
  show ?thesis
  proof (cases "start_spec m maxp ek h buf")
    case (Success d)
    then show ?thesis
      using False detect start_spec_Success [OF Success assms(1)]
      by (cases r) (auto simp: accept_def accept_spec_def ifd_is_complete_def single_spec_def err_msg_def
          add.commute)
  qed (use False detect in \<open>cases r; auto simp: accept_def accept_spec_def\<close>)+
qed

section \<open>Growing buffers\<close>

lemma countdown:
  assumes "len < stop" and "stop \<le> u32_max" and "n = (of_nat (stop - len) :: u32)"
  shows "unat n = stop - len"
    and "k < unat n \<Longrightarrow> len + k < stop \<and> of_nat (stop - (len + k)) = n - of_nat k"
proof -
  show n: "unat n = stop - len"
    using assms by (simp only: assms(3)) (simp add: unat_of_nat_u32 del: of_nat_diff)
  show "len + k < stop \<and> of_nat (stop - (len + k)) = n - of_nat k" if "k < unat n"
    using that [unfolded n] assms(1) by (simp add: assms(3) of_nat_diff)
qed

lemma frame_end_le:
  assumes "decode_varint32 xs = Success p" and "mfs_valid m"
  shows "4 + unat (parsed_offset p) + min (mfs_get_usize m - (4 + unat (parsed_offset p))) v \<le> u32_max"
  using decode_varint32_Success(2) [OF assms(1)] mfs_valid_get [OF assms(2)] mfs_get_usize_le [of m]
  by linarith

lemma start_spec_append:
  assumes "4 \<le> length buf" and "mfs_valid m"
  shows "start_spec m maxp ek h buf = Success d \<Longrightarrow> start_spec m maxp ek h (buf @ c) = Success d"
    and "start_spec m maxp ek h buf = Fatal e \<Longrightarrow> start_spec m maxp ek h (buf @ c) = Fatal e"
    and "start_spec m maxp ek h buf = Incomplete n \<Longrightarrow> 0 < unat n"
    and "start_spec m maxp ek h buf = Incomplete n \<Longrightarrow> length c < unat n \<Longrightarrow>
           start_spec m maxp ek h (buf @ c) = Incomplete (n - of_nat (length c))"
proof -
  let ?v = "decode_varint32 (drop 4 buf)"
  note app = decode_varint32_append [of "drop 4 buf" _ c]
  show "start_spec m maxp ek h (buf @ c) = Success d" if "start_spec m maxp ek h buf = Success d"
    using that assms app by (cases ?v) (auto simp: start_spec_def err_msg_def Let_def split: if_splits)
  show "start_spec m maxp ek h (buf @ c) = Fatal e" if "start_spec m maxp ek h buf = Fatal e"
    using that assms app by (cases ?v) (auto simp: start_spec_def err_msg_def Let_def split: if_splits)
  have "0 < unat n \<and> (length c < unat n \<longrightarrow>
      start_spec m maxp ek h (buf @ c) = Incomplete (n - of_nat (length c)))"
    if inc: "start_spec m maxp ek h buf = Incomplete n"
  proof (cases ?v)
    case (Incomplete n')
    then have "n = 1"
      using inc decode_varint32_Incomplete by (auto simp: start_spec_def)
    then show ?thesis
      using inc by auto
  next
    case (Fatal e')
    then show ?thesis
      using inc by (simp add: start_spec_def err_msg_def)
  next
    case (Success p)
    define pre where "pre = 4 + unat (parsed_offset p)"
    define stop where "stop = pre + min (mfs_get_usize m - pre) (unat (parsed_value p))"
    have inc': "\<not> maxp < parsed_value p" "length buf < stop" "n = of_nat (stop - length buf)"
      using inc Success unfolding start_spec_def pre_def stop_def
      by (auto simp: err_msg_def Let_def split: if_splits)
    have le: "stop \<le> u32_max"
      using frame_end_le [OF Success assms(2)] by (simp only: stop_def pre_def)
    note cd = countdown [OF inc'(2) le inc'(3)]
    have "start_spec m maxp ek h (buf @ c) = Incomplete (of_nat (stop - (length buf + length c)))"
      if "length buf + length c < stop"
      using that app(1) [OF Success] inc'(1) assms(1)
      unfolding start_spec_def pre_def [symmetric] stop_def [symmetric]
      by (simp add: Let_def pre_def [symmetric] stop_def [symmetric] del: of_nat_diff)
    then show ?thesis
      using cd inc'(2) by simp
  qed
  then show "start_spec m maxp ek h buf = Incomplete n \<Longrightarrow> 0 < unat n"
    and "start_spec m maxp ek h buf = Incomplete n \<Longrightarrow> length c < unat n \<Longrightarrow>
           start_spec m maxp ek h (buf @ c) = Incomplete (n - of_nat (length c))"
    by blast+
qed

lemma continue_spec_append:
  assumes "continue_spec m h payload size_total buf = (oc, r', buf')" and "mfs_valid m"
  shows "\<nexists>n. oc = Incomplete n \<Longrightarrow> continue_spec m h payload size_total (buf @ c) = (oc, r', buf' @ c)"
    and "oc = Incomplete n \<Longrightarrow> 0 < unat n"
    and "oc = Incomplete n \<Longrightarrow> length c < unat n \<Longrightarrow> continue_spec m h payload size_total (buf @ c)
           = (Incomplete (n - of_nat (length c)), InProgress h payload size_total, buf @ c)"
proof -
  define seg where "seg = min (unat size_total - length payload) (mfs_get_usize m - 4)"
  have le: "seg + 4 \<le> u32_max"
    using mfs_get_usize_le [of m] mfs_valid_get [OF assms(2)] unfolding seg_def by linarith
  note def = continue_spec_def [of m h payload size_total, folded seg_def]
  show "continue_spec m h payload size_total (buf @ c) = (oc, r', buf' @ c)" if "\<nexists>n. oc = Incomplete n"
    using that assms(1) by (auto simp: def Let_def split: if_splits)
  have inc: "length buf < seg + 4 \<and> n = of_nat (seg + 4 - length buf)" if "oc = Incomplete n"
    using that assms(1) by (auto simp: def Let_def split: if_splits)
  note cd = countdown [OF _ le, of "length buf" n]
  show "0 < unat n" if "oc = Incomplete n"
    using inc [OF that] cd(1) by auto
  show "continue_spec m h payload size_total (buf @ c)
      = (Incomplete (n - of_nat (length c)), InProgress h payload size_total, buf @ c)"
    if "oc = Incomplete n" "length c < unat n"
    using inc [OF that(1)] cd(2) [OF _ _ that(2)] by (simp add: def Let_def del: of_nat_diff)
qed

lemma continue_spec_cases:
  assumes "continue_spec m h payload size_total buf = (oc, r', buf')" and "mfs_valid m"
    and "length payload < unat size_total"
  obtains (Incomplete) n where "oc = Incomplete n" "r' = InProgress h payload size_total" "buf' = buf"
  | (More) seg where "0 < seg" "4 + seg \<le> length buf" "4 + seg \<le> mfs_get_usize m"
      "length payload + seg < unat size_total"
      "oc = Success IntermediateMultiFrame" "buf' = drop (4 + seg) buf"
      "r' = InProgress h (payload @ take seg (drop 4 buf)) size_total"
  | (Done) seg where "0 < seg" "4 + seg \<le> length buf" "4 + seg \<le> mfs_get_usize m"
      "length payload + seg = unat size_total"
      "oc = Success (CompletedMultiFrame (payload @ take seg (drop 4 buf)))" "r' = Ready"
      "buf' = drop (4 + seg) buf"
proof -
  define seg where "seg = min (unat size_total - length payload) (mfs_get_usize m - 4)"
  have seg: "0 < seg" "4 + seg \<le> mfs_get_usize m" "length payload + seg \<le> unat size_total"
    using mfs_valid_get [OF assms(2)] assms(3) unfolding seg_def by linarith+
  note def = assms(1) [unfolded continue_spec_def seg_def [symmetric] Let_def]
  consider "length buf < seg + 4"
    | "seg + 4 \<le> length buf" "length payload + seg < unat size_total"
    | "seg + 4 \<le> length buf" "length payload + seg = unat size_total"
    using seg(3) by linarith
  then show ?thesis
  proof cases
    case 1
    then show ?thesis
      using def by (intro that(1)) auto
  next
    case 2
    then show ?thesis
      using def seg by (intro that(2) [of seg]) auto
  next
    case 3
    then show ?thesis
      using def seg by (intro that(3) [of seg]) auto
  qed
qed

lemma accept_spec_active:
  "accept_spec m maxp ek (InProgress h payload size_total) h buf = continue_spec m h payload size_total buf"
  by (simp add: accept_spec_def)

lemma accept_spec_start:
  assumes "in_progress_header r \<noteq> Some h"
  shows "start_spec m maxp ek h buf = Incomplete n \<Longrightarrow> accept_spec m maxp ek r h buf = (Incomplete n, r, buf)"
    and "start_spec m maxp ek h buf = Fatal e \<Longrightarrow> accept_spec m maxp ek r h buf = (Fatal e, r, buf)"
    and "start_spec m maxp ek h buf = Success d \<Longrightarrow> accept_spec m maxp ek r h buf =
      (if ifd_segment_len d = unat (ifd_payload_size d)
       then (Success (SingleFrame (fst (single_spec d buf))), r, snd (single_spec d buf))
       else if r = Ready
       then (Success NewMultiFrame, InProgress h (fst (single_spec d buf)) (ifd_payload_size d),
             snd (single_spec d buf))
       else (err_msg h error_kind.InProgress, r, buf))"
  using assms by (simp_all add: accept_spec_def)

lemma in_progress_header_eq_Some_iff:
  "in_progress_header r = Some h \<longleftrightarrow> (\<exists>payload size_total. r = InProgress h payload size_total)"
  by (cases r) auto

lemma accept_spec_append:
  assumes acc: "accept_spec m maxp ek r h buf = (oc, r', buf')" and "mfs_valid m" and "4 \<le> length buf"
  shows "\<nexists>n. oc = Incomplete n \<Longrightarrow> accept_spec m maxp ek r h (buf @ c) = (oc, r', buf' @ c)"
    and "oc = Incomplete n \<Longrightarrow> 0 < unat n"
    and "oc = Incomplete n \<Longrightarrow> length c < unat n \<Longrightarrow>
           accept_spec m maxp ek r h (buf @ c) = (Incomplete (n - of_nat (length c)), r, buf @ c)"
proof -
  have "((\<nexists>n. oc = Incomplete n) \<longrightarrow> accept_spec m maxp ek r h (buf @ c) = (oc, r', buf' @ c))
    \<and> (oc = Incomplete n \<longrightarrow> 0 < unat n)
    \<and> (oc = Incomplete n \<longrightarrow> length c < unat n \<longrightarrow>
        accept_spec m maxp ek r h (buf @ c) = (Incomplete (n - of_nat (length c)), r, buf @ c))"
  proof (cases "in_progress_header r = Some h")
    case True
    then obtain payload size_total where r: "r = InProgress h payload size_total"
      by (auto simp: in_progress_header_eq_Some_iff)
    show ?thesis
      using continue_spec_append [OF acc [unfolded r accept_spec_active] assms(2)]
      unfolding r accept_spec_active by blast
  next
    case False
    note start = start_spec_append [OF assms(3,2), of maxp ek h]
    note acc_eq = accept_spec_start [OF False, of m maxp ek]
    show ?thesis
    proof (cases "start_spec m maxp ek h buf")
      case (Incomplete n')
      then show ?thesis
        using acc acc_eq(1) start(3,4) by auto
    next
      case (Fatal e)
      then show ?thesis
        using acc acc_eq(2) start(2) by auto
    next
      case (Success d)
      then have "single_spec d (buf @ c) = (fst (single_spec d buf), snd (single_spec d buf) @ c)"
        using start_spec_Success [OF Success assms(2)] by (simp add: single_spec_def)
      then show ?thesis
        using acc acc_eq(3) [OF Success] acc_eq(3) [OF start(1) [OF Success, of c]]
        by (auto simp: err_msg_def split: if_splits)
    qed
  qed
  then show "\<nexists>n. oc = Incomplete n \<Longrightarrow> accept_spec m maxp ek r h (buf @ c) = (oc, r', buf' @ c)"
    and "oc = Incomplete n \<Longrightarrow> 0 < unat n"
    and "oc = Incomplete n \<Longrightarrow> length c < unat n \<Longrightarrow>
           accept_spec m maxp ek r h (buf @ c) = (Incomplete (n - of_nat (length c)), r, buf @ c)"
    by blast+
qed

text \<open>What one call can do: wait, fail without consuming anything, or consume one frame.\<close>

lemma accept_start_cases:
  assumes acc: "accept_spec m maxp ek r h buf = (oc, r', buf')" and "mfs_valid m" and idle: "in_progress_header r \<noteq> Some h"
  obtains (Incomplete) n where "oc = Incomplete n" "r' = r" "buf' = buf"
  | (Fatal) k where "oc = err_msg h k" "k \<in> {BadVarInt, ek, error_kind.InProgress}" "r' = r" "buf' = buf"
  | (Single) k payload where "oc = Success (SingleFrame payload)" "r' = r" "5 \<le> k" "k \<le> length buf"
      "k \<le> mfs_get_usize m" "buf' = drop k buf" "length payload \<le> unat maxp"
  | (New) k payload size_total where "oc = Success NewMultiFrame" "r = Ready"
      "r' = InProgress h payload size_total" "length payload < unat size_total" "size_total \<le> maxp"
      "5 \<le> k" "k \<le> length buf" "k \<le> mfs_get_usize m" "buf' = drop k buf"
proof (cases "start_spec m maxp ek h buf")
  case (Incomplete n)
  then show ?thesis
    using acc accept_spec_start(1) [OF idle] that(1) by auto
next
  case (Fatal e)
  then have "\<exists>k. oc = err_msg h k \<and> k \<in> {BadVarInt, ek} \<and> r' = r \<and> buf' = buf"
    using acc accept_spec_start(2) [OF idle]
    by (auto simp: start_spec_def err_msg_def Let_def split: outcome.splits if_splits)
  then show ?thesis
    using that(2) by blast
next
  case (Success d)
  note bounds = start_spec_Success [OF Success assms(2)]
  have len: "length (fst (single_spec d buf)) = ifd_segment_len d" "5 \<le> ifd_preamble_len d + ifd_segment_len d"
    and rest: "snd (single_spec d buf) = drop (ifd_preamble_len d + ifd_segment_len d) buf"
    using bounds by (simp_all add: single_spec_def)
  have maxp: "unat (ifd_payload_size d) \<le> unat maxp"
    using bounds(4) by (simp add: word_le_nat_alt)
  note acc' = acc [unfolded accept_spec_start(3) [OF idle Success]]
  consider "ifd_segment_len d = unat (ifd_payload_size d)"
    | "ifd_segment_len d < unat (ifd_payload_size d)" "r = Ready"
    | "ifd_segment_len d < unat (ifd_payload_size d)" "r \<noteq> Ready"
    using bounds(3) by linarith
  then show ?thesis
  proof cases
    case 1
    then show ?thesis
      using acc' bounds len rest maxp by (intro that(3)) auto
  next
    case 2
    then show ?thesis
      using acc' bounds len rest by (intro that(4)) auto
  next
    case 3
    then show ?thesis
      using acc' that(2) [of error_kind.InProgress] by auto
  qed
qed

lemma accept_spec_cases:
  assumes acc: "accept_spec m maxp ek r h buf = (oc, r', buf')" and "mfs_valid m" and "receiver_inv r"
    and "header_valid h"
  obtains (Incomplete) n where "oc = Incomplete n" "r' = r" "buf' = buf"
  | (Fatal) k where "oc = err_msg h k" "k \<in> {BadVarInt, ek, error_kind.InProgress}" "r' = r" "buf' = buf"
  | (Single) k payload where "oc = Success (SingleFrame payload)" "r' = r" "5 \<le> k" "k \<le> length buf"
      "k \<le> mfs_get_usize m" "buf' = drop k buf" "length payload \<le> unat maxp" "in_progress_header r \<noteq> Some h"
  | (New) k payload size_total where "oc = Success NewMultiFrame" "r = Ready"
      "r' = InProgress h payload size_total" "length payload < unat size_total" "size_total \<le> maxp"
      "5 \<le> k" "k \<le> length buf" "k \<le> mfs_get_usize m" "buf' = drop k buf"
  | (More) k payload payload' size_total where "oc = Success IntermediateMultiFrame"
      "r = InProgress h payload size_total" "r' = InProgress h payload' size_total"
      "length payload' < unat size_total"
      "5 \<le> k" "k \<le> length buf" "k \<le> mfs_get_usize m" "buf' = drop k buf"
  | (Done) k payload payload' size_total where "oc = Success (CompletedMultiFrame payload')"
      "r = InProgress h payload size_total" "r' = Ready" "length payload' = unat size_total"
      "5 \<le> k" "k \<le> length buf" "k \<le> mfs_get_usize m" "buf' = drop k buf"
proof (cases "in_progress_header r = Some h")
  case True
  then obtain payload size_total where r: "r = InProgress h payload size_total"
      "length payload < unat size_total"
    using assms(3) by (auto simp: in_progress_header_eq_Some_iff receiver_inv_def)
  show ?thesis
    using acc [unfolded r(1) accept_spec_active] assms(2) r(2)
  proof (cases rule: continue_spec_cases)
    case (Incomplete n)
    then show ?thesis
      using that(1) r(1) by blast
  next
    case (More seg)
    then show ?thesis
      using that(5) [of payload size_total "payload @ take seg (drop 4 buf)" "4 + seg"] r(1) by simp
  next
    case (Done seg)
    then show ?thesis
      using that(6) [of "payload @ take seg (drop 4 buf)" payload size_total "4 + seg"] r(1) by simp
  qed
next
  case False
  from acc assms(2) False show ?thesis
    by (cases rule: accept_start_cases) (use that(1-4) False in blast)+
qed

lemma accept_spec_receiver_inv [inv_intros]:
  assumes "accept_spec m maxp ek r h buf = (oc, r', buf')" and "mfs_valid m" and "receiver_inv r"
    and "header_valid h"
  shows "receiver_inv r'"
  by (cases rule: accept_spec_cases [OF assms]) (use assms(3,4) in \<open>auto simp: receiver_inv_def\<close>)

section \<open>Receiving the frames of a message\<close>

lemma start_spec_message:
  assumes "mfs_valid m" and "length pl \<le> unat maxp"
  defines "k \<equiv> mfs_get_usize m - 4 - length (leb128 (length pl))"
  shows "start_spec m maxp ek h (header_as_ref h @ leb128 (length pl) @ take k pl @ rest) =
    Success \<lparr>ifd_preamble_len = 4 + length (leb128 (length pl)), ifd_segment_len = min k (length pl),
             ifd_payload_size = of_nat (length pl)\<rparr>"
proof -
  have fits: "length pl \<le> u32_max"
    using assms(2) unat_u32_le [of maxp] by linarith
  have len: "length (leb128 (length pl)) \<le> 5"
    using length_leb128_bounds(2) [OF fits] .
  have "decode_varint32 (leb128 (length pl) @ take k pl @ rest) =
      Success \<lparr>parsed_offset = of_nat (length (leb128 (length pl))), parsed_value = of_nat (length pl)\<rparr>"
    using decode_varint32_leb128 [of "length pl"] fits by simp
  moreover have "unat (of_nat (length pl) :: u32) = length pl"
      "unat (of_nat (length (leb128 (length pl))) :: u8) = length (leb128 (length pl))"
    using fits len by (simp_all add: unat_of_nat_u32 unat_of_nat_u8)
  moreover have "min (mfs_get_usize m - (4 + length (leb128 (length pl)))) (length pl) = min k (length pl)"
    by (simp add: k_def)
  ultimately show ?thesis
    using assms(2) by (simp add: start_spec_def word_less_nat_alt not_less Let_def min.commute) linarith
qed

lemma accept_spec_single_frame [wire_simps]:
  assumes "mfs_valid m" and "length pl \<le> unat maxp" and "in_progress_header r \<noteq> Some h"
    and "length pl \<le> mfs_get_usize m - 4 - length (leb128 (length pl))"
  shows "accept_spec m maxp ek r h (header_as_ref h @ leb128 (length pl) @ pl @ rest) =
    (Success (SingleFrame pl), r, rest)"
proof -
  have "unat (of_nat (length pl) :: u32) = length pl"
    using assms(2) unat_u32_le [of maxp] by (intro unat_of_nat_u32) linarith
  then show ?thesis
    using accept_spec_start(3) [OF assms(3) start_spec_message [OF assms(1,2)], of ek rest] assms(4)
    by (simp add: single_spec_def)
qed

lemma accept_spec_first_frame [wire_simps]:
  assumes "mfs_valid m" and "length pl \<le> unat maxp"
  defines "k \<equiv> mfs_get_usize m - 4 - length (leb128 (length pl))"
  assumes "k < length pl"
  shows "accept_spec m maxp ek Ready h (header_as_ref h @ leb128 (length pl) @ take k pl @ rest) =
    (Success NewMultiFrame, InProgress h (take k pl) (of_nat (length pl)), rest)"
proof -
  have "unat (of_nat (length pl) :: u32) = length pl"
    using assms(2) unat_u32_le [of maxp] by (intro unat_of_nat_u32) linarith
  then show ?thesis
    using accept_spec_start(3) [of Ready h, OF _ start_spec_message [OF assms(1,2)], of ek rest] assms(4)
    by (simp add: single_spec_def k_def)
qed

lemma accept_spec_later_frame [wire_simps]:
  assumes "length payload < unat size_total"
    and "length seg = min (unat size_total - length payload) (mfs_get_usize m - 4)"
  shows "accept_spec m maxp ek (InProgress h payload size_total) h (header_as_ref h @ seg @ rest) =
    (if length (payload @ seg) = unat size_total
     then (Success (CompletedMultiFrame (payload @ seg)), Ready, rest)
     else (Success IntermediateMultiFrame, InProgress h (payload @ seg) size_total, rest))"
  by (simp add: accept_spec_active continue_spec_def Let_def assms(2) [symmetric] add.commute)

section \<open>Properties\<close>

text \<open>
  C24: \<^verbatim>\<open>MultiframeReceiver::accept\<close> never panics on a buffer that holds a header. It keeps the receiver's
  invariant (a transfer in progress is short of its announced size), and it either leaves receiver and
  buffer untouched, when it waits or fails, or removes one frame, no longer than the maximum frame
  size, from the front of the buffer. A new transfer never exceeds the payload limit.
\<close>

theorem accept_one_frame:
  assumes "mfs_valid m" and "receiver_inv r" and "header_valid h" and "4 \<le> length buf"
  shows "\<exists>oc r' buf'. accept r h buf m maxp ek = Some (oc, r', buf') \<and> receiver_inv r' \<and>
    (case oc of
       Incomplete n \<Rightarrow> r' = r \<and> buf' = buf \<and> 0 < unat n
     | Fatal msg \<Rightarrow> r' = r \<and> buf' = buf \<and>
         (\<exists>k \<in> {BadVarInt, ek, error_kind.InProgress}. msg = outgoing_message_new (header_with_err k h) None)
     | Success frame \<Rightarrow>
         (\<exists>k. 5 \<le> k \<and> k \<le> length buf \<and> k \<le> mfs_get_usize m \<and> buf' = drop k buf) \<and>
         (\<forall>payload. frame = SingleFrame payload \<longrightarrow> length payload \<le> unat maxp) \<and>
         (\<forall>h' payload sz. frame = NewMultiFrame \<and> r' = InProgress h' payload sz \<longrightarrow> h' = h \<and> sz \<le> maxp))"
proof -
  obtain oc r' buf' where spec: "accept_spec m maxp ek r h buf = (oc, r', buf')"
    by (metis prod_cases3)
  then have "accept r h buf m maxp ek = Some (oc, r', buf')"
    using accept_accept_spec [OF assms(1,2,4)] by simp
  moreover have "receiver_inv r'"
    using accept_spec_receiver_inv [OF spec assms(1-3)] .
  moreover note accept_spec_append(2) [OF spec assms(1,4)]
  ultimately show ?thesis
    by (cases rule: accept_spec_cases [OF spec assms(1-3)]) (auto simp: err_msg_def)
qed

theorem accept_one_frame_witness:
  "\<exists>oc r' buf'. accept Ready (header_new RequestPl (ChannelId 0) (Id 0)) [2, 0, 0, 0, 1, 42] (MaxFrameSize 10)
       5 RequestTooLarge = Some (oc, r', buf') \<and> receiver_inv r'"
  using accept_one_frame [of "MaxFrameSize 10" Ready "header_new RequestPl (ChannelId 0) (Id 0)"
      "[2, 0, 0, 0, 1, 42]" 5 RequestTooLarge]
  by (auto simp: mfs_valid_def receiver_inv_def)

text \<open>
  \<^verbatim>\<open>accept\<close> does not look beyond the frame: once it returns a result, that result is the same for every
  longer buffer, and the additional bytes stay behind. While it waits, the number it asks for is exact:
  with fewer additional bytes it asks for just the difference.
\<close>

theorem accept_growing_buffer:
  assumes "mfs_valid m" and "receiver_inv r" and "4 \<le> length buf"
    and "accept r h buf m maxp ek = Some (oc, r', buf')"
  shows "(case oc of
       Incomplete n \<Rightarrow> length extra < unat n \<longrightarrow>
         accept r h (buf @ extra) m maxp ek = Some (Incomplete (n - of_nat (length extra)), r, buf @ extra)
     | _ \<Rightarrow> accept r h (buf @ extra) m maxp ek = Some (oc, r', buf' @ extra))"
proof -
  have spec: "accept_spec m maxp ek r h buf = (oc, r', buf')"
    using accept_accept_spec [OF assms(1-3)] assms(4) by simp
  have "accept r h (buf @ extra) m maxp ek = Some (accept_spec m maxp ek r h (buf @ extra))"
    using accept_accept_spec [OF assms(1,2), of "buf @ extra"] assms(3) by simp
  then show ?thesis
    using accept_spec_append [OF spec assms(1,3)] by (cases oc) auto
qed

theorem accept_growing_buffer_witness:
  "accept Ready (header_new RequestPl (ChannelId 0) (Id 0)) ([2, 0, 0, 0, 3, 42] @ [43]) (MaxFrameSize 10)
     5 RequestTooLarge = Some (Incomplete 1, Ready, [2, 0, 0, 0, 3, 42, 43])"
proof -
  have "accept Ready (header_new RequestPl (ChannelId 0) (Id 0)) [2, 0, 0, 0, 3, 42] (MaxFrameSize 10)
     5 RequestTooLarge = Some (Incomplete 2, Ready, [2, 0, 0, 0, 3, 42])"
    using decode_varint32_leb128 [of 3 "[42]"]
    by (simp add: accept_def detect_starting_segment_def header_SIZE_def leb128_small
        outcome_incomplete_def word_less_nat_alt unat_of_nat Let_def)
  then show ?thesis
    using accept_growing_buffer [of "MaxFrameSize 10" Ready "[2, 0, 0, 0, 3, 42]"
        "header_new RequestPl (ChannelId 0) (Id 0)" 5 RequestTooLarge "Incomplete 2" Ready
        "[2, 0, 0, 0, 3, 42]" "[43]"]
    by (simp add: mfs_valid_def receiver_inv_def)
qed

end
