(* ===== verification/Channel.thy ===== *)
theory Channel
  imports Multiframe
begin

text \<open>
  The per-channel state of \<^verbatim>\<open>src/src/protocol.rs\<close> (\<^verbatim>\<open>Channel\<close>): the request sets of both directions, the
  multi-frame receiver, the cancellation allowance, and the generator of request identifiers; with the
  constructors of unchecked messages. The invariant \<open>channel_inv\<close> bounds everything the peer can make
  the channel hold.
\<close>

section \<open>Definitions\<close>

record channel =
  incoming_requests :: "msg_id set"
  outgoing_requests :: "msg_id set"
  current_multiframe_receiver :: multiframe_receiver
  cancellation_allowance :: u16
  config :: channel_configuration
  prev_request_id :: u16

definition channel_new :: "channel_configuration \<Rightarrow> channel" where
  "channel_new cfg =
     \<lparr>incoming_requests = {}, outgoing_requests = {}, current_multiframe_receiver = Ready,
      cancellation_allowance = 0, config = cfg, prev_request_id = 0\<rparr>"

definition is_at_max_incoming_requests :: "channel \<Rightarrow> bool" where
  "is_at_max_incoming_requests self =
     (unat (request_limit (config self)) \<le> card (incoming_requests self))"

definition increment_cancellation_allowance :: "channel \<Rightarrow> channel" where
  "increment_cancellation_allowance self =
     (if cancellation_allowance self < request_limit (config self)
      then self\<lparr>cancellation_allowance := cancellation_allowance self + 1\<rparr>
      else self)"

text \<open>
  The search loop of \<^verbatim>\<open>generate_request_id\<close>. It would not end if every identifier were in use, so it is
  a partial function; \<open>unused_id_spec\<close> shows that it ends whenever an identifier is free.
\<close>

partial_function (option) next_unused_id :: "msg_id set \<Rightarrow> msg_id \<Rightarrow> msg_id option" where
  "next_unused_id used candidate =
     (if candidate \<in> used then next_unused_id used (Id (id_get candidate + 1)) else Some candidate)"

definition generate_request_id :: "channel \<Rightarrow> (msg_id option \<times> channel) option" where
  "generate_request_id self =
     (if card (outgoing_requests self) = 65535 then Some (None, self)
      else do { candidate \<leftarrow> next_unused_id (outgoing_requests self) (Id (prev_request_id self + 1));
                Some (Some candidate, self\<lparr>prev_request_id := id_get candidate\<rparr>) })"

definition channel_allowed_to_send_request :: "channel \<Rightarrow> bool" where
  "channel_allowed_to_send_request self =
     (card (outgoing_requests self) < unat (request_limit (config self)))"

definition channel_request_limit :: "channel \<Rightarrow> u16" where
  "channel_request_limit self = request_limit (config self)"

definition create_unchecked_request ::
  "channel_id \<Rightarrow> bytes option \<Rightarrow> channel \<Rightarrow> (outgoing_message \<times> channel) option" where
  "create_unchecked_request ch payload self =
     do { (generated, self) \<leftarrow> generate_request_id self;
          let i = (case generated of Some i \<Rightarrow> i | None \<Rightarrow> Id 0);
          let self = self\<lparr>outgoing_requests := insert i (outgoing_requests self)\<rparr>;
          Some (case payload of
                  Some payload \<Rightarrow> outgoing_message_new (header_new RequestPl ch i) (Some payload)
                | None \<Rightarrow> outgoing_message_new (header_new Request ch i) None,
                self) }"

definition create_unchecked_response ::
  "channel_id \<Rightarrow> msg_id \<Rightarrow> bytes option \<Rightarrow> outgoing_message" where
  "create_unchecked_response ch i payload =
     (case payload of
        Some payload \<Rightarrow> outgoing_message_new (header_new ResponsePl ch i) (Some payload)
      | None \<Rightarrow> outgoing_message_new (header_new Response ch i) None)"

definition create_unchecked_request_cancellation :: "channel_id \<Rightarrow> msg_id \<Rightarrow> outgoing_message" where
  "create_unchecked_request_cancellation ch i =
     outgoing_message_new (header_new CancelReq ch i) None"

definition create_unchecked_response_cancellation :: "channel_id \<Rightarrow> msg_id \<Rightarrow> outgoing_message" where
  "create_unchecked_response_cancellation ch i =
     outgoing_message_new (header_new CancelResp ch i) None"

section \<open>Invariant\<close>

text \<open>
  A transfer in progress is that of a request or of a response, and its announced size respects the
  limit of its kind.
\<close>

definition transfer_inv :: "channel_configuration \<Rightarrow> multiframe_receiver \<Rightarrow> bool" where
  "transfer_inv cfg r = (receiver_inv r \<and> (case r of
       Ready \<Rightarrow> True
     | InProgress h payload sz \<Rightarrow> \<not> header_is_error h \<and>
         (header_kind h = Some RequestPl \<and> sz \<le> max_request_payload_size cfg \<or>
          header_kind h = Some ResponsePl \<and> sz \<le> max_response_payload_size cfg)))"

definition channel_inv :: "channel \<Rightarrow> bool" where
  "channel_inv c =
     (card (incoming_requests c) \<le> unat (request_limit (config c)) \<and>
      card (outgoing_requests c) \<le> unat (request_limit (config c)) \<and>
      cancellation_allowance c \<le> request_limit (config c) \<and>
      transfer_inv (config c) (current_multiframe_receiver c))"

lemma channel_new_inv [inv_intros]: "channel_inv (channel_new cfg)"
  by (simp add: channel_inv_def channel_new_def transfer_inv_def receiver_inv_def)

section \<open>Request identifiers\<close>

lemma unused_id_first:
  assumes "Id (c + of_nat k) \<notin> used" and "\<forall>j < k. Id (c + of_nat j) \<in> used"
  shows "next_unused_id used (Id c) = Some (Id (c + of_nat k))"
  using assms
proof (induction k arbitrary: c)
  case 0
  then show ?case
    by (subst next_unused_id.simps) simp
next
  case (Suc k)
  have "Id (c + 1 + of_nat j) \<in> used" if "j < k" for j
    using Suc.prems(2) [rule_format, of "Suc j"] that by (simp add: algebra_simps)
  moreover have "Id (c + 1 + of_nat k) \<notin> used"
    using Suc.prems(1) by (simp add: algebra_simps)
  ultimately have "next_unused_id used (Id (c + 1)) = Some (Id (c + 1 + of_nat k))"
    using Suc.IH by blast
  moreover have "Id c \<in> used"
    using Suc.prems(2) [rule_format, of 0] by simp
  ultimately show ?case
    by (subst next_unused_id.simps) (simp add: algebra_simps)
qed

lemma unused_id_spec:
  assumes "used \<noteq> UNIV"
  shows "\<exists>k. next_unused_id used (Id c) = Some (Id (c + of_nat k)) \<and> Id (c + of_nat k) \<notin> used
           \<and> (\<forall>j < k. Id (c + of_nat j) \<in> used)"
proof -
  obtain i where "Id i \<notin> used"
    using assms by (metis UNIV_eq_I msg_id.exhaust)
  then have "Id (c + of_nat (unat (i - c))) \<notin> used"
    by simp
  then obtain k where k: "Id (c + of_nat k) \<notin> used" "\<forall>j < k. Id (c + of_nat j) \<in> used"
    using exists_least_iff [of "\<lambda>k. Id (c + of_nat k) \<notin> used"] by blast
  then show ?thesis
    using unused_id_first by blast
qed

lemma card_less_not_UNIV: "card (s :: msg_id set) < 65536 \<Longrightarrow> s \<noteq> UNIV"
  using card_msg_id by auto

lemma generate_request_id_free:
  assumes "card (outgoing_requests c) < 65535"
  shows "\<exists>i. generate_request_id c = Some (Some i, c\<lparr>prev_request_id := id_get i\<rparr>) \<and> i \<notin> outgoing_requests c"
  using unused_id_spec [OF card_less_not_UNIV, of "outgoing_requests c" "prev_request_id c + 1"] assms
  by (auto simp: generate_request_id_def)

lemma create_unchecked_request_fresh:
  assumes "card (outgoing_requests c) < 65535"
  shows "\<exists>i. i \<notin> outgoing_requests c \<and> create_unchecked_request ch payload c = Some
    (outgoing_message_new (header_new (if payload = None then Request else RequestPl) ch i) payload,
     c\<lparr>prev_request_id := id_get i, outgoing_requests := insert i (outgoing_requests c)\<rparr>)"
  using generate_request_id_free [OF assms]
  by (auto simp: create_unchecked_request_def split: option.splits)

lemma unat_u16_less: "unat (x :: u16) < 65536"
  using unsigned_less [of x, where ?'a = nat] by simp

lemma allowed_to_send_room:
  "channel_allowed_to_send_request c \<Longrightarrow> card (outgoing_requests c) < 65535"
  using unat_u16_less [of "request_limit (config c)"]
  by (simp add: channel_allowed_to_send_request_def)

section \<open>Operations keep the invariant\<close>

lemma increment_allowance_frame [simp]:
  "incoming_requests (increment_cancellation_allowance c) = incoming_requests c"
  "outgoing_requests (increment_cancellation_allowance c) = outgoing_requests c"
  "current_multiframe_receiver (increment_cancellation_allowance c) = current_multiframe_receiver c"
  "config (increment_cancellation_allowance c) = config c"
  "prev_request_id (increment_cancellation_allowance c) = prev_request_id c"
  by (simp_all add: increment_cancellation_allowance_def)

lemma unat_plus_1_u16: "(a :: u16) < b \<Longrightarrow> unat (a + 1) = unat a + 1"
  using unat_u16_less [of b] by (simp add: unat_word_ariths word_less_nat_alt)

lemma unat_increment_allowance:
  assumes "cancellation_allowance c \<le> request_limit (config c)"
  shows "unat (cancellation_allowance (increment_cancellation_allowance c))
    = min (unat (cancellation_allowance c) + 1) (unat (request_limit (config c)))"
  using assms unat_plus_1_u16 [of "cancellation_allowance c" "request_limit (config c)"]
  by (auto simp: increment_cancellation_allowance_def word_less_nat_alt word_le_nat_alt)

lemma increment_allowance_le:
  assumes "cancellation_allowance c \<le> request_limit (config c)"
  shows "cancellation_allowance (increment_cancellation_allowance c) \<le> request_limit (config c)"
  using unat_increment_allowance [OF assms] by (simp add: word_le_nat_alt)

lemma card_remove_le: "card (s - {i}) \<le> card s"
  by (simp add: card_Diff1_le)

lemma channel_inv_simps:
  "channel_inv (c\<lparr>prev_request_id := i\<rparr>) = channel_inv c"
  by (simp add: channel_inv_def)

lemma channel_inv_remove_incoming [inv_intros]:
  "channel_inv c \<Longrightarrow> channel_inv (c\<lparr>incoming_requests := incoming_requests c - {i}\<rparr>)"
  using card_remove_le [of "incoming_requests c" i] by (simp add: channel_inv_def)

lemma channel_inv_remove_outgoing [inv_intros]:
  "channel_inv c \<Longrightarrow> channel_inv (c\<lparr>outgoing_requests := outgoing_requests c - {i}\<rparr>)"
  using card_remove_le [of "outgoing_requests c" i] by (simp add: channel_inv_def)

lemma channel_inv_add_outgoing [inv_intros]:
  "channel_inv c \<Longrightarrow> channel_allowed_to_send_request c \<Longrightarrow>
     channel_inv (c\<lparr>outgoing_requests := insert i (outgoing_requests c)\<rparr>)"
  using card_insert_le_m1 [of "unat (request_limit (config c))" "outgoing_requests c" i]
  by (auto simp: channel_inv_def channel_allowed_to_send_request_def card_insert_if)

lemma channel_inv_add_incoming [inv_intros]:
  "channel_inv c \<Longrightarrow> \<not> is_at_max_incoming_requests c \<Longrightarrow> channel_inv
     (increment_cancellation_allowance (c\<lparr>incoming_requests := insert i (incoming_requests c)\<rparr>))"
  using increment_allowance_le [of "c\<lparr>incoming_requests := insert i (incoming_requests c)\<rparr>"]
  by (auto simp: channel_inv_def is_at_max_incoming_requests_def card_insert_if)

lemma channel_inv_receiver [inv_intros]:
  "channel_inv c \<Longrightarrow> transfer_inv (config c) r \<Longrightarrow> channel_inv (c\<lparr>current_multiframe_receiver := r\<rparr>)"
  by (simp add: channel_inv_def)

lemma channel_inv_decrement_allowance [inv_intros]:
  assumes "channel_inv c" and "cancellation_allowance c \<noteq> 0"
  shows "channel_inv (c\<lparr>cancellation_allowance := cancellation_allowance c - 1\<rparr>)"
proof -
  have "unat (cancellation_allowance c - 1) \<le> unat (cancellation_allowance c)"
    using assms(2) by (simp add: unat_minus_one)
  then show ?thesis
    using assms(1) by (simp add: channel_inv_def word_le_nat_alt)
qed

lemma transfer_inv_accept:
  assumes "accept_spec m maxp ek r h buf = (oc, r', buf')" and "mfs_valid m" and "transfer_inv cfg r"
    and "header_valid h" and "\<not> header_is_error h"
    and "header_kind h = Some RequestPl \<and> maxp = max_request_payload_size cfg \<or>
         header_kind h = Some ResponsePl \<and> maxp = max_response_payload_size cfg"
  shows "transfer_inv cfg r'"
proof -
  have r: "receiver_inv r"
    using assms(3) by (simp add: transfer_inv_def)
  have "receiver_inv r'"
    using accept_spec_receiver_inv [OF assms(1,2) r assms(4)] .
  then show ?thesis
    by (cases rule: accept_spec_cases [OF assms(1,2) r assms(4)])
       (use assms(3-6) in \<open>auto simp: transfer_inv_def\<close>)
qed

end
