(* ===== verification/Stream_Parser.thy ===== *)
theory Stream_Parser
  imports Core_Types
begin

text \<open>
  Contracts of incremental parsers over a growing byte buffer. A \<open>stream_parser\<close> returns an outcome, its
  new state and the unread rest of the buffer. What it decides must not depend on bytes it has not seen,
  and while it waits, the hint it gives must be exact. A \<open>frame_loop\<close> is a parser built as a loop over
  single frames; it gives a \<open>stream_parser\<close>. From the contract alone follows that the way a byte stream is
  cut into reads has no influence on the sequence of results.
\<close>

section \<open>Clients\<close>

text \<open>Call the parser until it waits (\<^const>\<open>Inl\<close> with the hint) or fails (\<^const>\<open>Inr\<close>).\<close>

partial_function (option) drain ::
  "('s \<Rightarrow> bytes \<Rightarrow> (('a, 'e) outcome \<times> 's \<times> bytes) option) \<Rightarrow> 's \<Rightarrow> bytes
   \<Rightarrow> ('a list \<times> (u32 + 'e) \<times> 's \<times> bytes) option" where
  "drain parse s b =
     do { (oc, s, b) \<leftarrow> parse s b;
          case oc of
            Incomplete n \<Rightarrow> Some ([], Inl n, s, b)
          | Fatal e \<Rightarrow> Some ([], Inr e, s, b)
          | Success v \<Rightarrow> do { (vs, st, s, b) \<leftarrow> drain parse s b; Some (v # vs, st, s, b) } }"

text \<open>Drain, append the next piece of input, and so on; a failure ends the session.\<close>

fun feed ::
  "('s \<Rightarrow> bytes \<Rightarrow> (('a, 'e) outcome \<times> 's \<times> bytes) option) \<Rightarrow> bytes list \<Rightarrow> 's \<Rightarrow> bytes
   \<Rightarrow> ('a list \<times> (u32 + 'e) \<times> 's \<times> bytes) option" where
  "feed parse [] s b = drain parse s b"
| "feed parse (c # cs) s b =
     do { (vs, st, s, b) \<leftarrow> drain parse s b;
          case st of
            Inr e \<Rightarrow> Some (vs, st, s, b)
          | Inl n \<Rightarrow> do { (ws, st, s, b) \<leftarrow> feed parse cs s (b @ c); Some (vs @ ws, st, s, b) } }"

section \<open>Parsers\<close>

locale stream_parser =
  fixes parse :: "'s \<Rightarrow> bytes \<Rightarrow> (('a, 'e) outcome \<times> 's \<times> bytes) option"
    and inv :: "'s \<Rightarrow> bool"
  assumes parse_total: "inv s \<Longrightarrow> \<exists>oc s' b'. parse s b = Some (oc, s', b') \<and> inv s'"
    and parse_settled: "inv s \<Longrightarrow> parse s b = Some (oc, s', b') \<Longrightarrow> \<nexists>n. oc = Incomplete n \<Longrightarrow>
          parse s (b @ c) = Some (oc, s', b' @ c)"
    and parse_resume: "inv s \<Longrightarrow> parse s b = Some (Incomplete n, s', b') \<Longrightarrow>
          parse s (b @ c) = parse s' (b' @ c)"
    and parse_hint: "inv s \<Longrightarrow> parse s b = Some (Incomplete n, s', b') \<Longrightarrow> 0 < unat n
          \<and> (length c < unat n \<longrightarrow>
             parse s (b @ c) = Some (Incomplete (n - of_nat (length c)), s', b' @ c))"
    and parse_progress: "inv s \<Longrightarrow> parse s b = Some (Success v, s', b') \<Longrightarrow> length b' < length b"
begin

lemma drain_total:
  "inv s \<Longrightarrow> \<exists>vs st s' b'. drain parse s b = Some (vs, st, s', b') \<and> inv s'"
proof (induction "length b" arbitrary: s b rule: less_induct)
  case less
  obtain oc s' b' where p: "parse s b = Some (oc, s', b')" "inv s'"
    using parse_total [OF less.prems] by blast
  show ?case
  proof (cases oc)
    case (Success v)
    then have "length b' < length b"
      using parse_progress [OF less.prems] p by blast
    then show ?thesis
      using less.hyps [OF _ p(2)] p(1) Success by (subst drain.simps) fastforce
  qed (use p in \<open>subst drain.simps; simp\<close>)+
qed

text \<open>Draining a prefix of the input, then the rest, gives the results of draining it all.\<close>

lemma drain_append:
  assumes "inv s" and "drain parse s b = Some (vs, st, s', b')"
  shows "drain parse s (b @ c) =
    (case st of
       Inr e \<Rightarrow> Some (vs, st, s', b' @ c)
     | Inl n \<Rightarrow> do { (ws, st, t, b) \<leftarrow> drain parse s' (b' @ c); Some (vs @ ws, st, t, b) })"
  using assms
proof (induction "length b" arbitrary: s b vs rule: less_induct)
  case less
  obtain oc t d where p: "parse s b = Some (oc, t, d)" "inv t"
    using parse_total [OF less.prems(1)] by blast
  show ?case
  proof (cases oc)
    case (Incomplete n)
    then have "vs = []" "st = Inl n" "s' = t" "b' = d"
      using less.prems(2) p by (simp_all add: drain.simps [of _ s b])
    moreover have "drain parse s (b @ c) = drain parse t (d @ c)"
      using parse_resume [OF less.prems(1)] p Incomplete
      by (simp add: drain.simps [of _ s "b @ c"] drain.simps [of _ t "d @ c"])
    ultimately show ?thesis
      by (cases "drain parse t (d @ c)") auto
  next
    case (Fatal e)
    then show ?thesis
      using less.prems(2) p parse_settled [OF less.prems(1) p(1), of c]
      by (auto simp: drain.simps [of _ s])
  next
    case (Success v)
    then have shorter: "length d < length b"
      using parse_progress [OF less.prems(1)] p by blast
    obtain ws where ws: "drain parse t d = Some (ws, st, s', b')" "vs = v # ws"
      using less.prems(2) p Success by (auto simp: drain.simps [of _ s b] bind_eq_Some_conv)
    show ?thesis
      using less.hyps [OF shorter p(2) ws(1)] parse_settled [OF less.prems(1) p(1), of c] Success ws(2)
      by (simp add: drain.simps [of _ s "b @ c"] split: sum.splits)
         (cases "drain parse s' (b' @ c)"; auto)
  qed
qed

lemma feed_drain:
  assumes "inv s"
  shows "\<exists>vs st s' b' unread. feed parse cs s b = Some (vs, st, s', b')
    \<and> drain parse s (b @ concat cs) = Some (vs, st, s', b' @ unread)
    \<and> inv s' \<and> (\<forall>n. st = Inl n \<longrightarrow> unread = [])"
  using assms
proof (induction cs arbitrary: s b)
  case Nil
  then show ?case
    using drain_total [OF Nil] by fastforce
next
  case (Cons c cs)
  obtain vs st t d where d: "drain parse s b = Some (vs, st, t, d)" "inv t"
    using drain_total [OF Cons.prems] by blast
  note app = drain_append [OF Cons.prems d(1), of "c @ concat cs"]
  show ?case
  proof (cases st)
    case (Inl n)
    obtain ws st' s' b' unread where ws: "feed parse cs t (d @ c) = Some (ws, st', s', b')"
      "drain parse t ((d @ c) @ concat cs) = Some (ws, st', s', b' @ unread)" "inv s'"
      "\<forall>n. st' = Inl n \<longrightarrow> unread = []"
      using Cons.IH [OF d(2), of "d @ c"] by blast
    have "drain parse s (b @ concat (c # cs)) = Some (vs @ ws, st', s', b' @ unread)"
      using app Inl ws(2) by simp
    then show ?thesis
      using d(1) Inl ws by auto
  next
    case (Inr e)
    then show ?thesis
      using d app by auto
  qed
qed

end

section \<open>Loops over frames\<close>

locale frame_loop =
  fixes step :: "'s \<Rightarrow> bytes \<Rightarrow> (('a, 'e) outcome option \<times> 's \<times> bytes) option"
    and run :: "'s \<Rightarrow> bytes \<Rightarrow> (('a, 'e) outcome \<times> 's \<times> bytes) option"
    and inv :: "'s \<Rightarrow> bool"
  assumes step_total: "inv s \<Longrightarrow> \<exists>flow s' b'. step s b = Some (flow, s', b') \<and> inv s'"
    and step_settled: "inv s \<Longrightarrow> step s b = Some (flow, s', b') \<Longrightarrow> \<nexists>n. flow = Some (Incomplete n) \<Longrightarrow>
          step s (b @ c) = Some (flow, s', b' @ c)"
    and step_waiting: "inv s \<Longrightarrow> step s b = Some (Some (Incomplete n), s', b') \<Longrightarrow>
          s' = s \<and> b' = b \<and> 0 < unat n \<and> (length c < unat n \<longrightarrow>
            step s (b @ c) = Some (Some (Incomplete (n - of_nat (length c))), s, b @ c))"
    and step_progress: "inv s \<Longrightarrow> step s b = Some (flow, s', b') \<Longrightarrow>
          flow = None \<or> flow = Some (Success v) \<Longrightarrow> length b' < length b"
    and run_unfold: "run s b =
          do { (flow, s, b) \<leftarrow> step s b; case flow of Some oc \<Rightarrow> Some (oc, s, b) | None \<Rightarrow> run s b }"
begin

lemma run_laws:
  assumes "inv s"
  shows "\<exists>oc s' b'. run s b = Some (oc, s', b') \<and> inv s'
    \<and> (\<forall>v. oc = Success v \<longrightarrow> length b' < length b)
    \<and> (case oc of
         Incomplete n \<Rightarrow> 0 < unat n \<and> (\<forall>c. run s (b @ c) = run s' (b' @ c)
           \<and> (length c < unat n \<longrightarrow> run s (b @ c) = Some (Incomplete (n - of_nat (length c)), s', b' @ c)))
       | _ \<Rightarrow> (\<forall>c. run s (b @ c) = Some (oc, s', b' @ c)))"
  using assms
proof (induction "length b" arbitrary: s b rule: less_induct)
  case less
  obtain flow t d where st: "step s b = Some (flow, t, d)" "inv t"
    using step_total [OF less.prems] by blast
  show ?case
  proof (cases flow)
    case None
    then have shorter: "length d < length b"
      using step_progress [OF less.prems st(1)] by blast
    have eqs: "run s b = run t d" "\<And>c. run s (b @ c) = run t (d @ c)"
      using st(1) step_settled [OF less.prems st(1)] None by (simp_all add: run_unfold [of s])
    obtain oc s' b' where ih: "run t d = Some (oc, s', b')" "inv s'"
      "\<forall>v. oc = Success v \<longrightarrow> length b' < length d"
      "case oc of
         Incomplete n \<Rightarrow> 0 < unat n \<and> (\<forall>c. run t (d @ c) = run s' (b' @ c)
           \<and> (length c < unat n \<longrightarrow> run t (d @ c) = Some (Incomplete (n - of_nat (length c)), s', b' @ c)))
       | _ \<Rightarrow> (\<forall>c. run t (d @ c) = Some (oc, s', b' @ c))"
      using less.hyps [OF shorter st(2)] by blast
    show ?thesis
      unfolding eqs by (intro exI conjI) (use ih shorter in auto)
  next
    case (Some oc)
    have run_s: "run s b = Some (oc, t, d)"
      using st(1) Some by (simp add: run_unfold [of s])
    show ?thesis
    proof (cases oc)
      case (Incomplete n)
      then have w: "t = s" "d = b" "0 < unat n"
        "length c < unat n \<Longrightarrow> step s (b @ c) = Some (Some (Incomplete (n - of_nat (length c))), s, b @ c)"
        for c
        using step_waiting [OF less.prems] st(1) Some by blast+
      then show ?thesis
        using run_s st(2) Incomplete by (simp add: run_unfold [of s "b @ _"])
    next
      case (Fatal e)
      then show ?thesis
        using run_s st step_settled [OF less.prems st(1)] Some by (simp add: run_unfold [of s "b @ _"])
    next
      case (Success v)
      then show ?thesis
        using run_s st step_settled [OF less.prems st(1)] Some step_progress [OF less.prems st(1), of v]
        by (simp add: run_unfold [of s "b @ _"])
    qed
  qed
qed

text \<open>A relation between the states before and after the loop, step by step.\<close>

lemma run_induct:
  assumes "run s b = Some (oc, t, d)" and "inv s"
    and last: "\<And>s b oc t d. inv s \<Longrightarrow> step s b = Some (Some oc, t, d) \<Longrightarrow> P s oc t"
    and more: "\<And>s b s' b' oc t. inv s \<Longrightarrow> step s b = Some (None, s', b') \<Longrightarrow> inv s' \<Longrightarrow> P s' oc t \<Longrightarrow> P s oc t"
  shows "P s oc t"
  using assms(1,2)
proof (induction "length b" arbitrary: s b rule: less_induct)
  case less
  obtain flow s' b' where st: "step s b = Some (flow, s', b')" "inv s'"
    using step_total [OF less.prems(2)] by blast
  show ?case
  proof (cases flow)
    case None
    then have "run s' b' = Some (oc, t, d)" "length b' < length b"
      using less.prems st step_progress [OF less.prems(2) st(1)] by (simp_all add: run_unfold [of s])
    then show ?thesis
      using less.hyps st more [OF less.prems(2)] None by blast
  next
    case (Some oc')
    then show ?thesis
      using less.prems st last [OF less.prems(2)] by (auto simp: run_unfold [of s])
  qed
qed

text \<open>Where the loop waits, the frame at the start of what is left is incomplete; nothing is ever put back.\<close>

lemma run_waiting:
  assumes "run s b = Some (Incomplete n, t, d)" and "inv s"
  shows "step t d = Some (Some (Incomplete n), t, d) \<and> inv t \<and> length d \<le> length b"
  using assms
proof (induction "length b" arbitrary: s b rule: less_induct)
  case less
  obtain flow s' b' where st: "step s b = Some (flow, s', b')" "inv s'"
    using step_total [OF less.prems(2)] by blast
  show ?case
  proof (cases flow)
    case None
    then have "run s' b' = Some (Incomplete n, t, d)" "length b' < length b"
      using less.prems st step_progress [OF less.prems(2) st(1)] by (simp_all add: run_unfold [of s])
    then show ?thesis
      using less.hyps [of b' s'] st(2) by auto
  next
    case (Some oc)
    then have "oc = Incomplete n" "s' = t" "b' = d"
      using less.prems(1) st(1) by (simp_all add: run_unfold [of s])
    then show ?thesis
      using step_waiting [OF less.prems(2), of b n s' b' "[]"] st Some less.prems(2) by auto
  qed
qed

lemma run_progress:
  assumes "run s b = Some (Incomplete n, t, b)" and "inv s"
  shows "step s b = Some (Some (Incomplete n), s, b)"
proof -
  obtain flow s' b' where st: "step s b = Some (flow, s', b')" "inv s'"
    using step_total [OF assms(2)] by blast
  show ?thesis
  proof (cases flow)
    case None
    then have "run s' b' = Some (Incomplete n, t, b)" "length b' < length b"
      using assms st step_progress [OF assms(2) st(1)] by (simp_all add: run_unfold [of s])
    then show ?thesis
      using run_waiting [OF _ st(2)] by fastforce
  next
    case (Some oc)
    then show ?thesis
      using assms st step_waiting [OF assms(2), of b n s' b' "[]"] by (auto simp: run_unfold [of s])
  qed
qed

end

sublocale frame_loop \<subseteq> looped: stream_parser run inv
proof
  fix s b oc s' b' c n v
  assume inv: "inv s"
  note laws = run_laws [OF inv, of b]
  show "\<exists>oc s' b'. run s b = Some (oc, s', b') \<and> inv s'"
    using laws by blast
  show "run s (b @ c) = Some (oc, s', b' @ c)" if "run s b = Some (oc, s', b')" "\<nexists>n. oc = Incomplete n"
    using laws that by (cases oc) auto
  show "run s (b @ c) = run s' (b' @ c)" if "run s b = Some (Incomplete n, s', b')"
    using laws that by auto
  show "0 < unat n \<and> (length c < unat n \<longrightarrow>
      run s (b @ c) = Some (Incomplete (n - of_nat (length c)), s', b' @ c))"
    if "run s b = Some (Incomplete n, s', b')"
    using laws that by auto
  show "length b' < length b" if "run s b = Some (Success v, s', b')"
    using laws that by auto
qed

end
