(* ===== verification/Protocol.thy ===== *)
theory Protocol
  imports Channel Stream_Parser
begin

text \<open>
  \<^verbatim>\<open>src/src/protocol.rs\<close>: the protocol state machine \<^verbatim>\<open>JulietProtocol\<close>, its builder, the operations that
  create outgoing messages, and the parser \<^verbatim>\<open>process_incoming\<close>. The state is the list of channels (its
  length is the const parameter \<^verbatim>\<open>N\<close>) and the maximum frame size; the receive buffer is passed along.
  One iteration of the parser's \<^verbatim>\<open>loop\<close> is \<open>process_frame\<close>, which dispatches to one definition per arm of
  the \<^verbatim>\<open>match\<close>; its result \<open>None\<close> continues the loop, \<open>Some oc\<close> leaves it.
\<close>

section \<open>Configuration and construction\<close>

definition UNKNOWN_CHANNEL :: channel_id where
  "UNKNOWN_CHANNEL = ChannelId 0"

definition UNKNOWN_ID :: msg_id where
  "UNKNOWN_ID = Id 0"

record juliet_protocol =
  channels :: "channel list"
  max_frame_size :: max_frame_size

record protocol_builder =
  pb_channel_config :: "channel_configuration list"
  pb_max_frame_size :: max_frame_size

definition builder_with_default_channel_config ::
  "nat \<Rightarrow> channel_configuration \<Rightarrow> protocol_builder" where
  "builder_with_default_channel_config n cfg =
     \<lparr>pb_channel_config = replicate n cfg, pb_max_frame_size = mfs_DEFAULT\<rparr>"

definition builder_new :: "nat \<Rightarrow> protocol_builder" where
  "builder_new n = builder_with_default_channel_config n channel_configuration_new"

definition builder_channel_config ::
  "channel_id \<Rightarrow> channel_configuration \<Rightarrow> protocol_builder \<Rightarrow> protocol_builder option" where
  "builder_channel_config ch cfg self =
     do { rust_assert (unat (channel_get ch) < length (pb_channel_config self));
          Some (self\<lparr>pb_channel_config := (pb_channel_config self)[unat (channel_get ch) := cfg]\<rparr>) }"

definition builder_build :: "protocol_builder \<Rightarrow> juliet_protocol" where
  "builder_build self =
     \<lparr>channels = map channel_new (pb_channel_config self), max_frame_size = pb_max_frame_size self\<rparr>"

definition builder_max_frame_size :: "u32 \<Rightarrow> protocol_builder \<Rightarrow> protocol_builder option" where
  "builder_max_frame_size n self =
     do { m \<leftarrow> mfs_new n; Some (self\<lparr>pb_max_frame_size := m\<rparr>) }"

definition juliet_protocol_builder :: "nat \<Rightarrow> channel_configuration \<Rightarrow> protocol_builder" where
  "juliet_protocol_builder n cfg =
     \<lparr>pb_channel_config = replicate n cfg, pb_max_frame_size = mfs_DEFAULT\<rparr>"

section \<open>Creating messages\<close>

datatype completed_read =
    ErrorReceived header "bytes option"
  | NewRequest channel_id msg_id "bytes option"
  | ReceivedResponse channel_id msg_id "bytes option"
  | RequestCancellation channel_id msg_id
  | ResponseCancellation channel_id msg_id

datatype local_protocol_violation =
    WouldExceedRequestLimit u16
  | InvalidChannel channel_id nat
  | PayloadExceedsLimit nat nat
  | ErrorPayloadIsMultiFrame nat u32

text \<open>
  The methods return a \<^verbatim>\<open>Result\<close>, here a sum with the violation on the left, and the updated protocol.
  The outer option is the panic.
\<close>

definition lookup_channel :: "juliet_protocol \<Rightarrow> channel_id \<Rightarrow> local_protocol_violation + channel" where
  "lookup_channel self ch =
     (if length (channels self) \<le> unat (channel_get ch)
      then Inl (InvalidChannel ch (length (channels self)))
      else Inr (channels self ! unat (channel_get ch)))"

text \<open>
  \<^verbatim>\<open>lookup_channel_mut\<close> hands out a mutable reference: a modified channel is written back to its place.
\<close>

definition put_channel :: "channel_id \<Rightarrow> channel \<Rightarrow> juliet_protocol \<Rightarrow> juliet_protocol" where
  "put_channel ch chan self = self\<lparr>channels := (channels self)[unat (channel_get ch) := chan]\<rparr>"

definition protocol_allowed_to_send_request ::
  "juliet_protocol \<Rightarrow> channel_id \<Rightarrow> local_protocol_violation + bool" where
  "protocol_allowed_to_send_request self ch =
     (case lookup_channel self ch of
        Inl e \<Rightarrow> Inl e
      | Inr chan \<Rightarrow> Inr (channel_allowed_to_send_request chan))"

definition create_request ::
  "channel_id \<Rightarrow> bytes option \<Rightarrow> juliet_protocol
   \<Rightarrow> ((local_protocol_violation + outgoing_message) \<times> juliet_protocol) option" where
  "create_request ch payload self =
     (case lookup_channel self ch of
        Inl e \<Rightarrow> Some (Inl e, self)
      | Inr chan \<Rightarrow>
          if (case payload of
                Some payload \<Rightarrow> unat (max_request_payload_size (config chan)) < length payload
              | None \<Rightarrow> False)
          then Some (Inl (PayloadExceedsLimit (length (the payload))
                       (unat (max_request_payload_size (config chan)))), self)
          else if \<not> channel_allowed_to_send_request chan
          then Some (Inl (WouldExceedRequestLimit (channel_request_limit chan)), self)
          else do { (msg, chan) \<leftarrow> create_unchecked_request ch payload chan;
                    Some (Inr msg, put_channel ch chan self) })"

definition create_response ::
  "channel_id \<Rightarrow> msg_id \<Rightarrow> bytes option \<Rightarrow> juliet_protocol
   \<Rightarrow> (local_protocol_violation + outgoing_message option) \<times> juliet_protocol" where
  "create_response ch i payload self =
     (case lookup_channel self ch of
        Inl e \<Rightarrow> (Inl e, self)
      | Inr chan \<Rightarrow>
          if i \<notin> incoming_requests chan then (Inr None, self)
          else let self = put_channel ch
                     (chan\<lparr>incoming_requests := incoming_requests chan - {i}\<rparr>) self
               in if (case payload of
                        Some payload \<Rightarrow> unat (max_response_payload_size (config chan)) < length payload
                      | None \<Rightarrow> False)
                  then (Inl (PayloadExceedsLimit (length (the payload))
                          (unat (max_request_payload_size (config chan)))), self)
                  else (Inr (Some (create_unchecked_response ch i payload)), self))"

definition cancel_request ::
  "channel_id \<Rightarrow> msg_id \<Rightarrow> juliet_protocol
   \<Rightarrow> (local_protocol_violation + outgoing_message option) \<times> juliet_protocol" where
  "cancel_request ch i self =
     (case lookup_channel self ch of
        Inl e \<Rightarrow> (Inl e, self)
      | Inr chan \<Rightarrow>
          if i \<notin> outgoing_requests chan then (Inr None, self)
          else (Inr (Some (create_unchecked_request_cancellation ch i)), self))"

definition cancel_response ::
  "channel_id \<Rightarrow> msg_id \<Rightarrow> juliet_protocol
   \<Rightarrow> (local_protocol_violation + outgoing_message option) \<times> juliet_protocol" where
  "cancel_response ch i self =
     (case lookup_channel self ch of
        Inl e \<Rightarrow> (Inl e, self)
      | Inr chan \<Rightarrow>
          if i \<notin> incoming_requests chan then (Inr None, self)
          else (Inr (Some (create_unchecked_response_cancellation ch i)),
                put_channel ch (chan\<lparr>incoming_requests := incoming_requests chan - {i}\<rparr>) self))"

definition custom_error ::
  "channel_id \<Rightarrow> msg_id \<Rightarrow> bytes \<Rightarrow> juliet_protocol
   \<Rightarrow> (local_protocol_violation + outgoing_message) option" where
  "custom_error ch i payload self =
     do { let h = header_new_error Other ch i;
          let payload_length = length payload;
          let msg = outgoing_message_new h (Some payload);
          multi \<leftarrow> om_is_multi_frame (max_frame_size self) msg;
          Some (if multi
                then Inl (ErrorPayloadIsMultiFrame payload_length (mfs_get (max_frame_size self)))
                else Inr msg) }"

section \<open>Processing incoming data\<close>

type_synonym read_outcome = "(completed_read, outgoing_message) outcome"

definition handle_error_frame ::
  "max_frame_size \<Rightarrow> header \<Rightarrow> bytes \<Rightarrow> (read_outcome \<times> bytes) option" where
  "handle_error_frame m h buffer =
     do { kind \<leftarrow> header_error_kind h;
          if kind = Other then do {
            tail \<leftarrow> buf_slice header_SIZE (length buffer) buffer;
            try_outcome (outcome_map_err
                (\<lambda>_. outgoing_message_new (header_with_err BadVarInt h) None) (decode_varint32 tail))
              (\<lambda>oc. Some (oc, buffer))
              (\<lambda>parsed_length.
                let preamble_end = header_SIZE + unat (parsed_offset parsed_length);
                    payload_length = unat (parsed_value parsed_length);
                    frame_end = preamble_end + payload_length
                in if mfs_get_usize m < frame_end then Some (err_msg h SegmentViolation, buffer)
                   else if length buffer < frame_end
                   then do { oc \<leftarrow> outcome_incomplete (frame_end - length buffer); Some (oc, buffer) }
                   else do { buffer \<leftarrow> buf_advance preamble_end buffer;
                             (payload, buffer) \<leftarrow> buf_split_to payload_length buffer;
                             Some (Success (ErrorReceived h (Some payload)), buffer) }) }
          else do { buffer \<leftarrow> buf_advance header_SIZE buffer;
                    Some (Success (ErrorReceived h None), buffer) } }"

definition handle_request ::
  "header \<Rightarrow> channel \<Rightarrow> bytes \<Rightarrow> (read_outcome option \<times> channel \<times> bytes) option" where
  "handle_request h chan buffer =
     (if is_at_max_incoming_requests chan
      then Some (Some (err_msg h RequestLimitExceeded), chan, buffer)
      else if header_id h \<in> incoming_requests chan
      then Some (Some (err_msg h DuplicateRequest), chan, buffer)
      else do {
        let chan = chan\<lparr>incoming_requests := insert (header_id h) (incoming_requests chan)\<rparr>;
        let chan = increment_cancellation_allowance chan;
        buffer \<leftarrow> buf_advance header_SIZE buffer;
        Some (Some (Success (NewRequest (header_channel h) (header_id h) None)), chan, buffer) })"

definition handle_response ::
  "header \<Rightarrow> channel \<Rightarrow> bytes \<Rightarrow> (read_outcome option \<times> channel \<times> bytes) option" where
  "handle_response h chan buffer =
     (if header_id h \<notin> outgoing_requests chan
      then Some (Some (err_msg h FictitiousRequest), chan, buffer)
      else do {
        let chan = chan\<lparr>outgoing_requests := outgoing_requests chan - {header_id h}\<rparr>;
        buffer \<leftarrow> buf_advance header_SIZE buffer;
        Some (Some (Success (ReceivedResponse (header_channel h) (header_id h) None)), chan, buffer) })"

definition handle_request_pl ::
  "max_frame_size \<Rightarrow> header \<Rightarrow> channel \<Rightarrow> bytes
   \<Rightarrow> (read_outcome option \<times> channel \<times> bytes) option" where
  "handle_request_pl m h chan buffer =
     do { (accepted, receiver, buffer) \<leftarrow> accept (current_multiframe_receiver chan) h buffer m
            (max_request_payload_size (config chan)) RequestTooLarge;
          let chan = chan\<lparr>current_multiframe_receiver := receiver\<rparr>;
          try_outcome accepted (\<lambda>oc. Some (Some oc, chan, buffer))
            (\<lambda>completed_frame.
              if completed_frame_was_new completed_frame \<and> is_at_max_incoming_requests chan
              then Some (Some (err_msg h RequestLimitExceeded), chan, buffer)
              else if completed_frame_was_new completed_frame \<and> header_id h \<in> incoming_requests chan
              then Some (Some (err_msg h DuplicateRequest), chan, buffer)
              else do {
                let chan = (if completed_frame_was_new completed_frame
                            then increment_cancellation_allowance
                              (chan\<lparr>incoming_requests := insert (header_id h) (incoming_requests chan)\<rparr>)
                            else chan);
                case into_completed_payload completed_frame of
                  Some payload \<Rightarrow>
                    Some (Some (Success (NewRequest (header_channel h) (header_id h) (Some payload))),
                          chan, buffer)
                | None \<Rightarrow> Some (None, chan, buffer) }) }"

definition handle_response_pl ::
  "max_frame_size \<Rightarrow> header \<Rightarrow> channel \<Rightarrow> bytes
   \<Rightarrow> (read_outcome option \<times> channel \<times> bytes) option" where
  "handle_response_pl m h chan buffer =
     (if header_id h \<notin> outgoing_requests chan
      then Some (Some (err_msg h FictitiousRequest), chan, buffer)
      else do {
        (accepted, receiver, buffer) \<leftarrow> accept (current_multiframe_receiver chan) h buffer m
          (max_response_payload_size (config chan)) ResponseTooLarge;
        let chan = chan\<lparr>current_multiframe_receiver := receiver\<rparr>;
        try_outcome accepted (\<lambda>oc. Some (Some oc, chan, buffer))
          (\<lambda>multiframe_outcome.
            case into_completed_payload multiframe_outcome of
              Some payload \<Rightarrow>
                Some (Some (Success (ReceivedResponse (header_channel h) (header_id h) (Some payload))),
                      chan\<lparr>outgoing_requests := outgoing_requests chan - {header_id h}\<rparr>, buffer)
            | None \<Rightarrow> Some (None, chan, buffer)) })"

definition handle_cancel_req ::
  "header \<Rightarrow> channel \<Rightarrow> bytes \<Rightarrow> (read_outcome option \<times> channel \<times> bytes) option" where
  "handle_cancel_req h chan buffer =
     (if cancellation_allowance chan = 0
      then Some (Some (err_msg h CancellationLimitExceeded), chan, buffer)
      else do {
        let chan = chan\<lparr>cancellation_allowance := cancellation_allowance chan - 1\<rparr>;
        buffer \<leftarrow> buf_advance header_SIZE buffer;
        let chan =
          (case in_progress_header (current_multiframe_receiver chan) of
             Some active \<Rightarrow>
               if header_id active = header_id h
               then chan\<lparr>current_multiframe_receiver := Ready,
                         incoming_requests := incoming_requests chan - {header_id h}\<rparr>
               else chan
           | None \<Rightarrow> chan);
        if header_id h \<notin> incoming_requests chan then Some (None, chan, buffer)
        else Some (Some (Success (RequestCancellation (header_channel h) (header_id h))),
                   chan, buffer) })"

definition handle_cancel_resp ::
  "header \<Rightarrow> channel \<Rightarrow> bytes \<Rightarrow> (read_outcome option \<times> channel \<times> bytes) option" where
  "handle_cancel_resp h chan buffer =
     (if header_id h \<in> outgoing_requests chan
      then do {
        let chan = chan\<lparr>outgoing_requests := outgoing_requests chan - {header_id h}\<rparr>;
        buffer \<leftarrow> buf_advance header_SIZE buffer;
        Some (Some (Success (ResponseCancellation (header_channel h) (header_id h))), chan, buffer) }
      else Some (Some (err_msg h FictitiousCancel), chan, buffer))"

definition handle_frame ::
  "max_frame_size \<Rightarrow> frame_kind \<Rightarrow> header \<Rightarrow> channel \<Rightarrow> bytes
   \<Rightarrow> (read_outcome option \<times> channel \<times> bytes) option" where
  "handle_frame m kind h chan buffer =
     (case kind of
        Request \<Rightarrow> handle_request h chan buffer
      | Response \<Rightarrow> handle_response h chan buffer
      | RequestPl \<Rightarrow> handle_request_pl m h chan buffer
      | ResponsePl \<Rightarrow> handle_response_pl m h chan buffer
      | CancelReq \<Rightarrow> handle_cancel_req h chan buffer
      | CancelResp \<Rightarrow> handle_cancel_resp h chan buffer)"

definition process_frame ::
  "juliet_protocol \<Rightarrow> bytes \<Rightarrow> (read_outcome option \<times> juliet_protocol \<times> bytes) option" where
  "process_frame self buffer =
     (if length buffer < header_SIZE
      then do { oc \<leftarrow> outcome_incomplete (header_SIZE - length buffer); Some (Some oc, self, buffer) }
      else case header_parse (buffer ! 0) (buffer ! 1) (buffer ! 2) (buffer ! 3) of
        None \<Rightarrow>
          Some (Some (Fatal (outgoing_message_new
            (header_new_error InvalidHeader UNKNOWN_CHANNEL UNKNOWN_ID) None)), self, buffer)
      | Some h \<Rightarrow>
          if header_is_error h
          then do { (oc, buffer) \<leftarrow> handle_error_frame (max_frame_size self) h buffer;
                    Some (Some oc, self, buffer) }
          else case array_get (channels self) (unat (channel_get (header_channel h))) of
            None \<Rightarrow> Some (Some (err_msg h error_kind.InvalidChannel), self, buffer)
          | Some chan \<Rightarrow>
              do { kind \<leftarrow> header_kind h;
                   (flow, chan, buffer) \<leftarrow> handle_frame (max_frame_size self) kind h chan buffer;
                   Some (flow, put_channel (header_channel h) chan self, buffer) })"

partial_function (option) process_incoming ::
  "juliet_protocol \<Rightarrow> bytes \<Rightarrow> (read_outcome \<times> juliet_protocol \<times> bytes) option" where
  "process_incoming self buffer =
     do { (flow, self, buffer) \<leftarrow> process_frame self buffer;
          case flow of
            Some oc \<Rightarrow> Some (oc, self, buffer)
          | None \<Rightarrow> process_incoming self buffer }"

section \<open>Laws of a single step\<close>

definition protocol_inv :: "juliet_protocol \<Rightarrow> bool" where
  "protocol_inv p = (mfs_valid (max_frame_size p) \<and> list_all channel_inv (channels p))"

text \<open>The configuration never changes; \<open>protocol_like\<close> fixes it together with the invariant.\<close>

definition protocol_like :: "max_frame_size \<Rightarrow> channel_configuration list \<Rightarrow> juliet_protocol \<Rightarrow> bool" where
  "protocol_like m cfgs p \<longleftrightarrow>
     protocol_inv p \<and> max_frame_size p = m \<and> map config (channels p) = cfgs"

lemma protocol_like_refl: "protocol_inv p \<Longrightarrow> protocol_like (max_frame_size p) (map config (channels p)) p"
  by (simp add: protocol_like_def)

lemma protocol_like_put [inv_intros]:
  assumes "protocol_like m cfgs p" and "channel_inv chan"
    and "config chan = config (channels p ! unat (channel_get ch))"
  shows "protocol_like m cfgs (put_channel ch chan p)"
proof -
  let ?i = "unat (channel_get ch)"
  have "map config ((channels p)[?i := chan]) = map config (channels p)"
    using assms(3) by (intro nth_equalityI) (simp_all add: nth_list_update')
  then show ?thesis
    using assms by (auto simp: protocol_like_def protocol_inv_def put_channel_def list_all_nth_update)
qed

definition step_laws ::
  "('s \<Rightarrow> bool) \<Rightarrow> ('s \<Rightarrow> bytes \<Rightarrow> (read_outcome option \<times> 's \<times> bytes) option) \<Rightarrow> 's \<Rightarrow> bytes \<Rightarrow> bool" where
  "step_laws ok f s b \<longleftrightarrow> (\<exists>flow s' b'. f s b = Some (flow, s', b') \<and> ok s' \<and>
     (case flow of
        Some (Incomplete n) \<Rightarrow> s' = s \<and> b' = b \<and> 0 < unat n \<and> (\<forall>c. length c < unat n \<longrightarrow>
          f s (b @ c) = Some (Some (Incomplete (n - of_nat (length c))), s, b @ c))
      | Some (Fatal e) \<Rightarrow> \<forall>c. f s (b @ c) = Some (flow, s', b' @ c)
      | _ \<Rightarrow> (\<forall>c. f s (b @ c) = Some (flow, s', b' @ c)) \<and> length b' < length b))"

lemma step_laws_settled:
  assumes "f s b = Some (flow, s', b')" and "ok s'" and "\<nexists>n. flow = Some (Incomplete n)"
    and "\<And>c. f s (b @ c) = Some (flow, s', b' @ c)"
    and "flow = None \<or> (\<exists>v. flow = Some (Success v)) \<Longrightarrow> length b' < length b"
  shows "step_laws ok f s b"
  unfolding step_laws_def using assms by (auto split: option.splits outcome.splits)

lemma step_laws_waiting:
  assumes "f s b = Some (Some (Incomplete n), s, b)" and "ok s" and "0 < unat n"
    and "\<And>c. length c < unat n \<Longrightarrow>
          f s (b @ c) = Some (Some (Incomplete (n - of_nat (length c))), s, b @ c)"
  shows "step_laws ok f s b"
  unfolding step_laws_def using assms by auto

abbreviation same_config :: "channel \<Rightarrow> channel \<Rightarrow> bool" where
  "same_config chan chan' \<equiv> channel_inv chan' \<and> config chan' = config chan"

lemma handle_request_laws:
  assumes "channel_inv chan" and "4 \<le> length b"
  shows "step_laws (same_config chan) (handle_request h) chan b"
proof (cases "is_at_max_incoming_requests chan")
  case True
  then show ?thesis
    using assms by (intro step_laws_settled) (auto simp: handle_request_def err_msg_def)
next
  case False
  then show ?thesis
    using assms channel_inv_add_incoming [OF assms(1) False]
    by (cases "header_id h \<in> incoming_requests chan"; intro step_laws_settled)
       (auto simp: handle_request_def header_SIZE_def err_msg_def)
qed

lemma handle_response_laws:
  assumes "channel_inv chan" and "4 \<le> length b"
  shows "step_laws (same_config chan) (handle_response h) chan b"
  using assms channel_inv_remove_outgoing [OF assms(1)]
  by (cases "header_id h \<in> outgoing_requests chan")
     (auto intro!: step_laws_settled simp: handle_response_def header_SIZE_def err_msg_def)

lemma handle_cancel_resp_laws:
  assumes "channel_inv chan" and "4 \<le> length b"
  shows "step_laws (same_config chan) (handle_cancel_resp h) chan b"
  using assms channel_inv_remove_outgoing [OF assms(1)]
  by (cases "header_id h \<in> outgoing_requests chan")
     (auto intro!: step_laws_settled simp: handle_cancel_resp_def header_SIZE_def err_msg_def)

definition cancel_transfer :: "msg_id \<Rightarrow> channel \<Rightarrow> channel" where
  "cancel_transfer i chan =
     (case in_progress_header (current_multiframe_receiver chan) of
        Some active \<Rightarrow>
          if header_id active = i
          then chan\<lparr>current_multiframe_receiver := Ready,
                    incoming_requests := incoming_requests chan - {i}\<rparr>
          else chan
      | None \<Rightarrow> chan)"

lemma channel_inv_cancel_transfer [inv_intros]:
  assumes "channel_inv chan"
  shows "channel_inv (cancel_transfer i chan)" "config (cancel_transfer i chan) = config chan"
  using assms card_remove_le [of "incoming_requests chan" i]
  by (auto simp: cancel_transfer_def channel_inv_def transfer_inv_def receiver_inv_def
      split: option.splits)

lemma handle_cancel_req_alt:
  "handle_cancel_req h chan b =
     (if cancellation_allowance chan = 0 then Some (Some (err_msg h CancellationLimitExceeded), chan, b)
      else do { b \<leftarrow> buf_advance 4 b;
                let chan = cancel_transfer (header_id h)
                  (chan\<lparr>cancellation_allowance := cancellation_allowance chan - 1\<rparr>);
                Some (if header_id h \<notin> incoming_requests chan then None
                      else Some (Success (RequestCancellation (header_channel h) (header_id h))),
                      chan, b) })"
  by (auto simp: handle_cancel_req_def cancel_transfer_def header_SIZE_def Let_def split: option.splits)

lemma handle_cancel_req_laws:
  assumes "channel_inv chan" and "4 \<le> length b"
  shows "step_laws (same_config chan) (handle_cancel_req h) chan b"
proof (cases "cancellation_allowance chan = 0")
  case True
  then show ?thesis
    using assms by (auto intro!: step_laws_settled simp: handle_cancel_req_def err_msg_def)
next
  case False
  then show ?thesis
    using assms channel_inv_cancel_transfer [OF channel_inv_decrement_allowance [OF assms(1) False]]
    by (intro step_laws_settled) (auto simp: handle_cancel_req_alt Let_def)
qed

lemma accept_laws:
  assumes "channel_inv chan" and "mfs_valid m" and "4 \<le> length b" and "header_valid h"
    and "\<not> header_is_error h"
    and "header_kind h = Some RequestPl \<and> maxp = max_request_payload_size (config chan) \<or>
         header_kind h = Some ResponsePl \<and> maxp = max_response_payload_size (config chan)"
  obtains oc r' b' where "accept (current_multiframe_receiver chan) h b m maxp ek = Some (oc, r', b')"
    and "transfer_inv (config chan) r'"
    and "\<nexists>n. oc = Incomplete n \<Longrightarrow>
           \<forall>c. accept (current_multiframe_receiver chan) h (b @ c) m maxp ek = Some (oc, r', b' @ c)"
    and "\<And>n. oc = Incomplete n \<Longrightarrow> r' = current_multiframe_receiver chan \<and> b' = b \<and> 0 < unat n \<and>
           (\<forall>c. length c < unat n \<longrightarrow> accept (current_multiframe_receiver chan) h (b @ c) m maxp ek
              = Some (Incomplete (n - of_nat (length c)), r', b @ c))"
    and "\<And>v. oc = Success v \<Longrightarrow> length b' < length b"
proof -
  let ?r = "current_multiframe_receiver chan"
  have inv: "transfer_inv (config chan) ?r" "receiver_inv ?r"
    using assms(1) by (simp_all add: channel_inv_def transfer_inv_def)
  obtain oc r' b' where spec: "accept_spec m maxp ek ?r h b = (oc, r', b')"
    by (metis prod_cases3)
  have acc: "accept ?r h (b @ c) m maxp ek = Some (accept_spec m maxp ek ?r h (b @ c))" for c
    using accept_accept_spec [OF assms(2) inv(2), of "b @ c"] assms(3) by simp
  have "accept ?r h b m maxp ek = Some (oc, r', b')"
    using acc [of "[]"] spec by simp
  moreover have "transfer_inv (config chan) r'"
    using transfer_inv_accept [OF spec assms(2) inv(1) assms(4-6)] .
  moreover have "oc = Incomplete n \<Longrightarrow> r' = ?r \<and> b' = b" for n
    by (cases rule: accept_spec_cases [OF spec assms(2) inv(2) assms(4)]) (auto simp: err_msg_def)
  moreover have "oc = Success v \<Longrightarrow> length b' < length b" for v
    by (cases rule: accept_spec_cases [OF spec assms(2) inv(2) assms(4)]) (auto simp: err_msg_def)
  ultimately show ?thesis
    using that [of oc r' b'] accept_spec_append [OF spec assms(2,3)] acc by simp
qed

lemma handle_request_pl_laws:
  assumes "channel_inv chan" and "mfs_valid m" and "4 \<le> length b" and "header_valid h"
    and "\<not> header_is_error h" and "header_kind h = Some RequestPl"
  shows "step_laws (same_config chan) (handle_request_pl m h) chan b"
proof -
  let ?r = "current_multiframe_receiver chan" and ?maxp = "max_request_payload_size (config chan)"
  obtain oc r' b' where acc: "accept ?r h b m ?maxp RequestTooLarge = Some (oc, r', b')"
    "transfer_inv (config chan) r'"
    "\<nexists>n. oc = Incomplete n \<Longrightarrow>
       \<forall>c. accept ?r h (b @ c) m ?maxp RequestTooLarge = Some (oc, r', b' @ c)"
    "\<And>n. oc = Incomplete n \<Longrightarrow> r' = ?r \<and> b' = b \<and> 0 < unat n \<and>
       (\<forall>c. length c < unat n \<longrightarrow> accept ?r h (b @ c) m ?maxp RequestTooLarge
          = Some (Incomplete (n - of_nat (length c)), r', b @ c))"
    "\<And>v. oc = Success v \<Longrightarrow> length b' < length b"
    by (rule accept_laws [OF assms(1-5), where ek = RequestTooLarge and maxp = ?maxp])
       (use assms(6) in auto)
  have inv: "channel_inv (chan\<lparr>current_multiframe_receiver := r'\<rparr>)"
    using channel_inv_receiver [OF assms(1) acc(2)] .
  show ?thesis
  proof (cases oc)
    case (Incomplete n)
    then show ?thesis
      using acc assms(1) by (intro step_laws_waiting) (auto simp: handle_request_pl_def)
  next
    case (Fatal e)
    then show ?thesis
      using acc inv by (intro step_laws_settled) (auto simp: handle_request_pl_def)
  next
    case (Success v)
    note unfold = handle_request_pl_def Let_def err_msg_def
    have settled: "\<forall>c. accept ?r h (b @ c) m ?maxp RequestTooLarge = Some (Success v, r', b' @ c)"
      and shorter: "length b' < length b"
      using acc(3,5) Success by simp_all
    let ?c1 = "chan\<lparr>current_multiframe_receiver := r'\<rparr>"
    consider "completed_frame_was_new v" "is_at_max_incoming_requests ?c1"
      | "completed_frame_was_new v" "\<not> is_at_max_incoming_requests ?c1" "header_id h \<in> incoming_requests ?c1"
      | "completed_frame_was_new v" "\<not> is_at_max_incoming_requests ?c1" "header_id h \<notin> incoming_requests ?c1"
      | "\<not> completed_frame_was_new v"
      by blast
    then show ?thesis
    proof cases
      case 3
      then show ?thesis
        using acc(1) Success settled shorter channel_inv_add_incoming [OF inv 3(2)]
        by (cases "into_completed_payload v"; intro step_laws_settled) (auto simp: unfold)
    next
      case 4
      then show ?thesis
        using acc(1) Success settled shorter inv
        by (cases "into_completed_payload v"; intro step_laws_settled) (auto simp: unfold)
    qed (use acc(1) Success settled shorter inv in \<open>intro step_laws_settled; auto simp: unfold\<close>)+
  qed
qed

lemma handle_response_pl_laws:
  assumes "channel_inv chan" and "mfs_valid m" and "4 \<le> length b" and "header_valid h"
    and "\<not> header_is_error h" and "header_kind h = Some ResponsePl"
  shows "step_laws (same_config chan) (handle_response_pl m h) chan b"
proof (cases "header_id h \<in> outgoing_requests chan")
  case False
  then show ?thesis
    using assms by (intro step_laws_settled) (auto simp: handle_response_pl_def err_msg_def)
next
  case True
  let ?r = "current_multiframe_receiver chan" and ?maxp = "max_response_payload_size (config chan)"
  obtain oc r' b' where acc: "accept ?r h b m ?maxp ResponseTooLarge = Some (oc, r', b')"
    "transfer_inv (config chan) r'"
    "\<nexists>n. oc = Incomplete n \<Longrightarrow>
       \<forall>c. accept ?r h (b @ c) m ?maxp ResponseTooLarge = Some (oc, r', b' @ c)"
    "\<And>n. oc = Incomplete n \<Longrightarrow> r' = ?r \<and> b' = b \<and> 0 < unat n \<and>
       (\<forall>c. length c < unat n \<longrightarrow> accept ?r h (b @ c) m ?maxp ResponseTooLarge
          = Some (Incomplete (n - of_nat (length c)), r', b @ c))"
    "\<And>v. oc = Success v \<Longrightarrow> length b' < length b"
    by (rule accept_laws [OF assms(1-5), where ek = ResponseTooLarge and maxp = ?maxp])
       (use assms(6) in auto)
  have inv: "channel_inv (chan\<lparr>current_multiframe_receiver := r'\<rparr>)"
    using channel_inv_receiver [OF assms(1) acc(2)] .
  show ?thesis
  proof (cases oc)
    case (Incomplete n)
    then show ?thesis
      using acc assms(1) True by (intro step_laws_waiting) (auto simp: handle_response_pl_def)
  next
    case (Fatal e)
    then show ?thesis
      using acc inv True by (intro step_laws_settled) (auto simp: handle_response_pl_def)
  next
    case (Success v)
    then show ?thesis
      using acc inv True channel_inv_remove_outgoing [OF inv]
      by (cases "into_completed_payload v"; intro step_laws_settled) (auto simp: handle_response_pl_def)
  qed
qed

definition error_frame_step ::
  "max_frame_size \<Rightarrow> header \<Rightarrow> juliet_protocol \<Rightarrow> bytes
   \<Rightarrow> (read_outcome option \<times> juliet_protocol \<times> bytes) option" where
  "error_frame_step m h p b =
     do { (oc, b) \<leftarrow> handle_error_frame m h b; Some (Some oc, p, b) }"

lemma error_payload_laws:
  assumes "ok p" and "4 \<le> length b" and "header_error_kind h = Some Other" and "decode_varint32 (drop 4 b) = Success v"
  shows "step_laws ok (error_frame_step m h) p b"
proof -
  note unfold = error_frame_step_def handle_error_frame_def assms(3) header_SIZE_def Let_def
  define stop where "stop = 4 + unat (parsed_offset v) + unat (parsed_value v)"
  have app: "decode_varint32 (drop 4 b @ c) = Success v" for c
    using decode_varint32_append(1) [OF assms(4)] .
  consider "mfs_get_usize m < stop" | "stop \<le> mfs_get_usize m" "length b < stop"
    | "stop \<le> mfs_get_usize m" "stop \<le> length b"
    by linarith
  then show ?thesis
  proof cases
    case 1
    then show ?thesis
      using assms(4) app assms(1,2) by (intro step_laws_settled) (auto simp: unfold err_msg_def stop_def)
  next
    case 2
    then have le: "stop \<le> u32_max"
      using mfs_get_usize_le [of m] by linarith
    define n :: u32 where "n = of_nat (stop - length b)"
    note cd = countdown [OF 2(2) le n_def]
    have "error_frame_step m h p (b @ c) = Some (Some (Incomplete (of_nat (stop - (length b + length c)))), p, b @ c)"
      if short: "length b + length c < stop" for c
    proof -
      have "stop - (length b + length c) \<le> u32_max"
        using le by linarith
      then show ?thesis
        using short app [of c] assms(2) 2(1) by (simp add: unfold stop_def [symmetric] del: of_nat_diff)
    qed
    note step = this this [of "[]"]
    show ?thesis
      using step cd 2(2) assms(1) by (intro step_laws_waiting [of _ _ _ n]) (simp_all add: n_def del: of_nat_diff)
  next
    case 3
    then show ?thesis
      using assms(4) app assms(1,2) by (intro step_laws_settled) (auto simp: unfold stop_def)
  qed
qed

lemma error_frame_laws:
  assumes "ok p" and "4 \<le> length b" and "header_valid h" and "header_is_error h"
  shows "step_laws ok (error_frame_step m h) p b"
proof -
  obtain kind where kind: "header_error_kind h = Some kind"
    using header_valid_no_panic [OF assms(3)] assms(4) by auto
  note unfold = error_frame_step_def handle_error_frame_def kind header_SIZE_def Let_def
  consider "kind \<noteq> Other" | n where "kind = Other" "decode_varint32 (drop 4 b) = Incomplete n"
    | e where "kind = Other" "decode_varint32 (drop 4 b) = Fatal e" | v where "kind = Other" "decode_varint32 (drop 4 b) = Success v"
    by (cases "decode_varint32 (drop 4 b)") blast+
  then show ?thesis
  proof cases
    case 1
    then show ?thesis
      using assms(1,2) by (intro step_laws_settled) (auto simp: unfold)
  next
    case (2 n)
    then show ?thesis
      using assms(1,2) decode_varint32_Incomplete [of "drop 4 b" n] by (intro step_laws_waiting [of _ _ _ n]) (auto simp: unfold)
  next
    case (3 e)
    then show ?thesis
      using assms(1,2) decode_varint32_append(2) [OF 3(2)] by (intro step_laws_settled) (auto simp: unfold)
  next
    case (4 v)
    then show ?thesis
      using error_payload_laws [of ok p, OF assms(1,2)] kind by simp
  qed
qed

lemma handle_frame_laws:
  assumes "channel_inv chan" and "mfs_valid m" and "4 \<le> length b" and "header_valid h"
    and "\<not> header_is_error h" and "header_kind h = Some kind"
  shows "step_laws (same_config chan) (handle_frame m kind h) chan b"
  using assms handle_request_laws handle_response_laws handle_request_pl_laws handle_response_pl_laws
    handle_cancel_req_laws handle_cancel_resp_laws
  by (cases kind) (simp_all add: handle_frame_def [abs_def])

lemma partial_header_laws:
  assumes "ok p" and "length b < 4"
  shows "step_laws ok process_frame p b"
proof -
  define n :: u32 where "n = of_nat (4 - length b)"
  note cd = countdown [OF assms(2) _ n_def]
  have "process_frame p (b @ c) = Some (Some (Incomplete (of_nat (4 - (length b + length c)))), p, b @ c)"
    if "length b + length c < 4" for c
    using that by (simp add: process_frame_def header_SIZE_def del: of_nat_diff)
  note step = this this [of "[]"]
  show ?thesis
    using step cd assms by (intro step_laws_waiting [of _ _ _ n]) (simp_all add: n_def del: of_nat_diff)
qed

lemma channel_frame_laws:
  assumes "protocol_like m cfgs p" and "4 \<le> length b" and "header_valid h" and "\<not> header_is_error h"
    and "unat (channel_get (header_channel h)) < length (channels p)"
    and "\<And>c. header_parse ((b @ c) ! 0) ((b @ c) ! 1) ((b @ c) ! 2) ((b @ c) ! 3) = Some h"
  shows "step_laws (protocol_like m cfgs) process_frame p b"
proof -
  let ?chan = "channels p ! unat (channel_get (header_channel h))"
  obtain kind where kind: "header_kind h = Some kind"
    using header_valid_no_panic(2) [OF assms(3,4)] by blast
  have inv: "channel_inv ?chan" and mfs: "mfs_valid (max_frame_size p)"
    using assms(1,5) by (auto simp: protocol_like_def protocol_inv_def list_all_length)
  have "process_frame p (b @ c) =
      map_option (\<lambda>(flow, chan, b). (flow, put_channel (header_channel h) chan p, b))
        (handle_frame (max_frame_size p) kind h ?chan (b @ c))" for c
    using assms(2,4,5) assms(6) [of c] kind
    by (cases "handle_frame (max_frame_size p) kind h ?chan (b @ c)")
       (simp_all add: process_frame_def header_SIZE_def split: prod.splits)
  note eq = this this [of "[]", unfolded append_Nil2]
  have put: "put_channel (header_channel h) ?chan p = p"
    by (simp add: put_channel_def)
  show ?thesis
    using handle_frame_laws [OF inv mfs assms(2-4) kind] put protocol_like_put [OF assms(1), of _ "header_channel h"]
    unfolding step_laws_def eq by (fastforce split: option.splits outcome.splits)
qed

lemma process_frame_laws:
  assumes "protocol_like m cfgs p"
  shows "step_laws (protocol_like m cfgs) process_frame p b"
proof (cases "length b < 4")
  case False
  let ?parsed = "header_parse (b ! 0) (b ! 1) (b ! 2) (b ! 3)"
  have len: "4 \<le> length b" "\<not> length (b @ c) < 4" for c
    using False by simp_all
  have app: "header_parse ((b @ c) ! 0) ((b @ c) ! 1) ((b @ c) ! 2) ((b @ c) ! 3) = ?parsed" for c
    using len(1) by (cases b) (auto simp: nth_append)
  show ?thesis
  proof (cases ?parsed)
    case None
    then show ?thesis
      using assms len app by (intro step_laws_settled) (auto simp: process_frame_def header_SIZE_def)
  next
    case (Some h)
    note valid = header_parse_valid [OF Some]
    show ?thesis
    proof (cases "header_is_error h")
      case True
      have "process_frame p (b @ c) = error_frame_step (max_frame_size p) h p (b @ c)" for c
        using Some True app [of c] len(2) [of c]
        by (simp add: process_frame_def error_frame_step_def header_SIZE_def)
      note eq = this this [of "[]", unfolded append_Nil2]
      show ?thesis
        using error_frame_laws [of "protocol_like m cfgs", OF assms len(1) valid True] by (simp only: step_laws_def eq)
    next
      case no_err: False
      let ?i = "unat (channel_get (header_channel h))"
      show ?thesis
      proof (cases "?i < length (channels p)")
        case False
        then show ?thesis
          using assms Some no_err len app
          by (intro step_laws_settled) (auto simp: process_frame_def header_SIZE_def array_get_def err_msg_def)
      next
        case True
        then show ?thesis
          using channel_frame_laws [OF assms len(1) valid no_err] app Some by simp
      qed
    qed
  qed
qed (rule partial_header_laws [of "protocol_like m cfgs", OF assms])

interpretation juliet: frame_loop process_frame process_incoming "protocol_like m cfgs" for m cfgs
proof
  fix p b flow p' b' c n v
  assume inv: "protocol_like m cfgs p"
  note laws = process_frame_laws [OF inv, of b, unfolded step_laws_def]
  show "\<exists>flow p' b'. process_frame p b = Some (flow, p', b') \<and> protocol_like m cfgs p'"
    using laws by blast
  show "process_frame p (b @ c) = Some (flow, p', b' @ c)"
    if "process_frame p b = Some (flow, p', b')" "\<nexists>n. flow = Some (Incomplete n)"
    using laws that by (auto split: option.splits outcome.splits)
  show "p' = p \<and> b' = b \<and> 0 < unat n \<and> (length c < unat n \<longrightarrow>
      process_frame p (b @ c) = Some (Some (Incomplete (n - of_nat (length c))), p, b @ c))"
    if "process_frame p b = Some (Some (Incomplete n), p', b')"
    using laws that by auto
  show "length b' < length b"
    if "process_frame p b = Some (flow, p', b')" "flow = None \<or> flow = Some (Success v)"
    using laws that by auto
next
  show "process_incoming p b = do { (flow, p, b) \<leftarrow> process_frame p b;
      case flow of Some oc \<Rightarrow> Some (oc, p, b) | None \<Rightarrow> process_incoming p b }" for p b
    by (subst process_incoming.simps) (simp cong: option.case_cong)
qed

end
