(* ===== verification/Protocol_Reading.thy ===== *)
theory Protocol_Reading
  imports Protocol
begin

text \<open>
  Properties of \<^verbatim>\<open>process_incoming\<close> against an arbitrary, possibly hostile byte stream: it always returns,
  keeps the invariant, is insensitive to how the stream is cut into reads, and reports only reads that
  the channel state justifies. They rest on the laws of a single frame in \<open>Protocol\<close>.
\<close>

section \<open>Totality, invariant and chunking\<close>

definition two_channel_protocol :: juliet_protocol where
  "two_channel_protocol = builder_build (juliet_protocol_builder 2
     (with_max_response_payload_size 8 (with_max_request_payload_size 8
       (with_request_limit 2 channel_configuration_new))))"

lemma two_channel_protocol_inv: "protocol_inv two_channel_protocol"
  by (simp add: two_channel_protocol_def builder_build_def juliet_protocol_builder_def protocol_inv_def
      mfs_DEFAULT_def mfs_valid_def list_all_iff channel_new_inv)

text \<open>
  C8: \<^verbatim>\<open>process_incoming\<close> returns on every buffer, whatever the peer sent, without a panic. It keeps the
  protocol invariant (frame size at least the minimum; on every channel at most \<^verbatim>\<open>request_limit\<close>
  incoming and outgoing requests, an allowance of at most \<^verbatim>\<open>request_limit\<close>, and a transfer in progress
  below its announced size, which respects the payload limit) and the configuration, and a completed
  read consumes input.
\<close>

theorem process_incoming_total:
  assumes "protocol_inv p"
  shows "\<exists>oc p' b'. process_incoming p b = Some (oc, p', b') \<and> protocol_inv p'
    \<and> max_frame_size p' = max_frame_size p \<and> map config (channels p') = map config (channels p)
    \<and> (\<forall>v. oc = Success v \<longrightarrow> length b' < length b)"
  using juliet.looped.parse_total [OF protocol_like_refl [OF assms], of b]
    juliet.looped.parse_progress [OF protocol_like_refl [OF assms], of b]
  by (fastforce simp: protocol_like_def)

theorem process_incoming_total_witness:
  "\<exists>oc p' b'. process_incoming two_channel_protocol [2, 0, 1, 0, 3, 7] = Some (oc, p', b')
     \<and> protocol_inv p'"
  using process_incoming_total [OF two_channel_protocol_inv, of "[2, 0, 1, 0, 3, 7]"] by blast

text \<open>
  C9: The reads do not depend on how the transport cuts the byte stream. Calling \<^verbatim>\<open>process_incoming\<close>
  as long as it succeeds, appending the next piece and continuing, yields for every division into
  pieces the same completed reads, the same final request for more data or the same protocol error,
  and the same protocol state, as one call sequence on the whole stream.
\<close>

theorem process_incoming_chunking:
  assumes "protocol_inv p"
  shows "\<exists>reads status p' b' unread.
    feed process_incoming pieces p b = Some (reads, status, p', b')
    \<and> drain process_incoming p (b @ concat pieces) = Some (reads, status, p', b' @ unread)
    \<and> (\<forall>n. status = Inl n \<longrightarrow> unread = [])"
  using juliet.looped.feed_drain [OF protocol_like_refl [OF assms], of pieces b] by blast

theorem process_incoming_chunking_witness:
  "\<exists>reads status p' b' unread.
    feed process_incoming [[2], [0, 1], [0, 3, 7, 7], [7, 2]] two_channel_protocol [] = Some (reads, status, p', b')
    \<and> drain process_incoming two_channel_protocol [2, 0, 1, 0, 3, 7, 7, 7, 2]
        = Some (reads, status, p', b' @ unread)"
  using process_incoming_chunking [OF two_channel_protocol_inv,
      of "[[2], [0, 1], [0, 3, 7, 7], [7, 2]]" "[]"] by auto

section \<open>Requests for more data\<close>

text \<open>
  How long the frame at the start of the buffer is, read off the wire format: unknown before the header and,
  if there is one, the length prefix have arrived.
\<close>

definition prefixed_length :: "max_frame_size \<Rightarrow> bytes \<Rightarrow> nat option" where
  "prefixed_length m b = (case decode_varint32 (drop 4 b) of
       Success v \<Rightarrow> Some (min (mfs_get_usize m) (4 + unat (parsed_offset v) + unat (parsed_value v)))
     | _ \<Rightarrow> None)"

definition payload_frame_length :: "max_frame_size \<Rightarrow> multiframe_receiver \<Rightarrow> header \<Rightarrow> bytes \<Rightarrow> nat option" where
  "payload_frame_length m r h b = (case r of
       InProgress active received size_total \<Rightarrow>
         if active = h then Some (min (mfs_get_usize m) (4 + (unat size_total - length received))) else prefixed_length m b
     | Ready \<Rightarrow> prefixed_length m b)"

definition frame_length :: "juliet_protocol \<Rightarrow> bytes \<Rightarrow> nat option" where
  "frame_length p b =
     (if length b < 4 then None
      else case header_parse (b ! 0) (b ! 1) (b ! 2) (b ! 3) of
        None \<Rightarrow> None
      | Some h \<Rightarrow>
          if header_is_error h
          then if header_error_kind h = Some Other then prefixed_length (max_frame_size p) b else Some 4
          else if header_kind h \<in> {Some RequestPl, Some ResponsePl}
          then payload_frame_length (max_frame_size p)
            (current_multiframe_receiver (channels p ! unat (channel_get (header_channel h)))) h b
          else Some 4)"

definition missing_bytes :: "juliet_protocol \<Rightarrow> bytes \<Rightarrow> nat" where
  "missing_bytes p b = (case frame_length p b of Some len \<Rightarrow> len - length b | None \<Rightarrow> max 1 (4 - length b))"

lemma start_spec_missing:
  assumes "start_spec m maxp ek h b = Incomplete n" and "mfs_valid m" and "4 \<le> length b"
  shows "unat n = (case prefixed_length m b of Some len \<Rightarrow> len - length b | None \<Rightarrow> 1)"
proof (cases "decode_varint32 (drop 4 b)")
  case (Success v)
  let ?pre = "4 + unat (parsed_offset v)"
  have room: "?pre < mfs_get_usize m"
    using decode_varint32_Success(2) [OF Success] mfs_valid_get [OF assms(2)] by simp
  have short: "length b < ?pre + min (mfs_get_usize m - ?pre) (unat (parsed_value v))"
      "n = of_nat (?pre + min (mfs_get_usize m - ?pre) (unat (parsed_value v)) - length b)"
    using assms(1) Success by (auto simp: start_spec_def err_msg_def Let_def split: if_splits)
  have "unat n = ?pre + min (mfs_get_usize m - ?pre) (unat (parsed_value v)) - length b"
    using countdown(1) [OF short(1) frame_end_le [OF Success assms(2)] short(2)] .
  then show ?thesis
    using room Success by (simp add: prefixed_length_def min_def)
qed (use assms in \<open>auto simp: start_spec_def prefixed_length_def err_msg_def dest: decode_varint32_Incomplete\<close>)

lemma accept_spec_missing:
  assumes "accept_spec m maxp ek r h b = (Incomplete n, r', b')" and "mfs_valid m" and "receiver_inv r" and "4 \<le> length b"
  shows "unat n = (case payload_frame_length m r h b of Some len \<Rightarrow> len - length b | None \<Rightarrow> 1)"
proof (cases "in_progress_header r = Some h")
  case True
  then obtain received size_total where r: "r = InProgress h received size_total"
    by (auto simp: in_progress_header_eq_Some_iff)
  define seg where "seg = min (unat size_total - length received) (mfs_get_usize m - 4)"
  have m: "4 < mfs_get_usize m"
    using mfs_valid_get [OF assms(2)] by simp
  have le: "seg + 4 \<le> u32_max"
    using mfs_get_usize_le [of m] m unfolding seg_def by linarith
  have "length b < seg + 4" "n = of_nat (seg + 4 - length b)"
    using assms(1) unfolding r accept_spec_active continue_spec_def seg_def [symmetric] by (auto simp: Let_def split: if_splits)
  from countdown(1) [OF this(1) le this(2)] have "unat n = seg + 4 - length b" .
  moreover have "seg + 4 = min (mfs_get_usize m) (4 + (unat size_total - length received))"
    using m unfolding seg_def by linarith
  ultimately show ?thesis
    by (simp add: r payload_frame_length_def)
next
  case False
  have "start_spec m maxp ek h b = Incomplete n"
    using assms(1) False by (auto simp: accept_spec_def err_msg_def split: outcome.splits if_splits)
  from start_spec_missing [OF this assms(2,4)] show ?thesis
    using False by (cases r) (auto simp: payload_frame_length_def)
qed

lemma error_frame_missing:
  assumes "handle_error_frame m h b = Some (Incomplete n, b')" and "4 \<le> length b"
  shows "header_error_kind h = Some Other" and "unat n = (case prefixed_length m b of Some len \<Rightarrow> len - length b | None \<Rightarrow> 1)"
proof -
  show other: "header_error_kind h = Some Other"
    using assms by (auto simp: handle_error_frame_def header_SIZE_def bind_eq_Some_conv split: if_splits)
  show "unat n = (case prefixed_length m b of Some len \<Rightarrow> len - length b | None \<Rightarrow> 1)"
  proof (cases "decode_varint32 (drop 4 b)")
    case (Success v)
    let ?stop = "4 + unat (parsed_offset v) + unat (parsed_value v)"
    have fits: "?stop \<le> mfs_get_usize m" and short: "length b < ?stop" and "outcome_incomplete (?stop - length b) = Some (Incomplete n :: read_outcome)"
      using assms Success other
      by (auto simp: handle_error_frame_def header_SIZE_def err_msg_def Let_def bind_eq_Some_conv split: if_splits)
    moreover have le: "?stop \<le> u32_max"
      using fits mfs_get_usize_le [of m] by linarith
    ultimately have "n = of_nat (?stop - length b)"
      by (auto simp: outcome_incomplete_def rust_assert_def bind_eq_Some_conv split: if_splits)
    from countdown(1) [OF short le this] show ?thesis
      using Success fits by (simp add: prefixed_length_def min_def)
  qed (use assms other in
      \<open>auto simp: handle_error_frame_def header_SIZE_def prefixed_length_def dest: decode_varint32_Incomplete\<close>)
qed

lemma handle_frame_missing:
  assumes "handle_frame m kind h c b = Some (Some (Incomplete n), c', b')" and "channel_inv c" and "mfs_valid m" and "4 \<le> length b"
  shows "kind \<in> {RequestPl, ResponsePl}"
    and "unat n = (case payload_frame_length m (current_multiframe_receiver c) h b of Some len \<Rightarrow> len - length b | None \<Rightarrow> 1)"
proof -
  have inv: "receiver_inv (current_multiframe_receiver c)"
    using assms(2) by (simp add: channel_inv_def transfer_inv_def)
  show kind: "kind \<in> {RequestPl, ResponsePl}"
    using assms(1,4)
    by (cases kind) (auto simp: handle_frame_def handle_request_def handle_response_def handle_cancel_req_def
        handle_cancel_resp_def header_SIZE_def err_msg_def Let_def split: if_splits)
  obtain maxp ek r' b1 where "accept_spec m maxp ek (current_multiframe_receiver c) h b = (Incomplete n, r', b1)"
    using assms(1) kind
    by (auto simp: handle_frame_def handle_request_pl_def handle_response_pl_def accept_accept_spec [OF assms(3) inv assms(4)]
        err_msg_def Let_def try_outcome_def split: if_splits outcome.splits option.splits prod.splits)
  from accept_spec_missing [OF this assms(3) inv assms(4)]
  show "unat n = (case payload_frame_length m (current_multiframe_receiver c) h b of Some len \<Rightarrow> len - length b | None \<Rightarrow> 1)" .
qed

lemma process_frame_missing:
  assumes "process_frame p b = Some (Some (Incomplete n), p', b')" and "protocol_inv p"
  shows "unat n = missing_bytes p b"
proof (cases "length b < 4")
  case True
  then have "n = of_nat (4 - length b)"
    using assms(1) by (auto simp: process_frame_def header_SIZE_def simp del: of_nat_diff)
  with True show ?thesis
    using countdown(1) [of "length b" 4 n] by (simp add: missing_bytes_def frame_length_def max_def)
next
  case False
  then have len: "4 \<le> length b" by simp
  obtain h where h: "header_parse (b ! 0) (b ! 1) (b ! 2) (b ! 3) = Some h"
    using assms(1) len by (auto simp: process_frame_def header_SIZE_def split: option.splits)
  have one: "max 1 (4 - length b) = 1"
    using len by simp
  show ?thesis
  proof (cases "header_is_error h")
    case True
    then have "handle_error_frame (max_frame_size p) h b = Some (Incomplete n, b')"
      using assms(1) len h by (auto simp: process_frame_def header_SIZE_def bind_eq_Some_conv)
    from error_frame_missing [OF this len] show ?thesis
      using True h len one by (simp add: missing_bytes_def frame_length_def)
  next
    case no_err: False
    let ?c = "channels p ! unat (channel_get (header_channel h))"
    obtain kind c' where step: "header_kind h = Some kind" "unat (channel_get (header_channel h)) < length (channels p)"
        "handle_frame (max_frame_size p) kind h ?c b = Some (Some (Incomplete n), c', b')"
      using assms(1) len h no_err
      by (auto simp: process_frame_def header_SIZE_def bind_eq_Some_conv array_get_def err_msg_def split: option.splits if_splits)
    have "channel_inv ?c" "mfs_valid (max_frame_size p)"
      using assms(2) step(2) by (auto simp: protocol_inv_def list_all_length)
    from handle_frame_missing [OF step(3) this len] show ?thesis
      using no_err h len one step(1) by (auto simp: missing_bytes_def frame_length_def)
  qed
qed

text \<open>Once the length of the frame is known, more bytes do not change it.\<close>

lemma frame_length_append:
  assumes "frame_length p b = Some len"
  shows "frame_length p (b @ c) = Some len"
proof -
  have len: "4 \<le> length b"
    using assms by (auto simp: frame_length_def split: if_splits)
  have nth: "(b @ c) ! i = b ! i" if "i < 4" for i
    using len that by (simp add: nth_append)
  have prefixed: "prefixed_length m b = Some len' \<Longrightarrow> prefixed_length m (b @ c) = Some len'" for m len'
    using len by (auto simp: prefixed_length_def decode_varint32_append(1) split: outcome.splits)
  have "payload_frame_length m r h b = Some len' \<Longrightarrow> payload_frame_length m r h (b @ c) = Some len'" for m r h len'
    using prefixed by (auto simp: payload_frame_length_def split: multiframe_receiver.splits if_splits)
  then show ?thesis
    using assms prefixed len by (auto simp: frame_length_def nth split: option.splits if_splits)
qed

text \<open>
  C25: The number of bytes \<^verbatim>\<open>process_incoming\<close> asks for is the number that is missing, no less and no more: the rest of the
  header; then, while the length prefix is incomplete, one byte; then the rest of the frame, which ends
  with the payload or at the maximum frame size. As long as fewer bytes have been appended, every further
  call returns \<^verbatim>\<open>Incomplete\<close> with the difference, so a caller that waits for that many misses nothing; with
  exactly that many, once the length of the frame is known, the frame is read or refused, so it is not made
  to wait again; and the state returned stands for the unread bytes, so an early call does no harm.
\<close>

theorem process_incoming_hint:
  assumes "protocol_inv p" and "process_incoming p b = Some (Incomplete n, p', b')"
  shows "unat n = missing_bytes p' b' \<and> 0 < unat n
    \<and> process_incoming p (b @ extra) = process_incoming p' (b' @ extra)
    \<and> (length extra < unat n \<longrightarrow>
       process_incoming p (b @ extra) = Some (Incomplete (n - of_nat (length extra)), p', b' @ extra))
    \<and> (length extra = unat n \<and> frame_length p' b' \<noteq> None \<longrightarrow>
       (\<forall>k p''. process_incoming p (b @ extra) \<noteq> Some (Incomplete k, p'', b' @ extra)))"
proof -
  note like = protocol_like_refl [OF assms(1)]
  have wait: "process_frame p' b' = Some (Some (Incomplete n), p', b')" and inv: "protocol_inv p'"
    using juliet.run_waiting [OF assms(2) like] by (auto simp: protocol_like_def)
  note hint = juliet.looped.parse_hint [OF like assms(2), of extra]
    and resume = juliet.looped.parse_resume [OF like assms(2), of extra]
  have "process_incoming p' (b' @ extra) \<noteq> Some (Incomplete k, p'', b' @ extra)"
    if "length extra = unat n" "frame_length p' b' = Some len" for k p'' len
  proof
    assume "process_incoming p' (b' @ extra) = Some (Incomplete k, p'', b' @ extra)"
    then have again: "process_frame p' (b' @ extra) = Some (Some (Incomplete k), p', b' @ extra)"
      by (rule juliet.run_progress [OF _ protocol_like_refl [OF inv]])
    have "unat n = len - length b'"
      using process_frame_missing [OF wait inv] that(2) by (simp add: missing_bytes_def)
    moreover have "unat k = len - length (b' @ extra)"
      using process_frame_missing [OF again inv] frame_length_append [OF that(2), of extra] by (simp add: missing_bytes_def)
    ultimately have "unat k = 0"
      using that(1) by simp
    moreover have "0 < unat k"
      using juliet.step_waiting [OF protocol_like_refl [OF inv] again, of "[]"] by simp
    ultimately show False by simp
  qed
  then show ?thesis
    using hint resume process_frame_missing [OF wait inv] by auto
qed

theorem process_incoming_hint_witness:
  "process_incoming two_channel_protocol ([0] @ [1, 2]) = Some (Incomplete 1, two_channel_protocol, [0, 1, 2])"
proof -
  have "process_incoming two_channel_protocol [0] = Some (Incomplete 3, two_channel_protocol, [0])"
    by (simp add: process_incoming.simps process_frame_def header_SIZE_def outcome_incomplete_def)
  from process_incoming_hint [OF two_channel_protocol_inv this, of "[1, 2]"]
  show ?thesis
    by simp
qed

section \<open>Reads are justified\<close>

definition chan_of :: "channel_id \<Rightarrow> juliet_protocol \<Rightarrow> channel" where
  "chan_of ch p = channels p ! unat (channel_get ch)"

definition outgoing_view :: "juliet_protocol \<Rightarrow> msg_id set list" where
  "outgoing_view p = map outgoing_requests (channels p)"

definition channel_exists :: "channel_id \<Rightarrow> juliet_protocol \<Rightarrow> bool" where
  "channel_exists ch p \<longleftrightarrow> unat (channel_get ch) < length (channels p)"

definition payload_within :: "u32 \<Rightarrow> bytes option \<Rightarrow> bool" where
  "payload_within limit payload = (case payload of None \<Rightarrow> True | Some pl \<Rightarrow> length pl \<le> unat limit)"

definition remove_outgoing :: "channel_id \<Rightarrow> msg_id \<Rightarrow> msg_id set list \<Rightarrow> msg_id set list" where
  "remove_outgoing ch i view = view[unat (channel_get ch) := view ! unat (channel_get ch) - {i}]"

definition read_justified :: "juliet_protocol \<Rightarrow> juliet_protocol \<Rightarrow> completed_read \<Rightarrow> bool" where
  "read_justified p p' v = (case v of
       ErrorReceived h data \<Rightarrow> header_is_error h \<and> outgoing_view p' = outgoing_view p
     | NewRequest ch i payload \<Rightarrow> channel_exists ch p \<and> i \<in> incoming_requests (chan_of ch p')
         \<and> payload_within (max_request_payload_size (config (chan_of ch p))) payload
         \<and> outgoing_view p' = outgoing_view p
     | ReceivedResponse ch i payload \<Rightarrow> channel_exists ch p \<and> i \<in> outgoing_requests (chan_of ch p)
         \<and> payload_within (max_response_payload_size (config (chan_of ch p))) payload
         \<and> outgoing_view p' = remove_outgoing ch i (outgoing_view p)
     | RequestCancellation ch i \<Rightarrow> channel_exists ch p \<and> i \<in> incoming_requests (chan_of ch p')
         \<and> outgoing_view p' = outgoing_view p
     | ResponseCancellation ch i \<Rightarrow> channel_exists ch p \<and> i \<in> outgoing_requests (chan_of ch p)
         \<and> outgoing_view p' = remove_outgoing ch i (outgoing_view p))"

text \<open>
  A request whose frames are still arriving occupies a slot of the incoming set.
\<close>

definition chan_tracked :: "channel \<Rightarrow> bool" where
  "chan_tracked c \<longleftrightarrow> (\<forall>h. in_progress_header (current_multiframe_receiver c) = Some h
     \<and> header_kind h = Some RequestPl \<longrightarrow> header_id h \<in> incoming_requests c)"

definition tracked :: "juliet_protocol \<Rightarrow> bool" where
  "tracked p = list_all chan_tracked (channels p)"

text \<open>The same for a single channel and the handlers of one frame.\<close>

definition chan_justified :: "header \<Rightarrow> channel \<Rightarrow> channel \<Rightarrow> completed_read \<Rightarrow> bool" where
  "chan_justified h c c' v = (case v of
       ErrorReceived _ _ \<Rightarrow> False
     | NewRequest ch i payload \<Rightarrow> ch = header_channel h \<and> i \<in> incoming_requests c'
         \<and> payload_within (max_request_payload_size (config c)) payload
         \<and> outgoing_requests c' = outgoing_requests c
     | ReceivedResponse ch i payload \<Rightarrow> ch = header_channel h \<and> i \<in> outgoing_requests c
         \<and> payload_within (max_response_payload_size (config c)) payload
         \<and> outgoing_requests c' = outgoing_requests c - {i}
     | RequestCancellation ch i \<Rightarrow> ch = header_channel h \<and> i \<in> incoming_requests c'
         \<and> outgoing_requests c' = outgoing_requests c
     | ResponseCancellation ch i \<Rightarrow> ch = header_channel h \<and> i \<in> outgoing_requests c
         \<and> outgoing_requests c' = outgoing_requests c - {i})"

definition chan_step_ok :: "header \<Rightarrow> channel \<Rightarrow> read_outcome option \<Rightarrow> channel \<Rightarrow> bool" where
  "chan_step_ok h c flow c' = (case flow of
       Some (Success v) \<Rightarrow> chan_justified h c c' v \<and> chan_tracked c'
     | Some (Fatal e) \<Rightarrow> outgoing_requests c' = outgoing_requests c
     | _ \<Rightarrow> outgoing_requests c' = outgoing_requests c \<and> chan_tracked c')"

lemmas justified_defs = chan_step_ok_def chan_justified_def payload_within_def err_msg_def

lemma simple_handlers_ok:
  assumes "chan_tracked c" and "4 \<le> length b"
  shows "handle_request h c b = Some (flow, c', b') \<Longrightarrow> chan_step_ok h c flow c'"
    and "handle_response h c b = Some (flow, c', b') \<Longrightarrow> chan_step_ok h c flow c'"
    and "handle_cancel_resp h c b = Some (flow, c', b') \<Longrightarrow> chan_step_ok h c flow c'"
    and "handle_cancel_req h c b = Some (flow, c', b') \<Longrightarrow> chan_step_ok h c flow c'"
proof -
  note [simp] = justified_defs header_SIZE_def Let_def chan_tracked_def
  show "handle_request h c b = Some (flow, c', b') \<Longrightarrow> chan_step_ok h c flow c'"
    using assms by (auto simp: handle_request_def split: if_splits)
  show "handle_response h c b = Some (flow, c', b') \<Longrightarrow> chan_step_ok h c flow c'"
    using assms by (auto simp: handle_response_def split: if_splits)
  show "handle_cancel_resp h c b = Some (flow, c', b') \<Longrightarrow> chan_step_ok h c flow c'"
    using assms by (auto simp: handle_cancel_resp_def split: if_splits)
  show "handle_cancel_req h c b = Some (flow, c', b') \<Longrightarrow> chan_step_ok h c flow c'"
    using assms
    by (auto simp: handle_cancel_req_alt cancel_transfer_def split: if_splits option.splits)
qed

lemma handle_request_pl_ok:
  assumes "handle_request_pl m h c b = Some (flow, c', b')" and "chan_tracked c" and "channel_inv c"
    and "mfs_valid m" and "4 \<le> length b" and "header_valid h" and "header_kind h = Some RequestPl"
  shows "chan_step_ok h c flow c'"
proof -
  let ?r = "current_multiframe_receiver c" and ?maxp = "max_request_payload_size (config c)"
  have inv: "receiver_inv ?r" "transfer_inv (config c) ?r"
    using assms(3) by (simp_all add: channel_inv_def transfer_inv_def)
  obtain oc r' b1 where spec: "accept_spec m ?maxp RequestTooLarge ?r h b = (oc, r', b1)"
    by (metis prod_cases3)
  note step = assms(1) [unfolded handle_request_pl_def
      accept_accept_spec [OF assms(4) inv(1) assms(5)] spec]
  note [simp] = justified_defs Let_def chan_tracked_def transfer_inv_def
  show ?thesis
    by (cases rule: accept_spec_cases [OF spec assms(4) inv(1) assms(6)])
       (use step assms(2,7) inv(2) in \<open>auto split: if_splits simp: word_le_nat_alt\<close>)
qed

lemma handle_response_pl_ok:
  assumes "handle_response_pl m h c b = Some (flow, c', b')" and "chan_tracked c" and "channel_inv c"
    and "mfs_valid m" and "4 \<le> length b" and "header_valid h" and "header_kind h = Some ResponsePl"
  shows "chan_step_ok h c flow c'"
proof (cases "header_id h \<in> outgoing_requests c")
  case False
  then show ?thesis
    using assms(1,2) by (auto simp: handle_response_pl_def justified_defs)
next
  case True
  let ?r = "current_multiframe_receiver c" and ?maxp = "max_response_payload_size (config c)"
  have inv: "receiver_inv ?r" "transfer_inv (config c) ?r"
    using assms(3) by (simp_all add: channel_inv_def transfer_inv_def)
  obtain oc r' b1 where spec: "accept_spec m ?maxp ResponseTooLarge ?r h b = (oc, r', b1)"
    by (metis prod_cases3)
  note step = assms(1) [unfolded handle_response_pl_def
      accept_accept_spec [OF assms(4) inv(1) assms(5)] spec]
  note [simp] = justified_defs Let_def chan_tracked_def transfer_inv_def
  show ?thesis
    by (cases rule: accept_spec_cases [OF spec assms(4) inv(1) assms(6)])
       (use step True assms(2,7) inv(2) in \<open>auto split: if_splits simp: word_le_nat_alt\<close>)
qed

lemma handle_frame_ok:
  assumes "handle_frame m kind h c b = Some (flow, c', b')" and "chan_tracked c" and "channel_inv c"
    and "mfs_valid m" and "4 \<le> length b" and "header_valid h" and "header_kind h = Some kind"
  shows "chan_step_ok h c flow c'"
  using assms simple_handlers_ok [OF assms(2,5)] handle_request_pl_ok [OF _ assms(2-6)]
    handle_response_pl_ok [OF _ assms(2-6)]
  by (cases kind) (simp_all add: handle_frame_def)

definition step_ok :: "juliet_protocol \<Rightarrow> read_outcome option \<Rightarrow> juliet_protocol \<Rightarrow> bool" where
  "step_ok p flow p' = (case flow of
       Some (Success v) \<Rightarrow> read_justified p p' v \<and> tracked p'
     | Some (Fatal e) \<Rightarrow> outgoing_view p' = outgoing_view p
     | _ \<Rightarrow> outgoing_view p' = outgoing_view p \<and> tracked p')"

lemma outgoing_view_put:
  assumes "channel_exists ch p"
  shows "outgoing_requests c = outgoing_requests (chan_of ch p) \<Longrightarrow>
      outgoing_view (put_channel ch c p) = outgoing_view p"
    and "outgoing_requests c = outgoing_requests (chan_of ch p) - {i} \<Longrightarrow>
      outgoing_view (put_channel ch c p) = remove_outgoing ch i (outgoing_view p)"
    and "chan_of ch (put_channel ch c p) = c"
    and "tracked p \<Longrightarrow> chan_tracked c \<Longrightarrow> tracked (put_channel ch c p)"
  using assms
  by (auto simp: outgoing_view_def put_channel_def chan_of_def remove_outgoing_def channel_exists_def
      tracked_def list_all_nth_update map_update nth_list_update' intro!: nth_equalityI split: if_splits)

lemma step_ok_put:
  assumes "chan_step_ok h (chan_of (header_channel h) p) flow c'"
    and "channel_exists (header_channel h) p" and "tracked p"
  shows "step_ok p flow (put_channel (header_channel h) c' p)"
  using assms outgoing_view_put [OF assms(2)]
  by (auto simp: step_ok_def chan_step_ok_def read_justified_def chan_justified_def
      split: option.splits outcome.splits completed_read.splits)

lemma process_frame_ok:
  assumes "process_frame p b = Some (flow, p', b')" and "protocol_inv p" and "tracked p"
  shows "step_ok p flow p'"
proof (cases "length b < 4")
  case True
  then show ?thesis
    using assms by (auto simp: process_frame_def header_SIZE_def step_ok_def bind_eq_Some_conv
        outcome_incomplete_eq_Some_iff)
next
  case False
  then have len: "4 \<le> length b"
    by simp
  note unfold = process_frame_def header_SIZE_def
  show ?thesis
  proof (cases "header_parse (b ! 0) (b ! 1) (b ! 2) (b ! 3)")
    case None
    then show ?thesis
      using assms len by (auto simp: unfold step_ok_def)
  next
    case (Some h)
    note valid = header_parse_valid [OF Some]
    show ?thesis
    proof (cases "header_is_error h")
      case True
      then have "\<exists>oc. flow = Some oc \<and> p' = p \<and>
          (\<forall>v. oc = Success v \<longrightarrow> (\<exists>data. v = ErrorReceived h data))"
        using assms(1) Some len
        by (auto simp: unfold handle_error_frame_def bind_eq_Some_conv try_outcome_def err_msg_def
            outcome_incomplete_eq_Some_iff Let_def split: if_splits outcome.splits)
      then show ?thesis
        using True assms(3) by (auto simp: step_ok_def read_justified_def split: outcome.splits)
    next
      case no_err: False
      show ?thesis
      proof (cases "channel_exists (header_channel h) p")
        case False
        then show ?thesis
          using assms Some no_err len
          by (auto simp: unfold step_ok_def channel_exists_def array_get_def err_msg_def)
      next
        case True
        obtain kind where kind: "header_kind h = Some kind"
          using header_valid_no_panic(2) [OF valid no_err] by blast
        let ?c = "chan_of (header_channel h) p"
        have inv: "channel_inv ?c" "chan_tracked ?c" "mfs_valid (max_frame_size p)"
          using assms(2,3) True
          by (simp_all add: protocol_inv_def tracked_def list_all_length chan_of_def channel_exists_def)
        obtain c' where "handle_frame (max_frame_size p) kind h ?c b = Some (flow, c', b')"
          "p' = put_channel (header_channel h) c' p"
          using assms(1) Some no_err len True kind
          by (auto simp: unfold channel_exists_def chan_of_def bind_eq_Some_conv)
        then show ?thesis
          using step_ok_put [OF handle_frame_ok [OF _ inv(2,1,3) len valid kind] True assms(3)] by simp
      qed
    qed
  qed
qed

text \<open>
  C10: Whatever bytes arrive, \<^verbatim>\<open>process_incoming\<close> reports only what the state justifies. A response or
  response cancellation is reported only for a request that was outstanding, whose identifier is then
  released, so no request is answered twice; nothing else changes the outstanding requests. A new
  request or request cancellation is reported only for an identifier held in the incoming set, on an
  existing channel; every reported payload respects the configured limit; and a request whose frames
  are still arriving stays in the incoming set.
\<close>

theorem process_incoming_justified:
  assumes "protocol_inv p" and "tracked p" and "process_incoming p b = Some (oc, p', b')"
  shows "case oc of
      Success v \<Rightarrow> read_justified p p' v \<and> tracked p'
    | Incomplete n \<Rightarrow> outgoing_view p' = outgoing_view p \<and> tracked p'
    | Fatal msg \<Rightarrow> outgoing_view p' = outgoing_view p"
proof -
  let ?P = "\<lambda>p oc p'. tracked p \<longrightarrow> step_ok p (Some oc) p'"
  have "?P p oc p'"
    using assms(3) protocol_like_refl [OF assms(1)]
  proof (rule juliet.run_induct)
    fix q b oc q' b'
    assume "protocol_like (max_frame_size p) (map config (channels p)) q"
      "process_frame q b = Some (Some oc, q', b')"
    then show "?P q oc q'"
      using process_frame_ok by (auto simp: protocol_like_def)
  next
    fix q b q1 b1 oc q'
    assume q: "protocol_like (max_frame_size p) (map config (channels p)) q"
      "process_frame q b = Some (None, q1, b1)"
      "protocol_like (max_frame_size p) (map config (channels p)) q1" and ih: "?P q1 oc q'"
    show "?P q oc q'"
    proof
      assume "tracked q"
      then have "step_ok q None q1"
        using process_frame_ok [OF q(2)] q(1) by (simp add: protocol_like_def)
      then have view: "outgoing_view q1 = outgoing_view q" and "tracked q1"
        by (simp_all add: step_ok_def)
      have cfg: "map config (channels q1) = map config (channels q)"
        using q by (simp add: protocol_like_def)
      then have "channel_exists ch q1 = channel_exists ch q" for ch
        by (metis channel_exists_def length_map)
      moreover have "config (chan_of ch q1) = config (chan_of ch q)
          \<and> outgoing_requests (chan_of ch q1) = outgoing_requests (chan_of ch q)" if "channel_exists ch q" for ch
        using cfg view that
        by (metis chan_of_def channel_exists_def length_map nth_map outgoing_view_def)
      ultimately have "read_justified q1 q' v \<Longrightarrow> read_justified q q' v" for v
        using view by (auto simp: read_justified_def split: completed_read.splits)
      then show "step_ok q (Some oc) q'"
        using ih \<open>tracked q1\<close> view by (auto simp: step_ok_def split: outcome.splits)
    qed
  qed
  then show ?thesis
    using assms(2) by (simp add: step_ok_def)
qed

lemma read_request_example:
  "\<exists>p'. process_incoming two_channel_protocol [0, 1, 7, 0] =
     Some (Success (NewRequest (ChannelId 1) (Id 7) None), p', [])"
proof -
  have "header_parse 0 1 7 0 = Some (header_new Request (ChannelId 1) (Id 7))"
    by (simp add: header_parse_def header_defs kind_consts Let_def word_le_nat_alt)
  then show ?thesis
    by (simp add: process_incoming.simps process_frame_def header_SIZE_def two_channel_protocol_def
        builder_build_def juliet_protocol_builder_def handle_frame_def handle_request_def
        is_at_max_incoming_requests_def channel_new_def channel_configuration_defs)
qed

theorem process_incoming_justified_witness:
  "\<exists>p'. process_incoming two_channel_protocol [0, 1, 7, 0] =
       Some (Success (NewRequest (ChannelId 1) (Id 7) None), p', [])
     \<and> read_justified two_channel_protocol p' (NewRequest (ChannelId 1) (Id 7) None)"
proof -
  have "tracked two_channel_protocol"
    by (simp add: tracked_def two_channel_protocol_def builder_build_def juliet_protocol_builder_def
        list_all_iff chan_tracked_def channel_new_def)
  then show ?thesis
    using read_request_example process_incoming_justified [OF two_channel_protocol_inv] by fastforce
qed

end
