(* ===== verification/Protocol_Sending.thy ===== *)
theory Protocol_Sending
  imports Protocol_Reading
begin

text \<open>
  Properties of the operations of \<^verbatim>\<open>JulietProtocol\<close> that create messages: what they return on every
  branch, that they keep the invariant, and that the messages they create can be sent (their payload
  fits the wire format). Two divergences between code and documentation are proved as they are.
\<close>

lemma lookup_channel_eq:
  "lookup_channel p ch =
     (if channel_exists ch p then Inr (chan_of ch p) else Inl (InvalidChannel ch (length (channels p))))"
  by (simp add: lookup_channel_def channel_exists_def chan_of_def not_less [symmetric])

lemma chan_of_inv:
  "protocol_like m cfgs p \<Longrightarrow> channel_exists ch p \<Longrightarrow> channel_inv (chan_of ch p)"
  by (simp add: protocol_like_def protocol_inv_def channel_exists_def chan_of_def list_all_length)

lemma protocol_like_put_chan:
  "protocol_like m cfgs p \<Longrightarrow> channel_inv c \<Longrightarrow> config c = config (chan_of ch p) \<Longrightarrow>
     protocol_like m cfgs (put_channel ch c p)"
  by (rule protocol_like_put) (simp_all add: chan_of_def)

lemmas sending_defs = create_response_def cancel_request_def cancel_response_def lookup_channel_eq Let_def

lemma create_request_cases:
  assumes "protocol_like m cfgs p"
  obtains (no_channel) "\<not> channel_exists ch p"
      "create_request ch payload p = Some (Inl (InvalidChannel ch (length (channels p))), p)"
  | (too_large) pl where "channel_exists ch p" "payload = Some pl"
      "unat (max_request_payload_size (config (chan_of ch p))) < length pl"
      "create_request ch payload p = Some (Inl (PayloadExceedsLimit (length pl)
         (unat (max_request_payload_size (config (chan_of ch p))))), p)"
  | (at_limit) "channel_exists ch p"
      "payload_within (max_request_payload_size (config (chan_of ch p))) payload"
      "card (outgoing_requests (chan_of ch p)) = unat (request_limit (config (chan_of ch p)))"
      "create_request ch payload p =
         Some (Inl (WouldExceedRequestLimit (request_limit (config (chan_of ch p)))), p)"
  | (created) i where "channel_exists ch p"
      "payload_within (max_request_payload_size (config (chan_of ch p))) payload"
      "card (outgoing_requests (chan_of ch p)) < unat (request_limit (config (chan_of ch p)))"
      "i \<notin> outgoing_requests (chan_of ch p)"
      "create_request ch payload p = Some
         (Inr (outgoing_message_new (header_new (if payload = None then Request else RequestPl) ch i) payload),
          put_channel ch ((chan_of ch p)\<lparr>prev_request_id := id_get i,
            outgoing_requests := insert i (outgoing_requests (chan_of ch p))\<rparr>) p)"
proof (cases "channel_exists ch p")
  case False
  then show ?thesis
    using that(1) by (simp add: create_request_def lookup_channel_eq)
next
  case True
  let ?c = "chan_of ch p"
  let ?max = "unat (max_request_payload_size (config ?c))"
  consider pl where "payload = Some pl" "?max < length pl"
    | "payload_within (max_request_payload_size (config ?c)) payload"
    by (cases "payload_within (max_request_payload_size (config ?c)) payload")
       (auto simp: payload_within_def not_le split: option.splits)
  then show ?thesis
  proof cases
    case 1
    then show ?thesis
      using True that(2) by (simp add: create_request_def lookup_channel_eq)
  next
    case 2
    then have small: "\<not> (case payload of Some pl \<Rightarrow> ?max < length pl | None \<Rightarrow> False)"
      by (simp add: payload_within_def split: option.splits)
    show ?thesis
    proof (cases "channel_allowed_to_send_request ?c")
      case False
      moreover have "card (outgoing_requests ?c) \<le> unat (request_limit (config ?c))"
        using chan_of_inv [OF assms True] by (simp add: channel_inv_def)
      ultimately show ?thesis
        using True 2 small that(3)
        by (simp add: create_request_def lookup_channel_eq channel_request_limit_def
            channel_allowed_to_send_request_def)
    next
      case allowed: True
      obtain i where "i \<notin> outgoing_requests ?c" "create_unchecked_request ch payload ?c = Some
          (outgoing_message_new (header_new (if payload = None then Request else RequestPl) ch i) payload,
           ?c\<lparr>prev_request_id := id_get i, outgoing_requests := insert i (outgoing_requests ?c)\<rparr>)"
        using create_unchecked_request_fresh [OF allowed_to_send_room [OF allowed]] by blast
      then show ?thesis
        using True 2 small allowed that(4) [of i]
        by (simp add: create_request_def lookup_channel_eq channel_allowed_to_send_request_def)
    qed
  qed
qed

lemma create_request_like [inv_intros]:
  assumes "protocol_like m cfgs p" and "create_request ch payload p = Some (res, p')"
  shows "protocol_like m cfgs p'"
proof -
  have "protocol_like m cfgs (put_channel ch ((chan_of ch p)\<lparr>prev_request_id := j,
      outgoing_requests := insert i (outgoing_requests (chan_of ch p))\<rparr>) p)"
    if "channel_exists ch p"
      "card (outgoing_requests (chan_of ch p)) < unat (request_limit (config (chan_of ch p)))" for i j
    using that chan_of_inv [OF assms(1) that(1)]
    by (intro protocol_like_put_chan [OF assms(1)])
       (auto simp: channel_inv_def card_insert_if)
  then show ?thesis
    using assms(2) by (cases rule: create_request_cases [OF assms(1), of ch payload]) (use assms in auto)
qed

lemma create_response_like [inv_intros]:
  assumes "protocol_like m cfgs p"
  shows "protocol_like m cfgs (snd (create_response ch i payload p))"
  using assms channel_inv_remove_incoming [OF chan_of_inv [OF assms]]
  by (auto simp: sending_defs intro!: protocol_like_put_chan split: option.splits)

lemma cancel_response_like [inv_intros]:
  assumes "protocol_like m cfgs p"
  shows "protocol_like m cfgs (snd (cancel_response ch i p))"
  using assms channel_inv_remove_incoming [OF chan_of_inv [OF assms]]
  by (auto simp: sending_defs intro!: protocol_like_put_chan)

lemma cancel_request_state: "snd (cancel_request ch i p) = p"
  by (simp add: sending_defs)

section \<open>Properties\<close>

lemma builder_build_inv: "mfs_valid (pb_max_frame_size b) \<Longrightarrow> protocol_inv (builder_build b)"
  by (auto simp: builder_build_def protocol_inv_def list_all_iff channel_new_inv)

lemma default_protocol_inv: "protocol_inv (builder_build (juliet_protocol_builder k cfg))"
  by (rule builder_build_inv) (simp add: juliet_protocol_builder_def mfs_DEFAULT_def mfs_valid_def)

text \<open>
  A protocol built by \<^verbatim>\<open>ProtocolBuilder\<close>, with any channel configurations and any maximum frame size the
  builder accepts, satisfies the protocol invariant; the builder accepts exactly the sizes from
  \<^verbatim>\<open>MaxFrameSize::MIN\<close> (ten bytes) on and panics on smaller ones.
\<close>

theorem builder_establishes_invariant:
  "(builder_max_frame_size n b = None \<longleftrightarrow> n < 10)
   \<and> (\<forall>b'. builder_max_frame_size n b = Some b' \<longrightarrow> protocol_inv (builder_build b')
        \<and> map config (channels (builder_build b')) = pb_channel_config b)
   \<and> protocol_inv (builder_build (juliet_protocol_builder k cfg))"
proof (intro conjI)
  have min: "mfs_MIN = 10"
    by (simp add: mfs_MIN_def header_SIZE_def varint32_MAX_LEN_def)
  show "builder_max_frame_size n b = None \<longleftrightarrow> n < 10"
    by (auto simp: builder_max_frame_size_def mfs_new_def min rust_assert_def not_le)
  have cfg: "config (channel_new c) = c" for c
    by (simp add: channel_new_def)
  show "\<forall>b'. builder_max_frame_size n b = Some b' \<longrightarrow> protocol_inv (builder_build b')
        \<and> map config (channels (builder_build b')) = pb_channel_config b"
    and "protocol_inv (builder_build (juliet_protocol_builder k cfg))"
    by (auto simp: builder_max_frame_size_def bind_eq_Some_conv default_protocol_inv
        intro!: builder_build_inv dest: mfs_new_valid)
       (simp add: builder_build_def cfg comp_def)
qed

theorem builder_establishes_invariant_witness:
  "builder_max_frame_size 9 (builder_new 3) = None
   \<and> (\<exists>b'. builder_max_frame_size 10 (builder_new 3) = Some b' \<and> protocol_inv (builder_build b'))"
  using builder_establishes_invariant [of 9 "builder_new 3"] builder_establishes_invariant [of 10 "builder_new 3"]
  by (cases "builder_max_frame_size 10 (builder_new 3)") auto

text \<open>
  C16: \<^verbatim>\<open>create_request\<close> never panics and its identifier search always ends. On success the channel exists,
  the payload respects the limit, fewer than \<^verbatim>\<open>request_limit\<close> requests were outstanding, and the
  message carries an identifier that was not in use, which is recorded; otherwise the violation named
  in the documentation is returned and nothing changes. The invariant is kept in every case.
\<close>

theorem create_request_spec:
  assumes "protocol_inv p"
  shows "\<exists>res p'. create_request ch payload p = Some (res, p') \<and> protocol_inv p' \<and>
    (case res of
       Inl violation \<Rightarrow> p' = p \<and>
         (violation = InvalidChannel ch (length (channels p)) \<and> \<not> channel_exists ch p
          \<or> channel_exists ch p \<and> (\<exists>pl. payload = Some pl \<and>
              violation = PayloadExceedsLimit (length pl) (unat (max_request_payload_size (config (chan_of ch p))))
              \<and> unat (max_request_payload_size (config (chan_of ch p))) < length pl)
          \<or> channel_exists ch p \<and> violation = WouldExceedRequestLimit (request_limit (config (chan_of ch p)))
              \<and> card (outgoing_requests (chan_of ch p)) = unat (request_limit (config (chan_of ch p))))
     | Inr msg \<Rightarrow> channel_exists ch p \<and> payload_fits msg \<and> om_payload msg = payload
         \<and> payload_within (max_request_payload_size (config (chan_of ch p))) payload
         \<and> card (outgoing_requests (chan_of ch p)) < unat (request_limit (config (chan_of ch p)))
         \<and> (\<exists>i. i \<notin> outgoing_requests (chan_of ch p)
              \<and> om_header msg = header_new (if payload = None then Request else RequestPl) ch i
              \<and> outgoing_requests (chan_of ch p') = insert i (outgoing_requests (chan_of ch p))
              \<and> incoming_requests (chan_of ch p') = incoming_requests (chan_of ch p)))"
proof -
  note like = protocol_like_refl [OF assms]
  have inv: "protocol_inv p'" if "create_request ch payload p = Some (res, p')" for res p'
    using create_request_like [OF like that] by (simp add: protocol_like_def)
  have fits: "payload_fits (outgoing_message_new h payload)"
    if "payload_within limit payload" for h limit
    using that unat_u32_le [of limit]
    by (auto simp: payload_fits_def payload_within_def outgoing_message_new_def split: option.splits)
  show ?thesis
    by (cases rule: create_request_cases [OF like, of ch payload])
       (use inv fits in \<open>auto simp: outgoing_message_new_def outgoing_view_put(3)\<close>)
qed

theorem create_request_spec_witness:
  "\<exists>res p'. create_request (ChannelId 1) (Some [1, 2, 3]) two_channel_protocol = Some (res, p')
     \<and> protocol_inv p'"
  using create_request_spec [OF two_channel_protocol_inv, of "ChannelId 1" "Some [1, 2, 3]"] by blast

text \<open>
  C17: \<^verbatim>\<open>create_response\<close> and \<^verbatim>\<open>cancel_response\<close> answer an incoming request at most once: they produce a
  message, with a payload within the limit, exactly if the identifier is in the incoming set, and
  remove it, so that a second answer is refused with \<^verbatim>\<open>None\<close>; \<^verbatim>\<open>cancel_request\<close> produces a message exactly if
  the request is outstanding, and keeps it outstanding. The invariant is kept.
\<close>

theorem answer_at_most_once:
  assumes "protocol_inv p" and "channel_exists ch p"
  defines "c \<equiv> chan_of ch p"
  shows "(case create_response ch i payload p of
       (Inr (Some msg), p') \<Rightarrow> i \<in> incoming_requests c
         \<and> payload_within (max_response_payload_size (config c)) payload
         \<and> msg = outgoing_message_new (header_new (if payload = None then Response else ResponsePl) ch i) payload
         \<and> create_response ch i payload' p' = (Inr None, p') \<and> cancel_response ch i p' = (Inr None, p')
     | (Inr None, p') \<Rightarrow> i \<notin> incoming_requests c \<and> p' = p
     | (Inl violation, p') \<Rightarrow> i \<in> incoming_requests c
         \<and> \<not> payload_within (max_response_payload_size (config c)) payload)
    \<and> (case cancel_response ch i p of
       (Inr (Some msg), p') \<Rightarrow> i \<in> incoming_requests c
         \<and> msg = outgoing_message_new (header_new CancelResp ch i) None
         \<and> create_response ch i payload' p' = (Inr None, p') \<and> cancel_response ch i p' = (Inr None, p')
     | (Inr None, p') \<Rightarrow> i \<notin> incoming_requests c \<and> p' = p
     | (Inl violation, p') \<Rightarrow> False)
    \<and> cancel_request ch i p = (Inr (if i \<in> outgoing_requests c
         then Some (outgoing_message_new (header_new CancelReq ch i) None) else None), p)
    \<and> protocol_inv (snd (create_response ch i payload p)) \<and> protocol_inv (snd (cancel_response ch i p))"
proof (intro conjI)
  note like = protocol_like_refl [OF assms(1)]
  show "protocol_inv (snd (create_response ch i payload p))" "protocol_inv (snd (cancel_response ch i p))"
    using create_response_like [OF like] cancel_response_like [OF like] by (simp_all add: protocol_like_def)
  have put: "channel_exists ch (put_channel ch c' p)" for c'
    using assms(2) by (simp add: channel_exists_def put_channel_def)
  note unfold = sending_defs assms(2) c_def put outgoing_view_put(3) [OF assms(2)]
    create_unchecked_response_def create_unchecked_response_cancellation_def
    create_unchecked_request_cancellation_def payload_within_def not_le
  show "case create_response ch i payload p of
       (Inr (Some msg), p') \<Rightarrow> i \<in> incoming_requests c
         \<and> payload_within (max_response_payload_size (config c)) payload
         \<and> msg = outgoing_message_new (header_new (if payload = None then Response else ResponsePl) ch i) payload
         \<and> create_response ch i payload' p' = (Inr None, p') \<and> cancel_response ch i p' = (Inr None, p')
     | (Inr None, p') \<Rightarrow> i \<notin> incoming_requests c \<and> p' = p
     | (Inl violation, p') \<Rightarrow> i \<in> incoming_requests c
         \<and> \<not> payload_within (max_response_payload_size (config c)) payload"
    by (cases payload) (simp_all add: unfold)
  show "case cancel_response ch i p of
       (Inr (Some msg), p') \<Rightarrow> i \<in> incoming_requests c
         \<and> msg = outgoing_message_new (header_new CancelResp ch i) None
         \<and> create_response ch i payload' p' = (Inr None, p') \<and> cancel_response ch i p' = (Inr None, p')
     | (Inr None, p') \<Rightarrow> i \<notin> incoming_requests c \<and> p' = p
     | (Inl violation, p') \<Rightarrow> False"
    by (simp add: unfold)
  show "cancel_request ch i p = (Inr (if i \<in> outgoing_requests c
         then Some (outgoing_message_new (header_new CancelReq ch i) None) else None), p)"
    by (simp add: unfold)
qed

theorem answer_at_most_once_witness:
  "cancel_request (ChannelId 1) (Id 5) two_channel_protocol = (Inr None, two_channel_protocol)
   \<and> protocol_inv (snd (cancel_response (ChannelId 1) (Id 5) two_channel_protocol))"
proof -
  have "channel_exists (ChannelId 1) two_channel_protocol"
      "outgoing_requests (chan_of (ChannelId 1) two_channel_protocol) = {}"
    by (simp_all add: channel_exists_def chan_of_def two_channel_protocol_def builder_build_def
        juliet_protocol_builder_def channel_new_def)
  then show ?thesis
    using answer_at_most_once [OF two_channel_protocol_inv, of "ChannelId 1" "Id 5"] by simp
qed

text \<open>
  When a response payload is too large, \<^verbatim>\<open>create_response\<close> reports the request payload limit of the
  channel as the limit exceeded, not the response limit it checked against, and the request has
  already left the incoming set: the caller gets an error and can no longer answer the request, not
  even with a cancellation. (The documentation of \<^verbatim>\<open>PayloadExceedsLimit\<close> promises the configured limit.)
\<close>

theorem create_response_too_large:
  assumes "channel_exists ch p" and "i \<in> incoming_requests (chan_of ch p)"
    and "unat (max_response_payload_size (config (chan_of ch p))) < length payload"
  shows "\<exists>p'. create_response ch i (Some payload) p = (Inl (PayloadExceedsLimit (length payload)
           (unat (max_request_payload_size (config (chan_of ch p))))), p')
     \<and> create_response ch i None p' = (Inr None, p') \<and> cancel_response ch i p' = (Inr None, p')"
  using assms by (auto simp: sending_defs outgoing_view_put(3)) (simp add: channel_exists_def put_channel_def)+

theorem create_response_too_large_witness:
  "\<exists>p'. create_response (ChannelId 1) (Id 5) (Some (replicate 9 0))
        (put_channel (ChannelId 1) ((chan_of (ChannelId 1) two_channel_protocol)\<lparr>incoming_requests := {Id 5}\<rparr>)
           two_channel_protocol) = (Inl (PayloadExceedsLimit 9 8), p')"
  using create_response_too_large [of "ChannelId 1" "put_channel (ChannelId 1)
      ((chan_of (ChannelId 1) two_channel_protocol)\<lparr>incoming_requests := {Id 5}\<rparr>) two_channel_protocol"
      "Id 5" "replicate 9 0"]
  by (auto simp: channel_exists_def chan_of_def put_channel_def two_channel_protocol_def builder_build_def
      juliet_protocol_builder_def channel_new_def channel_configuration_defs)

text \<open>
  \<^verbatim>\<open>custom_error\<close> returns exactly the error messages that fit a single frame, with header kind
  \<^verbatim>\<open>Other\<close> and the payload untouched, and refuses longer payloads with \<^verbatim>\<open>ErrorPayloadIsMultiFrame\<close>. The
  channel plays no role: contrary to its documentation it accepts channels that do not exist.
\<close>

theorem custom_error_spec:
  assumes "mfs_valid (max_frame_size p)" and "length payload \<le> u32_max"
  shows "custom_error ch i payload p = Some
    (let msg = outgoing_message_new (header_new_error Other ch i) (Some payload)
     in if length (wire_frames (max_frame_size p) msg) = 1 then Inr msg
        else Inl (ErrorPayloadIsMultiFrame (length payload) (mfs_get (max_frame_size p))))"
proof -
  let ?msg = "outgoing_message_new (header_new_error Other ch i) (Some payload)"
  have "om_is_multi_frame (max_frame_size p) ?msg = Some (1 < length (wire_frames (max_frame_size p) ?msg))"
    using assms by (intro om_is_multi_frame_wire) (simp_all add: payload_fits_def outgoing_message_new_def)
  moreover have "length (wire_frames (max_frame_size p) ?msg) \<noteq> 0"
    by (simp add: wire_frames_def)
  then have "1 < length (wire_frames (max_frame_size p) ?msg)
      \<longleftrightarrow> length (wire_frames (max_frame_size p) ?msg) \<noteq> 1"
    by linarith
  ultimately show ?thesis
    by (simp add: custom_error_def Let_def)
qed

theorem custom_error_spec_witness:
  "custom_error (ChannelId 200) (Id 5) [1, 2] two_channel_protocol =
     Some (Inr (outgoing_message_new (header_new_error Other (ChannelId 200) (Id 5)) (Some [1, 2])))
   \<and> \<not> channel_exists (ChannelId 200) two_channel_protocol"
proof -
  let ?msg = "outgoing_message_new (header_new_error Other (ChannelId 200) (Id 5)) (Some [1, 2])"
  have m: "max_frame_size two_channel_protocol = MaxFrameSize 4096"
    by (simp add: two_channel_protocol_def builder_build_def juliet_protocol_builder_def mfs_DEFAULT_def)
  have "length (wire_frames (MaxFrameSize 4096) ?msg) = 1"
    by (simp add: wire_frames_def outgoing_message_new_def message_stream_def mfs_get_usize_def
        header_SIZE_def leb128_small split_chunks_short)
  moreover have "\<not> channel_exists (ChannelId 200) two_channel_protocol"
    by (simp add: channel_exists_def two_channel_protocol_def builder_build_def juliet_protocol_builder_def)
  ultimately show ?thesis
    using custom_error_spec [of two_channel_protocol "[1, 2]" "ChannelId 200" "Id 5"]
    by (simp add: m mfs_valid_def)
qed

section \<open>Channels that are written back\<close>

lemma channel_id_eq_iff: "unat (channel_get a) = unat (channel_get b) \<longleftrightarrow> a = b"
  by (cases a; cases b) (simp add: word_unat_eq_iff)

lemma put_channel_idem [simp]: "put_channel ch c2 (put_channel ch c1 p) = put_channel ch c2 p"
  by (simp add: put_channel_def)

lemma put_channel_same [simp]: "put_channel ch (chan_of ch p) p = p"
  by (simp add: put_channel_def chan_of_def)

lemma max_frame_size_put [simp]: "max_frame_size (put_channel ch c p) = max_frame_size p"
  by (simp add: put_channel_def)

lemma length_channels_put [simp]: "length (channels (put_channel ch c p)) = length (channels p)"
  by (simp add: put_channel_def)

lemma channel_exists_put [simp]: "channel_exists ch' (put_channel ch c p) = channel_exists ch' p"
  by (simp add: channel_exists_def put_channel_def)

lemma chan_of_put_same [simp]: "channel_exists ch p \<Longrightarrow> chan_of ch (put_channel ch c p) = c"
  by (rule outgoing_view_put(3))

lemma chan_of_put_other [simp]: "ch' \<noteq> ch \<Longrightarrow> chan_of ch' (put_channel ch c p) = chan_of ch' p"
  by (simp add: chan_of_def put_channel_def channel_id_eq_iff)

lemma chan_of_put:
  "channel_exists ch p \<Longrightarrow> chan_of ch' (put_channel ch c p) = (if ch' = ch then c else chan_of ch' p)"
  by simp

end
