(* ===== verification/Delivery.thy ===== *)
theory Delivery
  imports Protocol_Sending
begin

text \<open>
  From the sender's frames to the receiver's reads. \<open>receive_message\<close> is the abstract effect of a whole
  message on a channel; the refinement theorem shows that \<^verbatim>\<open>process_incoming\<close>, fed with the frames that
  \<^verbatim>\<open>OutgoingMessage\<close> produces for the message, has exactly this effect, however many frames there are.
\<close>

section \<open>Effect of a message\<close>

definition receive_message ::
  "frame_kind \<Rightarrow> channel_id \<Rightarrow> msg_id \<Rightarrow> bytes option \<Rightarrow> channel
   \<Rightarrow> (error_kind + completed_read option) \<times> channel" where
  "receive_message k ch i payload c =
     (if k = Request \<or> k = RequestPl then
        (if is_at_max_incoming_requests c then (Inl RequestLimitExceeded, c)
         else if i \<in> incoming_requests c then (Inl DuplicateRequest, c)
         else (Inr (Some (NewRequest ch i payload)), increment_cancellation_allowance
                 (c\<lparr>incoming_requests := insert i (incoming_requests c)\<rparr>)))
      else if k = Response \<or> k = ResponsePl then
        (if i \<notin> outgoing_requests c then (Inl FictitiousRequest, c)
         else (Inr (Some (ReceivedResponse ch i payload)),
               c\<lparr>outgoing_requests := outgoing_requests c - {i}\<rparr>))
      else if k = CancelReq then
        (if cancellation_allowance c = 0 then (Inl CancellationLimitExceeded, c)
         else (Inr (if i \<in> incoming_requests c then Some (RequestCancellation ch i) else None),
               c\<lparr>cancellation_allowance := cancellation_allowance c - 1\<rparr>))
      else
        (if i \<notin> outgoing_requests c then (Inl FictitiousCancel, c)
         else (Inr (Some (ResponseCancellation ch i)),
               c\<lparr>outgoing_requests := outgoing_requests c - {i}\<rparr>)))"

definition payload_limit :: "frame_kind \<Rightarrow> channel_configuration \<Rightarrow> u32" where
  "payload_limit k cfg =
     (if k = RequestPl then max_request_payload_size cfg else max_response_payload_size cfg)"

definition carries_payload :: "frame_kind \<Rightarrow> bool" where
  "carries_payload k \<longleftrightarrow> k = RequestPl \<or> k = ResponsePl"

text \<open>Messages the sending side can create for a channel.\<close>

definition well_formed :: "channel_configuration \<Rightarrow> frame_kind \<Rightarrow> bytes option \<Rightarrow> bool" where
  "well_formed cfg k payload \<longleftrightarrow> (case payload of
       None \<Rightarrow> \<not> carries_payload k
     | Some pl \<Rightarrow> carries_payload k \<and> length pl \<le> unat (payload_limit k cfg))"

section \<open>One frame\<close>

lemma process_frame_header:
  assumes "channel_exists ch p"
  shows "process_frame p (header_as_ref (header_new k ch i) @ xs) =
    do { (flow, c, b) \<leftarrow> handle_frame (max_frame_size p) k (header_new k ch i) (chan_of ch p)
           (header_as_ref (header_new k ch i) @ xs);
         Some (flow, put_channel ch c p, b) }"
proof -
  let ?h = "header_new k ch i"
  have "header_parse (header_b0 ?h) (header_b1 ?h) (header_b2 ?h) (header_b3 ?h) = Some ?h"
    using header_new_valid by (simp only: header_valid_def)
  then show ?thesis
    using assms by (simp add: process_frame_def header_SIZE_def header_as_ref_def channel_exists_def
        chan_of_def)
qed

lemma process_incoming_step:
  assumes "channel_exists ch p"
    and "handle_frame (max_frame_size p) k (header_new k ch i) (chan_of ch p)
      (header_as_ref (header_new k ch i) @ xs) = Some (flow, c, b)"
  shows "process_incoming p (header_as_ref (header_new k ch i) @ xs) =
    (case flow of Some oc \<Rightarrow> Some (oc, put_channel ch c p, b)
     | None \<Rightarrow> process_incoming (put_channel ch c p) b)"
  using assms by (subst process_incoming.simps) (simp add: process_frame_header)

section \<open>Frames of a transfer\<close>

definition transfer_read :: "frame_kind \<Rightarrow> channel_id \<Rightarrow> msg_id \<Rightarrow> bytes \<Rightarrow> completed_read" where
  "transfer_read k ch i pl =
     (if k = RequestPl then NewRequest ch i (Some pl) else ReceivedResponse ch i (Some pl))"

definition transfer_done :: "frame_kind \<Rightarrow> msg_id \<Rightarrow> channel \<Rightarrow> channel" where
  "transfer_done k i c =
     (if k = RequestPl then c else c\<lparr>outgoing_requests := outgoing_requests c - {i}\<rparr>)"

lemma handle_frame_continue:
  assumes "carries_payload k" and "k = ResponsePl \<Longrightarrow> i \<in> outgoing_requests c"
    and "mfs_valid m" and "channel_inv c" and "4 \<le> length b"
    and "accept_spec m (payload_limit k (config c)) (if k = RequestPl then RequestTooLarge else ResponseTooLarge)
      (current_multiframe_receiver c) (header_new k ch i) b = (Success cf, r, b')"
    and "\<not> completed_frame_was_new cf \<or> k = ResponsePl"
  shows "handle_frame m k (header_new k ch i) c b = Some
    (case into_completed_payload cf of
       Some pl \<Rightarrow> (Some (Success (transfer_read k ch i pl)),
          transfer_done k i (c\<lparr>current_multiframe_receiver := r\<rparr>), b')
     | None \<Rightarrow> (None, c\<lparr>current_multiframe_receiver := r\<rparr>, b'))"
proof -
  have inv: "receiver_inv (current_multiframe_receiver c)"
    using assms(4) by (simp add: channel_inv_def transfer_inv_def)
  note acc = accept_accept_spec [OF assms(3) inv assms(5)]
  show ?thesis
    using assms(1,2,6,7) acc
    by (auto simp: carries_payload_def handle_frame_def handle_request_pl_def handle_response_pl_def
        payload_limit_def transfer_read_def transfer_done_def Let_def split: option.splits)
qed

lemma transfer_done_receiver:
  "transfer_done k i (c\<lparr>current_multiframe_receiver := r\<rparr>)
     = (transfer_done k i c)\<lparr>current_multiframe_receiver := r\<rparr>"
  by (simp add: transfer_done_def)

lemma protocol_channel:
  assumes "protocol_inv p" and "channel_exists ch p"
  shows "mfs_valid (max_frame_size p)" and "channel_inv (chan_of ch p)"
  using assms by (simp_all add: protocol_inv_def channel_exists_def chan_of_def list_all_length)

text \<open>A frame after which the loop of \<^verbatim>\<open>process_incoming\<close> goes on.\<close>

lemma process_incoming_continue:
  assumes "protocol_inv p" and "channel_exists ch p"
    and "handle_frame (max_frame_size p) k (header_new k ch i) (chan_of ch p) (header_as_ref (header_new k ch i) @ xs)
      = Some (None, c', b')"
  shows "process_incoming p (header_as_ref (header_new k ch i) @ xs) = process_incoming (put_channel ch c' p) b'"
    and "protocol_inv (put_channel ch c' p)"
proof -
  show "process_incoming p (header_as_ref (header_new k ch i) @ xs) = process_incoming (put_channel ch c' p) b'"
    using process_incoming_step [OF assms(2,3)] by simp
  have "channel_inv c' \<and> config c' = config (chan_of ch p)"
    using handle_frame_laws [OF protocol_channel(2,1) [OF assms(1,2)], of "header_as_ref (header_new k ch i) @ xs"
        "header_new k ch i" k] assms(3) by (auto simp: step_laws_def)
  then show "protocol_inv (put_channel ch c' p)"
    using protocol_like_put_chan [OF protocol_like_refl [OF assms(1)], of c' ch] by (simp add: protocol_like_def)
qed

lemma handle_later_frame:
  assumes "carries_payload k" and "k = ResponsePl \<longrightarrow> i \<in> outgoing_requests c" and "mfs_valid m" and "channel_inv c"
    and "current_multiframe_receiver c = InProgress (header_new k ch i) acc (of_nat (length pl))"
    and "acc @ remaining = pl" and "remaining \<noteq> []" and "length pl \<le> u32_max"
  defines "h \<equiv> header_new k ch i" and "seg \<equiv> take (mfs_get_usize m - 4) remaining"
  shows "length remaining \<le> mfs_get_usize m - 4 \<Longrightarrow> handle_frame m k h c (header_as_ref h @ seg @ tail) = Some
      (Some (Success (transfer_read k ch i pl)), transfer_done k i (c\<lparr>current_multiframe_receiver := Ready\<rparr>), tail)"
    and "mfs_get_usize m - 4 < length remaining \<Longrightarrow> handle_frame m k h c (header_as_ref h @ seg @ tail) = Some
      (None, c\<lparr>current_multiframe_receiver := InProgress h (acc @ seg) (of_nat (length pl))\<rparr>, tail)"
proof -
  have sz: "unat (of_nat (length pl) :: u32) = length pl"
    using assms(8) by (rule unat_of_nat_u32)
  have len: "length acc + length remaining = length pl"
    using arg_cong [OF assms(6), of length] by simp
  have short: "length acc < length pl"
    using len assms(7) length_greater_0_conv [of remaining] by linarith
  have seg: "length seg = min (length pl - length acc) (mfs_get_usize m - 4)"
    using len by (simp add: seg_def min.commute)
  note acc_eq = accept_spec_later_frame [of acc "of_nat (length pl)" seg m, unfolded sz, OF short seg]
  note step = handle_frame_continue [OF assms(1) assms(2) [rule_format] assms(3,4), of "header_as_ref h @ seg @ tail"]
  show "handle_frame m k h c (header_as_ref h @ seg @ tail) = Some
      (Some (Success (transfer_read k ch i pl)), transfer_done k i (c\<lparr>current_multiframe_receiver := Ready\<rparr>), tail)"
    if "length remaining \<le> mfs_get_usize m - 4"
  proof -
    have "acc @ seg = pl"
      using assms(6) that by (simp add: seg_def)
    then show ?thesis
      using step acc_eq [of _ _ h tail] assms(5) by (simp add: h_def)
  qed
  show "handle_frame m k h c (header_as_ref h @ seg @ tail) = Some
      (None, c\<lparr>current_multiframe_receiver := InProgress h (acc @ seg) (of_nat (length pl))\<rparr>, tail)"
    if "mfs_get_usize m - 4 < length remaining"
  proof -
    have "length (acc @ seg) \<noteq> length pl"
      using that len seg by simp
    then show ?thesis
      using step acc_eq [of _ _ h tail] assms(5) by (simp add: h_def)
  qed
qed

lemma deliver_later_frames:
  assumes "carries_payload k" and "channel_exists ch p" and "protocol_inv p"
    and "k = ResponsePl \<Longrightarrow> i \<in> outgoing_requests (chan_of ch p)"
    and "current_multiframe_receiver (chan_of ch p) = InProgress (header_new k ch i) acc (of_nat (length pl))"
    and "acc @ remaining = pl" and "remaining \<noteq> []" and "length pl \<le> u32_max"
  shows "process_incoming p (concat (map ((@) (header_as_ref (header_new k ch i)))
      (split_chunks (mfs_get_usize (max_frame_size p) - 4) remaining)) @ rest) =
    Some (Success (transfer_read k ch i pl), put_channel ch
      ((transfer_done k i (chan_of ch p))\<lparr>current_multiframe_receiver := Ready\<rparr>) p, rest)"
  using assms(2-7)
proof (induction "length remaining" arbitrary: p acc remaining rule: less_induct)
  case less
  let ?m = "max_frame_size p" and ?h = "header_new k ch i" and ?c = "chan_of ch p"
  let ?n = "mfs_get_usize ?m - 4"
  note mfs = protocol_channel(1) [OF less.prems(2,1)] and inv = protocol_channel(2) [OF less.prems(2,1)]
  have n: "0 < ?n"
    using mfs_valid_get [OF mfs] by simp
  define seg where "seg = take ?n remaining"
  define tail where "tail = (if length remaining \<le> ?n then rest else concat (map ((@) (header_as_ref ?h))
      (split_chunks ?n (drop ?n remaining))) @ rest)"
  have frames: "concat (map ((@) (header_as_ref ?h)) (split_chunks ?n remaining)) @ rest
      = header_as_ref ?h @ seg @ tail"
    using n by (simp add: tail_def seg_def split_chunks_short split_chunks_long)
  have answered: "k = ResponsePl \<longrightarrow> i \<in> outgoing_requests ?c"
    using less.prems(3) by blast
  note step = handle_later_frame [OF assms(1) answered mfs inv less.prems(4-6) assms(8), of tail, folded seg_def]
  show ?case
  proof (cases "length remaining \<le> ?n")
    case True
    from process_incoming_step [OF less.prems(1) step(1) [OF True]]
    show ?thesis
      using True unfolding frames by (simp add: tail_def transfer_done_receiver)
  next
    case False
    let ?p' = "put_channel ch (?c\<lparr>current_multiframe_receiver := InProgress ?h (acc @ seg) (of_nat (length pl))\<rparr>) p"
    note next_frame = step(2) [OF False [unfolded not_le]]
    note eq = process_incoming_continue(1) [OF less.prems(2,1) next_frame]
      and inv' = process_incoming_continue(2) [OF less.prems(2,1) next_frame]
    have "process_incoming ?p' (concat (map ((@) (header_as_ref ?h))
        (split_chunks (mfs_get_usize (max_frame_size ?p') - 4) (drop ?n remaining))) @ rest) =
      Some (Success (transfer_read k ch i pl), put_channel ch
        ((transfer_done k i (chan_of ch ?p'))\<lparr>current_multiframe_receiver := Ready\<rparr>) ?p', rest)"
    proof (rule less.hyps)
      show "length (drop ?n remaining) < length remaining"
        using n less.prems(6) by (simp add: length_greater_0_conv [symmetric] del: length_greater_0_conv)
      show "(acc @ seg) @ drop ?n remaining = pl"
        using less.prems(5) by (simp add: seg_def)
      show "drop ?n remaining \<noteq> []"
        using False by simp
    qed (use less.prems(1,3) inv' in simp_all)
    then show ?thesis
      using False less.prems(1) unfolding frames eq by (simp add: tail_def transfer_done_receiver)
  qed
qed

section \<open>Whole messages\<close>

lemma handle_frame_plain:
  assumes "\<not> carries_payload k"
    and "\<And>h. k = CancelReq \<Longrightarrow> in_progress_header (current_multiframe_receiver c) = Some h \<Longrightarrow> header_id h \<noteq> i"
  shows "handle_frame m k (header_new k ch i) c (header_as_ref (header_new k ch i) @ rest) = Some
    (case receive_message k ch i None c of
       (Inl e, c') \<Rightarrow> (Some (err_msg (header_new k ch i) e), c', header_as_ref (header_new k ch i) @ rest)
     | (Inr (Some v), c') \<Rightarrow> (Some (Success v), c', rest)
     | (Inr None, c') \<Rightarrow> (None, c', rest))"
  using assms
  by (cases k) (auto simp: carries_payload_def handle_frame_def receive_message_def handle_request_def
      handle_response_def handle_cancel_req_alt cancel_transfer_def handle_cancel_resp_def header_SIZE_def
      Let_def split: option.splits)

lemma first_frame_bytes:
  assumes "mfs_valid m" and "length pl \<le> u32_max"
  defines "k \<equiv> mfs_get_usize m - 4 - length (leb128 (length pl))"
  shows "length pl \<le> k \<Longrightarrow> concat (wire_frames m (outgoing_message_new h (Some pl)))
      = header_as_ref h @ leb128 (length pl) @ pl"
    and "k < length pl \<Longrightarrow> concat (wire_frames m (outgoing_message_new h (Some pl)))
      = header_as_ref h @ leb128 (length pl) @ take k pl
        @ concat (map ((@) (header_as_ref h)) (split_chunks (mfs_get_usize m - 4) (drop k pl)))"
proof -
  let ?n = "mfs_get_usize m - 4" and ?l = "leb128 (length pl)"
  have "length ?l < ?n"
    using mfs_valid_get [OF assms(1)] length_leb128_bounds(2) [OF assms(2)] by simp
  then show "length pl \<le> k \<Longrightarrow> concat (wire_frames m (outgoing_message_new h (Some pl)))
      = header_as_ref h @ ?l @ pl"
    and "k < length pl \<Longrightarrow> concat (wire_frames m (outgoing_message_new h (Some pl)))
      = header_as_ref h @ ?l @ take k pl
        @ concat (map ((@) (header_as_ref h)) (split_chunks ?n (drop k pl)))"
    by (simp_all add: wire_frames_def outgoing_message_new_def message_stream_def header_SIZE_def k_def
        split_chunks_short split_chunks_long)
qed

text \<open>The first frame of a message with payload, when the channel accepts the message.\<close>

lemma handle_first_frame:
  assumes "carries_payload k" and "channel_inv c" and "mfs_valid m" and "4 \<le> length b"
    and "receive_message k ch i (Some pl) c = (Inr (Some v), c')"
    and "accept_spec m (payload_limit k (config c)) (if k = RequestPl then RequestTooLarge else ResponseTooLarge)
      (current_multiframe_receiver c) (header_new k ch i) b = (Success cf, r, b')"
    and "completed_frame_was_new cf"
  shows "handle_frame m k (header_new k ch i) c b = Some
    (case into_completed_payload cf of
       Some pl \<Rightarrow> (Some (Success (transfer_read k ch i pl)), c'\<lparr>current_multiframe_receiver := r\<rparr>, b')
     | None \<Rightarrow> (None, (if k = RequestPl then c' else c)\<lparr>current_multiframe_receiver := r\<rparr>, b'))"
    and "v = transfer_read k ch i pl"
    and "c' = transfer_done k i (if k = RequestPl then c' else c)"
    and "k = ResponsePl \<Longrightarrow> i \<in> outgoing_requests c"
proof -
  have inv: "receiver_inv (current_multiframe_receiver c)"
    using assms(2) by (simp add: channel_inv_def transfer_inv_def)
  note acc = accept_accept_spec [OF assms(3) inv assms(4)]
  have at_max: "is_at_max_incoming_requests (c\<lparr>current_multiframe_receiver := r\<rparr>)
      = is_at_max_incoming_requests c"
    by (simp add: is_at_max_incoming_requests_def)
  have "increment_cancellation_allowance (c\<lparr>current_multiframe_receiver := r, incoming_requests := s\<rparr>)
      = (increment_cancellation_allowance (c\<lparr>incoming_requests := s\<rparr>))\<lparr>current_multiframe_receiver := r\<rparr>" for s
    by (simp add: increment_cancellation_allowance_def)
  note simps = carries_payload_def handle_frame_def handle_request_pl_def handle_response_pl_def
    payload_limit_def transfer_read_def transfer_done_def receive_message_def Let_def at_max this
  show "handle_frame m k (header_new k ch i) c b = Some
      (case into_completed_payload cf of
         Some pl \<Rightarrow> (Some (Success (transfer_read k ch i pl)), c'\<lparr>current_multiframe_receiver := r\<rparr>, b')
       | None \<Rightarrow> (None, (if k = RequestPl then c' else c)\<lparr>current_multiframe_receiver := r\<rparr>, b'))"
    using assms(1,5-7) acc by (auto simp: simps split: option.splits if_splits)
  show "v = transfer_read k ch i pl" "c' = transfer_done k i (if k = RequestPl then c' else c)"
    "k = ResponsePl \<Longrightarrow> i \<in> outgoing_requests c"
    using assms(1,5) by (auto simp: simps split: if_splits)
qed

lemma handle_first_frame_refused:
  assumes "carries_payload k" and "channel_inv c" and "mfs_valid m" and "4 \<le> length b"
    and "receive_message k ch i payload c = (Inl e, c')"
    and "accept_spec m (payload_limit k (config c)) (if k = RequestPl then RequestTooLarge else ResponseTooLarge)
      (current_multiframe_receiver c) (header_new k ch i) b = (Success cf, r, b')"
    and "completed_frame_was_new cf"
  shows "\<exists>c1 b1. handle_frame m k (header_new k ch i) c b = Some (Some (err_msg (header_new k ch i) e), c1, b1)"
proof -
  have inv: "receiver_inv (current_multiframe_receiver c)"
    using assms(2) by (simp add: channel_inv_def transfer_inv_def)
  note acc = accept_accept_spec [OF assms(3) inv assms(4)]
  have at_max: "is_at_max_incoming_requests (c\<lparr>current_multiframe_receiver := r\<rparr>)
      = is_at_max_incoming_requests c"
    by (simp add: is_at_max_incoming_requests_def)
  show ?thesis
    using assms(1,5-7) acc
    by (auto simp: carries_payload_def handle_frame_def handle_request_pl_def handle_response_pl_def
        payload_limit_def receive_message_def Let_def at_max split: if_splits)
qed

lemma receive_message_receiver:
  "receive_message k ch i payload c = (res, c') \<Longrightarrow>
     current_multiframe_receiver c' = current_multiframe_receiver c \<and> config c' = config c"
  by (auto simp: receive_message_def split: if_splits)

definition message_effect ::
  "juliet_protocol \<Rightarrow> channel_id \<Rightarrow> msg_id \<Rightarrow> (error_kind + completed_read option) \<times> channel \<Rightarrow> bytes
   \<Rightarrow> (read_outcome \<times> juliet_protocol \<times> bytes) option \<Rightarrow> bool" where
  "message_effect p ch i received rest res = (case received of
       (Inr (Some v), c') \<Rightarrow> res = Some (Success v, put_channel ch c' p, rest)
     | (Inr None, c') \<Rightarrow> res = process_incoming (put_channel ch c' p) rest
     | (Inl e, c') \<Rightarrow>
         (\<exists>p' b'. res = Some (Fatal (outgoing_message_new (header_new_error e ch i) None), p', b')))"

lemma err_msg_header_new:
  "err_msg (header_new k ch i) e = Fatal (outgoing_message_new (header_new_error e ch i) None)"
  by (simp add: err_msg_def header_with_err_def)

text \<open>The first frame of a message with a payload, what follows it, and how the receiver takes it.\<close>

lemma accept_starts:
  fixes h :: header and rest :: bytes
  assumes "mfs_valid m" and "length pl \<le> unat maxp"
  defines "n \<equiv> mfs_get_usize m - 4 - length (leb128 (length pl))"
  defines "tail \<equiv> (if length pl \<le> n then rest else concat (map ((@) (header_as_ref h))
      (split_chunks (mfs_get_usize m - 4) (drop n pl))) @ rest)"
  shows "\<exists>xs. concat (wire_frames m (outgoing_message_new h (Some pl))) @ rest = header_as_ref h @ xs
    \<and> accept_spec m maxp ek Ready h (header_as_ref h @ xs) =
        (Success (if length pl \<le> n then SingleFrame pl else NewMultiFrame),
         if length pl \<le> n then Ready else InProgress h (take n pl) (of_nat (length pl)), tail)"
proof -
  have fits: "length pl \<le> u32_max"
    using assms(2) unat_u32_le [of maxp] by linarith
  note wire = first_frame_bytes [OF assms(1) fits, of h, folded n_def]
  show ?thesis
  proof (cases "length pl \<le> n")
    case True
    then show ?thesis
      using wire(1) accept_spec_single_frame [OF assms(1,2), of Ready h ek rest]
      by (intro exI [of _ "leb128 (length pl) @ pl @ rest"]) (simp add: n_def tail_def)
  next
    case False
    then show ?thesis
      using wire(2) accept_spec_first_frame [OF assms(1,2), of ek h]
      by (intro exI [of _ "leb128 (length pl) @ take n pl @ tail"]) (simp add: n_def tail_def)
  qed
qed

lemma deliver_with_payload:
  assumes "protocol_inv p" and "channel_exists ch p"
    and "current_multiframe_receiver (chan_of ch p) = Ready"
    and "carries_payload k" and "length pl \<le> unat (payload_limit k (config (chan_of ch p)))"
  shows "message_effect p ch i (receive_message k ch i (Some pl) (chan_of ch p)) rest
    (process_incoming p (concat (wire_frames (max_frame_size p)
       (outgoing_message_new (header_new k ch i) (Some pl))) @ rest))"
proof -
  let ?m = "max_frame_size p" and ?h = "header_new k ch i" and ?c = "chan_of ch p"
  let ?ek = "if k = RequestPl then RequestTooLarge else ResponseTooLarge"
  let ?n = "mfs_get_usize ?m - 4 - length (leb128 (length pl))"
  note mfs = protocol_channel(1) [OF assms(1,2)] and inv = protocol_channel(2) [OF assms(1,2)]
  obtain xs cf r b' where wire: "concat (wire_frames ?m (outgoing_message_new ?h (Some pl))) @ rest = header_as_ref ?h @ xs"
    and acc: "accept_spec ?m (payload_limit k (config ?c)) ?ek (current_multiframe_receiver ?c) ?h (header_as_ref ?h @ xs)
      = (Success cf, r, b')"
    and cf: "cf = (if length pl \<le> ?n then SingleFrame pl else NewMultiFrame)"
    and r: "r = (if length pl \<le> ?n then Ready else InProgress ?h (take ?n pl) (of_nat (length pl)))"
    and b': "b' = (if length pl \<le> ?n then rest else concat (map ((@) (header_as_ref ?h))
      (split_chunks (mfs_get_usize ?m - 4) (drop ?n pl))) @ rest)"
    using accept_starts [OF mfs assms(5), of ?h rest ?ek] assms(3) by auto
  have new: "completed_frame_was_new cf" and len: "4 \<le> length (header_as_ref ?h @ xs)"
    by (simp_all add: cf)
  obtain res c' where recv: "receive_message k ch i (Some pl) ?c = (res, c')"
    by (metis prod.exhaust)
  show ?thesis
  proof (cases res)
    case (Inl e)
    then obtain c1 b1 where "handle_frame ?m k ?h ?c (header_as_ref ?h @ xs) = Some (Some (err_msg ?h e), c1, b1)"
      using handle_first_frame_refused [OF assms(4) inv mfs len _ acc new] recv by blast
    from process_incoming_step [OF assms(2) this]
    show ?thesis
      using Inl recv unfolding wire by (simp add: message_effect_def err_msg_header_new)
  next
    case (Inr vo)
    then obtain v where v: "receive_message k ch i (Some pl) ?c = (Inr (Some v), c')"
      using recv assms(4) by (cases vo) (auto simp: receive_message_def carries_payload_def split: if_splits)
    note first = handle_first_frame [OF assms(4) inv mfs len v acc new]
    have ready: "c'\<lparr>current_multiframe_receiver := Ready\<rparr> = c'"
      using receive_message_receiver [OF v] assms(3) by simp
    show ?thesis
    proof (cases "length pl \<le> ?n")
      case True
      then have "handle_frame ?m k ?h ?c (header_as_ref ?h @ xs) = Some (Some (Success v), c', rest)"
        using first(1,2) ready by (simp add: cf r b')
      from process_incoming_step [OF assms(2) this]
      show ?thesis
        using v unfolding wire by (simp add: message_effect_def)
    next
      case False
      let ?c1 = "(if k = RequestPl then c' else ?c)\<lparr>current_multiframe_receiver := r\<rparr>"
      have frame: "handle_frame ?m k ?h ?c (header_as_ref ?h @ xs) = Some (None, ?c1, b')"
        using first(1) False by (simp add: cf)
      note step = process_incoming_continue [OF assms(1,2) frame]
      have "process_incoming (put_channel ch ?c1 p) b' = Some (Success (transfer_read k ch i pl), put_channel ch
          ((transfer_done k i ?c1)\<lparr>current_multiframe_receiver := Ready\<rparr>) p, rest)"
        using deliver_later_frames [OF assms(4) _ step(2), of ch i "take ?n pl" pl "drop ?n pl" rest]
          assms(2,5) first(4) False unat_u32_le [of "payload_limit k (config ?c)"] by (simp add: r b')
      then show ?thesis
        using step(1) v first(2,3) ready assms(2) unfolding wire by (simp add: message_effect_def transfer_done_receiver)
    qed
  qed
qed

lemma message_delivery_effect:
  assumes "protocol_inv p" and "channel_exists ch p"
    and "current_multiframe_receiver (chan_of ch p) = Ready"
    and "well_formed (config (chan_of ch p)) k payload"
  shows "message_effect p ch i (receive_message k ch i payload (chan_of ch p)) rest
    (process_incoming p (concat (wire_frames (max_frame_size p)
       (outgoing_message_new (header_new k ch i) payload)) @ rest))"
proof (cases payload)
  case None
  then have plain: "\<not> carries_payload k"
    using assms(4) by (simp add: well_formed_def)
  have wire: "concat (wire_frames (max_frame_size p) (outgoing_message_new (header_new k ch i) None))
      = header_as_ref (header_new k ch i)"
    by (simp add: wire_frames_def outgoing_message_new_def message_stream_def split_chunks_short)
  note step = process_incoming_step [OF assms(2), of k i rest]
  show ?thesis
    using handle_frame_plain [OF plain, of "chan_of ch p" i "max_frame_size p" ch rest] assms(3) step None
    by (cases "receive_message k ch i None (chan_of ch p)" rule: prod.exhaust)
       (auto simp: wire message_effect_def err_msg_header_new split: sum.splits option.splits)
next
  case (Some pl)
  then show ?thesis
    using deliver_with_payload [OF assms(1-3), of k pl i rest] assms(4) by (simp add: well_formed_def)
qed

text \<open>
  C7: A whole message, sent as the frames \<^verbatim>\<open>OutgoingMessage\<close> produces for it and followed by any other bytes,
  has exactly its abstract effect at the receiving \<^verbatim>\<open>process_incoming\<close>: a request, response or cancellation
  that the channel state admits is reported with its channel, identifier and unmodified payload, the
  bytes behind it are left alone, and one that is not admitted is answered with the matching error.
  This holds for any payload within the limit, in one or many frames.
\<close>

theorem message_delivery:
  assumes "protocol_inv p" and "channel_exists ch p"
    and "current_multiframe_receiver (chan_of ch p) = Ready"
    and "well_formed (config (chan_of ch p)) k payload"
  shows "message_effect p ch i (receive_message k ch i payload (chan_of ch p)) rest
    (process_incoming p (concat (wire_frames (max_frame_size p)
       (outgoing_message_new (header_new k ch i) payload)) @ rest))"
  by (rule message_delivery_effect [OF assms])

theorem message_delivery_witness:
  "\<exists>c'. process_incoming two_channel_protocol (concat (wire_frames (max_frame_size two_channel_protocol)
        (outgoing_message_new (header_new RequestPl (ChannelId 1) (Id 3)) (Some [5, 6, 7]))) @ [9])
     = Some (Success (NewRequest (ChannelId 1) (Id 3) (Some [5, 6, 7])),
         put_channel (ChannelId 1) c' two_channel_protocol, [9])"
proof -
  let ?p = two_channel_protocol and ?ch = "ChannelId 1"
  have ex: "channel_exists ?ch ?p" "current_multiframe_receiver (chan_of ?ch ?p) = Ready"
      "well_formed (config (chan_of ?ch ?p)) RequestPl (Some [5, 6, 7])"
    by (simp_all add: channel_exists_def chan_of_def two_channel_protocol_def builder_build_def
        juliet_protocol_builder_def channel_new_def well_formed_def carries_payload_def payload_limit_def
        channel_configuration_defs)
  obtain c' where "receive_message RequestPl ?ch (Id 3) (Some [5, 6, 7]) (chan_of ?ch ?p)
      = (Inr (Some (NewRequest ?ch (Id 3) (Some [5, 6, 7]))), c')"
    by (simp add: receive_message_def is_at_max_incoming_requests_def chan_of_def two_channel_protocol_def
        builder_build_def juliet_protocol_builder_def channel_new_def channel_configuration_defs)
  then show ?thesis
    using message_delivery [OF two_channel_protocol_inv ex, of "Id 3" "[9]"]
    by (intro exI [of _ c']) (simp add: message_effect_def)
qed

section \<open>A cancellation during a transfer of the other direction\<close>

text \<open>
  C40: A request cancellation does not check what kind of transfer it meets. When the peer cancels its
  own request while one of its multi-frame responses with the same identifier is in progress on the
  channel (the identifiers of the two directions are independent), \<^verbatim>\<open>process_incoming\<close> discards the
  response received so far, silently removes the peer's request from the incoming set without
  reporting the cancellation, and goes on as if no transfer had been started. The comment in the code
  speaks of requests that have never been reported.
\<close>

theorem cancel_request_discards_response:
  assumes "channel_exists ch p" and "cancellation_allowance (chan_of ch p) \<noteq> 0"
    and "current_multiframe_receiver (chan_of ch p) = InProgress (header_new ResponsePl ch i) payload sz"
  shows "process_incoming p (header_as_ref (header_new CancelReq ch i) @ rest) =
    process_incoming (put_channel ch ((chan_of ch p)
      \<lparr>cancellation_allowance := cancellation_allowance (chan_of ch p) - 1,
       current_multiframe_receiver := Ready,
       incoming_requests := incoming_requests (chan_of ch p) - {i}\<rparr>) p) rest"
proof -
  have "handle_frame (max_frame_size p) CancelReq (header_new CancelReq ch i) (chan_of ch p)
      (header_as_ref (header_new CancelReq ch i) @ rest) = Some (None, (chan_of ch p)
      \<lparr>cancellation_allowance := cancellation_allowance (chan_of ch p) - 1,
       current_multiframe_receiver := Ready,
       incoming_requests := incoming_requests (chan_of ch p) - {i}\<rparr>, rest)"
    using assms(2,3) by (simp add: handle_frame_def handle_cancel_req_alt cancel_transfer_def Let_def)
  from process_incoming_step [OF assms(1) this] show ?thesis
    by simp
qed

theorem cancel_request_discards_response_witness:
  "\<exists>p p'. channel_exists (ChannelId 0) p \<and> Id 1 \<in> incoming_requests (chan_of (ChannelId 0) p)
     \<and> process_incoming p (header_as_ref (header_new CancelReq (ChannelId 0) (Id 1)) @ []) = process_incoming p' []
     \<and> Id 1 \<notin> incoming_requests (chan_of (ChannelId 0) p')
     \<and> current_multiframe_receiver (chan_of (ChannelId 0) p') = Ready"
proof -
  let ?ch = "ChannelId 0"
  let ?c = "(chan_of ?ch two_channel_protocol)\<lparr>incoming_requests := {Id 1}, outgoing_requests := {Id 1},
    cancellation_allowance := 1,
    current_multiframe_receiver := InProgress (header_new ResponsePl ?ch (Id 1)) [7] 8\<rparr>"
  let ?p = "put_channel ?ch ?c two_channel_protocol"
  have ex: "channel_exists ?ch two_channel_protocol"
    by (simp add: channel_exists_def two_channel_protocol_def builder_build_def juliet_protocol_builder_def)
  then have "process_incoming ?p (header_as_ref (header_new CancelReq ?ch (Id 1)) @ []) =
      process_incoming (put_channel ?ch (?c\<lparr>cancellation_allowance := 1 - 1,
        current_multiframe_receiver := Ready, incoming_requests := {Id 1} - {Id 1}\<rparr>) ?p) []"
    using cancel_request_discards_response [of ?ch ?p "Id 1" "[7]" 8 "[]"] by simp
  then show ?thesis
    using ex by (intro exI [of _ ?p] exI conjI) auto
qed

end
