(* ===== verification/Io_Reads.thy ===== *)
theory Io_Reads
  imports Protocol_Sending
begin

text \<open>
  What the IO layer needs to know of \<^verbatim>\<open>process_incoming\<close> and \<^verbatim>\<open>create_request\<close>: how a read changes the set of
  outstanding requests, whatever the application has done to the other parts of the state; that errors
  are well-formed; and which identifiers new requests receive.
\<close>

section \<open>Effect of a read on the outstanding requests\<close>

definition prev_view :: "juliet_protocol \<Rightarrow> u16 list" where
  "prev_view p = map prev_request_id (channels p)"

text \<open>Messages built to report a violation: an error header without payload.\<close>

definition error_message :: "outgoing_message \<Rightarrow> bool" where
  "error_message e \<longleftrightarrow> (\<exists>k ch i. e = outgoing_message_new (header_new_error k ch i) None)"

definition other_has_data :: "header \<Rightarrow> bytes option \<Rightarrow> bool" where
  "other_has_data h data \<longleftrightarrow>
     error_header h \<and> (header_error_kind h = Some Other \<longrightarrow> data \<noteq> None)"

definition chan_effect :: "header \<Rightarrow> channel \<Rightarrow> read_outcome option \<Rightarrow> channel \<Rightarrow> bool" where
  "chan_effect h c flow c' \<longleftrightarrow> prev_request_id c' = prev_request_id c \<and>
     (case flow of
        Some (Success (ReceivedResponse ch i _)) \<Rightarrow> ch = header_channel h \<and> i \<in> outgoing_requests c
          \<and> outgoing_requests c' = outgoing_requests c - {i}
      | Some (Success (ResponseCancellation ch i)) \<Rightarrow> ch = header_channel h \<and> i \<in> outgoing_requests c
          \<and> outgoing_requests c' = outgoing_requests c - {i}
      | Some (Success (ErrorReceived _ _)) \<Rightarrow> False
      | Some (Fatal e) \<Rightarrow> error_message e \<and> outgoing_requests c' = outgoing_requests c
      | _ \<Rightarrow> outgoing_requests c' = outgoing_requests c)"

definition read_effect :: "juliet_protocol \<Rightarrow> read_outcome \<Rightarrow> juliet_protocol \<Rightarrow> bool" where
  "read_effect p oc p' \<longleftrightarrow> prev_view p' = prev_view p \<and>
     (case oc of
        Success (ReceivedResponse ch i _) \<Rightarrow> channel_exists ch p \<and> i \<in> outgoing_requests (chan_of ch p)
          \<and> outgoing_view p' = remove_outgoing ch i (outgoing_view p)
      | Success (ResponseCancellation ch i) \<Rightarrow> channel_exists ch p \<and> i \<in> outgoing_requests (chan_of ch p)
          \<and> outgoing_view p' = remove_outgoing ch i (outgoing_view p)
      | Success (ErrorReceived h data) \<Rightarrow> other_has_data h data \<and> outgoing_view p' = outgoing_view p
      | Fatal e \<Rightarrow> error_message e \<and> outgoing_view p' = outgoing_view p
      | _ \<Rightarrow> outgoing_view p' = outgoing_view p)"

lemma error_message_err [simp]: "error_message (outgoing_message_new (header_with_err k h) None)"
  by (auto simp: error_message_def header_with_err_def)

lemma error_message_new [simp]: "error_message (outgoing_message_new (header_new_error k ch i) None)"
  by (auto simp: error_message_def)

lemma accept_Fatal:
  assumes "accept r h b m maxp ek = Some (Fatal e, r', b')" and "mfs_valid m" and "receiver_inv r"
    and "header_valid h" and "4 \<le> length b"
  shows "error_message e"
proof -
  have "accept_spec m maxp ek r h b = (Fatal e, r', b')"
    using assms(1) accept_accept_spec [OF assms(2,3,5), of h maxp ek] by simp
  from this assms(2-4) show ?thesis
    by (cases rule: accept_spec_cases) (auto simp: err_msg_def)
qed

lemma handle_frame_effect:
  assumes "handle_frame m kind h c b = Some (flow, c', b')" and "mfs_valid m" and "channel_inv c"
    and "header_valid h" and "4 \<le> length b"
  shows "chan_effect h c flow c'"
proof -
  have r: "receiver_inv (current_multiframe_receiver c)"
    using assms(3) by (simp add: channel_inv_def transfer_inv_def)
  note unfold = handle_frame_def chan_effect_def header_SIZE_def err_msg_def Let_def bind_eq_Some_conv
  note fatal = accept_Fatal [OF _ assms(2) r assms(4,5)]
  show ?thesis
  proof (cases kind)
    case RequestPl
    then obtain oc r' b1 where "accept (current_multiframe_receiver c) h b m
        (max_request_payload_size (config c)) RequestTooLarge = Some (oc, r', b1)"
      using assms(1) by (auto simp: handle_frame_def handle_request_pl_def bind_eq_Some_conv)
    then show ?thesis
      using assms(1) RequestPl fatal
      by (cases oc) (auto simp: unfold handle_request_pl_def split: if_splits option.splits)
  next
    case ResponsePl
    show ?thesis
    proof (cases "header_id h \<in> outgoing_requests c")
      case False
      then show ?thesis
        using assms(1) ResponsePl by (auto simp: unfold handle_response_pl_def)
    next
      case True
      then obtain oc r' b1 where "accept (current_multiframe_receiver c) h b m
          (max_response_payload_size (config c)) ResponseTooLarge = Some (oc, r', b1)"
        using assms(1) ResponsePl by (auto simp: handle_frame_def handle_response_pl_def bind_eq_Some_conv)
      then show ?thesis
        using assms(1) ResponsePl True fatal
        by (cases oc) (auto simp: unfold handle_response_pl_def split: option.splits)
    qed
  next
    case Request
    then show ?thesis
      using assms(1) by (auto simp: unfold handle_request_def split: if_splits)
  next
    case Response
    then show ?thesis
      using assms(1) by (auto simp: unfold handle_response_def split: if_splits)
  next
    case CancelReq
    then show ?thesis
      using assms(1)
      by (auto simp: unfold handle_cancel_req_alt cancel_transfer_def split: if_splits option.splits)
  next
    case CancelResp
    then show ?thesis
      using assms(1) by (auto simp: unfold handle_cancel_resp_def split: if_splits)
  qed
qed

lemma prev_view_put:
  "prev_request_id c = prev_request_id (chan_of ch p) \<Longrightarrow> channel_exists ch p \<Longrightarrow>
     prev_view (put_channel ch c p) = prev_view p"
  by (auto simp: prev_view_def put_channel_def chan_of_def channel_exists_def nth_list_update'
      intro!: nth_equalityI)

definition frame_effect :: "juliet_protocol \<Rightarrow> read_outcome option \<Rightarrow> juliet_protocol \<Rightarrow> bool" where
  "frame_effect p flow p' \<longleftrightarrow> (case flow of
       Some oc \<Rightarrow> read_effect p oc p'
     | None \<Rightarrow> prev_view p' = prev_view p \<and> outgoing_view p' = outgoing_view p)"

lemma frame_effect_put:
  assumes "chan_effect h (chan_of (header_channel h) p) flow c" and "channel_exists (header_channel h) p"
  shows "frame_effect p flow (put_channel (header_channel h) c p)"
  using assms outgoing_view_put(1,2) [OF assms(2)] prev_view_put [OF _ assms(2)]
  by (auto simp: frame_effect_def chan_effect_def read_effect_def
      split: option.splits outcome.splits completed_read.splits)

lemma handle_error_frame_effect:
  assumes "handle_error_frame m h b = Some (oc, b')" and "header_valid h" and "header_is_error h"
  shows "read_effect p oc p"
proof (cases "header_error_kind h = Some Other")
  case False
  then show ?thesis
    using assms by (auto simp: handle_error_frame_def read_effect_def other_has_data_def error_header_def bind_eq_Some_conv)
next
  case True
  then obtain tail where tail: "buf_slice header_SIZE (length b) b = Some tail"
    using assms(1) by (auto simp: handle_error_frame_def bind_eq_Some_conv)
  show ?thesis
    using assms True tail
    by (cases "decode_varint32 tail")
       (auto simp: handle_error_frame_def read_effect_def other_has_data_def error_header_def bind_eq_Some_conv
        err_msg_def outcome_incomplete_eq_Some_iff Let_def split: if_splits)
qed

lemma process_frame_effect:
  assumes "process_frame p b = Some (flow, p', b')" and "protocol_inv p"
  shows "frame_effect p flow p'"
proof -
  consider "length b < 4" | "4 \<le> length b" "header_parse (b ! 0) (b ! 1) (b ! 2) (b ! 3) = None"
    | h where "4 \<le> length b" "header_parse (b ! 0) (b ! 1) (b ! 2) (b ! 3) = Some h" "header_is_error h"
    | h where "4 \<le> length b" "header_parse (b ! 0) (b ! 1) (b ! 2) (b ! 3) = Some h" "\<not> header_is_error h"
    by (meson linorder_not_le option.exhaust_sel)
  then show ?thesis
  proof cases
    case 1
    then show ?thesis
      using assms(1) by (auto simp: process_frame_def header_SIZE_def frame_effect_def read_effect_def
          bind_eq_Some_conv outcome_incomplete_eq_Some_iff)
  next
    case 2
    then show ?thesis
      using assms(1) by (auto simp: process_frame_def header_SIZE_def frame_effect_def read_effect_def)
  next
    case (3 h)
    then show ?thesis
      using assms(1) handle_error_frame_effect [OF _ header_parse_valid [OF 3(2)] 3(3)]
      by (auto simp: process_frame_def header_SIZE_def frame_effect_def bind_eq_Some_conv)
  next
    case (4 h)
    show ?thesis
    proof (cases "channel_exists (header_channel h) p")
      case False
      then show ?thesis
        using assms(1) 4 by (auto simp: process_frame_def header_SIZE_def frame_effect_def read_effect_def
            channel_exists_def array_get_def err_msg_def)
    next
      case True
      obtain kind where "header_kind h = Some kind"
        using header_valid_no_panic(2) [OF header_parse_valid [OF 4(2)] 4(3)] by blast
      then obtain c where c: "handle_frame (max_frame_size p) kind h (chan_of (header_channel h) p) b = Some (flow, c, b')"
        "p' = put_channel (header_channel h) c p"
        using assms(1) 4 True
        by (auto simp: process_frame_def header_SIZE_def channel_exists_def chan_of_def bind_eq_Some_conv)
      have "mfs_valid (max_frame_size p)" "channel_inv (chan_of (header_channel h) p)"
        using assms(2) True by (simp_all add: protocol_inv_def list_all_length chan_of_def channel_exists_def)
      then show ?thesis
        using frame_effect_put [OF handle_frame_effect [OF c(1) _ _ header_parse_valid [OF 4(2)] 4(1)] True] c(2)
        by simp
    qed
  qed
qed

lemma view_channels:
  "outgoing_view p' = outgoing_view p \<Longrightarrow> channel_exists ch p' = channel_exists ch p"
  "outgoing_view p' = outgoing_view p \<Longrightarrow> channel_exists ch p \<Longrightarrow>
     outgoing_requests (chan_of ch p') = outgoing_requests (chan_of ch p)"
  by (metis channel_exists_def length_map outgoing_view_def)
     (metis chan_of_def channel_exists_def length_map nth_map outgoing_view_def)

lemma process_incoming_effect:
  assumes "process_incoming p b = Some (oc, p', b')" and "protocol_inv p"
  shows "read_effect p oc p'"
  using assms(1) protocol_like_refl [OF assms(2)]
proof (rule juliet.run_induct)
  fix q b oc q' b'
  assume "protocol_like (max_frame_size p) (map config (channels p)) q"
    "process_frame q b = Some (Some oc, q', b')"
  then show "read_effect q oc q'"
    using process_frame_effect by (fastforce simp: protocol_like_def frame_effect_def)
next
  fix q b q1 b1 oc q'
  assume q: "protocol_like (max_frame_size p) (map config (channels p)) q"
    "process_frame q b = Some (None, q1, b1)" and ih: "read_effect q1 oc q'"
  then have view: "prev_view q1 = prev_view q" "outgoing_view q1 = outgoing_view q"
    using process_frame_effect [OF q(2)] by (simp_all add: protocol_like_def frame_effect_def)
  then show "read_effect q oc q'"
    using ih view_channels [OF view(2)]
    by (auto simp: read_effect_def split: outcome.splits completed_read.splits)
qed

section \<open>Outstanding requests\<close>

definition outstanding :: "juliet_protocol \<Rightarrow> (channel_id \<times> msg_id) set" where
  "outstanding p = {(ch, i). channel_exists ch p \<and> i \<in> outgoing_requests (chan_of ch p)}"

lemma outstanding_put_same:
  "channel_exists ch p \<Longrightarrow> outgoing_requests c = outgoing_requests (chan_of ch p) \<Longrightarrow>
     outstanding (put_channel ch c p) = outstanding p"
  by (auto simp: outstanding_def chan_of_put split: if_splits)

lemma outstanding_put_insert:
  "channel_exists ch p \<Longrightarrow> outgoing_requests c = insert i (outgoing_requests (chan_of ch p)) \<Longrightarrow>
     outstanding (put_channel ch c p) = insert (ch, i) (outstanding p)"
  by (auto simp: outstanding_def chan_of_put split: if_splits)

lemma outstanding_view: "outgoing_view p' = outgoing_view p \<Longrightarrow> outstanding p' = outstanding p"
  using view_channels [of p' p] by (auto simp: outstanding_def)

lemma outstanding_remove:
  assumes "outgoing_view p' = remove_outgoing ch i (outgoing_view p)"
  shows "outstanding p' = outstanding p - {(ch, i)}"
proof -
  have len: "length (channels p') = length (channels p)"
    using assms by (metis length_list_update length_map outgoing_view_def remove_outgoing_def)
  have "outgoing_requests (chan_of ch' p') = outgoing_requests (chan_of ch' p) - (if ch' = ch then {i} else {})"
    if "channel_exists ch' p" for ch'
  proof -
    have "outgoing_view p' ! unat (channel_get ch')
        = remove_outgoing ch i (outgoing_view p) ! unat (channel_get ch')"
      using assms by simp
    then show ?thesis
      using that len
      by (simp add: outgoing_view_def chan_of_def channel_exists_def remove_outgoing_def nth_list_update'
          channel_id_eq_iff split: if_splits)
  qed
  moreover have "channel_exists ch' p' = channel_exists ch' p" for ch'
    using len by (simp add: channel_exists_def)
  ultimately show ?thesis
    by (auto simp: outstanding_def split: if_splits)
qed

section \<open>Identifiers of new requests\<close>

text \<open>
  As long as a channel has issued fewer than 65536 identifiers they are given out in order: all those
  in use are at most \<^verbatim>\<open>prev_request_id\<close>, and the next one is its successor.
\<close>

definition ids_in_order :: "channel \<Rightarrow> bool" where
  "ids_in_order c \<longleftrightarrow> (\<forall>i \<in> outgoing_requests c. id_get i \<le> prev_request_id c)"

lemma generate_request_id_next:
  assumes "ids_in_order c" and "unat (prev_request_id c) < 65535" and "card (outgoing_requests c) < 65535"
  shows "generate_request_id c = Some (Some (Id (prev_request_id c + 1)),
           c\<lparr>prev_request_id := prev_request_id c + 1\<rparr>)"
proof -
  have "unat (prev_request_id c + 1) = unat (prev_request_id c) + 1"
    using assms(2) by (simp add: unat_word_ariths)
  then have "\<not> prev_request_id c + 1 \<le> prev_request_id c"
    by (simp add: word_le_nat_alt)
  then have "Id (prev_request_id c + 1) \<notin> outgoing_requests c"
    using assms(1) by (auto simp: ids_in_order_def)
  then show ?thesis
    using assms(3) by (simp add: generate_request_id_def next_unused_id.simps)
qed

lemma create_request_next:
  assumes "create_request ch payload p = Some (Inr msg, p')" and "ids_in_order (chan_of ch p)"
    and "unat (prev_request_id (chan_of ch p)) < 65535"
  defines "i \<equiv> Id (prev_request_id (chan_of ch p) + 1)"
  shows "channel_exists ch p \<and> header_id (om_header msg) = i \<and> p' = put_channel ch ((chan_of ch p)\<lparr>
    prev_request_id := id_get i, outgoing_requests := insert i (outgoing_requests (chan_of ch p))\<rparr>) p"
proof -
  let ?c = "chan_of ch p"
  have ch: "channel_exists ch p" and allowed: "channel_allowed_to_send_request ?c"
    and created: "\<exists>c. create_unchecked_request ch payload ?c = Some (msg, c) \<and> p' = put_channel ch c p"
    using assms(1)
    by (auto simp: create_request_def lookup_channel_eq bind_eq_Some_conv split: if_splits)
  have "generate_request_id ?c = Some (Some i, ?c\<lparr>prev_request_id := id_get i\<rparr>)"
    using generate_request_id_next [OF assms(2,3) allowed_to_send_room [OF allowed]] by (simp add: i_def)
  then show ?thesis
    using ch created
    by (auto simp: create_unchecked_request_def outgoing_message_new_def split: option.splits)
qed

end
