(* ===== verification/Message_Types.thy ===== *)
theory Message_Types
  imports Delivery Io_Reads
begin

text \<open>
  The type discipline of \<^verbatim>\<open>JulietProtocol\<close>. A protocol is well-typed for a frame size and the configurations of
  its channels (\<open>protocol_like\<close>), a message for these configurations (\<open>sendable\<close>): its header is one of a
  frame on an existing channel, it carries a payload exactly if the kind says so, and the payload is
  within the limit of the channel for that kind. Every operation keeps the type of the protocol, and
  what it creates is a well-typed message or, on a violation by the peer, an error message. The exception is
  \<^verbatim>\<open>custom_error\<close>, which does not check its channel.
\<close>

definition sendable :: "channel_configuration list \<Rightarrow> outgoing_message \<Rightarrow> bool" where
  "sendable cfgs msg \<longleftrightarrow> (\<exists>k ch i payload. msg = outgoing_message_new (header_new k ch i) payload
     \<and> unat (channel_get ch) < length cfgs \<and> well_formed (cfgs ! unat (channel_get ch)) k payload)"

lemma exists_like: "protocol_like m cfgs p \<Longrightarrow> channel_exists ch p \<longleftrightarrow> unat (channel_get ch) < length cfgs"
  by (auto simp: protocol_like_def channel_exists_def)

lemma config_like:
  "protocol_like m cfgs p \<Longrightarrow> unat (channel_get ch) < length cfgs \<Longrightarrow>
     config (chan_of ch p) = cfgs ! unat (channel_get ch)"
  by (auto simp: protocol_like_def chan_of_def)

lemma sendable_new:
  assumes "protocol_like m cfgs p" and "channel_exists ch p" and "well_formed (config (chan_of ch p)) k payload"
  shows "sendable cfgs (outgoing_message_new (header_new k ch i) payload)"
  using assms config_like [OF assms(1)] exists_like [OF assms(1)] by (auto simp: sendable_def)

lemma well_formed_within:
  "payload_within (max_request_payload_size cfg) payload \<Longrightarrow>
     well_formed cfg (if payload = None then Request else RequestPl) payload"
  "payload_within (max_response_payload_size cfg) payload \<Longrightarrow>
     well_formed cfg (if payload = None then Response else ResponsePl) payload"
  "well_formed cfg CancelReq None" "well_formed cfg CancelResp None"
  by (auto simp: well_formed_def payload_within_def carries_payload_def payload_limit_def split: option.splits)

lemma create_request_typed:
  assumes "protocol_like m cfgs p" and "create_request ch payload p = Some (Inr msg, p')"
  shows "sendable cfgs msg"
  using assms(1)
proof (cases rule: create_request_cases [where ch = ch and payload = payload])
  case (created i)
  then show ?thesis
    using sendable_new [OF assms(1) created(1) well_formed_within(1) [OF created(2)]] assms(2) by simp
qed (use assms(2) in simp_all)

lemma create_response_typed:
  assumes "protocol_like m cfgs p" and "create_response ch i payload p = (Inr (Some msg), p')"
  shows "sendable cfgs msg"
proof -
  have "channel_exists ch p" "payload_within (max_response_payload_size (config (chan_of ch p))) payload"
    "msg = outgoing_message_new (header_new (if payload = None then Response else ResponsePl) ch i) payload"
    using assms(2)
    by (auto simp: sending_defs create_unchecked_response_def payload_within_def split: if_splits option.splits)
  then show ?thesis
    using sendable_new [OF assms(1)] well_formed_within(2) by simp
qed

lemma cancel_request_typed:
  assumes "protocol_like m cfgs p" and "cancel_request ch i p = (Inr (Some msg), p')"
  shows "sendable cfgs msg"
proof -
  have "channel_exists ch p" "msg = outgoing_message_new (header_new CancelReq ch i) None"
    using assms(2) by (auto simp: sending_defs create_unchecked_request_cancellation_def split: if_splits)
  then show ?thesis
    using sendable_new [OF assms(1) _ well_formed_within(3)] by simp
qed

lemma cancel_response_typed:
  assumes "protocol_like m cfgs p" and "cancel_response ch i p = (Inr (Some msg), p')"
  shows "sendable cfgs msg"
proof -
  have "channel_exists ch p" "msg = outgoing_message_new (header_new CancelResp ch i) None"
    using assms(2) by (auto simp: sending_defs create_unchecked_response_cancellation_def split: if_splits)
  then show ?thesis
    using sendable_new [OF assms(1) _ well_formed_within(4)] by simp
qed

text \<open>
  C11: The operations of the protocol are well-typed. Whatever they are called with, \<^verbatim>\<open>create_request\<close>, \<^verbatim>\<open>create_response\<close>,
  \<^verbatim>\<open>cancel_request\<close>, \<^verbatim>\<open>cancel_response\<close> and \<^verbatim>\<open>process_incoming\<close> leave a well-typed protocol with the same frame size
  and channel configurations, also when they return a violation. The messages that the first four create have
  a valid header on an existing channel and a payload that fits the kind and the limit of the channel; a
  fatal outcome of \<^verbatim>\<open>process_incoming\<close> carries an error message without payload. \<^verbatim>\<open>custom_error\<close>, which reads the
  protocol only and does not check the channel, creates exactly the error message with the given channel, identifier and
  payload, and only if it fits a single frame.
\<close>

theorem operations_well_typed:
  assumes "protocol_like m cfgs p"
  shows "(\<forall>res p'. create_request ch payload p = Some (res, p') \<longrightarrow>
        protocol_like m cfgs p' \<and> (\<forall>msg. res = Inr msg \<longrightarrow> sendable cfgs msg))
    \<and> (\<forall>res p'. create_response ch i payload p = (res, p') \<longrightarrow>
        protocol_like m cfgs p' \<and> (\<forall>msg. res = Inr (Some msg) \<longrightarrow> sendable cfgs msg))
    \<and> (\<forall>res p'. cancel_request ch i p = (res, p') \<longrightarrow>
        protocol_like m cfgs p' \<and> (\<forall>msg. res = Inr (Some msg) \<longrightarrow> sendable cfgs msg))
    \<and> (\<forall>res p'. cancel_response ch i p = (res, p') \<longrightarrow>
        protocol_like m cfgs p' \<and> (\<forall>msg. res = Inr (Some msg) \<longrightarrow> sendable cfgs msg))
    \<and> (\<forall>oc p' rest. process_incoming p buffer = Some (oc, p', rest) \<longrightarrow> protocol_like m cfgs p'
        \<and> (\<forall>msg. oc = Fatal msg \<longrightarrow> (\<exists>k c j. msg = outgoing_message_new (header_new_error k c j) None)))
    \<and> (\<forall>msg. custom_error any i err p = Some (Inr msg) \<longrightarrow>
        msg = outgoing_message_new (header_new_error Other any i) (Some err) \<and> om_is_multi_frame m msg = Some False)"
proof (intro conjI allI impI)
  fix res p'
  assume "create_request ch payload p = Some (res, p')"
  then show "protocol_like m cfgs p'"
    by (rule create_request_like [OF assms])
next
  fix msg
  assume "custom_error any i err p = Some (Inr msg)"
  then show "msg = outgoing_message_new (header_new_error Other any i) (Some err)" "om_is_multi_frame m msg = Some False"
    using assms by (auto simp: custom_error_def protocol_like_def bind_eq_Some_conv Let_def split: if_splits)
next
  fix oc p' rest msg
  assume run: "process_incoming p buffer = Some (oc, p', rest)"
  then show "protocol_like m cfgs p'"
    using juliet.looped.parse_total [OF assms, of buffer] by auto
  assume "oc = Fatal msg"
  then show "\<exists>k c j. msg = outgoing_message_new (header_new_error k c j) None"
    using process_incoming_effect [OF run] assms
    by (simp add: protocol_like_def read_effect_def error_message_def)
qed (use assms create_response_like [OF assms, of ch i payload] cancel_response_like [OF assms, of ch i]
      cancel_request_state [of ch i p] create_request_typed [OF assms] create_response_typed [OF assms]
      cancel_request_typed [OF assms] cancel_response_typed [OF assms] in auto)

theorem operations_well_typed_witness:
  "\<exists>msg p'. create_request (ChannelId 1) (Some [1, 2]) two_channel_protocol = Some (Inr msg, p')
     \<and> sendable (map config (channels two_channel_protocol)) msg"
proof -
  have "\<exists>msg p'. create_request (ChannelId 1) (Some [1, 2]) two_channel_protocol = Some (Inr msg, p')"
    using protocol_like_refl [OF two_channel_protocol_inv]
  proof (cases rule: create_request_cases [where ch = "ChannelId 1" and payload = "Some [1, 2]"])
  qed (auto simp: channel_exists_def chan_of_def two_channel_protocol_def builder_build_def
      juliet_protocol_builder_def channel_new_def channel_configuration_defs)
  then obtain msg p' where "create_request (ChannelId 1) (Some [1, 2]) two_channel_protocol = Some (Inr msg, p')"
    by blast
  moreover from this have "sendable (map config (channels two_channel_protocol)) msg"
    using operations_well_typed [OF protocol_like_refl [OF two_channel_protocol_inv],
        THEN conjunct1, rule_format, of "ChannelId 1" "Some [1, 2]"] by simp
  ultimately show ?thesis
    by blast
qed

end
