(* ===== verification/Session.thy ===== *)
theory Session
  imports Message_Types "HOL-Library.Multiset"
begin

text \<open>
  Two peers that use \<^verbatim>\<open>JulietProtocol\<close> with the same configuration and exchange whole messages in order.
  Each peer may at any time create requests, answer or refuse requests it has received, and cancel each
  of its requests once; messages travel in the order they were created and are handed to
  \<^verbatim>\<open>process_incoming\<close> as the frames of \<^verbatim>\<open>OutgoingMessage\<close>. The invariant \<open>link\<close> accounts, per channel and
  direction, for every outstanding request: it is still on its way, or waits at the responder, or its
  answer is on its way back.
\<close>

section \<open>Steps\<close>

record peer =
  proto :: juliet_protocol
  cancelled :: "channel_id \<Rightarrow> msg_id set"
  outbox :: "outgoing_message list"

text \<open>
  \<open>cancelled\<close> records the outstanding requests the peer has already cancelled; an answer clears the entry.
\<close>

definition forget_answered ::
  "read_outcome \<Rightarrow> (channel_id \<Rightarrow> msg_id set) \<Rightarrow> channel_id \<Rightarrow> msg_id set" where
  "forget_answered oc canc = (case oc of
       Success (ReceivedResponse ch i _) \<Rightarrow> canc(ch := canc ch - {i})
     | Success (ResponseCancellation ch i) \<Rightarrow> canc(ch := canc ch - {i})
     | _ \<Rightarrow> canc)"

inductive acts :: "peer \<Rightarrow> peer \<Rightarrow> bool" where
  request: "create_request ch payload (proto x) = Some (Inr msg, p') \<Longrightarrow>
    acts x (x\<lparr>proto := p', outbox := outbox x @ [msg]\<rparr>)"
| response: "create_response ch i payload (proto x) = (Inr (Some msg), p') \<Longrightarrow>
    acts x (x\<lparr>proto := p', outbox := outbox x @ [msg]\<rparr>)"
| refuse: "cancel_response ch i (proto x) = (Inr (Some msg), p') \<Longrightarrow>
    acts x (x\<lparr>proto := p', outbox := outbox x @ [msg]\<rparr>)"
| cancel: "cancel_request ch i (proto x) = (Inr (Some msg), p') \<Longrightarrow> i \<notin> cancelled x ch \<Longrightarrow>
    acts x (x\<lparr>proto := p', outbox := outbox x @ [msg],
              cancelled := (cancelled x)(ch := insert i (cancelled x ch))\<rparr>)"

inductive delivers :: "peer \<Rightarrow> peer \<Rightarrow> peer \<Rightarrow> peer \<Rightarrow> bool" where
  deliver: "outbox x = msg # q \<Longrightarrow>
    process_incoming (proto y) (concat (wire_frames (max_frame_size (proto x)) msg)) = Some (oc, p', []) \<Longrightarrow>
    \<nexists>e. oc = Fatal e \<Longrightarrow>
    delivers x y (x\<lparr>outbox := q\<rparr>) (y\<lparr>proto := p', cancelled := forget_answered oc (cancelled y)\<rparr>)"

inductive session_step :: "peer \<times> peer \<Rightarrow> peer \<times> peer \<Rightarrow> bool" where
  left_acts: "acts x x' \<Longrightarrow> session_step (x, y) (x', y)"
| right_acts: "acts y y' \<Longrightarrow> session_step (x, y) (x, y')"
| left_delivers: "delivers x y x' y' \<Longrightarrow> session_step (x, y) (x', y')"
| right_delivers: "delivers y x y' x' \<Longrightarrow> session_step (x, y) (x', y')"

definition new_peer :: "protocol_builder \<Rightarrow> peer" where
  "new_peer b = \<lparr>proto = builder_build b, cancelled = (\<lambda>_. {}), outbox = []\<rparr>"

inductive session :: "protocol_builder \<Rightarrow> peer \<times> peer \<Rightarrow> bool" for b where
  start: "session b (new_peer b, new_peer b)"
| step: "session b s \<Longrightarrow> session_step s s' \<Longrightarrow> session b s'"

inductive_cases deliversE: "delivers x y x' y'"

section \<open>Accounting on one channel\<close>

definition kind_of :: "outgoing_message \<Rightarrow> frame_kind" where
  "kind_of msg = the (header_kind (om_header msg))"

definition id_of :: "outgoing_message \<Rightarrow> msg_id" where
  "id_of msg = header_id (om_header msg)"

definition on_channel :: "channel_id \<Rightarrow> outgoing_message list \<Rightarrow> outgoing_message list" where
  "on_channel ch q = filter (\<lambda>msg. header_channel (om_header msg) = ch) q"

definition is_request_kind :: "frame_kind \<Rightarrow> bool" where
  "is_request_kind k \<longleftrightarrow> k = Request \<or> k = RequestPl"

definition is_answer_kind :: "frame_kind \<Rightarrow> bool" where
  "is_answer_kind k \<longleftrightarrow> k = Response \<or> k = ResponsePl \<or> k = CancelResp"

definition request_ids :: "outgoing_message list \<Rightarrow> msg_id list" where
  "request_ids q = map id_of (filter (\<lambda>msg. is_request_kind (kind_of msg)) q)"

definition answer_ids :: "outgoing_message list \<Rightarrow> msg_id list" where
  "answer_ids q = map id_of (filter (\<lambda>msg. is_answer_kind (kind_of msg)) q)"

text \<open>The responder's cancellation allowance after the messages on their way, None if it runs out.\<close>

fun allowance_after :: "nat \<Rightarrow> nat \<Rightarrow> frame_kind list \<Rightarrow> nat option" where
  "allowance_after limit a [] = Some a"
| "allowance_after limit a (k # ks) =
     (if is_request_kind k then allowance_after limit (min limit (a + 1)) ks
      else if k = CancelReq then (if a = 0 then None else allowance_after limit (a - 1) ks)
      else allowance_after limit a ks)"

definition link ::
  "channel \<Rightarrow> channel \<Rightarrow> outgoing_message list \<Rightarrow> outgoing_message list \<Rightarrow> msg_id set \<Rightarrow> bool" where
  "link a b ab ba canc \<longleftrightarrow>
     mset (request_ids ab) + mset_set (incoming_requests b) + mset (answer_ids ba)
       = mset_set (outgoing_requests a)
     \<and> canc \<subseteq> outgoing_requests a
     \<and> (\<exists>x. allowance_after (unat (request_limit (config b))) (unat (cancellation_allowance b))
             (map kind_of ab) = Some x \<and> card (outgoing_requests a - canc) \<le> x)"

lemma allowance_after_append:
  "allowance_after limit a (ks @ [k]) = Option.bind (allowance_after limit a ks) (\<lambda>x. allowance_after limit x [k])"
  by (induction limit a ks rule: allowance_after.induct) auto

lemma message_access [simp]:
  "kind_of (outgoing_message_new (header_new k ch i) payload) = k"
  "id_of (outgoing_message_new (header_new k ch i) payload) = i"
  "header_channel (om_header (outgoing_message_new (header_new k ch i) payload)) = ch"
  by (simp_all add: kind_of_def id_of_def outgoing_message_new_def)

lemma ids_Cons [simp]:
  "request_ids (msg # q) = (if is_request_kind (kind_of msg) then [id_of msg] else []) @ request_ids q"
  "answer_ids (msg # q) = (if is_answer_kind (kind_of msg) then [id_of msg] else []) @ answer_ids q"
  by (simp_all add: request_ids_def answer_ids_def)

lemma ids_append [simp]:
  "request_ids (q @ q') = request_ids q @ request_ids q'" "request_ids [] = []"
  "answer_ids (q @ q') = answer_ids q @ answer_ids q'" "answer_ids [] = []"
  by (simp_all add: request_ids_def answer_ids_def)

lemma kind_classes [simp]:
  "is_request_kind Request" "is_request_kind RequestPl" "\<not> is_request_kind Response"
  "\<not> is_request_kind ResponsePl" "\<not> is_request_kind CancelReq" "\<not> is_request_kind CancelResp"
  "\<not> is_answer_kind Request" "\<not> is_answer_kind RequestPl" "is_answer_kind Response"
  "is_answer_kind ResponsePl" "\<not> is_answer_kind CancelReq" "is_answer_kind CancelResp"
  by (simp_all add: is_request_kind_def is_answer_kind_def)

section \<open>The accounting is kept\<close>

lemma link_initial:
  "link (channel_new cfg) (channel_new cfg') [] [] {}"
  by (simp add: link_def channel_new_def)

lemma link_request:
  assumes "link a b ab ba canc" and "i \<notin> outgoing_requests a" and "is_request_kind (kind_of msg)"
    and "id_of msg = i" and "outgoing_requests a' = insert i (outgoing_requests a)"
    and "card (outgoing_requests a') \<le> unat (request_limit (config b))"
  shows "link a' b (ab @ [msg]) ba canc"
proof -
  obtain x where x: "allowance_after (unat (request_limit (config b))) (unat (cancellation_allowance b))
      (map kind_of ab) = Some x" "card (outgoing_requests a - canc) \<le> x" and sub: "canc \<subseteq> outgoing_requests a"
    using assms(1) by (auto simp: link_def)
  have "outgoing_requests a' - canc = insert i (outgoing_requests a - canc)"
    using sub assms(2,5) by auto
  then have "card (outgoing_requests a' - canc) \<le> Suc x"
    using x(2) by (simp add: card_insert_if)
  moreover have "card (outgoing_requests a' - canc) \<le> card (outgoing_requests a')"
    by (simp add: card_mono)
  ultimately have "card (outgoing_requests a' - canc) \<le> min (unat (request_limit (config b))) (x + 1)"
    using assms(6) by simp
  moreover have "mset_set (outgoing_requests a') = add_mset i (mset_set (outgoing_requests a))"
    using assms(2,5) by simp
  ultimately show ?thesis
    using assms(1-5) x sub by (auto simp: link_def allowance_after_append)
qed

lemma link_cancel:
  assumes "link a b ab ba canc" and "i \<in> outgoing_requests a" and "i \<notin> canc" and "kind_of msg = CancelReq"
  shows "link a b (ab @ [msg]) ba (insert i canc)"
proof -
  obtain x where x: "allowance_after (unat (request_limit (config b))) (unat (cancellation_allowance b))
      (map kind_of ab) = Some x" "card (outgoing_requests a - canc) \<le> x"
    using assms(1) by (auto simp: link_def)
  have "outgoing_requests a - insert i canc = outgoing_requests a - canc - {i}"
    by auto
  then have "card (outgoing_requests a - insert i canc) = card (outgoing_requests a - canc) - 1"
    using assms(2,3) by (simp add: card_Diff_singleton)
  moreover have "0 < card (outgoing_requests a - canc)"
    using assms(2,3) by (auto simp: card_gt_0_iff)
  ultimately show ?thesis
    using assms x by (auto simp: link_def allowance_after_append)
qed

lemma link_other_out:
  assumes "link a b ab ba canc" and "kind_of msg = Response \<or> kind_of msg = ResponsePl \<or> kind_of msg = CancelResp"
    and "outgoing_requests a' = outgoing_requests a"
  shows "link a' b (ab @ [msg]) ba canc"
  using assms by (auto simp: link_def allowance_after_append)

lemma link_answer:
  assumes "link a b ab ba canc" and "i \<in> incoming_requests b" and "is_answer_kind (kind_of msg)"
    and "id_of msg = i"
  shows "link a (b\<lparr>incoming_requests := incoming_requests b - {i}\<rparr>) ab (ba @ [msg]) canc"
proof -
  have "mset_set (incoming_requests b) = add_mset i (mset_set (incoming_requests b - {i}))"
    using assms(2) by (simp add: mset_set.remove)
  then show ?thesis
    using assms by (simp add: link_def is_answer_kind_def)
qed

lemma link_counts:
  assumes "link a b ab ba canc"
  shows "count (mset (request_ids ab)) i + count (mset_set (incoming_requests b)) i
      + count (mset (answer_ids ba)) i = count (mset_set (outgoing_requests a)) i"
    and "size (mset (request_ids ab)) + card (incoming_requests b) + size (mset (answer_ids ba))
      = card (outgoing_requests a)"
proof -
  have eq: "mset (request_ids ab) + mset_set (incoming_requests b) + mset (answer_ids ba)
      = mset_set (outgoing_requests a)"
    using assms by (simp add: link_def)
  show "count (mset (request_ids ab)) i + count (mset_set (incoming_requests b)) i
      + count (mset (answer_ids ba)) i = count (mset_set (outgoing_requests a)) i"
    unfolding eq [symmetric] by simp
  have "size (mset (request_ids ab) + mset_set (incoming_requests b) + mset (answer_ids ba))
      = card (outgoing_requests a)"
    unfolding eq by simp
  then show "size (mset (request_ids ab)) + card (incoming_requests b) + size (mset (answer_ids ba))
      = card (outgoing_requests a)"
    by simp
qed

lemma link_deliver_request:
  assumes "link a b (msg # ab) ba canc" and "is_request_kind (kind_of msg)" and "id_of msg = i"
    and "card (outgoing_requests a) \<le> unat (request_limit (config b))"
    and "cancellation_allowance b \<le> request_limit (config b)"
  defines "b' \<equiv> increment_cancellation_allowance (b\<lparr>incoming_requests := insert i (incoming_requests b)\<rparr>)"
  shows "\<not> is_at_max_incoming_requests b" and "i \<notin> incoming_requests b" and "link a b' ab ba canc"
proof -
  show "\<not> is_at_max_incoming_requests b"
    using link_counts(2) [OF assms(1)] assms(2,4) by (simp add: is_at_max_incoming_requests_def)
  have "count (mset_set (outgoing_requests a)) i \<le> 1"
    by (simp add: count_mset_set')
  then have "count (mset_set (incoming_requests b)) i = 0"
    using link_counts(1) [OF assms(1), of i] assms(2,3) by simp
  then show fresh: "i \<notin> incoming_requests b"
    by (simp add: count_mset_set' split: if_splits)
  have "unat (cancellation_allowance b') = min (unat (request_limit (config b))) (unat (cancellation_allowance b) + 1)"
    using unat_increment_allowance [of "b\<lparr>incoming_requests := insert i (incoming_requests b)\<rparr>"] assms(5)
    by (simp add: b'_def min.commute)
  then show "link a b' ab ba canc"
    using assms(1-3) fresh by (simp add: link_def b'_def)
qed

lemma link_deliver_cancel:
  assumes "link a b (msg # ab) ba canc" and "kind_of msg = CancelReq"
  shows "cancellation_allowance b \<noteq> 0"
    and "link a (b\<lparr>cancellation_allowance := cancellation_allowance b - 1\<rparr>) ab ba canc"
proof -
  show nonzero: "cancellation_allowance b \<noteq> 0"
    using assms by (auto simp: link_def)
  then have "unat (cancellation_allowance b - 1) = unat (cancellation_allowance b) - 1"
    by (simp add: unat_minus_one)
  moreover have "unat (cancellation_allowance b) \<noteq> 0"
    using nonzero by (simp add: unat_eq_zero)
  ultimately show "link a (b\<lparr>cancellation_allowance := cancellation_allowance b - 1\<rparr>) ab ba canc"
    using assms by (auto simp: link_def)
qed

lemma link_deliver_answer:
  assumes "link a b ab (msg # ba) canc" and "is_answer_kind (kind_of msg)" and "id_of msg = i"
  shows "i \<in> outgoing_requests a"
    and "link (a\<lparr>outgoing_requests := outgoing_requests a - {i}\<rparr>) b ab ba (canc - {i})"
proof -
  have "count (mset_set (outgoing_requests a)) i \<noteq> 0"
    using link_counts(1) [OF assms(1), of i] assms(2,3) by simp
  then show i: "i \<in> outgoing_requests a"
    by (simp add: count_mset_set' split: if_splits)
  then have "mset_set (outgoing_requests a) = add_mset i (mset_set (outgoing_requests a - {i}))"
    by (simp add: mset_set.remove)
  moreover have "card (outgoing_requests a - {i} - (canc - {i})) \<le> card (outgoing_requests a - canc)"
    by (rule card_mono) auto
  ultimately show "link (a\<lparr>outgoing_requests := outgoing_requests a - {i}\<rparr>) b ab ba (canc - {i})"
    using assms by (force simp: link_def intro: order_trans)
qed

text \<open>Messages that are of no concern to a direction.\<close>

lemma link_skip_forward:
  assumes "link a b (msg # ab) ba canc" and "\<not> is_request_kind (kind_of msg)" and "kind_of msg \<noteq> CancelReq"
    and "incoming_requests b' = incoming_requests b" and "config b' = config b"
    and "cancellation_allowance b' = cancellation_allowance b"
  shows "link a b' ab ba canc"
  using assms by (simp add: link_def)

lemma link_skip_back:
  assumes "link a b ab (msg # ba) canc" and "\<not> is_answer_kind (kind_of msg)"
    and "outgoing_requests a' = outgoing_requests a"
  shows "link a' b ab ba canc"
  using assms by (simp add: link_def)

lemma link_other_back:
  assumes "link a b ab ba canc" and "\<not> is_answer_kind (kind_of msg)"
    and "incoming_requests b' = incoming_requests b" and "config b' = config b"
    and "cancellation_allowance b' = cancellation_allowance b"
  shows "link a b' ab (ba @ [msg]) canc"
  using assms by (simp add: link_def)

section \<open>Invariant of a session\<close>

definition idle :: "juliet_protocol \<Rightarrow> bool" where
  "idle p = list_all (\<lambda>c. current_multiframe_receiver c = Ready) (channels p)"

definition linked :: "channel_configuration list \<Rightarrow> peer \<Rightarrow> peer \<Rightarrow> bool" where
  "linked cfgs x y \<longleftrightarrow> (\<forall>ch. unat (channel_get ch) < length cfgs \<longrightarrow>
     link (chan_of ch (proto x)) (chan_of ch (proto y)) (on_channel ch (outbox x)) (on_channel ch (outbox y))
       (cancelled x ch))"

definition peer_inv :: "max_frame_size \<Rightarrow> channel_configuration list \<Rightarrow> peer \<Rightarrow> bool" where
  "peer_inv m cfgs x \<longleftrightarrow> protocol_like m cfgs (proto x) \<and> idle (proto x)
     \<and> list_all (sendable cfgs) (outbox x)"

definition session_inv :: "max_frame_size \<Rightarrow> channel_configuration list \<Rightarrow> peer \<Rightarrow> peer \<Rightarrow> bool" where
  "session_inv m cfgs x y \<longleftrightarrow>
     peer_inv m cfgs x \<and> peer_inv m cfgs y \<and> linked cfgs x y \<and> linked cfgs y x"

lemma session_inv_links:
  assumes "session_inv m cfgs x y" and "unat (channel_get ch) < length cfgs"
  shows "link (chan_of ch (proto x)) (chan_of ch (proto y)) (on_channel ch (outbox x)) (on_channel ch (outbox y))
      (cancelled x ch)"
    and "link (chan_of ch (proto y)) (chan_of ch (proto x)) (on_channel ch (outbox y)) (on_channel ch (outbox x))
      (cancelled y ch)"
  using assms by (simp_all add: session_inv_def linked_def)

lemma session_inv_sym: "session_inv m cfgs x y \<Longrightarrow> session_inv m cfgs y x"
  by (auto simp: session_inv_def)

lemma idle_put: "idle p \<Longrightarrow> current_multiframe_receiver c = Ready \<Longrightarrow> idle (put_channel ch c p)"
  by (simp add: idle_def put_channel_def list_all_nth_update)

lemma idle_chan: "idle p \<Longrightarrow> channel_exists ch p \<Longrightarrow> current_multiframe_receiver (chan_of ch p) = Ready"
  by (simp add: idle_def channel_exists_def chan_of_def list_all_length)

text \<open>What a peer's action does to its channel and to the accounting in both directions.\<close>

definition channel_action ::
  "peer \<Rightarrow> peer \<Rightarrow> channel_id \<Rightarrow> outgoing_message \<Rightarrow> channel \<Rightarrow> bool" where
  "channel_action x x' ch msg c' \<longleftrightarrow> channel_exists ch (proto x)
     \<and> proto x' = put_channel ch c' (proto x) \<and> outbox x' = outbox x @ [msg]
     \<and> header_channel (om_header msg) = ch
     \<and> (\<forall>d. d \<noteq> ch \<longrightarrow> cancelled x' d = cancelled x d)
     \<and> current_multiframe_receiver c' = current_multiframe_receiver (chan_of ch (proto x))
     \<and> (\<forall>b ab ba. config b = config (chan_of ch (proto x)) \<longrightarrow>
          link (chan_of ch (proto x)) b ab ba (cancelled x ch) \<longrightarrow> link c' b (ab @ [msg]) ba (cancelled x' ch))
     \<and> (\<forall>b ab ba canc. link b (chan_of ch (proto x)) ab ba canc \<longrightarrow> link b c' ab (ba @ [msg]) canc)"

lemma request_action:
  assumes like: "protocol_like m cfgs (proto x)"
    and request: "x' = x\<lparr>proto := p', outbox := outbox x @ [msg]\<rparr>" "create_request ch payload (proto x) = Some (Inr msg, p')"
  shows "\<exists>ch msg c'. channel_action x x' ch msg c' \<and> sendable cfgs msg \<and> protocol_like m cfgs (proto x')"
proof -
  note like' = create_request_like [OF like request(2)]
  let ?c = "chan_of ch (proto x)"
  from like show ?thesis
  proof (cases rule: create_request_cases [where ch = ch and payload = payload])
    case (created i)
    let ?c' = "?c\<lparr>prev_request_id := id_get i, outgoing_requests := insert i (outgoing_requests ?c)\<rparr>"
    let ?k = "if payload = None then Request else RequestPl"
    have msg: "msg = outgoing_message_new (header_new ?k ch i) payload" "p' = put_channel ch ?c' (proto x)"
      using created(5) request(2) by simp_all
    have "channel_inv ?c'"
      using like' [unfolded msg(2)] chan_of_inv [of m cfgs "put_channel ch ?c' (proto x)" ch] created(1) by simp
    then have "card (outgoing_requests ?c') \<le> unat (request_limit (config ?c))"
      by (simp add: channel_inv_def)
    then have "channel_action x x' ch msg ?c'"
      using request(1) msg created(1,4)
      by (auto simp: channel_action_def intro: link_request link_other_back)
    then show ?thesis
      using like' create_request_typed [OF like request(2)] request(1) by auto
  qed (use request(2) in simp_all)
qed

lemma response_action:
  assumes like: "protocol_like m cfgs (proto x)"
    and response: "x' = x\<lparr>proto := p', outbox := outbox x @ [msg]\<rparr>" "create_response ch i payload (proto x) = (Inr (Some msg), p')"
  shows "\<exists>ch msg c'. channel_action x x' ch msg c' \<and> sendable cfgs msg \<and> protocol_like m cfgs (proto x')"
proof -
  let ?c = "chan_of ch (proto x)"
  let ?c' = "?c\<lparr>incoming_requests := incoming_requests ?c - {i}\<rparr>"
  have r: "channel_exists ch (proto x)" "i \<in> incoming_requests ?c" "p' = put_channel ch ?c' (proto x)"
    "payload_within (max_response_payload_size (config ?c)) payload"
    "msg = outgoing_message_new (header_new (if payload = None then Response else ResponsePl) ch i) payload"
    using response(2)
    by (auto simp: sending_defs create_unchecked_response_def payload_within_def split: if_splits option.splits)
  have "channel_action x x' ch msg ?c'"
    using response(1) r by (auto simp: channel_action_def intro: link_answer link_other_out)
  then show ?thesis
    using create_response_like [OF like, of ch i payload] create_response_typed [OF like response(2)] response by auto
qed

lemma refuse_action:
  assumes like: "protocol_like m cfgs (proto x)"
    and refuse: "x' = x\<lparr>proto := p', outbox := outbox x @ [msg]\<rparr>" "cancel_response ch i (proto x) = (Inr (Some msg), p')"
  shows "\<exists>ch msg c'. channel_action x x' ch msg c' \<and> sendable cfgs msg \<and> protocol_like m cfgs (proto x')"
proof -
  let ?c = "chan_of ch (proto x)"
  let ?c' = "?c\<lparr>incoming_requests := incoming_requests ?c - {i}\<rparr>"
  have r: "channel_exists ch (proto x)" "i \<in> incoming_requests ?c" "p' = put_channel ch ?c' (proto x)"
    "msg = outgoing_message_new (header_new CancelResp ch i) None"
    using refuse(2) by (auto simp: sending_defs create_unchecked_response_cancellation_def split: if_splits)
  have "channel_action x x' ch msg ?c'"
    using refuse(1) r by (auto simp: channel_action_def intro: link_answer link_other_out)
  then show ?thesis
    using cancel_response_like [OF like, of ch i] cancel_response_typed [OF like refuse(2)] refuse by auto
qed

lemma cancel_action:
  assumes like: "protocol_like m cfgs (proto x)"
    and cancel: "x' = x\<lparr>proto := p', outbox := outbox x @ [msg], cancelled := (cancelled x)(ch := insert i (cancelled x ch))\<rparr>"
      "cancel_request ch i (proto x) = (Inr (Some msg), p')" "i \<notin> cancelled x ch"
  shows "\<exists>ch msg c'. channel_action x x' ch msg c' \<and> sendable cfgs msg \<and> protocol_like m cfgs (proto x')"
proof -
  let ?c = "chan_of ch (proto x)"
  have r: "channel_exists ch (proto x)" "i \<in> outgoing_requests ?c" "p' = proto x"
    "msg = outgoing_message_new (header_new CancelReq ch i) None"
    using cancel(2) by (auto simp: sending_defs create_unchecked_request_cancellation_def split: if_splits)
  have "channel_action x x' ch msg ?c"
    using cancel(1,3) r by (auto simp: channel_action_def intro: link_cancel link_other_back)
  then show ?thesis
    using like cancel_request_typed [OF like cancel(2)] cancel r by auto
qed

lemma acts_channel_action:
  assumes "acts x x'" and "protocol_like m cfgs (proto x)"
  shows "\<exists>ch msg c'. channel_action x x' ch msg c' \<and> sendable cfgs msg \<and> protocol_like m cfgs (proto x')"
  using assms(1)
  by (cases rule: acts.cases)
     (blast intro: request_action [OF assms(2)] response_action [OF assms(2)] refuse_action [OF assms(2)]
       cancel_action [OF assms(2)])+

lemma on_channel_append [simp]:
  "on_channel ch (q @ [msg]) = (if header_channel (om_header msg) = ch then on_channel ch q @ [msg] else on_channel ch q)"
  "on_channel ch (msg # q) = (if header_channel (om_header msg) = ch then msg # on_channel ch q else on_channel ch q)"
  by (simp_all add: on_channel_def)

lemma acts_keeps_session_inv [inv_intros]:
  assumes "acts x x'" and "session_inv m cfgs x y"
  shows "session_inv m cfgs x' y"
proof -
  have like: "protocol_like m cfgs (proto x)" "protocol_like m cfgs (proto y)"
    using assms(2) by (simp_all add: session_inv_def peer_inv_def)
  obtain ch msg c' where act: "channel_action x x' ch msg c'" and send: "sendable cfgs msg"
    and like': "protocol_like m cfgs (proto x')"
    using acts_channel_action [OF assms(1) like(1)] by blast
  have ex: "channel_exists ch (proto x)" "unat (channel_get ch) < length cfgs"
    using act exists_like [OF like(1)] by (simp_all add: channel_action_def)
  have x': "proto x' = put_channel ch c' (proto x)" "outbox x' = outbox x @ [msg]"
    "header_channel (om_header msg) = ch" "\<And>d. d \<noteq> ch \<Longrightarrow> cancelled x' d = cancelled x d"
    using act by (simp_all add: channel_action_def)
  have "current_multiframe_receiver c' = Ready"
    using act idle_chan [OF _ ex(1)] assms(2) by (simp add: channel_action_def session_inv_def peer_inv_def)
  then have "peer_inv m cfgs x'"
    using assms(2) like' send by (simp add: session_inv_def peer_inv_def x' idle_put)
  moreover have "linked cfgs x' y"
    unfolding linked_def
  proof (intro allI impI)
    fix d assume d: "unat (channel_get d) < length cfgs"
    have l: "link (chan_of d (proto x)) (chan_of d (proto y)) (on_channel d (outbox x)) (on_channel d (outbox y))
        (cancelled x d)"
      using assms(2) d by (simp add: session_inv_def linked_def)
    show "link (chan_of d (proto x')) (chan_of d (proto y)) (on_channel d (outbox x')) (on_channel d (outbox y))
        (cancelled x' d)"
    proof (cases "d = ch")
      case True
      have "config (chan_of ch (proto y)) = config (chan_of ch (proto x))"
        using config_like like ex(2) by simp
      then show ?thesis
        using act l True ex(1) by (simp add: x' channel_action_def)
    next
      case False
      then show ?thesis
        using l by (simp add: x')
    qed
  qed
  moreover have "linked cfgs y x'"
    unfolding linked_def
  proof (intro allI impI)
    fix d assume d: "unat (channel_get d) < length cfgs"
    have l: "link (chan_of d (proto y)) (chan_of d (proto x)) (on_channel d (outbox y)) (on_channel d (outbox x))
        (cancelled y d)"
      using assms(2) d by (simp add: session_inv_def linked_def)
    show "link (chan_of d (proto y)) (chan_of d (proto x')) (on_channel d (outbox y)) (on_channel d (outbox x'))
        (cancelled y d)"
      using act l ex(1) by (cases "d = ch") (simp_all add: x' channel_action_def)
  qed
  ultimately show ?thesis
    using assms(2) by (simp add: session_inv_def)
qed

text \<open>Handing a message over: the effect on the channel and on the accounting in both directions.\<close>

lemma link_deliver:
  assumes "link a b (msg # ab) ba canc" and "link b a ba (msg # ab) (f ch)"
    and "msg = outgoing_message_new (header_new k ch i) payload"
    and "channel_inv a" and "channel_inv b" and "config a = config b"
  shows "\<exists>vo b' canc'. receive_message k ch i payload b = (Inr vo, b')
    \<and> link a b' ab ba canc \<and> link b' a ba ab canc'
    \<and> forget_answered (case vo of Some v \<Rightarrow> Success v | None \<Rightarrow> Incomplete 4) f = f(ch := canc')"
proof -
  have msg: "kind_of msg = k" "id_of msg = i"
    using assms(3) by simp_all
  have le: "card (outgoing_requests a) \<le> unat (request_limit (config b))"
    "cancellation_allowance b \<le> request_limit (config b)"
    using assms(4-6) by (simp_all add: channel_inv_def)
  consider "is_request_kind k" | "k = CancelReq" | "is_answer_kind k"
    by (cases k) simp_all
  then show ?thesis
  proof cases
    case 1
    then have k: "k = Request \<or> k = RequestPl" "\<not> is_answer_kind k"
      by (auto simp: is_request_kind_def)
    note d = link_deliver_request [OF assms(1) _ msg(2) le, unfolded msg(1), OF 1]
    show ?thesis
      using d k link_skip_back [OF assms(2), of "increment_cancellation_allowance
          (b\<lparr>incoming_requests := insert i (incoming_requests b)\<rparr>)"] msg(1)
      by (auto simp: receive_message_def forget_answered_def intro!: exI [of _ "f ch"])
  next
    case 2
    note d = link_deliver_cancel [OF assms(1), unfolded msg(1), OF 2]
    show ?thesis
      using d 2 link_skip_back [OF assms(2), of "b\<lparr>cancellation_allowance := cancellation_allowance b - 1\<rparr>"] msg(1)
      by (cases "i \<in> incoming_requests b") (auto simp: receive_message_def forget_answered_def intro!: exI [of _ "f ch"])
  next
    case 3
    note d = link_deliver_answer [OF assms(2) _ msg(2), unfolded msg(1), OF 3]
    have k: "k = Response \<or> k = ResponsePl \<or> k = CancelResp" "\<not> is_request_kind k" "k \<noteq> CancelReq"
      using 3 by (auto simp: is_answer_kind_def)
    then have "link a (b\<lparr>outgoing_requests := outgoing_requests b - {i}\<rparr>) ab ba canc"
      using link_skip_forward [OF assms(1)] msg(1) by simp
    then show ?thesis
      using d k by (auto simp: receive_message_def forget_answered_def)
  qed
qed

lemma process_incoming_Nil: "process_incoming p [] = Some (Incomplete 4, p, [])"
  by (subst process_incoming.simps) (simp add: process_frame_def header_SIZE_def outcome_incomplete_def)

lemma receive_message_inv:
  assumes "receive_message k ch i payload c = (Inr vo, c')" and "channel_inv c"
  shows "channel_inv c'"
  using assms channel_inv_add_incoming [OF assms(2)] channel_inv_remove_outgoing [OF assms(2)]
    channel_inv_decrement_allowance [OF assms(2)]
  by (auto simp: receive_message_def split: if_splits)

lemma session_delivery:
  assumes inv: "session_inv m cfgs x y" and "outbox x = msg # q"
  shows "\<exists>oc p'. process_incoming (proto y) (concat (wire_frames (max_frame_size (proto x)) msg)) = Some (oc, p', [])
    \<and> (\<nexists>e. oc = Fatal e)
    \<and> session_inv m cfgs (x\<lparr>outbox := q\<rparr>) (y\<lparr>proto := p', cancelled := forget_answered oc (cancelled y)\<rparr>)"
proof -
  have like: "protocol_like m cfgs (proto x)" "protocol_like m cfgs (proto y)" "idle (proto y)"
    and q: "sendable cfgs msg" "list_all (sendable cfgs) q"
    using assms by (simp_all add: session_inv_def peer_inv_def)
  obtain k ch i payload where msg: "msg = outgoing_message_new (header_new k ch i) payload"
    and ch: "unat (channel_get ch) < length cfgs"
    and wf: "well_formed (cfgs ! unat (channel_get ch)) k payload"
    using q(1) by (auto simp: sendable_def)
  let ?a = "chan_of ch (proto x)" and ?b = "chan_of ch (proto y)"
  have ex: "channel_exists ch (proto x)" "channel_exists ch (proto y)"
    using ch exists_like like by blast+
  have cfg: "config ?a = cfgs ! unat (channel_get ch)" "config ?b = cfgs ! unat (channel_get ch)"
    using config_like like ch by blast+
  have cfg_eq: "config ?a = config ?b"
    using cfg by simp
  have mfs: "max_frame_size (proto x) = max_frame_size (proto y)" "protocol_inv (proto y)"
    using like by (simp_all add: protocol_like_def)
  have links: "link ?a ?b (msg # on_channel ch q) (on_channel ch (outbox y)) (cancelled x ch)"
    "link ?b ?a (on_channel ch (outbox y)) (msg # on_channel ch q) (cancelled y ch)"
    using session_inv_links [OF inv ch] assms(2) msg by simp_all
  obtain vo b' canc where d: "receive_message k ch i payload ?b = (Inr vo, b')"
    "link ?a b' (on_channel ch q) (on_channel ch (outbox y)) (cancelled x ch)"
    "link b' ?a (on_channel ch (outbox y)) (on_channel ch q) canc"
    "forget_answered (case vo of Some v \<Rightarrow> Success v | None \<Rightarrow> Incomplete 4) (cancelled y)
      = (cancelled y)(ch := canc)"
    using link_deliver [where f = "cancelled y" and ch = ch, OF links msg chan_of_inv [OF like(1) ex(1)] chan_of_inv [OF like(2) ex(2)] cfg_eq]
    by (elim exE conjE) (rule that)
  let ?p' = "put_channel ch b' (proto y)"
  have "message_effect (proto y) ch i (Inr vo, b') [] (process_incoming (proto y)
      (concat (wire_frames (max_frame_size (proto y)) msg) @ []))"
    using message_delivery_effect [OF mfs(2) ex(2) idle_chan [OF like(3) ex(2)], of k payload i "[]"] wf cfg(2) d(1) msg
    by simp
  then obtain oc where oc: "process_incoming (proto y) (concat (wire_frames (max_frame_size (proto x)) msg))
      = Some (oc, ?p', [])" "oc = (case vo of Some v \<Rightarrow> Success v | None \<Rightarrow> Incomplete 4)"
    by (cases vo) (simp_all add: message_effect_def process_incoming_Nil mfs(1))
  have canc: "forget_answered oc (cancelled y) = (cancelled y)(ch := canc)"
    using d(4) by (simp only: oc(2))
  have "channel_inv b'" "current_multiframe_receiver b' = Ready" "config b' = config ?b"
    using receive_message_inv [OF d(1) chan_of_inv [OF like(2) ex(2)]] receive_message_receiver [OF d(1)]
      idle_chan [OF like(3) ex(2)] by simp_all
  then have "protocol_like m cfgs ?p'" "idle ?p'"
    using protocol_like_put_chan [OF like(2)] idle_put [OF like(3)] by blast+
  moreover have "link (chan_of e (proto x)) (chan_of e ?p') (on_channel e q) (on_channel e (outbox y)) (cancelled x e)
      \<and> link (chan_of e ?p') (chan_of e (proto x)) (on_channel e (outbox y)) (on_channel e q)
         (forget_answered oc (cancelled y) e)"
    if e: "unat (channel_get e) < length cfgs" for e
  proof (cases "e = ch")
    case True
    then show ?thesis
      using d(2,3) ex(2) by (simp add: canc)
  next
    case False
    then show ?thesis
      using session_inv_links [OF inv e] assms(2) msg by (simp add: canc)
  qed
  ultimately have "session_inv m cfgs (x\<lparr>outbox := q\<rparr>)
      (y\<lparr>proto := ?p', cancelled := forget_answered oc (cancelled y)\<rparr>)"
    using inv q(2) by (simp add: session_inv_def peer_inv_def linked_def)
  then show ?thesis
    using oc by (cases vo) auto
qed

lemma delivers_keeps_session_inv [inv_intros]:
  assumes "delivers x y x' y'" and "session_inv m cfgs x y"
  shows "session_inv m cfgs x' y'"
  using assms(1) by (rule deliversE) (use session_delivery [OF assms(2)] in fastforce)

lemma new_peer_session_inv:
  assumes "mfs_valid (pb_max_frame_size b)"
  shows "session_inv (pb_max_frame_size b) (pb_channel_config b) (new_peer b) (new_peer b)"
proof -
  have "channel_inv (channel_new cfg)" "config (channel_new cfg) = cfg"
    "current_multiframe_receiver (channel_new cfg) = Ready" for cfg
    by (simp_all add: channel_new_inv) (simp_all add: channel_new_def)
  then show ?thesis
    using assms
    by (auto simp: session_inv_def peer_inv_def linked_def new_peer_def builder_build_def protocol_like_def
        protocol_inv_def idle_def list_all_iff on_channel_def chan_of_def link_initial comp_def)
qed

lemma session_inv_reachable:
  assumes "session b s" and "mfs_valid (pb_max_frame_size b)"
  shows "session_inv (pb_max_frame_size b) (pb_channel_config b) (fst s) (snd s)"
  using assms(1)
proof induction
  case start
  then show ?case
    using new_peer_session_inv [OF assms(2)] by simp
next
  case (step s s')
  from step(2) step(3) show ?case
    by cases (auto intro: acts_keeps_session_inv delivers_keeps_session_inv
        session_inv_sym [OF acts_keeps_session_inv [OF _ session_inv_sym]]
        session_inv_sym [OF delivers_keeps_session_inv [OF _ session_inv_sym]])
qed

text \<open>
  C6: Two peers built from the same configuration that use the protocol only through its interface, and
  cancel each request at most once, never violate the protocol in each other's eyes. Whatever requests,
  responses, refusals and cancellations they interleave, and however deliveries are delayed, the next
  message is always accepted: \<^verbatim>\<open>process_incoming\<close> consumes its bytes entirely and never returns an error.
  In particular request limits, identifier reuse and the cancellation allowance of both sides agree.
\<close>

theorem honest_session_no_violation:
  assumes "mfs_valid (pb_max_frame_size b)" and "session b (x, y)"
  shows "(\<forall>msg q. outbox x = msg # q \<longrightarrow> (\<exists>oc p'. process_incoming (proto y)
      (concat (wire_frames (max_frame_size (proto x)) msg)) = Some (oc, p', []) \<and> (\<nexists>e. oc = Fatal e)))
    \<and> (\<forall>msg q. outbox y = msg # q \<longrightarrow> (\<exists>oc p'. process_incoming (proto x)
      (concat (wire_frames (max_frame_size (proto y)) msg)) = Some (oc, p', []) \<and> (\<nexists>e. oc = Fatal e)))"
proof -
  have inv: "session_inv (pb_max_frame_size b) (pb_channel_config b) x y"
    using session_inv_reachable [OF assms(2,1)] by simp
  then show ?thesis
    using session_delivery [OF inv] session_delivery [OF session_inv_sym [OF inv]] by meson
qed

theorem honest_session_no_violation_witness:
  "\<exists>x. session (juliet_protocol_builder 1 channel_configuration_new) (x, new_peer (juliet_protocol_builder 1 channel_configuration_new))
     \<and> (\<exists>msg. outbox x = [msg] \<and> (\<exists>oc p'. process_incoming
          (proto (new_peer (juliet_protocol_builder 1 channel_configuration_new)))
          (concat (wire_frames (max_frame_size (proto x)) msg)) = Some (oc, p', []) \<and> (\<nexists>e. oc = Fatal e)))"
proof -
  let ?b = "juliet_protocol_builder 1 channel_configuration_new"
  let ?y = "new_peer ?b"
  have like: "protocol_like (pb_max_frame_size ?b) (pb_channel_config ?b) (proto ?y)"
    and mfs: "mfs_valid (pb_max_frame_size ?b)"
    using new_peer_session_inv [of ?b]
    by (simp_all add: session_inv_def peer_inv_def juliet_protocol_builder_def mfs_valid_def mfs_DEFAULT_def)
  have ex: "channel_exists (ChannelId 0) (proto ?y)"
    "card (outgoing_requests (chan_of (ChannelId 0) (proto ?y)))
      < unat (request_limit (config (chan_of (ChannelId 0) (proto ?y))))"
    by (simp_all add: channel_exists_def chan_of_def new_peer_def builder_build_def juliet_protocol_builder_def
        channel_new_def channel_configuration_new_def)
  obtain msg p' where "create_request (ChannelId 0) None (proto ?y) = Some (Inr msg, p')"
    by (rule create_request_cases [OF like, of "ChannelId 0" None]) (use ex in auto)
  then have "acts ?y (?y\<lparr>proto := p', outbox := outbox ?y @ [msg]\<rparr>)"
    by (rule acts.request)
  then have "session ?b (?y\<lparr>proto := p', outbox := outbox ?y @ [msg]\<rparr>, ?y)"
    using session.step [OF session.start] left_acts by blast
  moreover have "outbox ?y = []"
    by (simp add: new_peer_def)
  ultimately show ?thesis
    using honest_session_no_violation [OF mfs, of "?y\<lparr>proto := p', outbox := outbox ?y @ [msg]\<rparr>" ?y] by fastforce
qed

end
