(* ===== verification/Bimap.thy ===== *)
theory Bimap
  imports Main
begin

text \<open>
  The contract of \<^verbatim>\<open>bimap::BiMap\<close>, as far as \<^verbatim>\<open>src/src/io.rs\<close> uses it. The crate is not part of the
  repository, so the IO layer is modelled over an arbitrary implementation: its operations are the
  record \<open>bimap_ops\<close>, its documented behaviour the locale \<open>bimap\<close>, in terms of the pairs a map holds.
  A list of pairs satisfies the contract.
\<close>

record ('l, 'r, 'm) bimap_ops =
  bm_empty :: 'm
  bm_insert :: "'l \<Rightarrow> 'r \<Rightarrow> 'm \<Rightarrow> 'm"
  bm_get_by_left :: "'m \<Rightarrow> 'l \<Rightarrow> 'r option"
  bm_remove_by_right :: "'m \<Rightarrow> 'r \<Rightarrow> ('l \<times> 'r) option \<times> 'm"

locale bimap =
  fixes bm :: "('l, 'r, 'm) bimap_ops"
    and pairs :: "'m \<Rightarrow> ('l \<times> 'r) set"
  assumes pairs_empty: "pairs (bm_empty bm) = {}"
    and pairs_insert: "pairs (bm_insert bm l r m) = insert (l, r) {p \<in> pairs m. fst p \<noteq> l \<and> snd p \<noteq> r}"
    and get_by_left: "bm_get_by_left bm m l = Some r \<longleftrightarrow> (l, r) \<in> pairs m"
    and remove_present: "(l, r) \<in> pairs m \<Longrightarrow>
          \<exists>m'. bm_remove_by_right bm m r = (Some (l, r), m') \<and> pairs m' = pairs m - {(l, r)}"
    and remove_absent: "(\<forall>l. (l, r) \<notin> pairs m) \<Longrightarrow> bm_remove_by_right bm m r = (None, m)"
    and bijective: "(l, r) \<in> pairs m \<Longrightarrow> (l', r) \<in> pairs m \<Longrightarrow> l = l'"
begin

text \<open>What the IO layer needs of the set of right values.\<close>

lemma rights_insert:
  "\<forall>r'. (l, r') \<notin> pairs m \<Longrightarrow> snd ` pairs (bm_insert bm l r m) = insert r (snd ` pairs m)"
  unfolding pairs_insert by force

lemma rights_remove:
  assumes "bm_remove_by_right bm m r = (res, m')"
  shows "snd ` pairs m' = snd ` pairs m - {r}" and "res = None \<longleftrightarrow> r \<notin> snd ` pairs m"
    and "fst ` pairs m' \<subseteq> fst ` pairs m" and "pairs m' \<subseteq> pairs m"
proof -
  have "snd ` pairs m' = snd ` pairs m - {r} \<and> (res = None \<longleftrightarrow> r \<notin> snd ` pairs m) \<and> pairs m' \<subseteq> pairs m"
  proof (cases "\<exists>l. (l, r) \<in> pairs m")
    case True
    then obtain l where l: "(l, r) \<in> pairs m"
      by blast
    then have m': "pairs m' = pairs m - {(l, r)}" "res = Some (l, r)"
      using remove_present [OF l] assms by auto
    have "snd ` (pairs m - {(l, r)}) = snd ` pairs m - {r}"
      using bijective [OF l] by force
    then show ?thesis
      using m' l by force
  next
    case False
    then show ?thesis
      using remove_absent [of r m] assms by force
  qed
  then show "snd ` pairs m' = snd ` pairs m - {r}" "res = None \<longleftrightarrow> r \<notin> snd ` pairs m"
    "fst ` pairs m' \<subseteq> fst ` pairs m" "pairs m' \<subseteq> pairs m"
    by auto
qed

end

section \<open>Lists of pairs\<close>

text \<open>
  Lists with distinct left and distinct right values; the type carries this property, since the contract
  speaks about every map.
\<close>

typedef ('l, 'r) alist_bimap = "{xs :: ('l \<times> 'r) list. distinct (map fst xs) \<and> distinct (map snd xs)}"
  by (rule exI [of _ "[]"]) simp

setup_lifting type_definition_alist_bimap

lift_definition alist_pairs :: "('l, 'r) alist_bimap \<Rightarrow> ('l \<times> 'r) list" is "\<lambda>xs. xs" .

lift_definition alist_empty :: "('l, 'r) alist_bimap" is "[]"
  by simp

lift_definition alist_insert :: "'l \<Rightarrow> 'r \<Rightarrow> ('l, 'r) alist_bimap \<Rightarrow> ('l, 'r) alist_bimap" is
  "\<lambda>l r xs. (l, r) # filter (\<lambda>p. fst p \<noteq> l \<and> snd p \<noteq> r) xs"
  by (auto simp: distinct_map_filter)

lift_definition alist_delete_right :: "'r \<Rightarrow> ('l, 'r) alist_bimap \<Rightarrow> ('l, 'r) alist_bimap" is
  "\<lambda>r xs. filter (\<lambda>p. snd p \<noteq> r) xs"
  by (auto simp: distinct_map_filter)

definition alist_bimap_ops :: "('l, 'r, ('l, 'r) alist_bimap) bimap_ops" where
  "alist_bimap_ops =
     \<lparr>bm_empty = alist_empty,
      bm_insert = alist_insert,
      bm_get_by_left = (\<lambda>m l. map_of (alist_pairs m) l),
      bm_remove_by_right = (\<lambda>m r.
        case find (\<lambda>p. snd p = r) (alist_pairs m) of
          Some p \<Rightarrow> (Some p, alist_delete_right r m)
        | None \<Rightarrow> (None, m))\<rparr>"

lemma alist_pairs_distinct: "distinct (map fst (alist_pairs m))" "distinct (map snd (alist_pairs m))"
  by (transfer, simp)+

lemma distinct_snd_unique:
  "distinct (map snd xs) \<Longrightarrow> (l, r) \<in> set xs \<Longrightarrow> (l', r) \<in> set xs \<Longrightarrow> l = l'"
  by (induction xs) (auto simp: image_iff)

lemma find_SomeD: "find P xs = Some x \<Longrightarrow> x \<in> set xs \<and> P x"
  by (induction xs) (auto split: if_splits)

interpretation alist: bimap alist_bimap_ops "\<lambda>m. set (alist_pairs m)"
proof
  fix l l' r and m :: "('a, 'b) alist_bimap"
  show "set (alist_pairs (bm_empty alist_bimap_ops)) = {}"
    by (simp add: alist_bimap_ops_def) (transfer, simp)
  show "set (alist_pairs (bm_insert alist_bimap_ops l r m))
      = insert (l, r) {p \<in> set (alist_pairs m). fst p \<noteq> l \<and> snd p \<noteq> r}"
    by (simp add: alist_bimap_ops_def) (transfer, auto)
  show "bm_get_by_left alist_bimap_ops m l = Some r \<longleftrightarrow> (l, r) \<in> set (alist_pairs m)"
    using alist_pairs_distinct(1) [of m] by (simp add: alist_bimap_ops_def)
  show "l = l'" if "(l, r) \<in> set (alist_pairs m)" "(l', r) \<in> set (alist_pairs m)"
    using distinct_snd_unique [OF alist_pairs_distinct(2)] that by fast
  have del: "set (alist_pairs (alist_delete_right r m)) = {p \<in> set (alist_pairs m). snd p \<noteq> r}"
    by transfer auto
  show "\<exists>m'. bm_remove_by_right alist_bimap_ops m r = (Some (l, r), m')
      \<and> set (alist_pairs m') = set (alist_pairs m) - {(l, r)}" if l: "(l, r) \<in> set (alist_pairs m)"
  proof -
    have unique: "p = (l, r)" if "p \<in> set (alist_pairs m)" "snd p = r" for p
    proof -
      have "(fst p, r) \<in> set (alist_pairs m)"
        using that by (metis prod.collapse)
      then have "l = fst p"
        by (rule distinct_snd_unique [OF alist_pairs_distinct(2) l])
      then show ?thesis
        using that(2) by (simp add: prod_eq_iff)
    qed
    have "find (\<lambda>p. snd p = r) (alist_pairs m) \<noteq> None"
      unfolding find_None_iff using l by auto
    then obtain p where p: "find (\<lambda>p. snd p = r) (alist_pairs m) = Some p"
      by blast
    then have "p = (l, r)"
      using find_SomeD [OF p] unique [of p] by blast
    with p have found: "find (\<lambda>p. snd p = r) (alist_pairs m) = Some (l, r)"
      by blast
    have "{p \<in> set (alist_pairs m). snd p \<noteq> r} = {p \<in> set (alist_pairs m). p \<noteq> (l, r)}"
      using unique by (intro Collect_cong) (metis snd_conv)
    then have "set (alist_pairs (alist_delete_right r m)) = set (alist_pairs m) - {(l, r)}"
      unfolding del by auto
    with found show ?thesis
      by (simp add: alist_bimap_ops_def)
  qed
  show "bm_remove_by_right alist_bimap_ops m r = (None, m)" if "\<forall>l. (l, r) \<notin> set (alist_pairs m)"
  proof -
    have "find (\<lambda>p. snd p = r) (alist_pairs m) = None"
      using that by (auto simp: find_None_iff)
    then show ?thesis
      by (simp add: alist_bimap_ops_def)
  qed
qed

end
