(* ===== verification/Io_Core.thy ===== *)
theory Io_Core
  imports Protocol_Sending Bimap
begin

text \<open>
  \<^verbatim>\<open>src/src/io.rs\<close>: the IO layer. \<^verbatim>\<open>IoCore\<close> schedules queued items onto the protocol, sends their frames in
  turn and turns reads into events. The transports, the \<^verbatim>\<open>tokio\<close> channel and semaphores, and the \<^verbatim>\<open>BiMap\<close>
  are not part of the repository: what they return is an input of the definitions (\<open>io_input\<close>, the
  results of \<^verbatim>\<open>send\<close> and \<^verbatim>\<open>try_acquire_owned\<close>, the operations \<open>bm\<close>). A semaphore permit is an opaque value of
  type \<open>'p\<close>; the permits the core drops are collected in \<open>io_released\<close>, and \<open>io_receiver_closed\<close> records
  the call of \<^verbatim>\<open>receiver.close()\<close>.
\<close>

section \<open>Data\<close>

typedecl io_error

datatype io_id = IoId (io_id_get: u64)

definition MAX_ALLOC :: nat where
  "MAX_ALLOC = 32 * 1024"

definition usize_MAX :: nat where
  "usize_MAX = 2 ^ 64 - 1"

datatype 'p queued_item =
    ItemRequest channel_id io_id "bytes option" 'p
  | ItemRequestCancellation io_id
  | ItemResponse channel_id msg_id "bytes option"
  | ItemResponseCancellation channel_id msg_id
  | ItemError channel_id msg_id bytes

fun into_payload :: "'p queued_item \<Rightarrow> bytes option" where
  "into_payload (ItemRequest _ _ payload _) = payload"
| "into_payload (ItemResponse _ _ payload) = payload"
| "into_payload (ItemRequestCancellation _) = None"
| "into_payload (ItemResponseCancellation _ _) = None"
| "into_payload (ItemError _ _ payload) = Some payload"

text \<open>The permits that dropping an item drops.\<close>

fun item_permits :: "'p queued_item \<Rightarrow> 'p list" where
  "item_permits (ItemRequest _ _ _ permit) = [permit]"
| "item_permits _ = []"

datatype core_error =
    ReadFailed io_error
  | WriteFailed io_error
  | ErrorWriteTimeout
  | RemoteReportedError header "bytes option"
  | RemoteProtocolViolation header "bytes option"
  | LocalProtocolViolation local_protocol_violation
  | InternalError string

datatype io_event =
    IoNewRequest channel_id msg_id "bytes option"
  | IoRequestCancelled channel_id msg_id
  | IoReceivedResponse io_id "bytes option"
  | IoReceivedCancellationResponse io_id

text \<open>The accessors of \<^verbatim>\<open>CoreError\<close>; the outer option is the panic of their \<^verbatim>\<open>debug_assert!\<close>.\<close>

definition is_other_error :: "header \<Rightarrow> bool option" where
  "is_other_error h =
     (if header_is_error h then do { kind \<leftarrow> header_error_kind h; Some (kind = Other) } else Some False)"

definition as_remote_other_err :: "core_error \<Rightarrow> (header \<times> bytes) option option" where
  "as_remote_other_err e = (case e of
       RemoteReportedError h data \<Rightarrow> do {
         other \<leftarrow> is_other_error h;
         if other then do {
           rust_assert (data \<noteq> None);
           Some (map_option (\<lambda>data. (h, data)) data) }
         else Some None }
     | _ \<Rightarrow> Some None)"

definition as_local_other_err :: "core_error \<Rightarrow> (header \<times> bytes) option option" where
  "as_local_other_err e = (case e of
       RemoteProtocolViolation h data \<Rightarrow> do {
         other \<leftarrow> is_other_error h;
         if other then do {
           rust_assert (data \<noteq> None);
           Some (map_option (\<lambda>data. (h, data)) data) }
         else Some None }
     | _ \<Rightarrow> Some None)"

type_synonym 'm request_bimap = "(io_id, channel_id \<times> msg_id, 'm) bimap_ops"

record ('m, 'p) io_core =
  io_juliet :: juliet_protocol
  io_buffer :: bytes
  io_next_parse_at :: nat
  io_pending_error :: "outgoing_frame option"
  io_error_timeout :: nat
  io_current_frame :: "(outgoing_frame \<times> bool) option"
  io_active_multi_frame :: "header option list"
  io_ready_queue :: "frame_iter list"
  io_wait_queue :: "'p queued_item list list"
  io_request_map :: 'm
  io_receiver_closed :: bool
  io_released :: "'p list"

section \<open>Construction\<close>

record io_core_builder =
  icb_protocol :: protocol_builder
  icb_buffer_size :: "nat list"
  icb_error_timeout :: nat

definition io_core_builder_with_default_buffer_size ::
  "protocol_builder \<Rightarrow> nat \<Rightarrow> io_core_builder" where
  "io_core_builder_with_default_buffer_size protocol default_buffer_size =
     \<lparr>icb_protocol = protocol,
      icb_buffer_size = replicate (length (pb_channel_config protocol)) default_buffer_size,
      icb_error_timeout = 10\<rparr>"

definition io_core_builder_new :: "protocol_builder \<Rightarrow> io_core_builder" where
  "io_core_builder_new protocol = io_core_builder_with_default_buffer_size protocol 1"

definition io_core_builder_buffer_size ::
  "channel_id \<Rightarrow> nat \<Rightarrow> io_core_builder \<Rightarrow> io_core_builder option" where
  "io_core_builder_buffer_size ch n self =
     do { rust_assert (0 < n);
          rust_assert (unat (channel_get ch) < length (icb_buffer_size self));
          Some (self\<lparr>icb_buffer_size := (icb_buffer_size self)[unat (channel_get ch) := n]\<rparr>) }"

definition io_core_builder_error_timeout :: "nat \<Rightarrow> io_core_builder \<Rightarrow> io_core_builder" where
  "io_core_builder_error_timeout t self = self\<lparr>icb_error_timeout := t\<rparr>"

text \<open>
  The core part of \<^verbatim>\<open>IoCoreBuilder::build\<close>; the request handle it also returns holds the \<^verbatim>\<open>tokio\<close> sender, one
  semaphore per channel with \<open>icb_buffer_size\<close> permits, and the counter of \<^verbatim>\<open>IoId\<close>s, started at zero.
\<close>

definition io_core_build :: "'m request_bimap \<Rightarrow> io_core_builder \<Rightarrow> ('m, 'p) io_core" where
  "io_core_build bm self =
     (let juliet = builder_build (icb_protocol self); n = length (channels juliet)
      in \<lparr>io_juliet = juliet, io_buffer = [], io_next_parse_at = 0, io_pending_error = None,
          io_error_timeout = icb_error_timeout self, io_current_frame = None,
          io_active_multi_frame = replicate n None, io_ready_queue = [],
          io_wait_queue = replicate n [], io_request_map = bm_empty bm,
          io_receiver_closed = False, io_released = []\<rparr>)"

section \<open>Scheduling\<close>

text \<open>
  The outer option is the panic; it is also the result of indexing \<^verbatim>\<open>active_multi_frame\<close> or \<^verbatim>\<open>wait_queue\<close> with
  a channel that does not exist.
\<close>

definition item_should_wait ::
  "'p queued_item \<Rightarrow> juliet_protocol \<Rightarrow> header option list
   \<Rightarrow> (local_protocol_violation + channel_id option) option" where
  "item_should_wait item juliet active_multi_frame =
     (let multi_frame_check = (\<lambda>payload ch. do {
            active \<leftarrow> array_get active_multi_frame (unat (channel_get ch));
            if active \<noteq> None then
              (case payload of
                 Some payload \<Rightarrow> do {
                   multi \<leftarrow> payload_is_multi_frame (max_frame_size juliet) (length payload);
                   Some (Inr (if multi then Some ch else None)) }
               | None \<Rightarrow> Some (Inr None))
            else Some (Inr None) })
      in case item of
           ItemRequest ch _ payload _ \<Rightarrow>
             (case protocol_allowed_to_send_request juliet ch of
                Inl e \<Rightarrow> Some (Inl e)
              | Inr allowed \<Rightarrow>
                  if \<not> allowed then Some (Inr (Some ch)) else multi_frame_check payload ch)
         | ItemResponse ch _ payload \<Rightarrow> multi_frame_check payload ch
         | ItemRequestCancellation _ \<Rightarrow> Some (Inr None)
         | ItemResponseCancellation _ _ \<Rightarrow> Some (Inr None)
         | ItemError _ _ _ \<Rightarrow> Some (Inr None))"

definition push_ready :: "outgoing_message \<Rightarrow> ('m, 'p) io_core \<Rightarrow> ('m, 'p) io_core" where
  "push_ready msg self = self\<lparr>io_ready_queue := io_ready_queue self @ [om_frames msg]\<rparr>"

text \<open>\<^verbatim>\<open>active_multi_frame[channel] = Some(header)\<close> if the message spans several frames.\<close>

definition note_multi_frame ::
  "channel_id \<Rightarrow> outgoing_message \<Rightarrow> ('m, 'p) io_core \<Rightarrow> ('m, 'p) io_core option" where
  "note_multi_frame ch msg self =
     do { multi \<leftarrow> om_is_multi_frame (max_frame_size (io_juliet self)) msg;
          if multi then do {
            rust_assert (unat (channel_get ch) < length (io_active_multi_frame self));
            Some (self\<lparr>io_active_multi_frame :=
              (io_active_multi_frame self)[unat (channel_get ch) := Some (om_header msg)]\<rparr>) }
          else Some self }"

definition inject_error ::
  "'m request_bimap \<Rightarrow> outgoing_message \<Rightarrow> ('m, 'p) io_core \<Rightarrow> ('m, 'p) io_core option" where
  "inject_error bm err_message self =
     do { let max_frame_size = max_frame_size (io_juliet self);
          let self = self\<lparr>io_receiver_closed := True, io_next_parse_at := usize_MAX, io_buffer := [],
            io_ready_queue := [], io_request_map := bm_empty bm,
            io_released := io_released self @ concat (map (concat \<circ> map item_permits) (io_wait_queue self)),
            io_wait_queue := map (\<lambda>_. []) (io_wait_queue self)\<rparr>;
          err_message \<leftarrow> om_truncate_to_single_frame max_frame_size err_message;
          (frame, remainder) \<leftarrow> frame_iter_next_owned max_frame_size (om_frames err_message);
          rust_assert (remainder = None);
          Some (self\<lparr>io_pending_error := Some frame\<rparr>) }"

text \<open>
  Results: the violation on the left. A permit that goes out of scope, on the way out of a failing call
  too, is added to \<open>io_released\<close>.
\<close>

definition send_to_ready_queue ::
  "'m request_bimap \<Rightarrow> 'p queued_item \<Rightarrow> ('m, 'p) io_core
   \<Rightarrow> ((local_protocol_violation + unit) \<times> ('m, 'p) io_core) option" where
  "send_to_ready_queue bm item self =
     (case item of
        ItemRequest ch ioid payload permit \<Rightarrow>
          do { (created, juliet) \<leftarrow> create_request ch payload (io_juliet self);
               let self = self\<lparr>io_juliet := juliet\<rparr>;
               case created of
                 Inl e \<Rightarrow> Some (Inl e, self\<lparr>io_released := io_released self @ [permit]\<rparr>)
               | Inr msg \<Rightarrow> do {
                   let i = header_id (om_header msg);
                   let self = self\<lparr>io_request_map := bm_insert bm ioid (ch, i) (io_request_map self)\<rparr>;
                   self \<leftarrow> note_multi_frame ch msg self;
                   let self = push_ready msg self;
                   Some (Inr (), self\<lparr>io_released := io_released self @ [permit]\<rparr>) } }
      | ItemRequestCancellation ioid \<Rightarrow>
          (case bm_get_by_left bm (io_request_map self) ioid of
             Some (ch, i) \<Rightarrow>
               (case cancel_request ch i (io_juliet self) of
                  (Inl e, juliet) \<Rightarrow> Some (Inl e, self\<lparr>io_juliet := juliet\<rparr>)
                | (Inr (Some msg), juliet) \<Rightarrow> Some (Inr (), push_ready msg (self\<lparr>io_juliet := juliet\<rparr>))
                | (Inr None, juliet) \<Rightarrow> Some (Inr (), self\<lparr>io_juliet := juliet\<rparr>))
           | None \<Rightarrow> Some (Inr (), self))
      | ItemResponse ch i payload \<Rightarrow>
          (case create_response ch i payload (io_juliet self) of
             (Inl e, juliet) \<Rightarrow> Some (Inl e, self\<lparr>io_juliet := juliet\<rparr>)
           | (Inr (Some msg), juliet) \<Rightarrow> do {
               self \<leftarrow> note_multi_frame ch msg (self\<lparr>io_juliet := juliet\<rparr>);
               Some (Inr (), push_ready msg self) }
           | (Inr None, juliet) \<Rightarrow> Some (Inr (), self\<lparr>io_juliet := juliet\<rparr>))
      | ItemResponseCancellation ch i \<Rightarrow>
          (case cancel_response ch i (io_juliet self) of
             (Inl e, juliet) \<Rightarrow> Some (Inl e, self\<lparr>io_juliet := juliet\<rparr>)
           | (Inr (Some msg), juliet) \<Rightarrow> Some (Inr (), push_ready msg (self\<lparr>io_juliet := juliet\<rparr>))
           | (Inr None, juliet) \<Rightarrow> Some (Inr (), self\<lparr>io_juliet := juliet\<rparr>))
      | ItemError ch i payload \<Rightarrow>
          do { created \<leftarrow> custom_error ch i payload (io_juliet self);
               case created of
                 Inl e \<Rightarrow> Some (Inl e, self)
               | Inr msg \<Rightarrow> do { self \<leftarrow> inject_error bm msg self; Some (Inr (), self) } })"

definition wait_queue_push ::
  "channel_id \<Rightarrow> 'p queued_item \<Rightarrow> ('m, 'p) io_core \<Rightarrow> ('m, 'p) io_core option" where
  "wait_queue_push ch item self =
     do { queue \<leftarrow> array_get (io_wait_queue self) (unat (channel_get ch));
          Some (self\<lparr>io_wait_queue :=
            (io_wait_queue self)[unat (channel_get ch) := queue @ [item]]\<rparr>) }"

definition handle_incoming_item ::
  "'m request_bimap \<Rightarrow> 'p queued_item \<Rightarrow> ('m, 'p) io_core
   \<Rightarrow> ((local_protocol_violation + unit) \<times> ('m, 'p) io_core) option" where
  "handle_incoming_item bm item self =
     do { should_wait \<leftarrow> item_should_wait item (io_juliet self) (io_active_multi_frame self);
          case should_wait of
            Inl e \<Rightarrow> Some (Inl e, self\<lparr>io_released := io_released self @ item_permits item\<rparr>)
          | Inr (Some ch) \<Rightarrow> do { self \<leftarrow> wait_queue_push ch item self; Some (Inr (), self) }
          | Inr None \<Rightarrow> send_to_ready_queue bm item self }"

definition ready_next_frame :: "('m, 'p) io_core \<Rightarrow> ('m, 'p) io_core option" where
  "ready_next_frame self =
     do { rust_assert (io_current_frame self = None);
          case io_ready_queue self of
            [] \<Rightarrow> Some self
          | item # rest \<Rightarrow>
              do { (frame, additional_frames) \<leftarrow>
                     frame_iter_next_owned (max_frame_size (io_juliet self)) item;
                   let self = (case additional_frames of
                       Some next_frame_iter \<Rightarrow> self\<lparr>io_ready_queue := rest @ [next_frame_iter]\<rparr>
                     | None \<Rightarrow> self\<lparr>io_ready_queue := rest\<rparr>);
                   Some (self\<lparr>io_current_frame := Some (frame, additional_frames = None)\<rparr>) } }"

text \<open>The \<^verbatim>\<open>while let\<close> loop of \<^verbatim>\<open>process_wait_queue\<close>, with its counter \<open>remaining\<close>.\<close>

function wait_queue_loop ::
  "'m request_bimap \<Rightarrow> channel_id \<Rightarrow> nat \<Rightarrow> ('m, 'p) io_core
   \<Rightarrow> ((local_protocol_violation + unit) \<times> ('m, 'p) io_core) option" where
  "wait_queue_loop bm ch remaining self =
     (case io_wait_queue self ! unat (channel_get ch) of
        [] \<Rightarrow> Some (Inr (), self)
      | item # rest \<Rightarrow> do {
          let self = self\<lparr>io_wait_queue := (io_wait_queue self)[unat (channel_get ch) := rest]\<rparr>;
          should_wait \<leftarrow> item_should_wait item (io_juliet self) (io_active_multi_frame self);
          case should_wait of
            Inl e \<Rightarrow> Some (Inl e, self\<lparr>io_released := io_released self @ item_permits item\<rparr>)
          | Inr (Some _) \<Rightarrow> do {
              self \<leftarrow> wait_queue_push ch item self;
              remaining \<leftarrow> checked_sub remaining 1;
              if remaining = 0 then Some (Inr (), self) else wait_queue_loop bm ch remaining self }
          | Inr None \<Rightarrow> do {
              (sent, self) \<leftarrow> send_to_ready_queue bm item self;
              case sent of
                Inl e \<Rightarrow> Some (Inl e, self)
              | Inr _ \<Rightarrow>
                  (case protocol_allowed_to_send_request (io_juliet self) ch of
                     Inl e \<Rightarrow> Some (Inl e, self)
                   | Inr allowed \<Rightarrow>
                       if \<not> allowed then Some (Inr (), self)
                       else do {
                         remaining \<leftarrow> checked_sub remaining 1;
                         if remaining = 0 then Some (Inr (), self)
                         else wait_queue_loop bm ch remaining self }) } })"
  by pat_completeness auto

termination
  by (relation "measure (\<lambda>(_, _, remaining, _). remaining)") (auto simp: checked_sub_eq_Some_iff)

declare wait_queue_loop.simps [simp del]

definition process_wait_queue ::
  "'m request_bimap \<Rightarrow> channel_id \<Rightarrow> ('m, 'p) io_core
   \<Rightarrow> ((local_protocol_violation + unit) \<times> ('m, 'p) io_core) option" where
  "process_wait_queue bm ch self =
     do { queue \<leftarrow> array_get (io_wait_queue self) (unat (channel_get ch));
          wait_queue_loop bm ch (length queue) self }"

section \<open>Events\<close>

definition handle_completed_read ::
  "'m request_bimap \<Rightarrow> completed_read \<Rightarrow> ('m, 'p) io_core
   \<Rightarrow> (core_error + io_event) \<times> ('m, 'p) io_core" where
  "handle_completed_read bm read self =
     (case read of
        ErrorReceived h data \<Rightarrow> (Inl (RemoteReportedError h data), self)
      | NewRequest ch i payload \<Rightarrow> (Inr (IoNewRequest ch i payload), self)
      | RequestCancellation ch i \<Rightarrow> (Inr (IoRequestCancelled ch i), self)
      | ReceivedResponse ch i payload \<Rightarrow>
          (case bm_remove_by_right bm (io_request_map self) (ch, i) of
             (None, requests) \<Rightarrow>
               (Inl (InternalError ''juliet protocol should have dropped response after cancellation''),
                self\<lparr>io_request_map := requests\<rparr>)
           | (Some (ioid, _), requests) \<Rightarrow>
               (Inr (IoReceivedResponse ioid payload), self\<lparr>io_request_map := requests\<rparr>))
      | ResponseCancellation ch i \<Rightarrow>
          (case bm_remove_by_right bm (io_request_map self) (ch, i) of
             (None, requests) \<Rightarrow>
               (Inl (InternalError ''juliet protocol should not have allowed fictitious response through''),
                self\<lparr>io_request_map := requests\<rparr>)
           | (Some (ioid, _), requests) \<Rightarrow>
               (Inr (IoReceivedCancellationResponse ioid), self\<lparr>io_request_map := requests\<rparr>)))"

text \<open>
  \<^verbatim>\<open>next_event\<close> is cut at its await points. What the awaited operations do is an \<open>io_input\<close>: the error write
  ends; the frame write or the read makes progress or ends; the channel yields items or its end.
  \<open>FrameProgress n\<close> is a writer that takes \<open>n\<close> bytes of the current frame, or what is left of it if that
  is less. The result \<open>None\<close> of a stage continues, \<open>Some r\<close> returns \<open>r\<close> from \<^verbatim>\<open>next_event\<close>.
\<close>

datatype write_result = WriteOk | WriteErr io_error | WriteTimedOut

datatype 'p io_input =
    ErrorWriteDone write_result
  | FrameProgress nat
  | FrameWriteDone "io_error option"
  | ReadProgress bytes
  | ReadDone "io_error + bool"
  | ItemsReceived "'p queued_item list" bool
  | ReceiverEnded

type_synonym io_result = "core_error + io_event option"

definition pending_error_stage ::
  "outgoing_frame \<Rightarrow> write_result \<Rightarrow> ('m, 'p) io_core \<Rightarrow> (io_result \<times> ('m, 'p) io_core) option" where
  "pending_error_stage pending_error written self =
     do { let h = frame_header pending_error;
          is_other \<leftarrow> is_other_error h;
          let data = (if is_other then Some (frame_segment pending_error) else None);
          Some (case written of
                  WriteTimedOut \<Rightarrow> (Inl ErrorWriteTimeout, self)
                | WriteErr e \<Rightarrow> (Inl (WriteFailed e), self)
                | WriteOk \<Rightarrow> (Inl (RemoteProtocolViolation h data), self\<lparr>io_pending_error := None\<rparr>)) }"

text \<open>The \<^verbatim>\<open>match\<close> on the outcome of \<^verbatim>\<open>process_incoming\<close>, and the \<^verbatim>\<open>if\<close> around it.\<close>

definition success_stage ::
  "'m request_bimap \<Rightarrow> completed_read \<Rightarrow> ('m, 'p) io_core \<Rightarrow> (io_result option \<times> ('m, 'p) io_core) option" where
  "success_stage bm read self =
     do { (processed, self) \<leftarrow>
            (case read of
               ReceivedResponse ch _ _ \<Rightarrow> process_wait_queue bm ch self
             | _ \<Rightarrow> Some (Inr (), self));
          case processed of
            Inl e \<Rightarrow> Some (Some (Inl (LocalProtocolViolation e)), self)
          | Inr _ \<Rightarrow>
              (case handle_completed_read bm read self of
                 (Inl e, self) \<Rightarrow> Some (Some (Inl e), self)
               | (Inr event, self) \<Rightarrow> Some (Some (Inr (Some event)), self)) }"

definition outcome_stage ::
  "'m request_bimap \<Rightarrow> read_outcome \<Rightarrow> ('m, 'p) io_core \<Rightarrow> (io_result option \<times> ('m, 'p) io_core) option" where
  "outcome_stage bm oc self =
     (case oc of
        Incomplete n \<Rightarrow> Some (None, self\<lparr>io_next_parse_at := length (io_buffer self) + unat n\<rparr>)
      | Fatal err_message \<Rightarrow> do { self \<leftarrow> inject_error bm err_message self; Some (None, self) }
      | Success read \<Rightarrow> success_stage bm read self)"

definition parse_stage ::
  "'m request_bimap \<Rightarrow> ('m, 'p) io_core \<Rightarrow> (io_result option \<times> ('m, 'p) io_core) option" where
  "parse_stage bm self =
     (if io_next_parse_at self \<le> length (io_buffer self) then do {
        let self = self\<lparr>io_next_parse_at := 0\<rparr>;
        (oc, juliet, buffer) \<leftarrow> process_incoming (io_juliet self) (io_buffer self);
        outcome_stage bm oc (self\<lparr>io_juliet := juliet, io_buffer := buffer\<rparr>) }
      else Some (None, self))"

text \<open>The branch of the select taken when the current frame has been written.\<close>

definition frame_written_stage ::
  "'m request_bimap \<Rightarrow> ('m, 'p) io_core \<Rightarrow> (io_result option \<times> ('m, 'p) io_core) option" where
  "frame_written_stage bm self =
     (case io_current_frame self of
        None \<Rightarrow> Some (None, self)
      | Some (frame_sent, was_final) \<Rightarrow> do {
          let self = self\<lparr>io_current_frame := None\<rparr>;
          let header_sent = frame_header frame_sent;
          let channel_idx = unat (channel_get (header_channel header_sent));
          self \<leftarrow>
            (if was_final then do {
               active \<leftarrow> array_get (io_active_multi_frame self) channel_idx;
               Some (if active = Some header_sent
                     then self\<lparr>io_active_multi_frame := (io_active_multi_frame self)[channel_idx := None]\<rparr>
                     else self) }
             else Some self);
          if header_is_error header_sent
          then Some (Some (Inl (RemoteProtocolViolation header_sent None)), self)
          else do {
            (processed, self) \<leftarrow> process_wait_queue bm (header_channel header_sent) self;
            case processed of
              Inl e \<Rightarrow> Some (Some (Inl (LocalProtocolViolation e)), self)
            | Inr _ \<Rightarrow> Some (None, self) } })"

text \<open>
  The branch taken when the channel yields items: the first from \<^verbatim>\<open>recv\<close>, the others from \<^verbatim>\<open>try_recv\<close>, which
  finally reports that the channel is disconnected, or empty.
\<close>

fun items_stage ::
  "'m request_bimap \<Rightarrow> 'p queued_item list \<Rightarrow> bool \<Rightarrow> ('m, 'p) io_core
   \<Rightarrow> (io_result option \<times> ('m, 'p) io_core) option" where
  "items_stage bm [] disconnected self =
     Some (if disconnected then Some (Inr None) else None, self)"
| "items_stage bm (item # items) disconnected self =
     do { (handled, self) \<leftarrow> handle_incoming_item bm item self;
          case handled of
            Inl e \<Rightarrow> Some (Some (Inl (LocalProtocolViolation e)), self)
          | Inr _ \<Rightarrow> items_stage bm items disconnected self }"

text \<open>
  Before each wait: if no frame is being written and one is ready, it becomes the current one.
\<close>

definition select_frame :: "('m, 'p) io_core \<Rightarrow> ('m, 'p) io_core option" where
  "select_frame self =
     (if io_current_frame self = None \<and> io_ready_queue self \<noteq> [] then ready_next_frame self
      else Some self)"

text \<open>
  The select: \<open>Inl\<close> when only progress was made and the select goes on waiting, \<open>Inr\<close> when a branch ended.
\<close>

definition select_stage ::
  "'m request_bimap \<Rightarrow> 'p io_input \<Rightarrow> ('m, 'p) io_core
   \<Rightarrow> (('m, 'p) io_core + (io_result option \<times> ('m, 'p) io_core)) option" where
  "select_stage bm input self =
     (case input of
        FrameProgress n \<Rightarrow>
          (case io_current_frame self of
             None \<Rightarrow> Some (Inl self)
           | Some (frame, was_final) \<Rightarrow> do {
               frame \<leftarrow> frame_advance (min n (frame_remaining frame)) frame;
               Some (Inl (self\<lparr>io_current_frame := Some (frame, was_final)\<rparr>)) })
      | FrameWriteDone (Some e) \<Rightarrow> Some (Inr (Some (Inl (WriteFailed e)), self))
      | FrameWriteDone None \<Rightarrow> map_option Inr (frame_written_stage bm self)
      | ReadProgress bytes \<Rightarrow> Some (Inl (self\<lparr>io_buffer := io_buffer self @ bytes\<rparr>))
      | ReadDone (Inl e) \<Rightarrow> Some (Inr (Some (Inl (ReadFailed e)), self))
      | ReadDone (Inr read_complete) \<Rightarrow>
          Some (Inr (if read_complete then None else Some (Inr None), self))
      | ItemsReceived items disconnected \<Rightarrow> map_option Inr (items_stage bm items disconnected self)
      | ReceiverEnded \<Rightarrow> Some (Inr (Some (Inr None), self))
      | ErrorWriteDone _ \<Rightarrow> Some (Inl self))"

text \<open>
  \<open>io_select bm inputs self\<close> waits in the select, \<open>next_event bm inputs self\<close> starts at the top of the loop. The
  inner option is \<open>None\<close> when the inputs end before an event is produced.
\<close>

fun next_event ::
  "'m request_bimap \<Rightarrow> 'p io_input list \<Rightarrow> ('m, 'p) io_core
   \<Rightarrow> (io_result option \<times> ('m, 'p) io_core) option"
  and io_select ::
  "'m request_bimap \<Rightarrow> 'p io_input list \<Rightarrow> ('m, 'p) io_core
   \<Rightarrow> (io_result option \<times> ('m, 'p) io_core) option" where
  "next_event bm inputs self =
     (case io_pending_error self of
        Some pending_error \<Rightarrow>
          (case inputs of
             ErrorWriteDone written # _ \<Rightarrow> do {
               (result, self) \<leftarrow> pending_error_stage pending_error written self;
               Some (Some result, self) }
           | _ \<Rightarrow> Some (None, self))
      | None \<Rightarrow> do {
          (parsed, self) \<leftarrow> parse_stage bm self;
          case parsed of
            Some result \<Rightarrow> Some (Some result, self)
          | None \<Rightarrow> do { self \<leftarrow> select_frame self; io_select bm inputs self } })"
| "io_select bm [] self = Some (None, self)"
| "io_select bm (input # inputs) self =
     do { selected \<leftarrow> select_stage bm input self;
          case selected of
            Inl self \<Rightarrow> io_select bm inputs self
          | Inr (Some result, self) \<Rightarrow> Some (Some result, self)
          | Inr (None, self) \<Rightarrow> next_event bm inputs self }"

end
