(* ===== verification/Io_Inv.thy ===== *)
theory Io_Inv
  imports Io_Core Io_Reads "HOL-Library.Multiset"
begin

text \<open>
  The invariant of \<^verbatim>\<open>IoCore\<close>. Its first part, \<open>io_shape\<close>, is what keeps the code from panicking; the second,
  \<open>coherent\<close>, relates the request map to the requests the protocol holds outstanding, and rests on the
  \<^verbatim>\<open>IoId\<close>s being fresh. The lemmas show what every scheduling operation does to both, and that no semaphore
  permit is lost or released twice.
\<close>

section \<open>Definitions\<close>

definition waiting :: "('m, 'p) io_core \<Rightarrow> 'p queued_item multiset" where
  "waiting self = mset (concat (io_wait_queue self))"

definition pool :: "'p queued_item multiset \<Rightarrow> 'p multiset" where
  "pool items = (\<Sum>item \<in># items. mset (item_permits item))"

text \<open>All permits the core is responsible for: those already dropped and those of waiting items.\<close>

definition permits :: "('m, 'p) io_core \<Rightarrow> 'p multiset" where
  "permits self = mset (io_released self) + pool (waiting self)"

definition fits :: "bytes option \<Rightarrow> bool" where
  "fits payload = (case payload of None \<Rightarrow> True | Some pl \<Rightarrow> length pl \<le> u32_max)"

definition in_range :: "channel_id \<Rightarrow> channel_configuration list \<Rightarrow> bool" where
  "in_range ch cfgs \<longleftrightarrow> unat (channel_get ch) < length cfgs"

definition iter_ok :: "channel_configuration list \<Rightarrow> frame_iter \<Rightarrow> bool" where
  "iter_ok cfgs it \<longleftrightarrow> payload_fits (fi_msg it) \<and> \<not> header_is_error (om_header (fi_msg it))
     \<and> in_range (header_channel (om_header (fi_msg it))) cfgs
     \<and> (fi_bytes_processed it = 0 \<or>
        (\<exists>pl. om_payload (fi_msg it) = Some pl \<and> fi_bytes_processed it < length pl))"

definition frame_ok :: "channel_configuration list \<Rightarrow> outgoing_frame \<Rightarrow> bool" where
  "frame_ok cfgs f \<longleftrightarrow>
     frame_inv f \<and> \<not> header_is_error (frame_header f) \<and> in_range (header_channel (frame_header f)) cfgs"

text \<open>Items the application may queue, and items that may be in the wait queue of a channel.\<close>

definition item_ok :: "channel_configuration list \<Rightarrow> 'p queued_item \<Rightarrow> bool" where
  "item_ok cfgs item = (case item of
       ItemRequest ch _ payload _ \<Rightarrow> fits payload
     | ItemResponse ch _ payload \<Rightarrow> in_range ch cfgs \<and> fits payload
     | ItemError _ _ payload \<Rightarrow> length payload \<le> u32_max
     | _ \<Rightarrow> True)"

definition waits_on :: "nat \<Rightarrow> 'p queued_item \<Rightarrow> bool" where
  "waits_on n item = (case item of
       ItemRequest ch _ payload _ \<Rightarrow> unat (channel_get ch) = n \<and> fits payload
     | ItemResponse ch _ payload \<Rightarrow> unat (channel_get ch) = n \<and> fits payload
     | _ \<Rightarrow> False)"

definition io_shape :: "max_frame_size \<Rightarrow> channel_configuration list \<Rightarrow> ('m, 'p) io_core \<Rightarrow> bool" where
  "io_shape m cfgs self \<longleftrightarrow> protocol_like m cfgs (io_juliet self)
     \<and> length (io_active_multi_frame self) = length cfgs \<and> length (io_wait_queue self) = length cfgs
     \<and> list_all (iter_ok cfgs) (io_ready_queue self)
     \<and> (\<forall>f final. io_current_frame self = Some (f, final) \<longrightarrow> frame_ok cfgs f)
     \<and> (\<forall>f. io_pending_error self = Some f \<longrightarrow> frame_inv f \<and> error_header (frame_header f))
     \<and> (\<forall>n < length cfgs. list_all (waits_on n) (io_wait_queue self ! n))"

definition item_io_id :: "'p queued_item \<Rightarrow> io_id option" where
  "item_io_id item = (case item of ItemRequest _ ioid _ _ \<Rightarrow> Some ioid | _ \<Rightarrow> None)"

definition request_count :: "'p queued_item multiset \<Rightarrow> nat" where
  "request_count items = size {#item \<in># items. item_io_id item \<noteq> None#}"

definition id_count :: "io_id \<Rightarrow> 'p queued_item multiset \<Rightarrow> nat" where
  "id_count x items = size {#item \<in># items. item_io_id item = Some x#}"

text \<open>
  \<open>coherent pairs answered todo self\<close>: the request map holds exactly the outstanding requests, and those
  in \<open>answered\<close>, whose response is being handled. The \<^verbatim>\<open>IoId\<close>s of the map, of the waiting items and of the
  items \<open>todo\<close> still to come are all different, and no channel will have used up its 65536 identifiers
  when all of them have been sent.
\<close>

definition coherent ::
  "('m \<Rightarrow> (io_id \<times> channel_id \<times> msg_id) set) \<Rightarrow> (channel_id \<times> msg_id) set \<Rightarrow> 'p queued_item multiset
   \<Rightarrow> ('m, 'p) io_core \<Rightarrow> bool" where
  "coherent pairs answered todo self \<longleftrightarrow>
     snd ` pairs (io_request_map self) = outstanding (io_juliet self) \<union> answered
     \<and> outstanding (io_juliet self) \<inter> answered = {}
     \<and> (\<forall>(ch, i) \<in> answered. channel_exists ch (io_juliet self)
          \<and> id_get i \<le> prev_request_id (chan_of ch (io_juliet self)))
     \<and> (\<forall>ch. channel_exists ch (io_juliet self) \<longrightarrow> ids_in_order (chan_of ch (io_juliet self))
          \<and> unat (prev_request_id (chan_of ch (io_juliet self))) + request_count (waiting self + todo) < 65536)
     \<and> (\<forall>x. id_count x (waiting self + todo) + of_bool (x \<in> fst ` pairs (io_request_map self)) \<le> 1)"

text \<open>
  An \<^verbatim>\<open>IoId\<close> is known if it belongs to a request that was sent and not answered, is waiting, or is still to
  come. \<open>evolves\<close> says that entries of the request map stay and that no \<^verbatim>\<open>IoId\<close> appears out of nowhere.
\<close>

definition known_id ::
  "('m \<Rightarrow> (io_id \<times> channel_id \<times> msg_id) set) \<Rightarrow> 'p queued_item multiset \<Rightarrow> ('m, 'p) io_core \<Rightarrow> io_id \<Rightarrow> bool" where
  "known_id pairs todo self x \<longleftrightarrow>
     0 < id_count x (waiting self + todo) \<or> x \<in> fst ` pairs (io_request_map self)"

definition evolves ::
  "('m \<Rightarrow> (io_id \<times> channel_id \<times> msg_id) set) \<Rightarrow> 'p queued_item multiset \<Rightarrow> ('m, 'p) io_core
   \<Rightarrow> 'p queued_item multiset \<Rightarrow> ('m, 'p) io_core \<Rightarrow> bool" where
  "evolves pairs todo self todo' self' \<longleftrightarrow>
     pairs (io_request_map self) \<subseteq> pairs (io_request_map self')
     \<and> (\<forall>x. known_id pairs todo' self' x \<longrightarrow> known_id pairs todo self x)"

text \<open>
  What an operation that consumes the items \<open>used\<close> guarantees: the shape, the permits, and, unless it
  fails or an error becomes pending, coherence.
\<close>

definition advances ::
  "max_frame_size \<Rightarrow> channel_configuration list \<Rightarrow> ('m \<Rightarrow> (io_id \<times> channel_id \<times> msg_id) set)
   \<Rightarrow> (channel_id \<times> msg_id) set \<Rightarrow> 'p queued_item multiset \<Rightarrow> ('m, 'p) io_core
   \<Rightarrow> (local_protocol_violation + unit) \<Rightarrow> ('m, 'p) io_core \<Rightarrow> bool" where
  "advances m cfgs pairs answered used self res self' \<longleftrightarrow>
     io_shape m cfgs self' \<and> permits self' = permits self + pool used
     \<and> (io_pending_error self' = io_pending_error self
         \<or> io_pending_error self' \<noteq> None \<and> (\<exists>ch i payload. ItemError ch i payload \<in># used))
     \<and> (res = Inr () \<and> io_pending_error self' = None \<longrightarrow>
         (\<forall>todo. coherent pairs answered (used + todo) self \<longrightarrow>
            coherent pairs answered todo self' \<and> evolves pairs (used + todo) self todo self'))"

section \<open>Multisets of items\<close>

lemma pool_simps [simp]:
  "pool {#} = {#}" "pool (add_mset x A) = mset (item_permits x) + pool A" "pool (A + B) = pool A + pool B"
  by (simp_all add: pool_def)

lemma request_count_simps [simp]:
  "request_count {#} = 0" "request_count (A + B) = request_count A + request_count B"
  "request_count (add_mset x A) = (if item_io_id x = None then 0 else 1) + request_count A"
  by (simp_all add: request_count_def)

lemma id_count_simps [simp]:
  "id_count y {#} = 0" "id_count y (A + B) = id_count y A + id_count y B"
  "id_count y (add_mset x A) = (if item_io_id x = Some y then 1 else 0) + id_count y A"
  by (simp_all add: id_count_def)

lemma mset_concat_update:
  "n < length qs \<Longrightarrow> mset (concat (qs[n := q])) + mset (qs ! n) = mset (concat qs) + mset q"
proof (induction qs arbitrary: n)
  case (Cons x qs)
  then show ?case
    by (cases n) (auto simp: ac_simps)
qed simp

lemma pool_mset: "pool (mset items) = mset (concat (map item_permits items))"
  by (induction items) simp_all

lemma mset_concat_permits:
  "mset (concat (map (concat \<circ> map item_permits) qs)) = pool (mset (concat qs))"
  by (induction qs) (simp_all add: pool_mset)

lemma concat_cleared [simp]: "concat (map (\<lambda>_. []) qs) = []"
  by (induction qs) simp_all

lemma evolves_trans:
  "evolves pairs a self b self1 \<Longrightarrow> evolves pairs b self1 c self2 \<Longrightarrow> evolves pairs a self c self2"
  by (auto simp: evolves_def)

lemma evolves_quiet:
  assumes "io_request_map self' = io_request_map self" and "waiting self' = waiting self"
  shows "evolves pairs todo self todo self'"
    and "item_io_id item = None \<Longrightarrow> evolves pairs (add_mset item todo) self todo self'"
  using assms by (simp_all add: evolves_def known_id_def)

lemma advances_trans:
  assumes "advances m cfgs pairs answered used self (Inr ()) self1"
    and "advances m cfgs pairs answered used1 self1 res self2"
  shows "advances m cfgs pairs answered (used + used1) self res self2"
  using assms unfolding advances_def by (auto simp: add.assoc intro: evolves_trans)

lemma advances_shape: "advances m cfgs pairs answered used self res self' \<Longrightarrow> io_shape m cfgs self'"
  by (simp add: advances_def)

lemma advances_refl:
  "io_shape m cfgs self \<Longrightarrow> advances m cfgs pairs answered {#} self res self"
  by (simp add: advances_def evolves_quiet)

section \<open>Frames\<close>

lemma next_owned_ok:
  assumes "mfs_valid m" and "iter_ok cfgs it"
  shows "\<exists>f rest. frame_iter_next_owned m it = Some (f, rest) \<and> frame_ok cfgs f
    \<and> frame_header f = om_header (fi_msg it)
    \<and> (\<forall>it'. rest = Some it' \<longrightarrow> iter_ok cfgs it' \<and> fi_msg it' = fi_msg it
         \<and> fi_bytes_processed it < fi_bytes_processed it')"
proof (cases "om_payload (fi_msg it)")
  case None
  then show ?thesis
    using assms(2)
    by (auto simp: frame_iter_next_owned_def iter_ok_def frame_ok_def frame_new_def frame_new_with_payload_def
        frame_inv_def frame_header_def preamble_new_def varint32_is_sentinel_def
        wire_simps [unfolded preamble_new_def])
next
  case (Some pl)
  then have len: "length pl \<le> u32_max" and at: "fi_bytes_processed it = 0 \<or> fi_bytes_processed it < length pl"
    using assms(2) by (auto simp: iter_ok_def payload_fits_def)
  note m = mfs_valid_get [OF assms(1)] length_leb128_bounds(2) [OF len]
  note ok = iter_ok_def frame_ok_def frame_inv_def frame_header_def preamble_new_def
    wire_simps [unfolded preamble_new_def]
  show ?thesis
  proof (cases "fi_bytes_processed it = 0")
    case True
    then have "it = om_frames (fi_msg it)"
      by (simp add: om_frames_def)
    then show ?thesis
      using next_owned_first [OF assms(1) Some len] assms(2) m Some True len
      by (auto simp: ok)
  next
    case False
    then have "frame_iter_next_owned m it = frame_iter_next_owned m
        \<lparr>fi_msg = fi_msg it, fi_bytes_processed = fi_bytes_processed it\<rparr>"
      by (cases it) simp
    then show ?thesis
      using next_owned_later [OF assms(1) Some len, of "fi_bytes_processed it"] at assms(2) m Some False
      by (auto simp: ok)
  qed
qed

lemma payload_multi_ok:
  "mfs_valid m \<Longrightarrow> n \<le> u32_max \<Longrightarrow> \<exists>multi. payload_is_multi_frame m n = Some multi"
  by (simp add: payload_is_multi_frame_def)

lemma om_multi_ok: "mfs_valid m \<Longrightarrow> payload_fits msg \<Longrightarrow> \<exists>multi. om_is_multi_frame m msg = Some multi"
  using om_is_multi_frame_wire by blast

lemma io_shapeD:
  assumes "io_shape m cfgs self"
  shows "protocol_like m cfgs (io_juliet self)" "mfs_valid m" "max_frame_size (io_juliet self) = m"
    "length (channels (io_juliet self)) = length cfgs" "length (io_active_multi_frame self) = length cfgs"
    "length (io_wait_queue self) = length cfgs"
    "channel_exists ch (io_juliet self) = in_range ch cfgs"
  using assms by (auto simp: io_shape_def protocol_like_def protocol_inv_def channel_exists_def in_range_def
      dest: arg_cong [of _ _ length])

lemma io_shape_juliet:
  "io_shape m cfgs self \<Longrightarrow> protocol_like m cfgs p \<Longrightarrow> io_shape m cfgs (self\<lparr>io_juliet := p\<rparr>)"
  by (simp add: io_shape_def)

lemma io_shape_simps [simp]:
  "io_shape m cfgs (self\<lparr>io_request_map := requests\<rparr>) = io_shape m cfgs self"
  "io_shape m cfgs (self\<lparr>io_released := released\<rparr>) = io_shape m cfgs self"
  "io_shape m cfgs (self\<lparr>io_next_parse_at := n\<rparr>) = io_shape m cfgs self"
  "io_shape m cfgs (self\<lparr>io_buffer := bs\<rparr>) = io_shape m cfgs self"
  by (simp_all add: io_shape_def)

lemma waiting_simps [simp]:
  "waiting (self\<lparr>io_juliet := p\<rparr>) = waiting self"
  "waiting (self\<lparr>io_request_map := requests\<rparr>) = waiting self"
  "waiting (self\<lparr>io_released := released\<rparr>) = waiting self"
  "waiting (self\<lparr>io_active_multi_frame := active\<rparr>) = waiting self"
  "waiting (self\<lparr>io_ready_queue := ready\<rparr>) = waiting self"
  "waiting (self\<lparr>io_current_frame := frame\<rparr>) = waiting self"
  "waiting (self\<lparr>io_pending_error := e\<rparr>) = waiting self"
  "waiting (self\<lparr>io_buffer := bs\<rparr>) = waiting self"
  "waiting (self\<lparr>io_next_parse_at := n\<rparr>) = waiting self"
  by (simp_all add: waiting_def)

lemma push_ready_ok:
  assumes "io_shape m cfgs self" and "payload_fits msg" and "\<not> header_is_error (om_header msg)"
    and "in_range (header_channel (om_header msg)) cfgs"
  shows "io_shape m cfgs (push_ready msg self)"
  using assms by (auto simp: push_ready_def io_shape_def iter_ok_def om_frames_def)

lemma note_multi_frame_ok:
  assumes "io_shape m cfgs self" and "payload_fits msg" and "in_range ch cfgs"
  shows "\<exists>active. note_multi_frame ch msg self = Some (self\<lparr>io_active_multi_frame := active\<rparr>)
    \<and> io_shape m cfgs (self\<lparr>io_active_multi_frame := active\<rparr>)"
proof -
  note shape = io_shapeD [OF assms(1)]
  have same: "self = self\<lparr>io_active_multi_frame := io_active_multi_frame self\<rparr>"
    by simp
  obtain multi where multi: "om_is_multi_frame m msg = Some multi"
    using om_multi_ok [OF shape(2) assms(2)] by blast
  let ?n = "unat (channel_get ch)"
  show ?thesis
  proof (cases multi)
    case True
    then show ?thesis
      using multi shape assms
      by (intro exI [of _ "(io_active_multi_frame self)[?n := Some (om_header msg)]"])
         (simp add: note_multi_frame_def in_range_def io_shape_def)
  next
    case False
    then show ?thesis
      using multi shape assms same by (intro exI [of _ "io_active_multi_frame self"]) (simp add: note_multi_frame_def)
  qed
qed

lemma next_owned_single:
  assumes "mfs_valid m" and "payload_fits msg" and "length (wire_frames m msg) = 1"
  shows "\<exists>f. frame_iter_next_owned m (om_frames msg) = Some (f, None) \<and> frame_inv f
    \<and> frame_header f = om_header msg \<and> frame_segment f = (case om_payload msg of Some pl \<Rightarrow> pl | None \<Rightarrow> [])"
proof (cases "om_payload msg")
  case None
  then show ?thesis
    by (auto simp: frame_iter_next_owned_def frame_new_def frame_new_with_payload_def frame_segment_def
        frame_inv_def frame_header_def preamble_new_def varint32_is_sentinel_def om_frames_def
        wire_simps [unfolded preamble_new_def])
next
  case (Some pl)
  then have len: "length pl \<le> u32_max"
    using assms(2) by (simp add: payload_fits_def)
  have "om_is_multi_frame m msg = Some False"
    using om_is_multi_frame_wire [OF assms(1,2)] assms(3) by simp
  then have "length pl \<le> mfs_get_usize m - 4 - length (leb128 (length pl))"
    using Some len assms(1) by (simp add: om_is_multi_frame_def payload_is_multi_frame_def)
  then show ?thesis
    using next_owned_first [OF assms(1) Some len] Some
    by (simp add: frame_segment_def frame_inv_def frame_header_def preamble_new_def
        wire_simps [unfolded preamble_new_def])
qed

lemma inject_error_ok:
  assumes "io_shape m cfgs self" and "payload_fits msg" and "error_header (om_header msg)"
  shows "\<exists>self'. inject_error bm msg self = Some self' \<and> io_shape m cfgs self' \<and> permits self' = permits self
    \<and> (\<exists>f. io_pending_error self' = Some f \<and> frame_header f = om_header msg
         \<and> (\<exists>n. frame_segment f = take n (case om_payload msg of Some pl \<Rightarrow> pl | None \<Rightarrow> [])))
    \<and> io_ready_queue self' = [] \<and> waiting self' = {#} \<and> io_current_frame self' = io_current_frame self
    \<and> io_request_map self' = bm_empty bm \<and> io_receiver_closed self'
    \<and> io_next_parse_at self' = usize_MAX \<and> io_buffer self' = []"
proof -
  note shape = io_shapeD [OF assms(1)]
  obtain msg' k where msg': "om_truncate_to_single_frame m msg = Some msg'" "om_header msg' = om_header msg"
      "length (wire_frames m msg') = 1" "om_payload msg' = map_option (take k) (om_payload msg)"
    using om_truncate_wire [OF shape(2) assms(2)] by blast
  moreover from this have "payload_fits msg'"
    using assms(2) by (auto simp: payload_fits_def split: option.splits)
  ultimately obtain f where f: "frame_iter_next_owned m (om_frames msg') = Some (f, None)" "frame_inv f"
      "frame_header f = om_header msg" "frame_segment f = (case om_payload msg' of Some pl \<Rightarrow> pl | None \<Rightarrow> [])"
    using next_owned_single [OF shape(2)] by metis
  have seg: "\<exists>n. frame_segment f = take n (case om_payload msg of Some pl \<Rightarrow> pl | None \<Rightarrow> [])"
    using f(4) msg'(4) by (cases "om_payload msg") auto
  have [simp]: "mset (concat (map (concat \<circ> map item_permits) (io_wait_queue self))) = pool (waiting self)"
    unfolding waiting_def by (rule mset_concat_permits)
  show ?thesis
    using assms(1,3) msg' f seg shape
    by (simp add: inject_error_def Let_def io_shape_def permits_def) (simp add: waiting_def)
qed

section \<open>Coherence of the request map\<close>

lemma coherent_views:
  assumes "outgoing_view p = outgoing_view (io_juliet self)" and "prev_view p = prev_view (io_juliet self)"
  shows "coherent pairs answered todo (self\<lparr>io_juliet := p\<rparr>) = coherent pairs answered todo self"
proof -
  have "prev_request_id (chan_of ch p) = prev_request_id (chan_of ch (io_juliet self))"
    if "channel_exists ch p" for ch
    using assms(2) that by (metis chan_of_def channel_exists_def length_map nth_map prev_view_def)
  then show ?thesis
    using view_channels [OF assms(1)] outstanding_view [OF assms(1)]
    by (auto simp: coherent_def ids_in_order_def)
qed

lemma coherent_simps [simp]:
  "coherent pairs answered todo (self\<lparr>io_released := released\<rparr>) = coherent pairs answered todo self"
  "coherent pairs answered todo (self\<lparr>io_active_multi_frame := active\<rparr>) = coherent pairs answered todo self"
  "coherent pairs answered todo (self\<lparr>io_ready_queue := ready\<rparr>) = coherent pairs answered todo self"
  "coherent pairs answered todo (self\<lparr>io_current_frame := frame\<rparr>) = coherent pairs answered todo self"
  "coherent pairs answered todo (self\<lparr>io_buffer := bs\<rparr>) = coherent pairs answered todo self"
  "coherent pairs answered todo (self\<lparr>io_next_parse_at := n\<rparr>) = coherent pairs answered todo self"
  by (simp_all add: coherent_def)

lemma evolves_simps [simp]:
  "evolves pairs a self b (self'\<lparr>io_released := released\<rparr>) = evolves pairs a self b self'"
  "evolves pairs a self b (self'\<lparr>io_active_multi_frame := active\<rparr>) = evolves pairs a self b self'"
  "evolves pairs a self b (self'\<lparr>io_ready_queue := ready\<rparr>) = evolves pairs a self b self'"
  "evolves pairs a self b (self'\<lparr>io_current_frame := frame\<rparr>) = evolves pairs a self b self'"
  "evolves pairs a self b (self'\<lparr>io_buffer := bs\<rparr>) = evolves pairs a self b self'"
  "evolves pairs a self b (self'\<lparr>io_next_parse_at := n\<rparr>) = evolves pairs a self b self'"
  "evolves pairs a self b (self'\<lparr>io_juliet := p\<rparr>) = evolves pairs a self b self'"
  "evolves pairs a self b (push_ready msg self') = evolves pairs a self b self'"
  by (simp_all add: evolves_def known_id_def push_ready_def)

lemma coherent_forget:
  "item_io_id item = None \<Longrightarrow> coherent pairs answered (add_mset item todo) self = coherent pairs answered todo self"
  by (simp add: coherent_def)

lemma coherent_push_ready [simp]:
  "coherent pairs answered todo (push_ready msg self) = coherent pairs answered todo self"
  by (simp add: push_ready_def)

lemma permits_simps [simp]:
  "permits (self\<lparr>io_juliet := p\<rparr>) = permits self"
  "permits (self\<lparr>io_request_map := requests\<rparr>) = permits self"
  "permits (self\<lparr>io_active_multi_frame := active\<rparr>) = permits self"
  "permits (self\<lparr>io_ready_queue := ready\<rparr>) = permits self"
  "permits (self\<lparr>io_current_frame := frame\<rparr>) = permits self"
  "permits (self\<lparr>io_pending_error := e\<rparr>) = permits self"
  "permits (self\<lparr>io_buffer := bs\<rparr>) = permits self"
  "permits (self\<lparr>io_next_parse_at := n\<rparr>) = permits self"
  "permits (self\<lparr>io_released := io_released self @ ps\<rparr>) = permits self + mset ps"
  "permits (push_ready msg self) = permits self"
  by (simp_all add: permits_def push_ready_def)

lemma views_put_incoming:
  assumes "channel_exists ch p"
  shows "outgoing_view (put_channel ch ((chan_of ch p)\<lparr>incoming_requests := s\<rparr>) p) = outgoing_view p"
    "prev_view (put_channel ch ((chan_of ch p)\<lparr>incoming_requests := s\<rparr>) p) = prev_view p"
  using outgoing_view_put(1) [OF assms] prev_view_put [OF _ assms] by simp_all

lemma answer_views:
  "outgoing_view (snd (create_response ch i payload p)) = outgoing_view p"
  "prev_view (snd (create_response ch i payload p)) = prev_view p"
  "outgoing_view (snd (cancel_response ch i p)) = outgoing_view p"
  "prev_view (snd (cancel_response ch i p)) = prev_view p"
  by (auto simp: sending_defs views_put_incoming split: option.splits)

lemma answer_message:
  assumes "channel_exists ch p"
  shows "fst (create_response ch i payload p) = Inr (Some msg) \<Longrightarrow>
      header_channel (om_header msg) = ch \<and> \<not> header_is_error (om_header msg) \<and> om_payload msg = payload"
    and "fst (cancel_response ch i p) = Inr (Some msg) \<Longrightarrow>
      header_channel (om_header msg) = ch \<and> \<not> header_is_error (om_header msg) \<and> om_payload msg = None"
    and "fst (cancel_request ch i p) = Inr (Some msg) \<Longrightarrow>
      header_channel (om_header msg) = ch \<and> \<not> header_is_error (om_header msg) \<and> om_payload msg = None"
  using assms
  by (auto simp: sending_defs create_unchecked_response_def create_unchecked_response_cancellation_def
      create_unchecked_request_cancellation_def outgoing_message_new_def split: option.splits if_splits)

lemma payload_fits_iff: "payload_fits msg \<longleftrightarrow> fits (om_payload msg)"
  by (simp add: payload_fits_def fits_def)

text \<open>Sending a message that is not a request and leaves the outstanding requests alone.\<close>

lemma advances_push:
  assumes "io_shape m cfgs self" and "protocol_like m cfgs p" and "item_io_id item = None"
    and "item_permits item = []" and "fits (om_payload msg)" and "\<not> header_is_error (om_header msg)"
    and "in_range (header_channel (om_header msg)) cfgs"
    and "outgoing_view p = outgoing_view (io_juliet self)" and "prev_view p = prev_view (io_juliet self)"
  shows "advances m cfgs pairs answered {#item#} self res (push_ready msg (self\<lparr>io_juliet := p\<rparr>))"
    and "advances m cfgs pairs answered {#item#} self res (self\<lparr>io_juliet := p\<rparr>)"
proof -
  have shape: "io_shape m cfgs (self\<lparr>io_juliet := p\<rparr>)"
    by (rule io_shape_juliet [OF assms(1,2)])
  then have "io_shape m cfgs (push_ready msg (self\<lparr>io_juliet := p\<rparr>))"
    using assms(5-7) by (intro push_ready_ok) (simp_all add: payload_fits_iff)
  then show "advances m cfgs pairs answered {#item#} self res (push_ready msg (self\<lparr>io_juliet := p\<rparr>))"
    and "advances m cfgs pairs answered {#item#} self res (self\<lparr>io_juliet := p\<rparr>)"
    using shape assms(3,4) coherent_views [OF assms(8,9)]
    by (simp_all add: advances_def coherent_forget evolves_quiet push_ready_def)
qed

locale request_map = bimap bm pairs
  for bm :: "'m request_bimap" and pairs :: "'m \<Rightarrow> (io_id \<times> channel_id \<times> msg_id) set"
begin

lemma coherent_created:
  assumes "coherent pairs answered (add_mset (ItemRequest ch ioid payload permit) todo) self"
    and "create_request ch payload (io_juliet self) = Some (Inr msg, p')"
  defines "self' \<equiv> self\<lparr>io_juliet := p',
    io_request_map := bm_insert bm ioid (ch, header_id (om_header msg)) (io_request_map self)\<rparr>"
  shows "coherent pairs answered todo self'
    \<and> evolves pairs (add_mset (ItemRequest ch ioid payload permit) todo) self todo self'"
proof -
  let ?p = "io_juliet self" and ?R = "pairs (io_request_map self)"
  let ?item = "ItemRequest ch ioid payload permit" and ?c = "chan_of ch (io_juliet self)"
  have ch: "channel_exists ch ?p"
    using assms(2) by (auto simp: create_request_def lookup_channel_eq split: if_splits)
  have order: "ids_in_order ?c" and room: "unat (prev_request_id ?c) + 1 < 65536"
    using assms(1) ch by (auto simp: coherent_def item_io_id_def)
  define i where "i = Id (prev_request_id ?c + 1)"
  have created: "header_id (om_header msg) = i" "p' = put_channel ch (?c\<lparr>prev_request_id := id_get i,
      outgoing_requests := insert i (outgoing_requests ?c)\<rparr>) ?p"
    using create_request_next [OF assms(2) order] room by (simp_all add: i_def)
  have succ: "unat (id_get i) = unat (prev_request_id ?c) + 1"
    using room by (simp add: i_def unat_word_ariths)
  then have later: "id_get i \<noteq> j \<and> j \<le> id_get i" if "j \<le> prev_request_id ?c" for j
    using that by (auto simp: word_le_nat_alt)
  have unused: "(ch, i) \<notin> outstanding ?p \<union> answered"
    using assms(1) order later by (fastforce simp: coherent_def outstanding_def ids_in_order_def)
  have "id_count ioid (waiting self + add_mset ?item todo) + of_bool (ioid \<in> fst ` ?R) \<le> 1"
    using assms(1) unfolding coherent_def by blast
  then have fresh: "ioid \<notin> fst ` ?R"
    by (simp add: item_io_id_def)
  have rights: "snd ` ?R = outstanding ?p \<union> answered"
    using assms(1) by (simp add: coherent_def)
  have "{q \<in> ?R. fst q \<noteq> ioid \<and> snd q \<noteq> (ch, i)} = ?R"
    using fresh unused unfolding rights [symmetric] by force
  then have R': "pairs (bm_insert bm ioid (ch, i) (io_request_map self)) = insert (ioid, (ch, i)) ?R"
    by (simp add: pairs_insert)
  have out': "outstanding p' = insert (ch, i) (outstanding ?p)"
    unfolding created(2) by (rule outstanding_put_insert [OF ch]) simp
  have self': "io_juliet self' = p'" "pairs (io_request_map self') = insert (ioid, (ch, i)) ?R"
      "waiting self' = waiting self"
    by (simp_all add: self'_def created(1) R')
  note old = assms(1) [unfolded coherent_def]
  have chan: "prev_request_id (chan_of ch' p') = (if ch' = ch then id_get i else prev_request_id (chan_of ch' ?p))"
      "outgoing_requests (chan_of ch' p') = (if ch' = ch then insert i else (\<lambda>s. s)) (outgoing_requests (chan_of ch' ?p))"
      "channel_exists ch' p' = channel_exists ch' ?p" for ch'
    unfolding created(2) using ch by (simp_all add: chan_of_put)
  have "coherent pairs answered todo self'"
    unfolding coherent_def self'
  proof (intro conjI allI impI ballI)
    show "snd ` insert (ioid, (ch, i)) ?R = outstanding p' \<union> answered" "outstanding p' \<inter> answered = {}"
      using old unused by (auto simp: rights out')
    show "case q of (ch, i) \<Rightarrow> channel_exists ch p' \<and> id_get i \<le> prev_request_id (chan_of ch p')"
      if "q \<in> answered" for q
      using old later that by (auto simp: chan split: prod.splits)
    show "ids_in_order (chan_of ch' p')" if "channel_exists ch' p'" for ch'
      using old later that by (auto simp: chan ids_in_order_def)
    show "unat (prev_request_id (chan_of ch' p')) + request_count (waiting self + todo) < 65536"
      if "channel_exists ch' p'" for ch'
      using old that succ by (auto simp: chan item_io_id_def)
    have ids: "id_count x (waiting self + add_mset ?item todo) + of_bool (x \<in> fst ` ?R) \<le> 1" for x
      using old by blast
    show "id_count x (waiting self + todo) + of_bool (x \<in> fst ` insert (ioid, ch, i) ?R) \<le> 1" for x
      using ids [of x] fresh by (cases "x = ioid") (simp_all add: item_io_id_def split: if_splits)
  qed
  moreover have "evolves pairs (add_mset ?item todo) self todo self'"
    by (auto simp: evolves_def known_id_def self' item_io_id_def)
  ultimately show ?thesis
    by blast
qed

section \<open>Sending items\<close>

lemma send_request_advances:
  assumes "io_shape m cfgs self" and "fits payload"
  shows "\<exists>res self'. send_to_ready_queue bm (ItemRequest ch ioid payload permit) self = Some (res, self')
    \<and> advances m cfgs pairs answered {#ItemRequest ch ioid payload permit#} self res self'"
proof -
  note shape = io_shapeD [OF assms(1)]
  obtain created p' where created: "create_request ch payload (io_juliet self) = Some (created, p')"
    by (cases rule: create_request_cases [OF shape(1), of ch payload]) auto
  have p': "protocol_like m cfgs p'"
    by (rule create_request_like [OF shape(1) created])
  show ?thesis
  proof (cases created)
    case (Inl e)
    then show ?thesis
      using created io_shape_juliet [OF assms(1) p'] by (simp add: send_to_ready_queue_def advances_def permits_def)
  next
    case (Inr msg)
    have msg: "header_channel (om_header msg) = ch" "\<not> header_is_error (om_header msg)" "om_payload msg = payload"
        "in_range ch cfgs"
      using created Inr shape(7) [of ch]
      by (cases rule: create_request_cases [OF shape(1), of ch payload]; auto simp: outgoing_message_new_def)+
    let ?s1 = "self\<lparr>io_juliet := p',
      io_request_map := bm_insert bm ioid (ch, header_id (om_header msg)) (io_request_map self)\<rparr>"
    have s1: "io_shape m cfgs ?s1"
      using io_shape_juliet [OF assms(1) p'] by simp
    obtain active where active: "note_multi_frame ch msg ?s1 = Some (?s1\<lparr>io_active_multi_frame := active\<rparr>)"
        "io_shape m cfgs (?s1\<lparr>io_active_multi_frame := active\<rparr>)"
      using note_multi_frame_ok [OF s1, of msg ch] msg assms(2) by (auto simp: payload_fits_iff)
    let ?s2 = "push_ready msg (?s1\<lparr>io_active_multi_frame := active\<rparr>)"
    have "io_shape m cfgs ?s2"
      using push_ready_ok [OF active(2)] msg assms(2) by (simp add: payload_fits_iff)
    moreover have "coherent pairs answered todo ?s1
        \<and> evolves pairs (add_mset (ItemRequest ch ioid payload permit) todo) self todo ?s1"
      if "coherent pairs answered (add_mset (ItemRequest ch ioid payload permit) todo) self" for todo
      using coherent_created [OF that] created Inr by simp
    ultimately show ?thesis
      using created Inr active(1)
      by (simp add: send_to_ready_queue_def advances_def Let_def permits_def) (simp add: push_ready_def waiting_def)
  qed
qed

lemma send_error_advances:
  assumes "io_shape m cfgs self" and "length payload \<le> u32_max"
  shows "\<exists>res self'. send_to_ready_queue bm (ItemError ch i payload) self = Some (res, self')
    \<and> advances m cfgs pairs answered {#ItemError ch i payload#} self res self'"
proof -
  note shape = io_shapeD [OF assms(1)]
  let ?msg = "outgoing_message_new (header_new_error Other ch i) (Some payload)"
  have fit: "payload_fits ?msg" "error_header (om_header ?msg)"
    using assms(2) by (simp_all add: payload_fits_def outgoing_message_new_def)
  obtain multi where multi: "om_is_multi_frame m ?msg = Some multi"
    using om_multi_ok [OF shape(2) fit(1)] by blast
  obtain self' f where self': "inject_error bm ?msg self = Some self'" "io_shape m cfgs self'"
      "permits self' = permits self" "io_pending_error self' = Some f"
    using inject_error_ok [OF assms(1) fit, of bm] by blast
  show ?thesis
    using multi shape(3) self' assms(1)
    by (cases multi) (simp_all add: send_to_ready_queue_def custom_error_def advances_def Let_def)
qed

lemma send_response_advances:
  fixes self :: "('m, 'p) io_core"
  assumes "io_shape m cfgs self" and "in_range ch cfgs" and "fits payload"
  shows "\<exists>res self'. send_to_ready_queue bm (ItemResponse ch i payload) self = Some (res, self')
    \<and> advances m cfgs pairs answered {#ItemResponse ch i payload#} self res self'"
proof -
  note shape = io_shapeD [OF assms(1)]
  let ?item = "ItemResponse ch i payload :: 'p queued_item"
  obtain res p where step: "create_response ch i payload (io_juliet self) = (res, p)"
    by (cases "create_response ch i payload (io_juliet self)")
  have p: "protocol_like m cfgs p" "outgoing_view p = outgoing_view (io_juliet self)"
      "prev_view p = prev_view (io_juliet self)"
    using create_response_like [OF shape(1), of ch i payload] answer_views(1,2) [of ch i payload "io_juliet self"]
    by (simp_all add: step)
  have quiet: "item_io_id ?item = None" "item_permits ?item = []"
    by (simp_all add: item_io_id_def)
  have idle: "advances m cfgs pairs answered {#?item#} self res' (self\<lparr>io_juliet := p\<rparr>)" for res'
    using advances_push(2) [OF assms(1) p(1) quiet, of "outgoing_message_new (header_new Response ch i) None"]
      p assms(2) by (simp add: fits_def outgoing_message_new_def)
  show ?thesis
  proof (cases res)
    case (Inl e)
    then show ?thesis
      using step idle [of "Inl e"] by (auto simp: send_to_ready_queue_def)
  next
    case (Inr found)
    show ?thesis
    proof (cases found)
      case None
      then show ?thesis
        using step Inr idle [of "Inr ()"] by (auto simp: send_to_ready_queue_def)
    next
      case (Some msg)
      have msg: "header_channel (om_header msg) = ch" "\<not> header_is_error (om_header msg)" "om_payload msg = payload"
        using answer_message(1) [of ch "io_juliet self" i payload msg] step Inr Some assms(2) shape(7) [of ch]
        by simp_all
      have s1: "io_shape m cfgs (self\<lparr>io_juliet := p\<rparr>)"
        by (rule io_shape_juliet [OF assms(1) p(1)])
      obtain active where active: "note_multi_frame ch msg (self\<lparr>io_juliet := p\<rparr>)
            = Some (self\<lparr>io_juliet := p, io_active_multi_frame := active\<rparr>)"
          "io_shape m cfgs (self\<lparr>io_juliet := p, io_active_multi_frame := active\<rparr>)"
        using note_multi_frame_ok [OF s1, of msg ch] msg assms by (auto simp: payload_fits_iff)
      have "io_shape m cfgs (push_ready msg (self\<lparr>io_juliet := p, io_active_multi_frame := active\<rparr>))"
        using push_ready_ok [OF active(2)] msg assms by (simp add: payload_fits_iff)
      then show ?thesis
        using step Inr Some active(1) quiet coherent_views [OF p(2,3)]
        by (simp add: send_to_ready_queue_def advances_def coherent_forget evolves_quiet) (simp add: push_ready_def)
    qed
  qed
qed

lemma advances_quiet:
  fixes self :: "('m, 'p) io_core"
  assumes "io_shape m cfgs self" and "item_io_id item = None" and "item_permits item = []"
  shows "advances m cfgs pairs answered {#item :: 'p queued_item#} self res self"
    and "protocol_like m cfgs p \<Longrightarrow> outgoing_view p = outgoing_view (io_juliet self) \<Longrightarrow>
      prev_view p = prev_view (io_juliet self) \<Longrightarrow> om_payload msg = None \<Longrightarrow> \<not> header_is_error (om_header msg) \<Longrightarrow>
      in_range (header_channel (om_header msg)) cfgs \<Longrightarrow>
      advances m cfgs pairs answered {#item#} self res (push_ready msg (self\<lparr>io_juliet := p\<rparr>))
      \<and> advances m cfgs pairs answered {#item#} self res' (self\<lparr>io_juliet := p\<rparr>)"
proof -
  show "advances m cfgs pairs answered {#item#} self res self"
    using assms by (simp add: advances_def coherent_forget evolves_quiet)
  assume "protocol_like m cfgs p" "outgoing_view p = outgoing_view (io_juliet self)" "prev_view p = prev_view (io_juliet self)"
    "om_payload msg = None" "\<not> header_is_error (om_header msg)" "in_range (header_channel (om_header msg)) cfgs"
  then show "advances m cfgs pairs answered {#item#} self res (push_ready msg (self\<lparr>io_juliet := p\<rparr>))
      \<and> advances m cfgs pairs answered {#item#} self res' (self\<lparr>io_juliet := p\<rparr>)"
    using advances_push [OF assms(1) _ assms(2,3), of p msg] by (simp add: fits_def)
qed

lemma send_request_cancellation_advances:
  fixes self :: "('m, 'p) io_core"
  assumes "io_shape m cfgs self" and item: "item = ItemRequestCancellation ioid"
  shows "\<exists>res self'. send_to_ready_queue bm item self = Some (res, self')
    \<and> advances m cfgs pairs answered {#item :: 'p queued_item#} self res self'"
proof -
  note shape = io_shapeD [OF assms(1)]
  have "item_io_id item = None" "item_permits item = []"
    using item by (simp_all add: item_io_id_def)
  note quiet = advances_quiet [OF assms(1) this, where answered = answered]
  show ?thesis
  proof (cases "bm_get_by_left bm (io_request_map self) ioid")
    case None
    then show ?thesis
      using item quiet(1) by (auto simp: send_to_ready_queue_def)
  next
    case (Some q)
    obtain c j where q: "q = (c, j)"
      by (cases q)
    obtain res where step: "cancel_request c j (io_juliet self) = (res, io_juliet self)"
      using cancel_request_state by (metis prod.collapse)
    show ?thesis
    proof (cases "\<exists>msg. res = Inr (Some msg)")
      case True
      then obtain msg where res: "res = Inr (Some msg)"
        by blast
      then have "channel_exists c (io_juliet self)"
        using step by (auto simp: cancel_request_def lookup_channel_eq split: if_splits)
      then show ?thesis
        using quiet(2) [OF shape(1) refl refl, of msg] answer_message(3) [of c "io_juliet self" j msg]
          shape(7) [of c] Some item q step res
        by (simp add: send_to_ready_queue_def)
    next
      case False
      then show ?thesis
        using Some item q step quiet(1) by (auto simp: send_to_ready_queue_def split: sum.splits option.splits)
    qed
  qed
qed

lemma send_response_cancellation_advances:
  fixes self :: "('m, 'p) io_core"
  assumes "io_shape m cfgs self" and item: "item = ItemResponseCancellation ch i"
  shows "\<exists>res self'. send_to_ready_queue bm item self = Some (res, self')
    \<and> advances m cfgs pairs answered {#item :: 'p queued_item#} self res self'"
proof -
  note shape = io_shapeD [OF assms(1)]
  have "item_io_id item = None" "item_permits item = []"
    using item by (simp_all add: item_io_id_def)
  note quiet = advances_quiet [OF assms(1) this, where answered = answered]
  obtain res p where step: "cancel_response ch i (io_juliet self) = (res, p)"
    by (cases "cancel_response ch i (io_juliet self)")
  have p: "protocol_like m cfgs p" "outgoing_view p = outgoing_view (io_juliet self)"
      "prev_view p = prev_view (io_juliet self)"
    using cancel_response_like [OF shape(1), of ch i] answer_views(3,4) [of ch i "io_juliet self"]
    by (simp_all add: step)
  have "in_range ch cfgs \<or> p = io_juliet self \<and> (\<exists>e. res = Inl e)"
    using step shape(7) [of ch] by (auto simp: cancel_response_def lookup_channel_eq split: if_splits)
  then consider (refused) "p = io_juliet self" "\<exists>e. res = Inl e" | (known) "in_range ch cfgs"
    by blast
  then show ?thesis
  proof cases
    case refused
    then show ?thesis
      using item step quiet(1) by (auto simp: send_to_ready_queue_def)
  next
    case known
    have "advances m cfgs pairs answered {#item#} self res' (self\<lparr>io_juliet := p\<rparr>)" for res'
      using quiet(2) [OF p, of "outgoing_message_new (header_new CancelResp ch i) None"] known
      by (simp add: outgoing_message_new_def)
    moreover have "advances m cfgs pairs answered {#item#} self res' (push_ready msg (self\<lparr>io_juliet := p\<rparr>))"
      if "res = Inr (Some msg)" for res' msg
      using quiet(2) [OF p, of msg] answer_message(2) [of ch "io_juliet self" i msg] shape(7) [of ch] known
        that step by simp
    ultimately show ?thesis
      using item step by (auto simp: send_to_ready_queue_def split: sum.splits option.splits)
  qed
qed

lemma send_advances:
  assumes "io_shape m cfgs self" and "item_ok cfgs item"
  shows "\<exists>res self'. send_to_ready_queue bm item self = Some (res, self')
    \<and> advances m cfgs pairs answered {#item#} self res self'"
proof (cases item)
  case (ItemRequest ch ioid payload permit)
  then show ?thesis
    using assms send_request_advances by (auto simp: item_ok_def)
next
  case (ItemResponse ch i payload)
  then show ?thesis
    using assms send_response_advances by (auto simp: item_ok_def)
next
  case (ItemError ch i payload)
  then show ?thesis
    using assms send_error_advances by (auto simp: item_ok_def)
next
  case (ItemRequestCancellation ioid)
  then show ?thesis
    by (intro send_request_cancellation_advances assms(1))
next
  case (ItemResponseCancellation ch i)
  then show ?thesis
    by (intro send_response_cancellation_advances assms(1))
qed

end

section \<open>The wait queues\<close>

lemma waits_on_ok: "waits_on n item \<Longrightarrow> n < length cfgs \<Longrightarrow> item_ok cfgs item"
  by (cases item) (auto simp: waits_on_def item_ok_def in_range_def)

lemma item_should_wait_ok:
  assumes "io_shape m cfgs self" and "item_ok cfgs item"
  obtains (invalid) e where
      "item_should_wait item (io_juliet self) (io_active_multi_frame self) = Some (Inl e)"
  | (wait) ch where
      "item_should_wait item (io_juliet self) (io_active_multi_frame self) = Some (Inr (Some ch))"
      "in_range ch cfgs" "waits_on (unat (channel_get ch)) item"
  | (ready) "item_should_wait item (io_juliet self) (io_active_multi_frame self) = Some (Inr None)"
proof -
  note shape = io_shapeD [OF assms(1)]
  have multi: "\<exists>b. payload = None \<or> payload_is_multi_frame m (length (the payload)) = Some b"
    if "fits payload" for payload
    using that payload_multi_ok [OF shape(2)] by (cases payload) (simp_all add: fits_def)
  have "\<exists>r. item_should_wait item (io_juliet self) (io_active_multi_frame self) = Some r
    \<and> (\<forall>ch. r = Inr (Some ch) \<longrightarrow> in_range ch cfgs \<and> waits_on (unat (channel_get ch)) item)"
  proof (cases item)
    case (ItemRequest ch ioid payload permit)
    then obtain b where "payload = None \<or> payload_is_multi_frame m (length (the payload)) = Some b"
      using assms(2) multi [of payload] by (auto simp: item_ok_def)
    then show ?thesis
      using ItemRequest assms(2) shape(3-5) shape(7) [of ch]
      by (cases payload) (auto simp: item_should_wait_def Let_def item_ok_def waits_on_def in_range_def
          protocol_allowed_to_send_request_def lookup_channel_eq)
  next
    case (ItemResponse ch i payload)
    then obtain b where "payload = None \<or> payload_is_multi_frame m (length (the payload)) = Some b"
      using assms(2) multi [of payload] by (auto simp: item_ok_def)
    then show ?thesis
      using ItemResponse assms(2) shape(3-5)
      by (cases payload) (auto simp: item_should_wait_def Let_def item_ok_def waits_on_def in_range_def)
  qed (auto simp: item_should_wait_def Let_def)
  then obtain r where r: "item_should_wait item (io_juliet self) (io_active_multi_frame self) = Some r"
    "\<And>ch. r = Inr (Some ch) \<Longrightarrow> in_range ch cfgs \<and> waits_on (unat (channel_get ch)) item"
    by blast
  show ?thesis
  proof (cases r)
    case (Inl e)
    then show ?thesis
      using r that(1) by blast
  next
    case (Inr found)
    then show ?thesis
      using r that(2,3) by (cases found) blast+
  qed
qed

lemma waiting_update:
  assumes "n < length (io_wait_queue self)"
  shows "io_wait_queue self ! n = item # rest \<Longrightarrow>
      waiting self = add_mset item (waiting (self\<lparr>io_wait_queue := (io_wait_queue self)[n := rest]\<rparr>))"
    and "waiting (self\<lparr>io_wait_queue := (io_wait_queue self)[n := io_wait_queue self ! n @ [item]]\<rparr>)
      = add_mset item (waiting self)"
  using mset_concat_update [OF assms, of rest] mset_concat_update [OF assms, of "io_wait_queue self ! n @ [item]"]
  by (auto simp: waiting_def)

lemma wait_queue_push_advances:
  assumes "io_shape m cfgs self" and "in_range ch cfgs" and "waits_on (unat (channel_get ch)) item"
  shows "\<exists>self'. wait_queue_push ch item self = Some self'
    \<and> advances m cfgs pairs answered {#item#} self res self'"
proof -
  note shape = io_shapeD [OF assms(1)]
  let ?n = "unat (channel_get ch)"
  let ?self' = "self\<lparr>io_wait_queue := (io_wait_queue self)[?n := io_wait_queue self ! ?n @ [item]]\<rparr>"
  have n: "?n < length (io_wait_queue self)"
    using assms(2) shape(6) by (simp add: in_range_def)
  note waiting' = waiting_update(2) [OF n, of item]
  have "io_shape m cfgs ?self'"
    using assms n by (auto simp: io_shape_def nth_list_update')
  moreover have "coherent pairs answered todo ?self' = coherent pairs answered (add_mset item todo) self" for todo
    by (simp add: coherent_def waiting')
  ultimately show ?thesis
    using n by (simp add: wait_queue_push_def advances_def permits_def evolves_def known_id_def waiting')
qed

text \<open>Taking the first item out of a queue.\<close>

definition pop_wait_queue :: "nat \<Rightarrow> ('m, 'p) io_core \<Rightarrow> ('m, 'p) io_core" where
  "pop_wait_queue n self = self\<lparr>io_wait_queue := (io_wait_queue self)[n := tl (io_wait_queue self ! n)]\<rparr>"

lemma pop_wait_queue_sel [simp]:
  "io_juliet (pop_wait_queue n self) = io_juliet self"
  "io_active_multi_frame (pop_wait_queue n self) = io_active_multi_frame self"
  "io_request_map (pop_wait_queue n self) = io_request_map self"
  "io_pending_error (pop_wait_queue n self) = io_pending_error self"
  "io_released (pop_wait_queue n self) = io_released self"
  by (simp_all add: pop_wait_queue_def)

lemma pop_wait_queue_ok:
  assumes "io_shape m cfgs self" and "n < length cfgs" and "io_wait_queue self ! n = item # rest"
  shows "io_shape m cfgs (pop_wait_queue n self)" "waits_on n item"
    "waiting self = add_mset item (waiting (pop_wait_queue n self))"
    "advances m cfgs pairs answered {#item#} (pop_wait_queue n self) res self' \<Longrightarrow>
       advances m cfgs pairs answered {#} self res self'"
proof -
  have n: "n < length (io_wait_queue self)"
    using assms(1,2) by (simp add: io_shape_def)
  show shape: "io_shape m cfgs (pop_wait_queue n self)" and on: "waits_on n item"
    using assms by (auto simp: io_shape_def pop_wait_queue_def nth_list_update')
  have no_error: "ItemError ch i payload \<noteq> item" for ch i payload
    using on by (auto simp: waits_on_def)
  show waiting: "waiting self = add_mset item (waiting (pop_wait_queue n self))"
    using waiting_update(1) [OF n assms(3)] assms(3) by (simp add: pop_wait_queue_def)
  have "coherent pairs answered (add_mset item todo) (pop_wait_queue n self) = coherent pairs answered todo self" for todo
    by (simp add: coherent_def waiting)
  moreover have "evolves pairs (add_mset item todo) (pop_wait_queue n self) todo self'
      = evolves pairs todo self todo self'" for todo
    by (simp add: evolves_def known_id_def waiting)
  moreover have "permits (pop_wait_queue n self) + mset (item_permits item) = permits self"
    by (simp add: permits_def waiting)
  ultimately show "advances m cfgs pairs answered {#item#} (pop_wait_queue n self) res self' \<Longrightarrow>
       advances m cfgs pairs answered {#} self res self'"
    using no_error by (simp add: advances_def)
qed

context request_map
begin

lemma advances_refused:
  "io_shape m cfgs self \<Longrightarrow> advances m cfgs pairs answered {#item#} self (Inl e)
     (self\<lparr>io_released := io_released self @ item_permits item\<rparr>)"
  by (simp add: advances_def)

lemma handle_incoming_item_advances:
  assumes "io_shape m cfgs self" and "item_ok cfgs item"
  shows "\<exists>res self'. handle_incoming_item bm item self = Some (res, self')
    \<and> advances m cfgs pairs answered {#item#} self res self'"
  using assms
proof (cases rule: item_should_wait_ok)
  case (invalid e)
  then show ?thesis
    using advances_refused [OF assms(1)] by (simp add: handle_incoming_item_def)
next
  case (wait ch)
  then show ?thesis
    using wait_queue_push_advances [OF assms(1) wait(2,3), where pairs = pairs and answered = answered and res = "Inr ()"]
    by (auto simp: handle_incoming_item_def)
next
  case ready
  then show ?thesis
    using send_advances [OF assms] by (simp add: handle_incoming_item_def)
qed

lemma wait_queue_loop_advances:
  assumes "io_shape m cfgs self" and "in_range ch cfgs"
    and "io_wait_queue self ! unat (channel_get ch) \<noteq> [] \<longrightarrow> 0 < k"
  shows "\<exists>res self'. wait_queue_loop bm ch k self = Some (res, self')
    \<and> advances m cfgs pairs answered {#} self res self'"
  using assms
proof (induction k arbitrary: self rule: less_induct)
  case (less k)
  let ?n = "unat (channel_get ch)" and ?goal = "\<lambda>self res self'. advances m cfgs pairs answered {#} self res self'"
  have n: "?n < length cfgs"
    using less.prems(2) by (simp add: in_range_def)
  show ?case
  proof (cases "io_wait_queue self ! ?n")
    case Nil
    then show ?thesis
      using advances_refl [OF less.prems(1)] by (simp add: wait_queue_loop.simps)
  next
    case (Cons item rest)
    have k: "0 < k"
      using less.prems(3) Cons by simp
    note pop = pop_wait_queue_ok(1-3) [OF less.prems(1) n Cons]
      pop_wait_queue_ok(4) [OF less.prems(1) n Cons, where pairs = pairs and answered = answered]
    have popped: "self\<lparr>io_wait_queue := (io_wait_queue self)[?n := rest]\<rparr> = pop_wait_queue ?n self"
      by (simp add: pop_wait_queue_def Cons)
    note unfold = wait_queue_loop.simps [of bm ch k self] Cons popped Let_def
    have ok: "item_ok cfgs item"
      by (rule waits_on_ok [OF pop(2) n])
    have continue: "\<exists>res self'. (if k - 1 = 0 then Some (Inr (), self1) else wait_queue_loop bm ch (k - 1) self1)
        = Some (res, self') \<and> ?goal self res self'"
      if advanced: "?goal self (Inr ()) self1" for self1
    proof (cases "k - 1 = 0")
      case True
      then show ?thesis
        using advanced by simp
    next
      case False
      then obtain res self' where "wait_queue_loop bm ch (k - 1) self1 = Some (res, self')" "?goal self1 res self'"
        using less.IH [of "k - 1" self1] k less.prems(2) advances_shape [OF advanced] by auto
      then show ?thesis
        using False advances_trans [OF advanced] by fastforce
    qed
    from pop(1) ok show ?thesis
    proof (cases rule: item_should_wait_ok)
      case (invalid e)
      then show ?thesis
        using pop(4) [OF advances_refused [OF pop(1)]] by (simp add: unfold)
    next
      case (wait ch')
      have "unat (channel_get ch') = ?n"
        using wait(3) pop(2) by (cases item) (auto simp: waits_on_def)
      then obtain self1 where "wait_queue_push ch item (pop_wait_queue ?n self) = Some self1" "?goal self (Inr ()) self1"
        using wait_queue_push_advances [OF pop(1) less.prems(2) pop(2), where pairs = pairs and answered = answered and res = "Inr ()"] pop(4) by blast
      then show ?thesis
        using wait(1) continue [of self1] k by (cases "k \<le> Suc 0") (simp_all add: unfold)
    next
      case ready
      obtain res self1 where sent: "send_to_ready_queue bm item (pop_wait_queue ?n self) = Some (res, self1)"
          "?goal self res self1"
        using send_advances [OF pop(1) ok, where answered = answered] pop(4) by blast
      show ?thesis
      proof (cases res)
        case (Inl e)
        then show ?thesis
          using ready sent by (simp add: unfold)
      next
        case (Inr u)
        have "channel_exists ch (io_juliet self1)"
          using io_shapeD(7) [OF advances_shape [OF sent(2)]] less.prems(2) by blast
        then show ?thesis
          using ready sent continue [of self1] k Inr
          by (cases "k \<le> Suc 0") (simp_all add: unfold protocol_allowed_to_send_request_def lookup_channel_eq)
      qed
    qed
  qed
qed

lemma process_wait_queue_advances:
  assumes "io_shape m cfgs self" and "in_range ch cfgs"
  shows "\<exists>res self'. process_wait_queue bm ch self = Some (res, self')
    \<and> advances m cfgs pairs answered {#} self res self'"
  using wait_queue_loop_advances [OF assms, of "length (io_wait_queue self ! unat (channel_get ch))"]
    assms(2) io_shapeD(6) [OF assms(1)]
  by (simp add: process_wait_queue_def in_range_def)

end

end
