(* ===== verification/Io_Events.thy ===== *)
theory Io_Events
  imports Io_Inv
begin

text \<open>
  \<^verbatim>\<open>IoCore::next_event\<close> keeps the invariant of \<open>Io_Inv\<close>: whatever the transport, the peer and the handles do, it
  does not panic, never reports an internal error, and reports an answer at most once for each \<^verbatim>\<open>IoId\<close>.
\<close>

section \<open>Results of the stages\<close>

definition error_ok :: "core_error \<Rightarrow> bool" where
  "error_ok e \<longleftrightarrow> (\<forall>s. e \<noteq> InternalError s) \<and> as_remote_other_err e \<noteq> None \<and> as_local_other_err e \<noteq> None
     \<and> (\<forall>h data. e = RemoteReportedError h data \<or> e = RemoteProtocolViolation h data \<longrightarrow> error_header h)"

fun event_io_id :: "io_event \<Rightarrow> io_id option" where
  "event_io_id (IoReceivedResponse ioid _) = Some ioid"
| "event_io_id (IoReceivedCancellationResponse ioid) = Some ioid"
| "event_io_id _ = None"

definition stage_ok ::
  "max_frame_size \<Rightarrow> channel_configuration list \<Rightarrow> ('m \<Rightarrow> (io_id \<times> channel_id \<times> msg_id) set)
   \<Rightarrow> 'p queued_item multiset \<Rightarrow> ('m, 'p) io_core \<Rightarrow> io_result option
   \<Rightarrow> 'p queued_item multiset \<Rightarrow> ('m, 'p) io_core \<Rightarrow> bool" where
  "stage_ok m cfgs pairs todo self res todo' self' \<longleftrightarrow> io_shape m cfgs self'
     \<and> (case res of
          Some (Inl e) \<Rightarrow> error_ok e
        | Some (Inr None) \<Rightarrow> True
        | Some (Inr (Some event)) \<Rightarrow>
            io_pending_error self' = None \<and> coherent pairs {} todo' self'
            \<and> (\<forall>x. known_id pairs todo' self' x \<longrightarrow> known_id pairs todo self x)
            \<and> (\<forall>x. event_io_id event = Some x \<longrightarrow> known_id pairs todo self x \<and> \<not> known_id pairs todo' self' x)
        | None \<Rightarrow> io_pending_error self' = None \<longrightarrow> coherent pairs {} todo' self'
            \<and> (\<forall>x. known_id pairs todo' self' x \<longrightarrow> known_id pairs todo self x))"

lemma stage_ok_from:
  assumes "known_id pairs a self = known_id pairs b self0"
  shows "stage_ok m cfgs pairs a self = stage_ok m cfgs pairs b self0"
  by (intro ext) (unfold stage_ok_def assms, rule refl)

lemma coherent_mono:
  assumes "coherent pairs answered (a + b) self"
  shows "coherent pairs answered b self"
proof -
  note old = assms [unfolded coherent_def]
  show ?thesis
    unfolding coherent_def
  proof (intro conjI allI impI)
    fix ch
    assume "channel_exists ch (io_juliet self)"
    then have "unat (prev_request_id (chan_of ch (io_juliet self))) + request_count (waiting self + (a + b)) < 65536"
      using old by blast
    then show "unat (prev_request_id (chan_of ch (io_juliet self))) + request_count (waiting self + b) < 65536"
      by simp
  next
    fix x
    have "id_count x (waiting self + (a + b)) + of_bool (x \<in> fst ` pairs (io_request_map self)) \<le> 1"
      using old by blast
    then show "id_count x (waiting self + b) + of_bool (x \<in> fst ` pairs (io_request_map self)) \<le> 1"
      by simp
  qed (use old in blast)+
qed

lemma known_mono: "known_id pairs b self x \<Longrightarrow> known_id pairs (a + b) self x"
  by (auto simp: known_id_def)

lemma stage_ok_trans:
  assumes "stage_ok m cfgs pairs a self None b self1" and "io_pending_error self1 = None"
    and "stage_ok m cfgs pairs b self1 res c self2"
  shows "stage_ok m cfgs pairs a self res c self2"
  using assms unfolding stage_ok_def
  by (cases res) (auto split: sum.splits option.splits)

lemma stage_ok_weaken:
  assumes "stage_ok m cfgs pairs a self res (b + c) self'"
  shows "stage_ok m cfgs pairs a self res c self'"
  using assms coherent_mono [of pairs "{}" b c self'] known_mono [of pairs c self' _ b] unfolding stage_ok_def
  by (cases res) (auto split: sum.splits option.splits)

text \<open>Once an error is pending it stays, and no event is returned any more.\<close>

definition run_ok ::
  "max_frame_size \<Rightarrow> channel_configuration list \<Rightarrow> ('m \<Rightarrow> (io_id \<times> channel_id \<times> msg_id) set)
   \<Rightarrow> 'p queued_item multiset \<Rightarrow> ('m, 'p) io_core \<Rightarrow> io_result option
   \<Rightarrow> 'p queued_item multiset \<Rightarrow> ('m, 'p) io_core \<Rightarrow> bool" where
  "run_ok m cfgs pairs todo self res todo' self' \<longleftrightarrow> stage_ok m cfgs pairs todo self res todo' self'
     \<and> (io_pending_error self \<noteq> None \<longrightarrow>
          (res = None \<longrightarrow> io_pending_error self' \<noteq> None) \<and> (\<forall>event. res \<noteq> Some (Inr (Some event))))"

lemma run_ok_trans:
  assumes "run_ok m cfgs pairs a self None b self1" and "run_ok m cfgs pairs b self1 res c self2"
  shows "run_ok m cfgs pairs a self res c self2"
proof (cases "io_pending_error self1")
  case None
  then show ?thesis
    using stage_ok_trans [of m cfgs pairs a self b self1 res c self2] assms by (simp add: run_ok_def)
next
  case (Some f)
  then show ?thesis
    using assms unfolding run_ok_def stage_ok_def
    by (cases res) (auto split: sum.splits option.splits)
qed

section \<open>Reading\<close>

lemma coherent_answered:
  assumes "coherent pairs {} todo self" and "prev_view p = prev_view (io_juliet self)"
    and "outgoing_view p = remove_outgoing ch i (outgoing_view (io_juliet self))"
    and "channel_exists ch (io_juliet self)" and "i \<in> outgoing_requests (chan_of ch (io_juliet self))"
  shows "coherent pairs {(ch, i)} todo (self\<lparr>io_juliet := p\<rparr>)"
proof -
  let ?p = "io_juliet self"
  note old = assms(1) [unfolded coherent_def]
  have out: "outstanding p = outstanding ?p - {(ch, i)}"
    by (rule outstanding_remove [OF assms(3)])
  have len: "length (channels p) = length (channels ?p)"
    using assms(2) by (metis length_map prev_view_def)
  have prev: "channel_exists c p = channel_exists c ?p"
    "channel_exists c ?p \<Longrightarrow> prev_request_id (chan_of c p) = prev_request_id (chan_of c ?p)" for c
    using assms(2) len by (simp_all add: channel_exists_def) (metis chan_of_def len nth_map prev_view_def)
  have subset: "outgoing_requests (chan_of c p) \<subseteq> outgoing_requests (chan_of c ?p)" if "channel_exists c ?p" for c
    using out that prev(1) by (auto simp: outstanding_def set_eq_iff)
  have here: "(ch, i) \<in> outstanding ?p"
    using assms(4,5) by (simp add: outstanding_def)
  have order: "ids_in_order (chan_of c p)" if "channel_exists c p" for c
    using old that prev subset by (fastforce simp: ids_in_order_def)
  have "id_get i \<le> prev_request_id (chan_of ch p)"
    using old assms(4,5) prev by (auto simp: ids_in_order_def)
  then show ?thesis
    using old here out prev order assms(4) by (auto simp: coherent_def insert_absorb)
qed

context request_map
begin

lemma coherent_removed:
  assumes "coherent pairs {(ch, i)} todo self" and "bm_remove_by_right bm (io_request_map self) (ch, i) = (res, requests)"
  shows "\<exists>ioid. res = Some (ioid, (ch, i)) \<and> (ioid, (ch, i)) \<in> pairs (io_request_map self)
    \<and> coherent pairs {} todo (self\<lparr>io_request_map := requests\<rparr>)
    \<and> known_id pairs todo self ioid \<and> \<not> known_id pairs todo (self\<lparr>io_request_map := requests\<rparr>) ioid
    \<and> (\<forall>x. known_id pairs todo (self\<lparr>io_request_map := requests\<rparr>) x \<longrightarrow> known_id pairs todo self x)"
proof -
  let ?R = "pairs (io_request_map self)"
  note old = assms(1) [unfolded coherent_def]
  have "(ch, i) \<in> snd ` ?R"
    using old by simp
  then obtain ioid where ioid: "(ioid, (ch, i)) \<in> ?R"
    by force
  then have removed: "res = Some (ioid, (ch, i))" "pairs requests = ?R - {(ioid, (ch, i))}"
    using remove_present [OF ioid] assms(2) by auto
  have left: "r = (ch, i)" if "(ioid, r) \<in> ?R" for r
    using get_by_left [THEN iffD2, OF that] get_by_left [THEN iffD2, OF ioid] by simp
  have rights: "snd ` pairs requests = outstanding (io_juliet self)"
    using rights_remove(1) [OF assms(2)] old by auto
  have gone: "ioid \<notin> fst ` pairs requests"
    using left removed(2) by auto
  have count: "id_count x (waiting self + todo) + of_bool (x \<in> fst ` ?R) \<le> 1" for x
    using old by blast
  have "id_count ioid (waiting self + todo) = 0"
    using count [of ioid] ioid by (simp add: rev_image_eqI)
  then have unknown: "\<not> known_id pairs todo (self\<lparr>io_request_map := requests\<rparr>) ioid"
    using gone by (simp add: known_id_def)
  have known: "known_id pairs todo self ioid"
    using ioid by (force simp: known_id_def)
  have count': "id_count x (waiting self + todo) + of_bool (x \<in> fst ` pairs requests) \<le> 1" for x
    using count [of x] removed(2) by (auto simp: of_bool_def split: if_splits)
  have "coherent pairs {} todo (self\<lparr>io_request_map := requests\<rparr>)"
    using old rights count' by (simp add: coherent_def)
  moreover have "known_id pairs todo self x" if "known_id pairs todo (self\<lparr>io_request_map := requests\<rparr>) x" for x
    using that removed(2) by (auto simp: known_id_def)
  ultimately show ?thesis
    using removed ioid known unknown by blast
qed

lemma is_other_error_valid: "header_valid h \<Longrightarrow> \<exists>b. is_other_error h = Some b \<and> (b \<longleftrightarrow> header_is_error h \<and> header_error_kind h = Some Other)"
  using header_valid_no_panic by (fastforce simp: is_other_error_def)

lemma error_ok_reported: "other_has_data h data \<Longrightarrow> error_ok (RemoteReportedError h data)"
  using is_other_error_valid [of h]
  by (auto simp: error_ok_def error_header_def other_has_data_def as_remote_other_err_def as_local_other_err_def)

lemma error_ok_violation: "error_ok (LocalProtocolViolation e)" "error_ok (WriteFailed x)" "error_ok (ReadFailed x)"
  "error_ok ErrorWriteTimeout"
  by (simp_all add: error_ok_def as_remote_other_err_def as_local_other_err_def)

lemma answer_stage:
  assumes "io_shape m cfgs self" and "coherent pairs {(ch, i)} todo self" and "io_pending_error self = None"
    and "\<forall>x. known_id pairs todo self x \<longrightarrow> known_id pairs todo self0 x"
    and "read = ReceivedResponse ch i payload \<or> read = ResponseCancellation ch i"
    and "handle_completed_read bm read self = (res, self')"
  shows "\<exists>event. res = Inr event \<and> stage_ok m cfgs pairs todo self0 (Some (Inr (Some event))) todo self'"
proof -
  obtain found requests where removed: "bm_remove_by_right bm (io_request_map self) (ch, i) = (found, requests)"
    by (cases "bm_remove_by_right bm (io_request_map self) (ch, i)")
  obtain ioid where ioid: "found = Some (ioid, (ch, i))" "coherent pairs {} todo (self\<lparr>io_request_map := requests\<rparr>)"
      "known_id pairs todo self ioid" "\<not> known_id pairs todo (self\<lparr>io_request_map := requests\<rparr>) ioid"
      "\<forall>x. known_id pairs todo (self\<lparr>io_request_map := requests\<rparr>) x \<longrightarrow> known_id pairs todo self x"
    using coherent_removed [OF assms(2) removed] by blast
  then show ?thesis
    using assms removed by (auto simp: handle_completed_read_def stage_ok_def)
qed

text \<open>A response or response cancellation; \<open>self\<close> is the state after the read.\<close>

lemma success_stage_answer:
  assumes "io_shape m cfgs self" and "coherent pairs {(ch, i)} todo self" and "io_pending_error self = None"
    and "read = ReceivedResponse ch i payload \<or> read = ResponseCancellation ch i" and "in_range ch cfgs"
  shows "\<exists>res self'. success_stage bm read self = Some (res, self') \<and> stage_ok m cfgs pairs todo self res todo self'"
proof -
  have answer: "\<exists>event self'. handle_completed_read bm read self1 = (Inr event, self')
      \<and> stage_ok m cfgs pairs todo self (Some (Inr (Some event))) todo self'"
    if "io_shape m cfgs self1" "coherent pairs {(ch, i)} todo self1" "io_pending_error self1 = None"
      "\<forall>x. known_id pairs todo self1 x \<longrightarrow> known_id pairs todo self x" for self1
    using answer_stage [OF that assms(4)] by (cases "handle_completed_read bm read self1") blast
  show ?thesis
  proof (cases "\<exists>payload. read = ReceivedResponse ch i payload")
    case True
    then obtain payload where read: "read = ReceivedResponse ch i payload"
      by blast
    obtain processed self1 where wait: "process_wait_queue bm ch self = Some (processed, self1)"
        "advances m cfgs pairs {(ch, i)} {#} self processed self1"
      using process_wait_queue_advances [OF assms(1,5)] by blast
    show ?thesis
    proof (cases processed)
      case (Inl e)
      then show ?thesis
        using read wait advances_shape [OF wait(2)] error_ok_violation
        by (simp add: success_stage_def stage_ok_def)
    next
      case (Inr u)
      have pend: "io_pending_error self1 = None"
        using wait(2) assms(3) by (simp add: advances_def)
      have after: "coherent pairs {(ch, i)} todo self1" "evolves pairs todo self todo self1"
        using wait(2) Inr pend assms(2) by (simp_all add: advances_def)
      then have "\<forall>x. known_id pairs todo self1 x \<longrightarrow> known_id pairs todo self x"
        by (simp add: evolves_def)
      then show ?thesis
        using answer [OF advances_shape [OF wait(2)] after(1) pend] read wait(1) Inr
        by (auto simp: success_stage_def)
    qed
  next
    case False
    then have "read = ResponseCancellation ch i"
      using assms(4) by blast
    then show ?thesis
      using answer [OF assms(1-3)] by (auto simp: success_stage_def)
  qed
qed

text \<open>The other outcomes leave the outstanding requests alone.\<close>

lemma outcome_stage_quiet:
  assumes "io_shape m cfgs self" and "coherent pairs {} todo self" and "io_pending_error self = None"
    and "\<And>e. oc = Fatal e \<Longrightarrow> error_message e"
    and "\<And>h data. oc = Success (ErrorReceived h data) \<Longrightarrow> other_has_data h data"
    and "\<And>ch i payload. oc \<noteq> Success (ReceivedResponse ch i payload)"
    and "\<And>ch i. oc \<noteq> Success (ResponseCancellation ch i)"
  shows "\<exists>res self'. outcome_stage bm oc self = Some (res, self') \<and> stage_ok m cfgs pairs todo self res todo self'"
proof (cases oc)
  case (Incomplete n)
  then show ?thesis
    using assms(1-3) by (simp add: outcome_stage_def stage_ok_def known_id_def)
next
  case (Fatal e)
  then have "payload_fits e" "error_header (om_header e)"
    using assms(4) by (auto simp: error_message_def payload_fits_def outgoing_message_new_def)
  then obtain self' f where "inject_error bm e self = Some self'" "io_shape m cfgs self'"
      "io_pending_error self' = Some f"
    using inject_error_ok [OF assms(1), of e bm] by blast
  then show ?thesis
    using Fatal by (simp add: outcome_stage_def stage_ok_def)
next
  case (Success read)
  then show ?thesis
    using assms error_ok_reported
    by (cases read) (auto simp: outcome_stage_def success_stage_def handle_completed_read_def stage_ok_def)
qed

lemma parse_stage_ok:
  assumes "io_shape m cfgs self" and "coherent pairs {} todo self" and "io_pending_error self = None"
  shows "\<exists>res self'. parse_stage bm self = Some (res, self') \<and> stage_ok m cfgs pairs todo self res todo self'"
proof (cases "io_next_parse_at self \<le> length (io_buffer self)")
  case False
  then show ?thesis
    using assms by (simp add: parse_stage_def stage_ok_def)
next
  case True
  note shape = io_shapeD [OF assms(1)]
  obtain oc p b where parsed: "process_incoming (io_juliet self) (io_buffer self) = Some (oc, p, b)"
      "protocol_like m cfgs p"
    using juliet.looped.parse_total [OF shape(1)] by blast
  define self1 where "self1 = (self\<lparr>io_juliet := p\<rparr>)\<lparr>io_next_parse_at := 0, io_buffer := b\<rparr>"
  have stage: "parse_stage bm self = outcome_stage bm oc self1"
    using True parsed(1) by (cases self) (simp add: parse_stage_def self1_def)
  have effect: "read_effect (io_juliet self) oc p"
    using process_incoming_effect [OF parsed(1)] shape(1) by (simp add: protocol_like_def)
  have start: "io_shape m cfgs self1" "io_pending_error self1 = None"
    using io_shape_juliet [OF assms(1) parsed(2)] assms(3) by (simp_all add: self1_def)
  have quiet: "outgoing_view p = outgoing_view (io_juliet self) \<Longrightarrow> coherent pairs {} todo self1"
    using effect assms(2) coherent_views [of p self pairs "{}" todo] by (simp add: self1_def read_effect_def)
  have same: "stage_ok m cfgs pairs todo self1 = stage_ok m cfgs pairs todo self"
    by (rule stage_ok_from) (simp add: fun_eq_iff known_id_def self1_def)
  have answer: ?thesis if read: "oc = Success (ReceivedResponse ch i payload) \<or> oc = Success (ResponseCancellation ch i)"
    for ch i payload
  proof -
    have found: "channel_exists ch (io_juliet self)" "i \<in> outgoing_requests (chan_of ch (io_juliet self))"
        "outgoing_view p = remove_outgoing ch i (outgoing_view (io_juliet self))"
        "prev_view p = prev_view (io_juliet self)"
      using effect read by (auto simp: read_effect_def)
    have "coherent pairs {(ch, i)} todo self1"
      using coherent_answered [OF assms(2) found(4,3,1,2)] by (simp add: self1_def)
    moreover have "in_range ch cfgs"
      using found(1) shape(7) by simp
    ultimately show ?thesis
      using success_stage_answer [OF start(1) _ start(2), of ch i todo _ payload] read
      unfolding stage same [symmetric] by (auto simp: outcome_stage_def)
  qed
  show ?thesis
  proof (cases "\<exists>ch i payload. oc = Success (ReceivedResponse ch i payload) \<or> oc = Success (ResponseCancellation ch i)")
    case True
    then show ?thesis
      using answer by blast
  next
    case False
    then have "outgoing_view p = outgoing_view (io_juliet self)"
      using effect by (auto simp: read_effect_def split: outcome.splits completed_read.splits)
    moreover have "oc = Fatal e \<Longrightarrow> error_message e" "oc = Success (ErrorReceived h data) \<Longrightarrow> other_has_data h data" for e h data
      using effect by (simp_all add: read_effect_def)
    ultimately show ?thesis
      using outcome_stage_quiet [OF start(1) quiet start(2), of oc] False unfolding stage same [symmetric] by blast
  qed
qed

section \<open>Writing and queueing\<close>

lemma advances_run:
  assumes "advances m cfgs pairs {} used self (Inr ()) self'"
    and "io_pending_error self = None \<longrightarrow> coherent pairs {} (used + todo) self"
  shows "run_ok m cfgs pairs (used + todo) self None todo self'"
  using assms unfolding advances_def run_ok_def stage_ok_def evolves_def by auto

lemma frame_written_stage_ok:
  assumes "io_shape m cfgs self" and "io_pending_error self = None \<longrightarrow> coherent pairs {} todo self"
  shows "\<exists>res self'. frame_written_stage bm self = Some (res, self') \<and> run_ok m cfgs pairs todo self res todo self'"
proof (cases "io_current_frame self")
  case None
  then show ?thesis
    using assms by (simp add: frame_written_stage_def stage_ok_def run_ok_def)
next
  case (Some current)
  obtain f final where current: "io_current_frame self = Some (f, final)"
    using Some by (cases current) simp
  note shape = io_shapeD [OF assms(1)]
  let ?ch = "header_channel (frame_header f)"
  have f: "\<not> header_is_error (frame_header f)" "in_range ?ch cfgs"
    using assms(1) current by (auto simp: io_shape_def frame_ok_def)
  define active where "active = (if final \<and> io_active_multi_frame self ! unat (channel_get ?ch) = Some (frame_header f)
    then (io_active_multi_frame self)[unat (channel_get ?ch) := None] else io_active_multi_frame self)"
  define self1 where "self1 = self\<lparr>io_current_frame := None, io_active_multi_frame := active\<rparr>"
  have self1: "io_shape m cfgs self1" "io_pending_error self1 = io_pending_error self"
      "coherent pairs {} todo self1 = coherent pairs {} todo self"
    using assms(1) by (simp_all add: io_shape_def self1_def active_def)
  have stage: "frame_written_stage bm self = do {
      (processed, self) \<leftarrow> process_wait_queue bm ?ch self1;
      case processed of
        Inl e \<Rightarrow> Some (Some (Inl (LocalProtocolViolation e)), self)
      | Inr _ \<Rightarrow> Some (None, self) }"
    using current f shape(5)
    by (cases final) (auto simp: frame_written_stage_def self1_def active_def in_range_def Let_def)
  obtain res self' where wait: "process_wait_queue bm ?ch self1 = Some (res, self')"
      "advances m cfgs pairs {} {#} self1 res self'"
    using process_wait_queue_advances [OF self1(1) f(2)] by blast
  show ?thesis
  proof (cases res)
    case (Inl e)
    then show ?thesis
      using wait advances_shape [OF wait(2)] error_ok_violation by (simp add: stage stage_ok_def run_ok_def)
  next
    case (Inr u)
    then have "run_ok m cfgs pairs todo self1 None todo self'"
      using advances_run [of m cfgs "{#}" self1 self' todo] wait(2) assms(2) self1 by simp
    moreover have "stage_ok m cfgs pairs todo self1 = stage_ok m cfgs pairs todo self"
      by (rule stage_ok_from) (simp add: fun_eq_iff known_id_def self1_def)
    ultimately have "run_ok m cfgs pairs todo self None todo self'"
      using self1(2) by (simp add: run_ok_def)
    then show ?thesis
      using wait Inr by (simp add: stage)
  qed
qed

lemma items_stage_ok:
  assumes "io_shape m cfgs self" and "list_all (item_ok cfgs) items"
    and "io_pending_error self = None \<longrightarrow> coherent pairs {} (mset items + todo) self"
  shows "\<exists>res self'. items_stage bm items disconnected self = Some (res, self')
    \<and> run_ok m cfgs pairs (mset items + todo) self res todo self'"
  using assms
proof (induction items arbitrary: self)
  case Nil
  then show ?case
    by (auto simp: stage_ok_def run_ok_def)
next
  case (Cons item items)
  obtain handled self1 where step: "handle_incoming_item bm item self = Some (handled, self1)"
      "advances m cfgs pairs {} {#item#} self handled self1"
    using handle_incoming_item_advances [OF Cons.prems(1)] Cons.prems(2) by force
  note shape1 = advances_shape [OF step(2)]
  show ?case
  proof (cases handled)
    case (Inl e)
    then show ?thesis
      using step(1) shape1 error_ok_violation by (simp add: stage_ok_def run_ok_def)
  next
    case (Inr u)
    then have first: "run_ok m cfgs pairs (mset (item # items) + todo) self None (mset items + todo) self1"
      using advances_run [of m cfgs "{#item#}" self self1 "mset items + todo"] step(2) Cons.prems(3) by simp
    then have "io_pending_error self1 = None \<longrightarrow> coherent pairs {} (mset items + todo) self1"
      by (simp add: run_ok_def stage_ok_def)
    then show ?thesis
      using Cons.IH [OF shape1] Cons.prems(2) step(1) Inr run_ok_trans [OF first] by fastforce
  qed
qed

lemma select_frame_ok:
  assumes "io_shape m cfgs self"
  shows "\<exists>self'. select_frame self = Some self' \<and> io_shape m cfgs self'
    \<and> io_pending_error self' = io_pending_error self
    \<and> coherent pairs {} todo self' = coherent pairs {} todo self
    \<and> known_id pairs todo self' = known_id pairs todo self"
proof (cases "io_current_frame self = None \<and> io_ready_queue self \<noteq> []")
  case False
  then show ?thesis
    using assms by (auto simp: select_frame_def)
next
  case True
  then obtain it rest where queue: "io_ready_queue self = it # rest"
    by (cases "io_ready_queue self") auto
  note shape = io_shapeD [OF assms]
  have ok: "iter_ok cfgs it" "list_all (iter_ok cfgs) rest"
    using assms queue by (simp_all add: io_shape_def)
  obtain f additional where f: "frame_iter_next_owned m it = Some (f, additional)" "frame_ok cfgs f"
      "\<forall>it'. additional = Some it' \<longrightarrow> iter_ok cfgs it'"
    using next_owned_ok [OF shape(2) ok(1)] by blast
  show ?thesis
    using True queue assms ok(2) f shape(3)
    by (cases additional) (auto simp: select_frame_def ready_next_frame_def io_shape_def known_id_def fun_eq_iff)
qed

lemma frame_advance_ok:
  assumes "frame_ok cfgs f"
  shows "\<exists>f'. frame_advance (min n (frame_remaining f)) f = Some f' \<and> frame_ok cfgs f'"
proof -
  have inv: "frame_inv f"
    using assms by (simp add: frame_ok_def)
  have "min n (frame_remaining f) \<le> length (frame_content f)"
    using frame_buf.remaining_content [OF inv] by simp
  then obtain f' where f': "frame_advance (min n (frame_remaining f)) f = Some f'" "frame_inv f'"
    using frame_buf.advance_content [OF inv] by blast
  then have "frame_header f' = frame_header f"
    by (auto simp: frame_advance_def frame_header_def Let_def bind_eq_Some_conv split: if_splits)
  then show ?thesis
    using f' assms by (simp add: frame_ok_def)
qed

end

section \<open>The event loop\<close>

fun input_items :: "'p io_input \<Rightarrow> 'p queued_item list" where
  "input_items (ItemsReceived items _) = items"
| "input_items _ = []"

definition inputs_items :: "'p io_input list \<Rightarrow> 'p queued_item multiset" where
  "inputs_items inputs = mset (concat (map input_items inputs))"

definition inputs_ok :: "channel_configuration list \<Rightarrow> 'p io_input list \<Rightarrow> bool" where
  "inputs_ok cfgs inputs = list_all (item_ok cfgs) (concat (map input_items inputs))"

lemma inputs_simps [simp]:
  "inputs_items [] = {#}" "inputs_items (input # inputs) = mset (input_items input) + inputs_items inputs"
  "inputs_ok cfgs []" "inputs_ok cfgs (input # inputs) \<longleftrightarrow> list_all (item_ok cfgs) (input_items input) \<and> inputs_ok cfgs inputs"
  by (simp_all add: inputs_items_def inputs_ok_def)

context request_map
begin

lemma run_ok_refl:
  assumes "io_shape m cfgs self" and "io_pending_error self = None \<longrightarrow> coherent pairs {} todo self"
    and "io_shape m cfgs self'" and "io_pending_error self' = io_pending_error self"
    and "coherent pairs {} todo self' = coherent pairs {} todo self" and "known_id pairs todo self' = known_id pairs todo self"
  shows "run_ok m cfgs pairs todo self None todo self'"
  using assms by (simp add: run_ok_def stage_ok_def)

lemma select_stage_ok:
  assumes "io_shape m cfgs self" and "list_all (item_ok cfgs) (input_items input)"
    and "io_pending_error self = None \<longrightarrow> coherent pairs {} (mset (input_items input) + todo) self"
  shows "\<exists>r. select_stage bm input self = Some r \<and>
    (case r of
       Inl self' \<Rightarrow> run_ok m cfgs pairs (mset (input_items input) + todo) self None todo self'
     | Inr (res, self') \<Rightarrow> run_ok m cfgs pairs (mset (input_items input) + todo) self res todo self')"
proof (cases input)
  case (FrameProgress n)
  show ?thesis
  proof (cases "io_current_frame self")
    case None
    then show ?thesis
      using FrameProgress assms by (simp add: select_stage_def run_ok_refl)
  next
    case (Some current)
    obtain f final where current: "current = (f, final)"
      by (cases current)
    have "frame_ok cfgs f"
      using assms(1) Some current by (simp add: io_shape_def)
    then obtain f' where f': "frame_advance (min n (frame_remaining f)) f = Some f'" "frame_ok cfgs f'"
      using frame_advance_ok by blast
    have "io_shape m cfgs (self\<lparr>io_current_frame := Some (f', final)\<rparr>)"
      using assms(1) f'(2) by (simp add: io_shape_def)
    then show ?thesis
      using FrameProgress assms Some current f'(1)
      by (simp add: select_stage_def) (rule run_ok_refl, simp_all add: known_id_def fun_eq_iff)
  qed
next
  case (FrameWriteDone failed)
  show ?thesis
  proof (cases failed)
    case None
    then show ?thesis
      using FrameWriteDone assms frame_written_stage_ok [of m cfgs self todo] by (auto simp: select_stage_def)
  next
    case (Some e)
    then show ?thesis
      using FrameWriteDone assms error_ok_violation by (simp add: select_stage_def run_ok_def stage_ok_def)
  qed
next
  case (ReadProgress bs)
  then show ?thesis
    using assms by (simp add: select_stage_def) (rule run_ok_refl, simp_all add: known_id_def fun_eq_iff)
next
  case (ReadDone r)
  then show ?thesis
    using assms error_ok_violation
    by (cases r) (auto simp: select_stage_def run_ok_def stage_ok_def)
next
  case (ItemsReceived items disconnected)
  then show ?thesis
    using assms items_stage_ok [of m cfgs self items todo disconnected] by (auto simp: select_stage_def)
next
  case (ErrorWriteDone r)
  then show ?thesis
    using assms by (simp add: select_stage_def run_ok_refl)
next
  case ReceiverEnded
  then show ?thesis
    using assms by (simp add: select_stage_def run_ok_def stage_ok_def)
qed

lemma pending_error_stage_ok:
  assumes "io_shape m cfgs self" and "io_pending_error self = Some f"
  shows "\<exists>e self'. pending_error_stage f written self = Some (Inl e, self') \<and> error_ok e \<and> io_shape m cfgs self'"
proof -
  have err: "error_header (frame_header f)"
    using assms by (simp add: io_shape_def)
  then obtain b where b: "is_other_error (frame_header f) = Some b"
    using is_other_error_valid unfolding error_header_def by blast
  have "io_shape m cfgs (self\<lparr>io_pending_error := None\<rparr>)"
    using assms by (simp add: io_shape_def)
  then show ?thesis
    using b err assms(1) error_ok_violation
    by (cases written) (auto simp: pending_error_stage_def error_ok_def as_local_other_err_def as_remote_other_err_def)
qed

lemma run_ok_coherent:
  "run_ok m cfgs pairs a self None b self' \<Longrightarrow>
     io_shape m cfgs self' \<and> (io_pending_error self' = None \<longrightarrow> coherent pairs {} b self')"
  by (simp add: run_ok_def stage_ok_def)

text \<open>From the top of the loop, given that the select behaves on these inputs.\<close>

lemma next_event_from_select:
  assumes select: "\<And>self. io_shape m cfgs self \<Longrightarrow>
      io_pending_error self = None \<longrightarrow> coherent pairs {} (inputs_items inputs + todo) self \<Longrightarrow>
      \<exists>res self'. io_select bm inputs self = Some (res, self')
        \<and> run_ok m cfgs pairs (inputs_items inputs + todo) self res todo self'"
    and "io_shape m cfgs self"
    and "io_pending_error self = None \<longrightarrow> coherent pairs {} (inputs_items inputs + todo) self"
  shows "\<exists>res self'. next_event bm inputs self = Some (res, self')
    \<and> run_ok m cfgs pairs (inputs_items inputs + todo) self res todo self'"
proof (cases "io_pending_error self")
  case (Some f)
  have idle: "run_ok m cfgs pairs a self None todo self" for a
    using assms(2) Some by (simp add: run_ok_def stage_ok_def)
  show ?thesis
  proof (cases "\<exists>written rest. inputs = ErrorWriteDone written # rest")
    case True
    then obtain written rest where inputs: "inputs = ErrorWriteDone written # rest"
      by blast
    obtain e self' where "pending_error_stage f written self = Some (Inl e, self')" "error_ok e" "io_shape m cfgs self'"
      using pending_error_stage_ok [OF assms(2) Some] by blast
    then show ?thesis
      using Some inputs by (simp add: run_ok_def stage_ok_def)
  next
    case False
    then have "next_event bm inputs self = Some (None, self)"
      using Some by (auto split: list.splits io_input.splits)
    then show ?thesis
      using idle by blast
  qed
next
  case None
  obtain parsed self1 where parse: "parse_stage bm self = Some (parsed, self1)"
      "stage_ok m cfgs pairs (inputs_items inputs + todo) self parsed (inputs_items inputs + todo) self1"
    using parse_stage_ok [OF assms(2) _ None] assms(3) None by blast
  then have run1: "run_ok m cfgs pairs (inputs_items inputs + todo) self parsed (inputs_items inputs + todo) self1"
    using None by (simp add: run_ok_def)
  show ?thesis
  proof (cases parsed)
    case (Some result)
    then show ?thesis
      using None parse(1) stage_ok_weaken [OF parse(2)] by (simp add: run_ok_def)
  next
    case continue: None
    note shape1 = run_ok_coherent [OF run1 [unfolded continue]]
    obtain self2 where frame: "select_frame self1 = Some self2" "io_shape m cfgs self2"
        "io_pending_error self2 = io_pending_error self1"
        "coherent pairs {} (inputs_items inputs + todo) self2 = coherent pairs {} (inputs_items inputs + todo) self1"
        "known_id pairs (inputs_items inputs + todo) self2 = known_id pairs (inputs_items inputs + todo) self1"
      using select_frame_ok [of m cfgs self1 "inputs_items inputs + todo"] shape1 by blast
    have run2: "run_ok m cfgs pairs (inputs_items inputs + todo) self1 None (inputs_items inputs + todo) self2"
      using shape1 frame by (intro run_ok_refl) auto
    obtain res self' where "io_select bm inputs self2 = Some (res, self')"
        "run_ok m cfgs pairs (inputs_items inputs + todo) self2 res todo self'"
      using select [of self2] run_ok_coherent [OF run2] by blast
    then show ?thesis
      using None parse(1) continue frame(1) run_ok_trans [OF run1 [unfolded continue]] run_ok_trans [OF run2]
      by fastforce
  qed
qed

lemma io_select_run:
  assumes "io_shape m cfgs self" and "inputs_ok cfgs inputs"
    and "io_pending_error self = None \<longrightarrow> coherent pairs {} (inputs_items inputs + todo) self"
  shows "\<exists>res self'. io_select bm inputs self = Some (res, self')
    \<and> run_ok m cfgs pairs (inputs_items inputs + todo) self res todo self'"
  using assms
proof (induction inputs arbitrary: self)
  case Nil
  then show ?case
    by (simp add: run_ok_refl)
next
  case (Cons input inputs)
  let ?rest = "inputs_items inputs + todo"
  obtain r where r: "select_stage bm input self = Some r"
    "case r of Inl self' \<Rightarrow> run_ok m cfgs pairs (mset (input_items input) + ?rest) self None ?rest self'
      | Inr (res, self') \<Rightarrow> run_ok m cfgs pairs (mset (input_items input) + ?rest) self res ?rest self'"
    using select_stage_ok [OF Cons.prems(1), of input ?rest] Cons.prems(2,3) by (auto simp: add.assoc)
  have goal: "inputs_items (input # inputs) + todo = mset (input_items input) + ?rest"
    by (simp add: add.assoc)
  have rest: "\<exists>res self'. io_select bm inputs self = Some (res, self') \<and> run_ok m cfgs pairs ?rest self res todo self'"
    if "io_shape m cfgs self" "io_pending_error self = None \<longrightarrow> coherent pairs {} ?rest self" for self
    using Cons.IH [OF that(1) _ that(2)] Cons.prems(2) by simp
  show ?case
  proof (cases r)
    case (Inl self1)
    then have run1: "run_ok m cfgs pairs (mset (input_items input) + ?rest) self None ?rest self1"
      using r(2) by simp
    then show ?thesis
      using rest [of self1] run_ok_coherent [OF run1] run_ok_trans [OF run1] r(1) Inl unfolding goal by fastforce
  next
    case (Inr p)
    obtain res self1 where p: "p = (res, self1)"
      by (cases p)
    then have run1: "run_ok m cfgs pairs (mset (input_items input) + ?rest) self res ?rest self1"
      using r(2) Inr by simp
    show ?thesis
    proof (cases res)
      case None
      then show ?thesis
        using next_event_from_select [OF rest, of self1] run_ok_coherent [of m cfgs _ self _ self1] run1
          run_ok_trans [of m cfgs pairs _ self _ self1] r(1) Inr p unfolding goal by fastforce
    next
      case (Some result)
      then have "run_ok m cfgs pairs (mset (input_items input) + ?rest) self res todo self1"
        using run1 stage_ok_weaken [of m cfgs pairs _ self res "inputs_items inputs" todo self1]
        by (simp add: run_ok_def)
      then show ?thesis
        using r(1) Inr p Some unfolding goal by simp
    qed
  qed
qed

lemma next_event_run:
  assumes "io_shape m cfgs self" and "inputs_ok cfgs inputs"
    and "io_pending_error self = None \<longrightarrow> coherent pairs {} (inputs_items inputs + todo) self"
  shows "\<exists>res self'. next_event bm inputs self = Some (res, self')
    \<and> run_ok m cfgs pairs (inputs_items inputs + todo) self res todo self'"
  by (rule next_event_from_select [OF io_select_run [OF _ assms(2)] assms(1,3)])

end

end
