(* ===== verification/Io_Props.thy ===== *)
theory Io_Props
  imports Io_Events
begin

text \<open>
  Properties of the IO layer, for every implementation of the request map that meets the contract of
  \<open>Bimap\<close>; the witnesses use the lists of pairs defined there.
\<close>

section \<open>The invariant\<close>

definition io_inv ::
  "max_frame_size \<Rightarrow> channel_configuration list \<Rightarrow> ('m \<Rightarrow> (io_id \<times> channel_id \<times> msg_id) set)
   \<Rightarrow> 'p queued_item multiset \<Rightarrow> ('m, 'p) io_core \<Rightarrow> bool" where
  "io_inv m cfgs pairs todo self \<longleftrightarrow>
     io_shape m cfgs self \<and> (io_pending_error self = None \<longrightarrow> coherent pairs {} todo self)"

definition fresh_items :: "'p queued_item multiset \<Rightarrow> bool" where
  "fresh_items todo \<longleftrightarrow> request_count todo < 65536 \<and> (\<forall>x. id_count x todo \<le> 1)"

interpretation alist_requests: request_map alist_bimap_ops "\<lambda>m. set (alist_pairs m)"
  by unfold_locales

lemma built_channels:
  "channel_exists ch (builder_build b) \<Longrightarrow>
     chan_of ch (builder_build b) = channel_new (pb_channel_config b ! unat (channel_get ch))"
  by (simp add: channel_exists_def chan_of_def builder_build_def)

text \<open>
  An application that calls \<^verbatim>\<open>next_event\<close> until it does not return an event; one batch of inputs is what happens
  during one call. The result holds the events, and what the last call returned.
\<close>

fun poll_events ::
  "'m request_bimap \<Rightarrow> 'p io_input list list \<Rightarrow> ('m, 'p) io_core
   \<Rightarrow> (io_event list \<times> io_result option \<times> ('m, 'p) io_core) option" where
  "poll_events bm [] self = Some ([], None, self)"
| "poll_events bm (inputs # batches) self =
     do { (res, self) \<leftarrow> next_event bm inputs self;
          case res of
            Some (Inr (Some event)) \<Rightarrow> do {
              (events, last, self) \<leftarrow> poll_events bm batches self;
              Some (event # events, last, self) }
          | _ \<Rightarrow> Some ([], res, self) }"

definition answered_ids :: "io_event list \<Rightarrow> io_id list" where
  "answered_ids events = List.map_filter event_io_id events"

lemma answered_ids_simps [simp]:
  "answered_ids [] = []"
  "answered_ids (event # events) =
     (case event_io_id event of Some x \<Rightarrow> x # answered_ids events | None \<Rightarrow> answered_ids events)"
  by (simp_all add: answered_ids_def map_filter_simps split: option.split)

context request_map
begin

lemma build_inv:
  assumes "protocol_inv (builder_build (icb_protocol b))" and "fresh_items todo"
  shows "io_inv (pb_max_frame_size (icb_protocol b)) (pb_channel_config (icb_protocol b)) pairs todo
    (io_core_build bm b)"
proof -
  let ?p = "builder_build (icb_protocol b)"
  have like: "protocol_like (pb_max_frame_size (icb_protocol b)) (pb_channel_config (icb_protocol b)) ?p"
    using assms(1) by (simp add: protocol_like_def builder_build_def channel_new_def comp_def)
  have none: "outstanding ?p = {}"
    by (auto simp: outstanding_def built_channels channel_new_def)
  have empty: "waiting (io_core_build bm b :: ('m, 'a) io_core) = {#}"
    by (simp add: waiting_def io_core_build_def Let_def)
  have "coherent pairs {} todo (io_core_build bm b)"
    using assms(2) none empty
    by (simp add: coherent_def fresh_items_def built_channels ids_in_order_def channel_new_def pairs_empty)
       (simp add: io_core_build_def Let_def pairs_empty built_channels channel_new_def none)
  moreover have "length (channels ?p) = length (pb_channel_config (icb_protocol b))"
    by (simp add: builder_build_def)
  ultimately show ?thesis
    using like by (simp add: io_inv_def io_shape_def) (simp add: io_core_build_def Let_def)
qed

lemma polled_inv:
  assumes "io_inv m cfgs pairs (inputs_items inputs + todo) self" and "inputs_ok cfgs inputs"
  shows "\<exists>res self'. next_event bm inputs self = Some (res, self') \<and>
    (case res of
       None \<Rightarrow> io_inv m cfgs pairs todo self'
     | Some (Inl e) \<Rightarrow> error_ok e
     | Some (Inr None) \<Rightarrow> True
     | Some (Inr (Some event)) \<Rightarrow> io_inv m cfgs pairs todo self' \<and> io_pending_error self' = None
         \<and> (\<forall>x. known_id pairs todo self' x \<longrightarrow> known_id pairs (inputs_items inputs + todo) self x)
         \<and> (\<forall>x. event_io_id event = Some x \<longrightarrow>
              known_id pairs (inputs_items inputs + todo) self x \<and> \<not> known_id pairs todo self' x))"
proof -
  obtain res self' where "next_event bm inputs self = Some (res, self')"
      "run_ok m cfgs pairs (inputs_items inputs + todo) self res todo self'"
    using next_event_run [of m cfgs self inputs todo] assms by (auto simp: io_inv_def)
  then show ?thesis
    by (auto simp: run_ok_def stage_ok_def io_inv_def split: option.splits sum.splits)
qed

lemma polled_events:
  assumes "io_inv m cfgs pairs (inputs_items (concat batches) + todo) self" and "inputs_ok cfgs (concat batches)"
  shows "\<exists>events last self'. poll_events bm batches self = Some (events, last, self')
    \<and> (\<forall>e. last = Some (Inl e) \<longrightarrow> error_ok e)
    \<and> distinct (answered_ids events)
    \<and> (\<forall>x \<in> set (answered_ids events). known_id pairs (inputs_items (concat batches) + todo) self x)"
  using assms
proof (induction batches arbitrary: self)
  case Nil
  then show ?case
    by simp
next
  case (Cons inputs batches)
  let ?rest = "inputs_items (concat batches) + todo"
  have items: "inputs_items (concat (inputs # batches)) + todo = inputs_items inputs + ?rest"
    by (simp add: inputs_items_def add.assoc)
  have ok: "inputs_ok cfgs inputs" "inputs_ok cfgs (concat batches)"
    using Cons.prems(2) by (simp_all add: inputs_ok_def)
  obtain res self1 where step: "next_event bm inputs self = Some (res, self1)"
    "case res of
       None \<Rightarrow> io_inv m cfgs pairs ?rest self1
     | Some (Inl e) \<Rightarrow> error_ok e
     | Some (Inr None) \<Rightarrow> True
     | Some (Inr (Some event)) \<Rightarrow> io_inv m cfgs pairs ?rest self1 \<and> io_pending_error self1 = None
         \<and> (\<forall>x. known_id pairs ?rest self1 x \<longrightarrow> known_id pairs (inputs_items inputs + ?rest) self x)
         \<and> (\<forall>x. event_io_id event = Some x \<longrightarrow>
              known_id pairs (inputs_items inputs + ?rest) self x \<and> \<not> known_id pairs ?rest self1 x)"
    using polled_inv [OF _ ok(1), of m ?rest self] Cons.prems(1) unfolding items by blast
  show ?case
  proof (cases "\<exists>event. res = Some (Inr (Some event))")
    case False
    then show ?thesis
      using step by (auto split: option.splits sum.splits)
  next
    case True
    then obtain event where event: "res = Some (Inr (Some event))"
      by blast
    then have "io_inv m cfgs pairs ?rest self1"
      using step(2) by simp
    then obtain events last self' where rest: "poll_events bm batches self1 = Some (events, last, self')"
        "\<forall>e. last = Some (Inl e) \<longrightarrow> error_ok e" "distinct (answered_ids events)"
        "\<forall>x \<in> set (answered_ids events). known_id pairs ?rest self1 x"
      using Cons.IH [OF _ ok(2)] by blast
    have "distinct (answered_ids (event # events))
        \<and> (\<forall>x \<in> set (answered_ids (event # events)). known_id pairs (inputs_items inputs + ?rest) self x)"
      using step(2) event rest(3,4) by (cases "event_io_id event") auto
    then show ?thesis
      unfolding items using step(1) event rest(1,2) by simp
  qed
qed

end

lemma known_built:
  assumes "request_map bm pairs" and "known_id pairs todo (io_core_build bm b) x"
  shows "\<exists>ch payload permit. ItemRequest ch x payload permit \<in># todo"
proof -
  have "pairs (bm_empty bm) = {}"
    using assms(1) by (simp add: request_map_def bimap.pairs_empty)
  then have "0 < id_count x todo"
    using assms(2) by (simp add: known_id_def waiting_def io_core_build_def Let_def)
  then have "{#item \<in># todo. item_io_id item = Some x#} \<noteq> {#}"
    by (metis id_count_def less_irrefl size_empty)
  then obtain item where item: "item \<in># todo" "item_io_id item = Some x"
    by (rule multiset_nonemptyE) auto
  then show ?thesis
    by (cases item) (auto simp: item_io_id_def)
qed

text \<open>
  C1: An application that builds an \<^verbatim>\<open>IoCore\<close> and keeps calling \<^verbatim>\<open>next_event\<close> never sees it panic, whatever bytes
  the peer sends and however reads, writes and queued items interleave. It never gets an
  \<^verbatim>\<open>InternalError\<close> (responses always find their request), the accessors of \<^verbatim>\<open>CoreError\<close> do not panic on the
  errors returned, every response or response cancellation carries the \<^verbatim>\<open>IoId\<close> of a request that was
  queued, and no \<^verbatim>\<open>IoId\<close> is answered twice. The items must have payloads below 4 GiB, responses an existing
  channel, requests pairwise different \<^verbatim>\<open>IoId\<close>s, and there are fewer than 65536 requests in all.
\<close>

theorem io_event_loop_sound:
  assumes "request_map bm pairs" and "protocol_inv (builder_build (icb_protocol b))"
    and "inputs_ok (pb_channel_config (icb_protocol b)) (concat batches)"
    and "fresh_items (inputs_items (concat batches))"
  shows "\<exists>events last self'. poll_events bm batches (io_core_build bm b) = Some (events, last, self')
    \<and> (\<forall>e. last = Some (Inl e) \<longrightarrow> (\<forall>s. e \<noteq> InternalError s)
         \<and> as_remote_other_err e \<noteq> None \<and> as_local_other_err e \<noteq> None)
    \<and> distinct (answered_ids events)
    \<and> (\<forall>x \<in> set (answered_ids events).
         \<exists>ch payload permit. ItemRequest ch x payload permit \<in># inputs_items (concat batches))"
proof -
  have "io_inv (pb_max_frame_size (icb_protocol b)) (pb_channel_config (icb_protocol b)) pairs
      (inputs_items (concat batches) + {#}) (io_core_build bm b)"
    using request_map.build_inv [OF assms(1,2), of "inputs_items (concat batches)"] assms(4) by simp
  from request_map.polled_events [OF assms(1) this assms(3)] show ?thesis
    using known_built [OF assms(1)] by (fastforce simp: error_ok_def)
qed

definition two_channel_io :: io_core_builder where
  "two_channel_io = io_core_builder_new (juliet_protocol_builder 2
     (with_max_response_payload_size 8 (with_max_request_payload_size 8
       (with_request_limit 2 channel_configuration_new))))"

lemma two_channel_io_protocol: "builder_build (icb_protocol two_channel_io) = two_channel_protocol"
  by (simp add: two_channel_io_def two_channel_protocol_def io_core_builder_new_def
      io_core_builder_with_default_buffer_size_def)

theorem io_event_loop_sound_witness:
  "\<exists>events last self'. poll_events alist_bimap_ops
     [[ItemsReceived [ItemRequest (ChannelId 1) (IoId 0) (Some [7]) (), ItemRequest (ChannelId 1) (IoId 1) None ()] False,
       FrameProgress 3, ReadProgress [1, 1], FrameWriteDone None, ReadProgress [1, 0], ReadDone (Inr True)]]
     (io_core_build alist_bimap_ops two_channel_io) = Some (events, last, self')
   \<and> distinct (answered_ids events)"
proof -
  let ?batches = "[[ItemsReceived [ItemRequest (ChannelId 1) (IoId 0) (Some [7]) (), ItemRequest (ChannelId 1) (IoId 1) None ()] False,
       FrameProgress 3, ReadProgress [1, 1], FrameWriteDone None, ReadProgress [1, 0], ReadDone (Inr True)]]"
  have "inputs_ok (pb_channel_config (icb_protocol two_channel_io)) (concat ?batches)"
    by (simp add: inputs_ok_def item_ok_def fits_def)
  moreover have "fresh_items (inputs_items (concat ?batches))"
    by (simp add: fresh_items_def inputs_items_def item_io_id_def)
  ultimately show ?thesis
    using io_event_loop_sound [OF alist_requests.request_map_axioms, of two_channel_io ?batches]
      two_channel_protocol_inv by (auto simp: two_channel_io_protocol)
qed

section \<open>Queueing\<close>

definition is_multi :: "max_frame_size \<Rightarrow> bytes option \<Rightarrow> bool" where
  "is_multi m payload \<longleftrightarrow>
     1 < length (wire_frames m (outgoing_message_new (header_new Request (ChannelId 0) (Id 0)) payload))"

lemma length_wire_frames:
  "om_payload a = om_payload b \<Longrightarrow> length (wire_frames m a) = length (wire_frames m b)"
  by (simp add: wire_frames_def)

lemma is_multi_eq:
  assumes "mfs_valid m" and "fits payload"
  shows "om_payload msg = payload \<Longrightarrow> om_is_multi_frame m msg = Some (is_multi m payload)"
    and "payload = Some pl \<Longrightarrow> payload_is_multi_frame m (length pl) = Some (is_multi m payload)"
    and "is_multi m payload \<Longrightarrow> payload \<noteq> None"
proof -
  let ?msg = "outgoing_message_new (header_new Request (ChannelId 0) (Id 0)) payload"
  have multi: "om_is_multi_frame m ?msg = Some (is_multi m payload)"
    using om_is_multi_frame_wire [OF assms(1), of ?msg] assms(2)
    by (simp add: is_multi_def payload_fits_iff outgoing_message_new_def)
  then show "om_payload msg = payload \<Longrightarrow> om_is_multi_frame m msg = Some (is_multi m payload)"
    and "payload = Some pl \<Longrightarrow> payload_is_multi_frame m (length pl) = Some (is_multi m payload)"
    and "is_multi m payload \<Longrightarrow> payload \<noteq> None"
    by (auto simp: om_is_multi_frame_def outgoing_message_new_def split: option.splits)
qed

definition may_send :: "channel_id \<Rightarrow> bytes option \<Rightarrow> ('m, 'p) io_core \<Rightarrow> bool" where
  "may_send ch payload self \<longleftrightarrow>
     \<not> (io_active_multi_frame self ! unat (channel_get ch) \<noteq> None
        \<and> is_multi (max_frame_size (io_juliet self)) payload)"

lemma item_should_wait_eq:
  assumes "io_shape m cfgs self" and "in_range ch cfgs" and "fits payload"
  shows "item_should_wait (ItemRequest ch ioid payload permit) (io_juliet self) (io_active_multi_frame self)
      = Some (Inr (if channel_allowed_to_send_request (chan_of ch (io_juliet self)) \<and> may_send ch payload self
                   then None else Some ch))"
    and "item_should_wait (ItemResponse ch i payload) (io_juliet self) (io_active_multi_frame self)
      = Some (Inr (if may_send ch payload self then None else Some ch))"
proof -
  note shape = io_shapeD [OF assms(1)]
  note multi = is_multi_eq(2,3) [OF shape(2) assms(3)]
  have ch: "unat (channel_get ch) < length (io_active_multi_frame self)" "channel_exists ch (io_juliet self)"
    using assms(2) shape(5,7) by (simp_all add: in_range_def)
  show "item_should_wait (ItemRequest ch ioid payload permit) (io_juliet self) (io_active_multi_frame self)
      = Some (Inr (if channel_allowed_to_send_request (chan_of ch (io_juliet self)) \<and> may_send ch payload self
                   then None else Some ch))"
    and "item_should_wait (ItemResponse ch i payload) (io_juliet self) (io_active_multi_frame self)
      = Some (Inr (if may_send ch payload self then None else Some ch))"
    using ch multi shape(3)
    by (cases payload; auto simp: item_should_wait_def Let_def protocol_allowed_to_send_request_def
        lookup_channel_eq may_send_def)+
qed

text \<open>
  C34: A request queued on an existing channel goes to the wait queue, at its end, exactly if the channel has reached its
  request limit or the request spans several frames while another multi-frame message is being sent
  on the channel; in that case nothing else changes. A response waits only for the second reason. So
  \<^verbatim>\<open>create_request\<close> is never asked to exceed the limit.
\<close>

theorem queued_item_waits_iff:
  assumes "io_shape m cfgs self" and "in_range ch cfgs" and "fits payload"
  shows "(\<not> (channel_allowed_to_send_request (chan_of ch (io_juliet self)) \<and> may_send ch payload self) \<longrightarrow>
      handle_incoming_item bm (ItemRequest ch ioid payload permit) self
        = Some (Inr (), self\<lparr>io_wait_queue := (io_wait_queue self)[unat (channel_get ch) :=
            io_wait_queue self ! unat (channel_get ch) @ [ItemRequest ch ioid payload permit]]\<rparr>))
    \<and> (channel_allowed_to_send_request (chan_of ch (io_juliet self)) \<and> may_send ch payload self \<longrightarrow>
      handle_incoming_item bm (ItemRequest ch ioid payload permit) self
        = send_to_ready_queue bm (ItemRequest ch ioid payload permit) self)
    \<and> (\<not> may_send ch payload self \<longrightarrow>
      handle_incoming_item bm (ItemResponse ch i payload) self
        = Some (Inr (), self\<lparr>io_wait_queue := (io_wait_queue self)[unat (channel_get ch) :=
            io_wait_queue self ! unat (channel_get ch) @ [ItemResponse ch i payload]]\<rparr>))
    \<and> (may_send ch payload self \<longrightarrow>
      handle_incoming_item bm (ItemResponse ch i payload) self
        = send_to_ready_queue bm (ItemResponse ch i payload) self)
    \<and> (\<forall>limit. map_option fst (handle_incoming_item bm (ItemRequest ch ioid payload permit) self)
        \<noteq> Some (Inl (WouldExceedRequestLimit limit)))"
proof -
  note shape = io_shapeD [OF assms(1)]
  have n: "unat (channel_get ch) < length (io_wait_queue self)"
    using assms(2) shape(6) by (simp add: in_range_def)
  note wait = item_should_wait_eq [OF assms]
  have limit: "map_option fst (send_to_ready_queue bm (ItemRequest ch ioid payload permit) self)
      \<noteq> Some (Inl (WouldExceedRequestLimit limit))"
    if "channel_allowed_to_send_request (chan_of ch (io_juliet self))" for limit
  proof -
    have "create_request ch payload (io_juliet self) \<noteq> Some (Inl (WouldExceedRequestLimit limit), p)" for p
      using that by (cases rule: create_request_cases [OF shape(1), of ch payload])
        (auto simp: channel_allowed_to_send_request_def)
    then show ?thesis
      by (auto simp: send_to_ready_queue_def Let_def split: Option.bind_splits sum.splits)
  qed
  show ?thesis
    using n limit by (auto simp: handle_incoming_item_def wait wait_queue_push_def)
qed

lemma two_channel_io_shape:
  "io_shape (MaxFrameSize 4096) (pb_channel_config (icb_protocol two_channel_io))
     (io_core_build alist_bimap_ops two_channel_io :: ((io_id, channel_id \<times> msg_id) alist_bimap, 'p) io_core)"
  "in_range (ChannelId 1) (pb_channel_config (icb_protocol two_channel_io))"
proof -
  have "pb_max_frame_size (icb_protocol two_channel_io) = MaxFrameSize 4096"
    by (simp add: two_channel_io_def io_core_builder_new_def io_core_builder_with_default_buffer_size_def
        juliet_protocol_builder_def mfs_DEFAULT_def)
  then show "io_shape (MaxFrameSize 4096) (pb_channel_config (icb_protocol two_channel_io))
     (io_core_build alist_bimap_ops two_channel_io :: ((io_id, channel_id \<times> msg_id) alist_bimap, 'p) io_core)"
    using alist_requests.build_inv [of two_channel_io "{#} :: 'p queued_item multiset"] two_channel_protocol_inv
    by (simp add: two_channel_io_protocol io_inv_def fresh_items_def)
  show "in_range (ChannelId 1) (pb_channel_config (icb_protocol two_channel_io))"
    by (simp add: in_range_def two_channel_io_def io_core_builder_new_def
        io_core_builder_with_default_buffer_size_def juliet_protocol_builder_def)
qed

theorem queued_item_waits_iff_witness:
  "map_option fst (handle_incoming_item alist_bimap_ops (ItemRequest (ChannelId 1) (IoId 0) (Some [1, 2]) ())
     (io_core_build alist_bimap_ops two_channel_io)) \<noteq> Some (Inl (WouldExceedRequestLimit 2))"
proof -
  have "fits (Some [1, 2])"
    by (simp add: fits_def)
  from queued_item_waits_iff [OF two_channel_io_shape this, of alist_bimap_ops "IoId 0" "()"] show ?thesis
    by blast
qed

text \<open>
  C33: No semaphore permit is lost or released twice. Queueing an item adds its permit to those the core
  accounts for (held by a waiting request, or released), and promoting items from the wait queue of a
  channel leaves their multiset unchanged: a permit is released when, and only when, its request
  leaves the queue, also if sending it fails. Both operations return without a panic; in particular
  the loop over the wait queue ends, although it puts items back.
\<close>

theorem permits_conserved:
  assumes "request_map bm pairs" and "io_shape m cfgs self" and "item_ok cfgs item" and "in_range ch cfgs"
  shows "(\<exists>res self'. handle_incoming_item bm item self = Some (res, self') \<and> io_shape m cfgs self'
      \<and> permits self' = permits self + mset (item_permits item))
    \<and> (\<exists>res self'. process_wait_queue bm ch self = Some (res, self') \<and> io_shape m cfgs self'
      \<and> permits self' = permits self)"
  using request_map.handle_incoming_item_advances [OF assms(1-3), of "{}"]
    request_map.process_wait_queue_advances [OF assms(1,2,4), of "{}"]
  by (auto simp: advances_def)

theorem permits_conserved_witness:
  "\<exists>res self'. handle_incoming_item alist_bimap_ops (ItemRequest (ChannelId 1) (IoId 0) (Some [1, 2]) (5 :: nat))
       (io_core_build alist_bimap_ops two_channel_io) = Some (res, self')
     \<and> permits self' = {#5#}"
proof -
  let ?item = "ItemRequest (ChannelId 1) (IoId 0) (Some [1, 2]) (5 :: nat)"
  have "item_ok (pb_channel_config (icb_protocol two_channel_io)) ?item"
    by (simp add: item_ok_def fits_def)
  moreover have "permits (io_core_build alist_bimap_ops two_channel_io
      :: ((io_id, channel_id \<times> msg_id) alist_bimap, nat) io_core) = {#}"
    by (simp add: permits_def waiting_def io_core_build_def Let_def)
  ultimately show ?thesis
    using permits_conserved [OF alist_requests.request_map_axioms two_channel_io_shape(1) _ two_channel_io_shape(2), of ?item]
    by auto
qed

text \<open>
  C35: \<^verbatim>\<open>inject_error\<close> never panics. It leaves exactly one frame to send, with the header of the error message
  and a prefix of its payload; the ready queue, all wait queues, the request map and the read buffer
  are empty, the receiver is closed, nothing will be parsed again, and the permits of the requests
  that were waiting are released. A frame being written is not interrupted.
\<close>

theorem inject_error_spec:
  fixes self :: "('m, 'p) io_core"
  assumes "io_shape m cfgs self" and "payload_fits msg" and "error_header (om_header msg)"
  shows "\<exists>self' f. inject_error bm msg self = Some self' \<and> io_shape m cfgs self'
    \<and> io_pending_error self' = Some f \<and> frame_header f = om_header msg
    \<and> (\<exists>n. frame_segment f = take n (case om_payload msg of Some pl \<Rightarrow> pl | None \<Rightarrow> []))
    \<and> io_ready_queue self' = [] \<and> waiting self' = {#} \<and> io_request_map self' = bm_empty bm
    \<and> io_buffer self' = [] \<and> io_next_parse_at self' = usize_MAX \<and> io_receiver_closed self'
    \<and> io_current_frame self' = io_current_frame self
    \<and> mset (io_released self') = mset (io_released self) + pool (waiting self)"
proof -
  have "mset (io_released self') = mset (io_released self) + pool (waiting self)"
    if "permits self' = permits self" "waiting self' = {#}" for self' :: "('m, 'p) io_core"
    using that by (simp add: permits_def)
  then show ?thesis
    using inject_error_ok [OF assms, of bm] by blast
qed

theorem inject_error_spec_witness:
  "\<exists>self' f. inject_error alist_bimap_ops (outgoing_message_new (header_new_error Other (ChannelId 1) (Id 3)) (Some [1, 2]))
       (io_core_build alist_bimap_ops two_channel_io :: (_, nat) io_core) = Some self'
     \<and> io_pending_error self' = Some f \<and> frame_header f = header_new_error Other (ChannelId 1) (Id 3)"
  using inject_error_spec [OF two_channel_io_shape(1),
      of "outgoing_message_new (header_new_error Other (ChannelId 1) (Id 3)) (Some [1, 2])" alist_bimap_ops]
  by (auto simp: payload_fits_def outgoing_message_new_def)

end
