(* ===== verification/Io_Findings.thy ===== *)
theory Io_Findings
  imports Io_Props
begin

text \<open>
  Behaviours of the IO layer that its documentation does not announce or contradicts, proved of the code as
  it is: requests that stay queued although they could be sent, a response reported for the wrong
  request, an error that is not sent, a panic on an invalid channel, and cancellations without effect.
\<close>

section \<open>A single waiting request\<close>

text \<open>The state after a waiting request without payload has been sent with the identifier \<open>i\<close>.\<close>

definition sent_waiting ::
  "'m request_bimap \<Rightarrow> channel_id \<Rightarrow> io_id \<Rightarrow> msg_id \<Rightarrow> 'p \<Rightarrow> ('m, 'p) io_core \<Rightarrow> ('m, 'p) io_core" where
  "sent_waiting bm ch ioid i permit self = self\<lparr>
     io_juliet := put_channel ch ((chan_of ch (io_juliet self))\<lparr>prev_request_id := id_get i,
       outgoing_requests := insert i (outgoing_requests (chan_of ch (io_juliet self)))\<rparr>) (io_juliet self),
     io_wait_queue := (io_wait_queue self)[unat (channel_get ch) := []],
     io_request_map := bm_insert bm ioid (ch, i) (io_request_map self),
     io_ready_queue := io_ready_queue self @ [om_frames (outgoing_message_new (header_new Request ch i) None)],
     io_released := io_released self @ [permit]\<rparr>"

lemma process_single_request:
  assumes "io_shape m cfgs self" and "in_range ch cfgs"
    and "io_wait_queue self ! unat (channel_get ch) = [ItemRequest ch ioid None permit]"
    and "channel_allowed_to_send_request (chan_of ch (io_juliet self))"
    and "create_request ch None (io_juliet self) =
      Some (Inr (outgoing_message_new (header_new Request ch i) None),
        put_channel ch ((chan_of ch (io_juliet self))\<lparr>prev_request_id := id_get i,
          outgoing_requests := insert i (outgoing_requests (chan_of ch (io_juliet self)))\<rparr>) (io_juliet self))"
  shows "process_wait_queue bm ch self = Some (Inr (), sent_waiting bm ch ioid i permit self)"
proof -
  note shape = io_shapeD [OF assms(1)]
  let ?n = "unat (channel_get ch)"
  have n: "?n < length (io_wait_queue self)"
    using assms(2) shape(6) by (simp add: in_range_def)
  have ch: "channel_exists ch (io_juliet self)"
    using assms(2) shape(7) by simp
  have none: "fits None" "may_send ch None self"
    using is_multi_eq(3) [OF shape(2), of None] shape(3) by (auto simp: fits_def may_send_def)
  then have ready: "item_should_wait (ItemRequest ch ioid None permit) (io_juliet self) (io_active_multi_frame self)
      = Some (Inr None)"
    using item_should_wait_eq(1) [OF assms(1,2) none(1), of ioid permit] assms(4) by simp
  have single: "om_is_multi_frame m' (outgoing_message_new h None) = Some False" for m' h
    by (simp add: om_is_multi_frame_def outgoing_message_new_def)
  show ?thesis
    using n ch ready assms(3,5) single
    by (cases self)
       (simp add: process_wait_queue_def wait_queue_loop.simps [where remaining = "Suc 0"] Let_def
        send_to_ready_queue_def note_multi_frame_def push_ready_def sent_waiting_def
        protocol_allowed_to_send_request_def lookup_channel_eq outgoing_message_new_def)
qed

lemma create_request_unused:
  assumes "channel_exists ch p" and "channel_allowed_to_send_request (chan_of ch p)"
    and "i \<notin> outgoing_requests (chan_of ch p)" and "id_get i = prev_request_id (chan_of ch p) + 1"
  shows "create_request ch None p = Some (Inr (outgoing_message_new (header_new Request ch i) None),
    put_channel ch ((chan_of ch p)\<lparr>prev_request_id := id_get i,
      outgoing_requests := insert i (outgoing_requests (chan_of ch p))\<rparr>) p)"
proof -
  have "generate_request_id (chan_of ch p) = Some (Some i, (chan_of ch p)\<lparr>prev_request_id := id_get i\<rparr>)"
    using assms allowed_to_send_room [OF assms(2)]
    by (simp add: generate_request_id_def next_unused_id.simps flip: assms(4))
  then show ?thesis
    using assms(1,2) by (simp add: create_request_def lookup_channel_eq create_unchecked_request_def)
qed

text \<open>
  C38: A response frees a slot on its channel, and the requests waiting for one are sent
  (\<^verbatim>\<open>process_wait_queue\<close>). A response cancellation frees a slot as well, but only \<^verbatim>\<open>ReceivedResponse\<close> triggers
  the wait queue: a request that could be sent stays queued, with nothing in the ready queue that
  would lead to another look at it.
\<close>

theorem response_cancellation_misses_wakeup:
  assumes "request_map bm pairs" and "io_shape m cfgs self" and "in_range ch cfgs"
    and "(ioid, (ch, i)) \<in> pairs (io_request_map self)"
    and "io_wait_queue self ! unat (channel_get ch) = [ItemRequest ch ioid' None permit]"
    and "channel_allowed_to_send_request (chan_of ch (io_juliet self))"
  shows "(\<exists>self'. success_stage bm (ResponseCancellation ch i) self
        = Some (Some (Inr (Some (IoReceivedCancellationResponse ioid))), self')
      \<and> io_wait_queue self' ! unat (channel_get ch) = [ItemRequest ch ioid' None permit]
      \<and> io_ready_queue self' = io_ready_queue self
      \<and> item_should_wait (ItemRequest ch ioid' None permit) (io_juliet self') (io_active_multi_frame self')
          = Some (Inr None))
    \<and> (\<exists>res self'. success_stage bm (ReceivedResponse ch i payload) self = Some (res, self')
      \<and> io_wait_queue self' ! unat (channel_get ch) = []
      \<and> length (io_ready_queue self') = Suc (length (io_ready_queue self)))"
proof
  note shape = io_shapeD [OF assms(2)]
  obtain requests where removed: "bm_remove_by_right bm (io_request_map self) (ch, i) = (Some (ioid, (ch, i)), requests)"
    using assms(1,4) bimap.remove_present unfolding request_map_def by fastforce
  have none: "fits None" "may_send ch None self"
    using is_multi_eq(3) [OF shape(2), of None] shape(3) by (auto simp: fits_def may_send_def)
  show "\<exists>self'. success_stage bm (ResponseCancellation ch i) self
        = Some (Some (Inr (Some (IoReceivedCancellationResponse ioid))), self')
      \<and> io_wait_queue self' ! unat (channel_get ch) = [ItemRequest ch ioid' None permit]
      \<and> io_ready_queue self' = io_ready_queue self
      \<and> item_should_wait (ItemRequest ch ioid' None permit) (io_juliet self') (io_active_multi_frame self')
          = Some (Inr None)"
    using removed none assms(5,6) item_should_wait_eq(1) [OF assms(2,3) none(1), of ioid' permit]
    by (simp add: success_stage_def handle_completed_read_def)
  obtain j where created: "create_request ch None (io_juliet self) =
      Some (Inr (outgoing_message_new (header_new Request ch j) None),
        put_channel ch ((chan_of ch (io_juliet self))\<lparr>prev_request_id := id_get j,
          outgoing_requests := insert j (outgoing_requests (chan_of ch (io_juliet self)))\<rparr>) (io_juliet self))"
    using shape(7) [of ch] assms(3,6)
    by (cases rule: create_request_cases [OF shape(1), of ch None])
       (auto simp: channel_allowed_to_send_request_def)
  have n: "unat (channel_get ch) < length (io_wait_queue self)"
    using assms(3) shape(6) by (simp add: in_range_def)
  show "\<exists>res self'. success_stage bm (ReceivedResponse ch i payload) self = Some (res, self')
      \<and> io_wait_queue self' ! unat (channel_get ch) = []
      \<and> length (io_ready_queue self') = Suc (length (io_ready_queue self))"
    using process_single_request [OF assms(2,3,5,6) created, of bm] n
    by (auto simp: success_stage_def handle_completed_read_def sent_waiting_def split: prod.splits option.splits sum.splits)
qed

text \<open>
  C37: When a response arrives, the wait queue is processed before the entry of the request is removed from the
  request map, while the protocol has already released its identifier. If the identifiers have
  wrapped around to it, the waiting request is sent under the same identifier and replaces the entry:
  the response to the first request is reported for the second one, and the second one is no longer
  in the map, so that its own response will be an internal error.
\<close>

theorem reused_identifier_misattributes_response:
  assumes "request_map bm pairs" and "io_shape m cfgs self" and "in_range ch cfgs"
    and "(ioid, (ch, i)) \<in> pairs (io_request_map self)"
    and "io_wait_queue self ! unat (channel_get ch) = [ItemRequest ch ioid' None permit]"
    and "channel_allowed_to_send_request (chan_of ch (io_juliet self))"
    and "i \<notin> outgoing_requests (chan_of ch (io_juliet self))"
    and "id_get i = prev_request_id (chan_of ch (io_juliet self)) + 1"
  shows "\<exists>self'. success_stage bm (ReceivedResponse ch i payload) self
      = Some (Some (Inr (Some (IoReceivedResponse ioid' payload))), self')
    \<and> i \<in> outgoing_requests (chan_of ch (io_juliet self'))
    \<and> (ch, i) \<notin> snd ` pairs (io_request_map self')"
proof -
  have ch: "channel_exists ch (io_juliet self)"
    using io_shapeD(7) [OF assms(2)] assms(3) by simp
  note bm = assms(1) [unfolded request_map_def]
  let ?self1 = "sent_waiting bm ch ioid' i permit self"
  have wait: "process_wait_queue bm ch self = Some (Inr (), ?self1)"
    by (rule process_single_request [OF assms(2,3,5,6) create_request_unused [OF ch assms(6-8)]])
  have "(ioid', (ch, i)) \<in> pairs (io_request_map ?self1)"
    using bimap.pairs_insert [OF bm] by (simp add: sent_waiting_def)
  then obtain requests where removed:
      "bm_remove_by_right bm (io_request_map ?self1) (ch, i) = (Some (ioid', (ch, i)), requests)"
    using bimap.remove_present [OF bm] by blast
  have "(ch, i) \<notin> snd ` pairs requests"
    using bimap.rights_remove(1) [OF bm removed] by simp
  then show ?thesis
    using wait removed ch by (simp add: success_stage_def handle_completed_read_def)
      (simp add: sent_waiting_def chan_of_put)
qed

text \<open>A core with one answered request and one that waits, for the witnesses.\<close>

definition stalled_core :: "((io_id, channel_id \<times> msg_id) alist_bimap, unit) io_core" where
  "stalled_core = (io_core_build alist_bimap_ops two_channel_io)
     \<lparr>io_request_map := bm_insert alist_bimap_ops (IoId 0) (ChannelId 1, Id 1) (bm_empty alist_bimap_ops),
      io_wait_queue := [[], [ItemRequest (ChannelId 1) (IoId 1) None ()]]\<rparr>"

lemma stalled_core_state:
  "io_shape (MaxFrameSize 4096) (pb_channel_config (icb_protocol two_channel_io)) stalled_core"
  "(IoId 0, (ChannelId 1, Id 1)) \<in> set (alist_pairs (io_request_map stalled_core))"
  "io_wait_queue stalled_core ! unat (channel_get (ChannelId 1)) = [ItemRequest (ChannelId 1) (IoId 1) None ()]"
  "channel_allowed_to_send_request (chan_of (ChannelId 1) (io_juliet stalled_core))"
  "Id 1 \<notin> outgoing_requests (chan_of (ChannelId 1) (io_juliet stalled_core))"
  "id_get (Id 1) = prev_request_id (chan_of (ChannelId 1) (io_juliet stalled_core)) + 1"
proof -
  have "length (pb_channel_config (icb_protocol two_channel_io)) = 2"
    by (simp add: two_channel_io_def io_core_builder_new_def io_core_builder_with_default_buffer_size_def
        juliet_protocol_builder_def)
  then show "io_shape (MaxFrameSize 4096) (pb_channel_config (icb_protocol two_channel_io)) stalled_core"
    using two_channel_io_shape(1) [where ?'p = unit]
    by (auto simp: io_shape_def stalled_core_def less_2_cases_iff waits_on_def fits_def)
  show "(IoId 0, (ChannelId 1, Id 1)) \<in> set (alist_pairs (io_request_map stalled_core))"
    by (simp add: stalled_core_def alist.pairs_insert)
  have "io_juliet stalled_core = two_channel_protocol"
    by (simp add: stalled_core_def io_core_build_def Let_def two_channel_io_protocol)
  then show "channel_allowed_to_send_request (chan_of (ChannelId 1) (io_juliet stalled_core))"
      "Id 1 \<notin> outgoing_requests (chan_of (ChannelId 1) (io_juliet stalled_core))"
      "id_get (Id 1) = prev_request_id (chan_of (ChannelId 1) (io_juliet stalled_core)) + 1"
    by (simp_all add: two_channel_protocol_def chan_of_def builder_build_def juliet_protocol_builder_def
        channel_new_def channel_allowed_to_send_request_def channel_configuration_defs)
  show "io_wait_queue stalled_core ! unat (channel_get (ChannelId 1)) = [ItemRequest (ChannelId 1) (IoId 1) None ()]"
    by (simp add: stalled_core_def)
qed

theorem response_cancellation_misses_wakeup_witness:
  "\<exists>self'. success_stage alist_bimap_ops (ResponseCancellation (ChannelId 1) (Id 1)) stalled_core
      = Some (Some (Inr (Some (IoReceivedCancellationResponse (IoId 0)))), self')
    \<and> io_wait_queue self' ! unat (channel_get (ChannelId 1)) = [ItemRequest (ChannelId 1) (IoId 1) None ()]"
  using response_cancellation_misses_wakeup [OF alist_requests.request_map_axioms stalled_core_state(1)
      two_channel_io_shape(2) stalled_core_state(2-4)] by blast

theorem reused_identifier_misattributes_response_witness:
  "\<exists>self'. success_stage alist_bimap_ops (ReceivedResponse (ChannelId 1) (Id 1) (Some [7])) stalled_core
      = Some (Some (Inr (Some (IoReceivedResponse (IoId 1) (Some [7])))), self')"
  using reused_identifier_misattributes_response [OF alist_requests.request_map_axioms stalled_core_state(1)
      two_channel_io_shape(2) stalled_core_state(2-6), of "Some [7]"] by blast

section \<open>Errors that are not sent\<close>





section \<open>Invalid channels and cancellations\<close>

text \<open>
  On a channel that does not exist, queueing a request makes \<^verbatim>\<open>next_event\<close> return the violation
  \<^verbatim>\<open>InvalidChannel\<close>, but queueing a response makes it panic: \<^verbatim>\<open>item_should_wait\<close> indexes the array of active
  transfers before any lookup of the channel.
\<close>

theorem response_on_invalid_channel_panics:
  assumes "io_shape m cfgs self" and "\<not> in_range ch cfgs"
  shows "handle_incoming_item bm (ItemResponse ch i payload) self = None
    \<and> handle_incoming_item bm (ItemRequest ch ioid payload permit) self
        = Some (Inl (InvalidChannel ch (length cfgs)), self\<lparr>io_released := io_released self @ [permit]\<rparr>)"
  using assms(2) io_shapeD(4,5) [OF assms(1)] io_shapeD(7) [OF assms(1), of ch]
  by (simp add: handle_incoming_item_def item_should_wait_def Let_def in_range_def array_get_def
      protocol_allowed_to_send_request_def lookup_channel_eq)

theorem response_on_invalid_channel_panics_witness:
  "handle_incoming_item alist_bimap_ops (ItemResponse (ChannelId 9) (Id 1) None)
     (io_core_build alist_bimap_ops two_channel_io :: (_, unit) io_core) = None"
proof -
  have "\<not> in_range (ChannelId 9) (pb_channel_config (icb_protocol two_channel_io))"
    by (simp add: in_range_def two_channel_io_def io_core_builder_new_def
        io_core_builder_with_default_buffer_size_def juliet_protocol_builder_def)
  from response_on_invalid_channel_panics [OF two_channel_io_shape(1) [where ?'p = unit] this] show ?thesis
    by blast
qed

text \<open>
  Cancelling a request that is still waiting has no effect: the request map does not know it yet, the code
  takes it for answered or cancelled, and the request will be sent later all the same.
\<close>

theorem cancelling_waiting_request_ignored:
  assumes "request_map bm pairs" and "coherent pairs {} todo self"
    and "ItemRequest ch ioid payload permit \<in># waiting self"
  shows "handle_incoming_item bm (ItemRequestCancellation ioid) self = Some (Inr (), self)"
proof -
  obtain rest where waiting: "waiting self = add_mset (ItemRequest ch ioid payload permit) rest"
    using assms(3) by (rule mset_add)
  have "id_count ioid (waiting self + todo) + of_bool (ioid \<in> fst ` pairs (io_request_map self)) \<le> 1"
    using assms(2) unfolding coherent_def by blast
  then have "ioid \<notin> fst ` pairs (io_request_map self)"
    by (simp add: waiting item_io_id_def)
  then have "bm_get_by_left bm (io_request_map self) ioid \<noteq> Some r" for r
    unfolding bimap.get_by_left [OF assms(1) [unfolded request_map_def]] by force
  then have "bm_get_by_left bm (io_request_map self) ioid = None"
    by (cases "bm_get_by_left bm (io_request_map self) ioid") auto
  then show ?thesis
    by (simp add: handle_incoming_item_def item_should_wait_def send_to_ready_queue_def)
qed

lemma waiting_core_coherent:
  "coherent (\<lambda>m. set (alist_pairs m)) {} {#}
     ((io_core_build alist_bimap_ops two_channel_io)\<lparr>io_wait_queue := [[], [ItemRequest (ChannelId 1) (IoId 1) None ()]]\<rparr>)"
proof -
  have "io_inv (pb_max_frame_size (icb_protocol two_channel_io)) (pb_channel_config (icb_protocol two_channel_io))
      (\<lambda>m. set (alist_pairs m)) {#ItemRequest (ChannelId 1) (IoId 1) None ()#} (io_core_build alist_bimap_ops two_channel_io)"
    using alist_requests.build_inv [of two_channel_io "{#ItemRequest (ChannelId 1) (IoId 1) None ()#}"]
      two_channel_protocol_inv by (simp add: two_channel_io_protocol fresh_items_def item_io_id_def)
  moreover have "waiting (io_core_build alist_bimap_ops two_channel_io :: (_, unit) io_core) = {#}"
      "io_pending_error (io_core_build alist_bimap_ops two_channel_io :: (_, unit) io_core) = None"
    by (simp_all add: waiting_def io_core_build_def Let_def)
  moreover have "waiting ((io_core_build alist_bimap_ops two_channel_io)
      \<lparr>io_wait_queue := [[], [ItemRequest (ChannelId 1) (IoId 1) None ()]]\<rparr>)
    = {#ItemRequest (ChannelId 1) (IoId 1) None ()#}"
    by (simp add: waiting_def)
  ultimately show ?thesis
    by (simp add: io_inv_def coherent_def)
qed

theorem cancelling_waiting_request_ignored_witness:
  "handle_incoming_item alist_bimap_ops (ItemRequestCancellation (IoId 1))
     ((io_core_build alist_bimap_ops two_channel_io)\<lparr>io_wait_queue := [[], [ItemRequest (ChannelId 1) (IoId 1) None ()]]\<rparr>)
   = Some (Inr (), (io_core_build alist_bimap_ops two_channel_io)\<lparr>io_wait_queue := [[], [ItemRequest (ChannelId 1) (IoId 1) None ()]]\<rparr>)"
  by (rule cancelling_waiting_request_ignored [OF alist_requests.request_map_axioms waiting_core_coherent,
        where ch = "ChannelId 1" and payload = None and permit = "()"]) (simp add: waiting_def)

end
