(* ===== verification/Ready_Queue.thy ===== *)
theory Ready_Queue
  imports Io_Findings "HOL-Library.Sublist"
begin

text \<open>
  The order in which \<^verbatim>\<open>IoCore\<close> sends frames. \<^verbatim>\<open>ready_next_frame\<close> takes one frame of the first message of the
  ready queue and puts the message, if it has more frames, at the end of the queue. The abstract
  scheduler \<open>rotate_frames\<close> does the same on lists of frames; it equals the reading of these lists column by
  column: first the first frame of every message, then the second frame of every message that has one,
  and so on. So no message holds up another for more than one frame per round.
\<close>

section \<open>Rotation of lists\<close>

function rotate_frames :: "'a list list \<Rightarrow> 'a list" where
  "rotate_frames [] = []"
| "rotate_frames ([] # fss) = rotate_frames fss"
| "rotate_frames ([f] # fss) = f # rotate_frames fss"
| "rotate_frames ((f # g # fs) # fss) = f # rotate_frames (fss @ [g # fs])"
  by pat_completeness auto
termination
  by (relation "measure (\<lambda>fss. sum_list (map (Suc \<circ> length) fss))") auto

lemma transpose_nonempty: "transpose (filter (\<lambda>fs. fs \<noteq> []) fss) = transpose fss"
proof (induction fss rule: transpose.induct)
  case (3 f fs fss)
  have "concat (map (case_list [] (\<lambda>h t. [h])) (filter (\<lambda>fs. fs \<noteq> []) fss)) = concat (map (case_list [] (\<lambda>h t. [h])) fss)"
    "concat (map (case_list [] (\<lambda>h t. [t])) (filter (\<lambda>fs. fs \<noteq> []) fss)) = concat (map (case_list [] (\<lambda>h t. [t])) fss)"
    by (induction fss) (auto split: list.splits)
  then show ?case by simp
qed simp_all

lemma transpose_round:
  "[] \<notin> set fss \<Longrightarrow> fss \<noteq> [] \<Longrightarrow> transpose fss = map hd fss # transpose (map tl fss)"
proof (cases fss)
  case (Cons fs rest)
  assume "[] \<notin> set fss"
  then have "concat (map (case_list [] (\<lambda>h t. [h])) rest) = map hd rest"
    "concat (map (case_list [] (\<lambda>h t. [t])) rest) = map tl rest"
    unfolding Cons by (induction rest) (auto split: list.splits)
  then show ?thesis
    using \<open>[] \<notin> set fss\<close> by (cases fs) (auto simp: Cons)
qed simp

text \<open>One round: the heads of the first lists, whose tails line up behind the others.\<close>

lemma rotate_frames_round:
  "[] \<notin> set fss \<Longrightarrow>
     rotate_frames (fss @ gss) = map hd fss @ rotate_frames (gss @ filter (\<lambda>fs. fs \<noteq> []) (map tl fss))"
proof (induction fss arbitrary: gss)
  case (Cons fs fss)
  show ?case
  proof (cases "tl fs")
    case Nil
    then have "fs = [hd fs]" using Cons.prems by (cases fs) auto
    then have "rotate_frames ((fs # fss) @ gss) = hd fs # rotate_frames (fss @ gss)"
      by (metis append_Cons rotate_frames.simps(3))
    then show ?thesis using Cons Nil by simp
  next
    case (Cons g gs)
    then have "fs = hd fs # g # gs" using Cons.prems by (cases fs) auto
    then have "rotate_frames ((fs # fss) @ gss) = hd fs # rotate_frames (fss @ gss @ [g # gs])"
      by (metis append_Cons append_assoc rotate_frames.simps(4))
    then show ?thesis using Cons.IH [of "gss @ [g # gs]"] Cons.prems Cons by simp
  qed
qed simp

lemma rotate_frames_columns: "[] \<notin> set fss \<Longrightarrow> rotate_frames fss = concat (transpose fss)"
proof (induction "sum_list (map length fss)" arbitrary: fss rule: less_induct)
  case less
  show ?case
  proof (cases "fss = []")
    case False
    let ?tails = "filter (\<lambda>fs. fs \<noteq> []) (map tl fss)"
    have le: "sum_list (map (length \<circ> tl) gss) \<le> sum_list (map length gss)" for gss :: "'a list list"
      by (induction gss) auto
    have "sum_list (map length (map tl fss)) < sum_list (map length fss)"
      using less.prems False le [of "tl fss"] by (cases fss; cases "hd fss") auto
    moreover have "sum_list (map length (filter (\<lambda>fs. fs \<noteq> []) gss)) = sum_list (map length gss)" for gss :: "'a list list"
      by (induction gss) auto
    ultimately have "rotate_frames ?tails = concat (transpose ?tails)"
      using less.hyps [of ?tails] by simp
    then show ?thesis
      using rotate_frames_round [OF less.prems, of "[]"] transpose_round [OF less.prems False]
      by (simp add: transpose_nonempty)
  qed simp
qed

text \<open>Every frame is sent exactly once, and the frames of a message in their order.\<close>

lemma mset_rotate_frames: "mset (rotate_frames fss) = sum_list (map mset fss)"
  by (induction fss rule: rotate_frames.induct) (simp_all add: ac_simps)

lemma subseq_rotate_frames: "fs \<in> set fss \<Longrightarrow> subseq fs (rotate_frames fss)"
  by (induction fss arbitrary: fs rule: rotate_frames.induct) auto

section \<open>The ready queue\<close>

text \<open>
  What the loop of \<^verbatim>\<open>next_event\<close> does to the ready queue while nothing else happens: a frame is made ready and
  written completely, until the queue is empty.
\<close>

partial_function (option) send_ready :: "('m, 'p) io_core \<Rightarrow> (outgoing_frame list \<times> ('m, 'p) io_core) option" where
  "send_ready self =
     (if io_ready_queue self = [] then Some ([], self)
      else do { self \<leftarrow> ready_next_frame self;
                (frame, final) \<leftarrow> io_current_frame self;
                (frames, self) \<leftarrow> send_ready (self\<lparr>io_current_frame := None\<rparr>);
                Some (frame # frames, self) })"

text \<open>The frames that an iterator has still to yield.\<close>

lemma collect_nonempty: "frame_iter_collect m it = Some fs \<Longrightarrow> fs \<noteq> []"
  by (subst (asm) frame_iter_collect.simps) (auto simp: bind_eq_Some_conv split: option.splits)

lemma collect_Cons:
  assumes "frame_iter_collect m it = Some (f # fs)"
  obtains "frame_iter_next_owned m it = Some (f, None)" "fs = []"
  | it' where "frame_iter_next_owned m it = Some (f, Some it')" "frame_iter_collect m it' = Some fs"
proof -
  obtain more where step: "frame_iter_next_owned m it = Some (f, more)"
      "case more of None \<Rightarrow> fs = [] | Some it' \<Rightarrow> frame_iter_collect m it' = Some fs"
    using assms [unfolded frame_iter_collect.simps [of m it]]
    by (fastforce simp: bind_eq_Some_conv split: option.splits)
  then show thesis
    using that by (cases more) auto
qed

lemma send_ready_rotates:
  assumes "map (frame_iter_collect (max_frame_size (io_juliet self))) (io_ready_queue self) = map Some fss"
    and "io_current_frame self = None"
  shows "send_ready self = Some (rotate_frames fss, self\<lparr>io_ready_queue := [], io_current_frame := None\<rparr>)"
  using assms
proof (induction fss arbitrary: self rule: rotate_frames.induct)
  case 1
  then show ?case by (cases self) (simp add: send_ready.simps)
next
  case (2 fss)
  then show ?case using collect_nonempty by fastforce
next
  case (3 f fss)
  then obtain it rest where queue: "io_ready_queue self = it # rest"
      "frame_iter_collect (max_frame_size (io_juliet self)) it = Some [f]"
      "map (frame_iter_collect (max_frame_size (io_juliet self))) rest = map Some fss"
    by auto
  have "frame_iter_next_owned (max_frame_size (io_juliet self)) it = Some (f, None)"
    using collect_Cons [OF queue(2)] collect_nonempty by blast
  then show ?case
    using 3(1) [of "self\<lparr>io_ready_queue := rest, io_current_frame := None\<rparr>"] 3(3) queue
    by (subst send_ready.simps) (simp add: ready_next_frame_def)
next
  case (4 f g fs fss)
  then obtain it rest where queue: "io_ready_queue self = it # rest"
      "frame_iter_collect (max_frame_size (io_juliet self)) it = Some (f # g # fs)"
      "map (frame_iter_collect (max_frame_size (io_juliet self))) rest = map Some fss"
    by auto
  obtain it' where "frame_iter_next_owned (max_frame_size (io_juliet self)) it = Some (f, Some it')"
      "frame_iter_collect (max_frame_size (io_juliet self)) it' = Some (g # fs)"
    using collect_Cons [OF queue(2)] by blast
  then show ?case
    using 4(1) [of "self\<lparr>io_ready_queue := rest @ [it'], io_current_frame := None\<rparr>"] 4(3) queue
    by (subst send_ready.simps) (simp add: ready_next_frame_def)
qed

lemma collect_total:
  assumes "mfs_valid m" and "iter_ok cfgs it"
  shows "\<exists>fs. frame_iter_collect m it = Some fs"
proof (cases "fi_bytes_processed it = 0")
  case True
  then have "it = om_frames (fi_msg it)" by (simp add: om_frames_def)
  then show ?thesis
    using om_frame_iter_wire [OF assms(1), of "fi_msg it"] assms(2) by (metis iter_ok_def om_frame_iter_def)
next
  case False
  then obtain pl where "om_payload (fi_msg it) = Some pl" "length pl \<le> u32_max"
      "0 < fi_bytes_processed it" "fi_bytes_processed it < length pl"
    using assms(2) by (auto simp: iter_ok_def payload_fits_def)
  from collect_later [OF assms(1) this] show ?thesis by (cases it) auto
qed

lemma collect_all: "list_all (\<lambda>it. \<exists>fs. f it = Some fs) its \<Longrightarrow> \<exists>fss. map f its = map Some fss"
  by (intro exI [of _ "map (the \<circ> f) its"]) (auto simp: list_all_iff)

text \<open>
  C13: The ready queue is served in rounds. While nothing else is queued, the core sends the remaining frames
  of the queued messages column by column: first the next frame of every message, in the order of the
  queue, then the frame after that of every message that has one, until all are sent. This ends, every
  frame is sent exactly once, and the frames of each message keep their order.
\<close>

theorem ready_queue_round_robin:
  assumes "io_shape m cfgs self" and "io_current_frame self = None"
  shows "\<exists>fss. map (frame_iter_collect m) (io_ready_queue self) = map Some fss
    \<and> send_ready self = Some (concat (transpose fss), self\<lparr>io_ready_queue := [], io_current_frame := None\<rparr>)
    \<and> mset (concat (transpose fss)) = sum_list (map mset fss)
    \<and> (\<forall>fs \<in> set fss. subseq fs (concat (transpose fss)))"
proof -
  note shape = io_shapeD [OF assms(1)]
  have m: "max_frame_size (io_juliet self) = m" "mfs_valid m"
    using shape by simp_all
  have "list_all (iter_ok cfgs) (io_ready_queue self)"
    using assms(1) by (simp add: io_shape_def)
  then have "list_all (\<lambda>it. \<exists>fs. frame_iter_collect m it = Some fs) (io_ready_queue self)"
    by (rule list.pred_mono_strong) (rule collect_total [OF m(2)])
  then obtain fss where fss: "map (frame_iter_collect m) (io_ready_queue self) = map Some fss"
    using collect_all by blast
  have "[] \<notin> set fss"
  proof
    assume "[] \<in> set fss"
    then have "Some [] \<in> set (map (frame_iter_collect m) (io_ready_queue self))"
      unfolding fss by simp
    then show False by (auto dest!: sym [of "Some []"] collect_nonempty)
  qed
  from rotate_frames_columns [OF this] show ?thesis
    using send_ready_rotates [OF _ assms(2), of fss] fss m(1) mset_rotate_frames [of fss] subseq_rotate_frames
    by metis
qed

text \<open>A core with frames of at most ten bytes, so that a payload of fourteen bytes takes three of them.\<close>

definition small_frames :: io_core_builder where
  "small_frames = io_core_builder_new ((juliet_protocol_builder 2
     (with_max_request_payload_size 14 (with_request_limit 2 channel_configuration_new)))
       \<lparr>pb_max_frame_size := MaxFrameSize 10\<rparr>)"

abbreviation small_frames_core :: "((io_id, channel_id \<times> msg_id) alist_bimap, unit) io_core" where
  "small_frames_core \<equiv> io_core_build alist_bimap_ops small_frames"

lemma small_frames_simps:
  "pb_max_frame_size (icb_protocol small_frames) = MaxFrameSize 10"
  "length (pb_channel_config (icb_protocol small_frames)) = 2"
  by (simp_all add: small_frames_def io_core_builder_new_def io_core_builder_with_default_buffer_size_def
      juliet_protocol_builder_def)

lemma small_frames_shape:
  "io_shape (MaxFrameSize 10) (pb_channel_config (icb_protocol small_frames)) small_frames_core"
proof -
  have "protocol_inv (builder_build (icb_protocol small_frames))"
    by (rule builder_build_inv) (simp add: small_frames_simps mfs_valid_def)
  from alist_requests.build_inv [OF this, of "{#} :: unit queued_item multiset"] show ?thesis
    by (simp add: io_inv_def fresh_items_def small_frames_simps)
qed

definition long_request :: outgoing_message where
  "long_request = outgoing_message_new (header_new RequestPl (ChannelId 1) (Id 1)) (Some (replicate 11 0 @ [2, 7, 8]))"

definition cancel_long_request :: outgoing_message where
  "cancel_long_request = outgoing_message_new (header_new CancelReq (ChannelId 1) (Id 1)) None"

lemma long_request_frames:
  "\<exists>f1 f2 f3. frame_iter_collect (MaxFrameSize 10) (om_frames long_request) = Some [f1, f2, f3]
     \<and> frame_content f1 = [2, 1, 1, 0, 14, 0, 0, 0, 0, 0] \<and> frame_content f2 = [2, 1, 1, 0, 0, 0, 0, 0, 0, 0]
     \<and> frame_content f3 = [2, 1, 1, 0, 2, 7, 8]"
proof -
  have "mfs_valid (MaxFrameSize 10)" "payload_fits long_request"
    by (simp_all add: mfs_valid_def payload_fits_def long_request_def outgoing_message_new_def)
  from om_frame_iter_wire [OF this] obtain fs where
    fs: "frame_iter_collect (MaxFrameSize 10) (om_frames long_request) = Some fs"
      "map frame_content fs = wire_frames (MaxFrameSize 10) long_request"
    by (auto simp: om_frame_iter_def frames_render_def)
  have wire: "wire_frames (MaxFrameSize 10) long_request
      = [[2, 1, 1, 0, 14, 0, 0, 0, 0, 0], [2, 1, 1, 0, 0, 0, 0, 0, 0, 0], [2, 1, 1, 0, 2, 7, 8]]"
    by code_simp
  show ?thesis
    using fs unfolding wire by (auto simp: map_eq_Cons_conv)
qed

lemma cancel_frames:
  "\<exists>c. frame_iter_collect (MaxFrameSize 10) (om_frames cancel_long_request) = Some [c] \<and> frame_content c = [4, 1, 1, 0]"
proof -
  have "mfs_valid (MaxFrameSize 10)" "payload_fits cancel_long_request"
    by (simp_all add: mfs_valid_def payload_fits_def cancel_long_request_def outgoing_message_new_def)
  from om_frame_iter_wire [OF this] obtain fs where
    fs: "frame_iter_collect (MaxFrameSize 10) (om_frames cancel_long_request) = Some fs"
      "map frame_content fs = wire_frames (MaxFrameSize 10) cancel_long_request"
    by (auto simp: om_frame_iter_def frames_render_def)
  have wire: "wire_frames (MaxFrameSize 10) cancel_long_request = [[4, 1, 1, 0]]"
    by code_simp
  show ?thesis
    using fs unfolding wire by (auto simp: map_eq_Cons_conv)
qed

theorem ready_queue_round_robin_witness:
  "\<exists>f1 f2 f3 c self. send_ready (small_frames_core\<lparr>io_ready_queue := [om_frames long_request, om_frames cancel_long_request]\<rparr>)
      = Some ([f1, c, f2, f3], self)
   \<and> frame_content f1 = [2, 1, 1, 0, 14, 0, 0, 0, 0, 0] \<and> frame_content c = [4, 1, 1, 0]
   \<and> frame_content f2 = [2, 1, 1, 0, 0, 0, 0, 0, 0, 0] \<and> frame_content f3 = [2, 1, 1, 0, 2, 7, 8]"
proof -
  let ?core = "small_frames_core\<lparr>io_ready_queue := [om_frames long_request, om_frames cancel_long_request]\<rparr>"
  have shape: "io_shape (MaxFrameSize 10) (pb_channel_config (icb_protocol small_frames)) ?core"
    using small_frames_shape
    by (simp add: io_shape_def iter_ok_def om_frames_def long_request_def cancel_long_request_def outgoing_message_new_def
        payload_fits_def in_range_def small_frames_simps)
  have current: "io_current_frame ?core = None"
    by (simp add: io_core_build_def Let_def)
  from ready_queue_round_robin [OF shape current] obtain fss where
    fss: "map (frame_iter_collect (MaxFrameSize 10)) (io_ready_queue ?core) = map Some fss"
    and sent: "\<exists>self. send_ready ?core = Some (concat (transpose fss), self)"
    by blast
  obtain f1 f2 f3 where long: "frame_iter_collect (MaxFrameSize 10) (om_frames long_request) = Some [f1, f2, f3]"
      "frame_content f1 = [2, 1, 1, 0, 14, 0, 0, 0, 0, 0]" "frame_content f2 = [2, 1, 1, 0, 0, 0, 0, 0, 0, 0]"
      "frame_content f3 = [2, 1, 1, 0, 2, 7, 8]"
    using long_request_frames by blast
  obtain c where cancel: "frame_iter_collect (MaxFrameSize 10) (om_frames cancel_long_request) = Some [c]"
      "frame_content c = [4, 1, 1, 0]"
    using cancel_frames by blast
  have "fss = [[f1, f2, f3], [c]]"
    using fss long(1) cancel(1) by (auto simp: Cons_eq_map_conv)
  then show ?thesis
    using sent long(2-4) cancel(2) by auto
qed

section \<open>Queueing a long request and a cancellation\<close>

lemmas small_frames_defs = small_frames_def io_core_builder_new_def io_core_builder_with_default_buffer_size_def
  juliet_protocol_builder_def builder_build_def channel_new_def channel_configuration_defs

lemma queue_long_request:
  "\<exists>core. handle_incoming_item alist_bimap_ops (ItemRequest (ChannelId 1) (IoId 0) (Some (replicate 11 0 @ [2, 7, 8])) ())
       small_frames_core = Some (Inr (), core)
     \<and> io_ready_queue core = [om_frames long_request] \<and> io_current_frame core = None \<and> io_pending_error core = None
     \<and> bm_get_by_left alist_bimap_ops (io_request_map core) (IoId 0) = Some (ChannelId 1, Id 1)
     \<and> max_frame_size (io_juliet core) = MaxFrameSize 10 \<and> channel_exists (ChannelId 1) (io_juliet core)
     \<and> Id 1 \<in> outgoing_requests (chan_of (ChannelId 1) (io_juliet core))"
proof -
  have "om_is_multi_frame (MaxFrameSize 10)
      (outgoing_message_new (header_new RequestPl (ChannelId 1) (Id 1)) (Some (replicate 11 0 @ [2, 7, 8]))) = Some True"
    by (simp add: om_is_multi_frame_def outgoing_message_new_def payload_is_multi_frame_def mfs_without_preamble_def
        mfs_without_header_def mfs_get_usize_def header_SIZE_def varint32_length_of_def)
  moreover have "next_unused_id {} i = Some i" for i
    by (simp add: next_unused_id.simps [of "{}" i])
  ultimately show ?thesis
    by (simp add: handle_incoming_item_def item_should_wait_def protocol_allowed_to_send_request_def lookup_channel_def
        channel_allowed_to_send_request_def send_to_ready_queue_def create_request_def create_unchecked_request_def
        generate_request_id_def note_multi_frame_def push_ready_def put_channel_def
        io_core_build_def small_frames_defs long_request_def Let_def chan_of_def channel_exists_def)
       (simp add: outgoing_message_new_def alist.get_by_left alist.pairs_insert alist.pairs_empty)
qed

lemma cancel_request_known:
  assumes "channel_exists ch p" and "i \<in> outgoing_requests (chan_of ch p)"
  shows "cancel_request ch i p = (Inr (Some (outgoing_message_new (header_new CancelReq ch i) None)), p)"
  using assms by (simp add: cancel_request_def lookup_channel_def channel_exists_def chan_of_def create_unchecked_request_cancellation_def)

end
