(* ===== verification/Multiplexing.thy ===== *)
theory Multiplexing
  imports Message_Types Ready_Queue
begin

text \<open>
  The frames of several messages, sent in the rounds of the ready queue, at the receiving
  \<^verbatim>\<open>process_incoming\<close>. A message of several frames is open on its channel between its first and its last
  frame; other channels, and messages of one frame on the same channel, go on meanwhile. The theory
  compares the receiver with one that gets the same messages whole, one after the other: the state of
  the first is that of the second, with the open transfers put back (\<open>opened\<close>).
\<close>

section \<open>Messages\<close>

type_synonym message_spec = "channel_id \<times> frame_kind \<times> msg_id \<times> bytes option"

fun message_of :: "message_spec \<Rightarrow> outgoing_message" where
  "message_of (ch, k, i, payload) = outgoing_message_new (header_new k ch i) payload"

text \<open>The first message is the cancellation of the request that the second one makes.\<close>

fun cancels :: "message_spec \<Rightarrow> message_spec \<Rightarrow> bool" where
  "cancels (ch, k, i, _) (ch', _, i', _) \<longleftrightarrow> k = CancelReq \<and> ch' = ch \<and> i' = i"

text \<open>The read that a message with a payload causes when it is admitted.\<close>

fun whole_read :: "message_spec \<Rightarrow> completed_read" where
  "whole_read (ch, k, i, payload) = (if k = RequestPl then NewRequest ch i payload else ReceivedResponse ch i payload)"

text \<open>Messages received whole, in order, with the reads they cause; \<^const>\<open>None\<close> is a violation.\<close>

fun receive_all :: "juliet_protocol \<Rightarrow> message_spec list \<Rightarrow> (completed_read list \<times> juliet_protocol) option" where
  "receive_all p [] = Some ([], p)"
| "receive_all p ((ch, k, i, payload) # msgs) =
     (case receive_message k ch i payload (chan_of ch p) of
        (Inl e, c) \<Rightarrow> None
      | (Inr read, c) \<Rightarrow> do {
          (reads, p) \<leftarrow> receive_all (put_channel ch c p) msgs;
          Some (case read of Some v \<Rightarrow> v # reads | None \<Rightarrow> reads, p) })"

lemma receive_all_Cons:
  assumes "receive_all p ((ch, k, i, payload) # msgs) = Some (vs, p')"
  obtains read c us where "receive_message k ch i payload (chan_of ch p) = (Inr read, c)"
    and "receive_all (put_channel ch c p) msgs = Some (us, p')" and "vs = (case read of Some v \<Rightarrow> v # us | None \<Rightarrow> us)"
  using assms by (auto simp: bind_eq_Some_conv split: prod.splits sum.splits)

section \<open>Single frames\<close>

text \<open>The frames after the first one, for the bytes of the payload that are left.\<close>

definition later_frames :: "max_frame_size \<Rightarrow> header \<Rightarrow> bytes \<Rightarrow> bytes list" where
  "later_frames m h bs = map ((@) (header_as_ref h)) (split_chunks (mfs_get_usize m - header_SIZE) bs)"

lemma later_frames_cases:
  assumes "mfs_valid m" and "later_frames m h bs = f # rest"
  shows "f = header_as_ref h @ take (mfs_get_usize m - 4) bs"
    and "rest = [] \<longleftrightarrow> length bs \<le> mfs_get_usize m - 4"
    and "rest \<noteq> [] \<Longrightarrow> rest = later_frames m h (drop (mfs_get_usize m - 4) bs)"
proof -
  have "0 < mfs_get_usize m - 4"
    using mfs_valid_get [OF assms(1)] by simp
  then show "f = header_as_ref h @ take (mfs_get_usize m - 4) bs"
    "rest = [] \<longleftrightarrow> length bs \<le> mfs_get_usize m - 4"
    "rest \<noteq> [] \<Longrightarrow> rest = later_frames m h (drop (mfs_get_usize m - 4) bs)"
    using assms(2) by (cases "length bs \<le> mfs_get_usize m - 4";
      auto simp: later_frames_def header_SIZE_def split_chunks_short split_chunks_long)+
qed

lemma wire_frames_cases:
  assumes "mfs_valid m" and "length pl \<le> u32_max"
  defines "n \<equiv> mfs_get_usize m - 4 - length (leb128 (length pl))"
  shows "wire_frames m (outgoing_message_new h (Some pl)) =
    (if length pl \<le> n then [header_as_ref h @ leb128 (length pl) @ pl]
     else (header_as_ref h @ leb128 (length pl) @ take n pl) # later_frames m h (drop n pl))"
proof -
  have "length (leb128 (length pl)) < mfs_get_usize m - 4"
    using mfs_valid_get [OF assms(1)] length_leb128_bounds(2) [OF assms(2)] by simp
  then show ?thesis
    by (simp add: wire_frames_def later_frames_def outgoing_message_new_def message_stream_def header_SIZE_def n_def
        split_chunks_short split_chunks_long)
qed

lemma later_frames_not_Nil [simp]: "later_frames m h bs \<noteq> []"
  by (simp add: later_frames_def)

text \<open>\<open>reads\<close> is what the receiver reports while it consumes exactly the bytes \<open>w\<close>.\<close>

definition consumes :: "juliet_protocol \<Rightarrow> bytes \<Rightarrow> completed_read list \<Rightarrow> juliet_protocol \<Rightarrow> bool" where
  "consumes p w reads p' \<longleftrightarrow> (\<forall>xs. drain process_incoming p (w @ xs) =
     do { (vs, st, s, b) \<leftarrow> drain process_incoming p' xs; Some (reads @ vs, st, s, b) })"

lemma consumes_Nil: "consumes p [] [] p"
  by (simp add: consumes_def split: Option.bind_split)

lemma consumes_append:
  assumes "consumes p w reads p'" and "consumes p' w' reads' p''"
  shows "consumes p (w @ w') (reads @ reads') p''"
  using assms by (auto simp: consumes_def split: Option.bind_split)

lemma consumes_Cons:
  assumes "consumes p w reads p'" and "\<exists>vs. consumes p' (concat ws) vs p'' \<and> mset vs = expected"
  shows "\<exists>vs. consumes p (concat (w # ws)) vs p'' \<and> mset vs = mset reads + expected"
proof -
  obtain vs where "consumes p' (concat ws) vs p''" "mset vs = expected"
    using assms(2) by blast
  then show ?thesis
    using consumes_append [OF assms(1)] by (intro exI [of _ "reads @ vs"]) simp
qed

lemma consumes_frame:
  assumes "protocol_inv p" and "channel_exists ch p" and "w = header_as_ref (header_new k ch i) @ body"
    and "\<And>xs. handle_frame (max_frame_size p) k (header_new k ch i) (chan_of ch p) (w @ xs)
      = Some (map_option Success read, c, xs)"
  shows "consumes p w (case read of Some v \<Rightarrow> [v] | None \<Rightarrow> []) (put_channel ch c p)"
    and "protocol_inv (put_channel ch c p)"
proof -
  have "drain process_incoming p (w @ xs) =
      do { (vs, st, s, b) \<leftarrow> drain process_incoming (put_channel ch c p) xs;
           Some ((case read of Some v \<Rightarrow> [v] | None \<Rightarrow> []) @ vs, st, s, b) }" for xs
  proof -
    have "process_incoming p (w @ xs) =
        (case read of Some v \<Rightarrow> Some (Success v, put_channel ch c p, xs)
         | None \<Rightarrow> process_incoming (put_channel ch c p) xs)"
      using process_incoming_step [OF assms(2), of k i "body @ xs" "map_option Success read" c xs] assms(4) [of xs]
      by (simp add: assms(3) split: option.splits)
    then show ?thesis
      by (cases read) (simp_all add: drain.simps [of process_incoming p]
          drain.simps [of process_incoming "put_channel ch c p" xs] split: Option.bind_split)
  qed
  then show "consumes p w (case read of Some v \<Rightarrow> [v] | None \<Rightarrow> []) (put_channel ch c p)"
    by (simp add: consumes_def)
  have "channel_inv c \<and> config c = config (chan_of ch p)"
    using handle_frame_laws [OF protocol_channel(2,1) [OF assms(1,2)], of w "header_new k ch i" k] assms(4) [of "[]"]
    by (auto simp: step_laws_def assms(3))
  then show "protocol_inv (put_channel ch c p)"
    using protocol_like_put_chan [OF protocol_like_refl [OF assms(1)], of c ch] by (simp add: protocol_like_def)
qed

lemma receive_message_same_receiver:
  "receive_message k ch i payload c = (res, c') \<Longrightarrow>
     c'\<lparr>current_multiframe_receiver := current_multiframe_receiver c\<rparr> = c'"
  using receive_message_receiver by (cases c') fastforce

text \<open>A message of one frame, whatever transfer is open on the channel.\<close>

lemma handle_whole:
  assumes "channel_inv c" and "mfs_valid m" and "well_formed (config c) k payload"
    and "wire_frames m (outgoing_message_new (header_new k ch i) payload) = [w]"
    and "in_progress_header (current_multiframe_receiver c) \<noteq> Some (header_new k ch i)"
    and "\<And>h. k = CancelReq \<Longrightarrow> in_progress_header (current_multiframe_receiver c) = Some h \<Longrightarrow> header_id h \<noteq> i"
    and "receive_message k ch i payload c = (Inr read, c')"
  shows "\<exists>body. w = header_as_ref (header_new k ch i) @ body"
    and "handle_frame m k (header_new k ch i) c (w @ xs) = Some (map_option Success read, c', xs)"
proof -
  have "(\<exists>body. w = header_as_ref (header_new k ch i) @ body)
      \<and> handle_frame m k (header_new k ch i) c (w @ xs) = Some (map_option Success read, c', xs)"
  proof (cases payload)
    case None
    then have "\<not> carries_payload k" and "w = header_as_ref (header_new k ch i)"
      using assms(3,4) by (auto simp: well_formed_def wire_frames_def outgoing_message_new_def message_stream_def
          split_chunks_short)
    then show ?thesis
      using handle_frame_plain [of k c i m ch xs] assms(6,7) None by (cases read) simp_all
  next
    case (Some pl)
    then have k: "carries_payload k" and limit: "length pl \<le> unat (payload_limit k (config c))"
      using assms(3) by (simp_all add: well_formed_def)
    have fits: "length pl \<le> u32_max"
      using limit unat_u32_le [of "payload_limit k (config c)"] by linarith
    let ?h = "header_new k ch i" and ?n = "mfs_get_usize m - 4 - length (leb128 (length pl))"
    have short: "length pl \<le> ?n" and w: "w = header_as_ref ?h @ leb128 (length pl) @ pl"
      using assms(4) wire_frames_cases [OF assms(2) fits, of ?h] Some by (simp_all split: if_splits)
    have acc: "accept_spec m (payload_limit k (config c)) (if k = RequestPl then RequestTooLarge else ResponseTooLarge)
        (current_multiframe_receiver c) ?h (w @ xs) = (Success (SingleFrame pl), current_multiframe_receiver c, xs)"
      using accept_spec_single_frame [OF assms(2) limit assms(5) short] by (simp add: w)
    obtain v where v: "read = Some v"
      using assms(7) k by (cases read) (auto simp: receive_message_def carries_payload_def split: if_splits)
    have "4 \<le> length (w @ xs)" by (simp add: w)
    note first = handle_first_frame [OF k assms(1,2) this assms(7) [unfolded Some v] acc]
    then show ?thesis
      using v w receive_message_same_receiver [OF assms(7)] by simp
  qed
  then show "\<exists>body. w = header_as_ref (header_new k ch i) @ body"
    and "handle_frame m k (header_new k ch i) c (w @ xs) = Some (map_option Success read, c', xs)"
    by blast+
qed

text \<open>The first frame of a message of several frames.\<close>

lemma handle_start:
  assumes "channel_inv c" and "mfs_valid m" and "well_formed (config c) k payload"
    and "wire_frames m (outgoing_message_new (header_new k ch i) payload) = w # rest" and "rest \<noteq> []"
    and "current_multiframe_receiver c = Ready"
    and "receive_message k ch i payload c = (Inr read, c')"
  obtains pl n where "payload = Some pl" and "carries_payload k" and "length pl \<le> u32_max"
    and "n < length pl" and "rest = later_frames m (header_new k ch i) (drop n pl)"
    and "\<exists>body. w = header_as_ref (header_new k ch i) @ body"
    and "read = Some (transfer_read k ch i pl)" and "c' = transfer_done k i (if k = RequestPl then c' else c)"
    and "k = ResponsePl \<Longrightarrow> i \<in> outgoing_requests c"
    and "\<And>xs. handle_frame m k (header_new k ch i) c (w @ xs) = Some (None, (if k = RequestPl then c' else c)
      \<lparr>current_multiframe_receiver := InProgress (header_new k ch i) (take n pl) (of_nat (length pl))\<rparr>, xs)"
proof (cases payload)
  case None
  then show thesis
    using assms(4,5) by (simp add: wire_frames_def outgoing_message_new_def message_stream_def split_chunks_short)
next
  case (Some pl)
  then have k: "carries_payload k" and limit: "length pl \<le> unat (payload_limit k (config c))"
    using assms(3) by (simp_all add: well_formed_def)
  have fits: "length pl \<le> u32_max"
    using limit unat_u32_le [of "payload_limit k (config c)"] by linarith
  let ?h = "header_new k ch i"
  define n where "n = mfs_get_usize m - 4 - length (leb128 (length pl))"
  have long: "n < length pl" and w: "w = header_as_ref ?h @ leb128 (length pl) @ take n pl"
    and rest: "rest = later_frames m ?h (drop n pl)"
    using assms(4,5) wire_frames_cases [OF assms(2) fits, of ?h] Some by (simp_all add: n_def split: if_splits)
  have acc: "accept_spec m (payload_limit k (config c)) (if k = RequestPl then RequestTooLarge else ResponseTooLarge)
      (current_multiframe_receiver c) ?h (w @ xs) = (Success NewMultiFrame, InProgress ?h (take n pl) (of_nat (length pl)), xs)"
    for xs using accept_spec_first_frame [OF assms(2) limit] long by (simp add: w n_def assms(6))
  obtain v where v: "read = Some v"
    using assms(7) k by (cases read) (auto simp: receive_message_def carries_payload_def split: if_splits)
  have len: "4 \<le> length (w @ xs)" for xs by (simp add: w)
  note first = handle_first_frame [OF k assms(1,2) len assms(7) [unfolded Some v] acc]
  show thesis
    using that [OF Some k fits long rest _ _ first(3,4)] first(1,2) v w by simp
qed

text \<open>A later frame.\<close>

lemma handle_resume:
  assumes "channel_inv c" and "mfs_valid m" and "carries_payload k" and "k = ResponsePl \<longrightarrow> i \<in> outgoing_requests c"
    and "later_frames m (header_new k ch i) (drop n pl) = w # rest"
    and "current_multiframe_receiver c = InProgress (header_new k ch i) (take n pl) (of_nat (length pl))"
    and "n < length pl" and "length pl \<le> u32_max"
  shows "rest = [] \<Longrightarrow> handle_frame m k (header_new k ch i) c (w @ xs) = Some
      (Some (Success (transfer_read k ch i pl)), (transfer_done k i c)\<lparr>current_multiframe_receiver := Ready\<rparr>, xs)"
    and "rest \<noteq> [] \<Longrightarrow> \<exists>n' < length pl. rest = later_frames m (header_new k ch i) (drop n' pl)
      \<and> (\<forall>xs. handle_frame m k (header_new k ch i) c (w @ xs) = Some (None, c
          \<lparr>current_multiframe_receiver := InProgress (header_new k ch i) (take n' pl) (of_nat (length pl))\<rparr>, xs))"
    and "\<exists>body. w = header_as_ref (header_new k ch i) @ body"
proof -
  let ?h = "header_new k ch i" and ?N = "mfs_get_usize m - 4"
  let ?seg = "take ?N (drop n pl)"
  note frame = later_frames_cases [OF assms(2,5)]
  have size: "unat (of_nat (length pl) :: u32) = length pl"
    using assms(8) by (rule unat_of_nat_u32)
  have "take n pl @ ?seg = take (n + ?N) pl"
    by (simp add: take_add)
  then have acc: "accept_spec m (payload_limit k (config c)) ek (current_multiframe_receiver c) ?h (w @ xs) =
      (Success (if rest = [] then CompletedMultiFrame pl else IntermediateMultiFrame),
       if rest = [] then Ready else InProgress ?h (take (n + ?N) pl) (of_nat (length pl)), xs)" for ek xs
    using accept_spec_later_frame [of "take n pl" "of_nat (length pl)" ?seg m, unfolded size] assms(7) frame(1,2)
    by (auto simp: assms(6) min_def split: if_splits)
  have "4 \<le> length (w @ xs)" for xs by (simp add: frame(1))
  note step = handle_frame_continue [OF assms(3) assms(4) [rule_format] assms(2,1) this acc [of "if k = RequestPl then RequestTooLarge else ResponseTooLarge"]]
  show "rest = [] \<Longrightarrow> handle_frame m k ?h c (w @ xs) = Some
      (Some (Success (transfer_read k ch i pl)), (transfer_done k i c)\<lparr>current_multiframe_receiver := Ready\<rparr>, xs)"
    using step [of xs] by (simp add: transfer_done_receiver)
  show "\<exists>n' < length pl. rest = later_frames m ?h (drop n' pl)
      \<and> (\<forall>xs. handle_frame m k ?h c (w @ xs) = Some (None, c
          \<lparr>current_multiframe_receiver := InProgress ?h (take n' pl) (of_nat (length pl))\<rparr>, xs))" if "rest \<noteq> []"
    using that step frame(2,3) by (intro exI [of _ "n + ?N"]) (auto simp: add.commute)
  show "\<exists>body. w = header_as_ref ?h @ body"
    using frame(1) by blast
qed

section \<open>Interleaved frames\<close>

text \<open>
  The frames a sender may put on the wire for a list of messages, in any order that the protocol allows.
  \<open>sending ch\<close> is the message of several frames that is being sent on channel \<open>ch\<close>, with the frames it still
  has. A message of one frame may be sent at any time, unless it cancels the request whose frames are
  being sent; a message of several frames only when there is no other one on its channel.
\<close>

inductive multiplexed ::
  "max_frame_size \<Rightarrow> (channel_id \<rightharpoonup> message_spec \<times> bytes list) \<Rightarrow> message_spec list \<Rightarrow> bytes list \<Rightarrow> bool"
  for m where
  mx_done: "multiplexed m Map.empty [] []"
| mx_whole: "wire_frames m (message_of (ch, k, i, payload)) = [w] \<Longrightarrow>
    (case sending ch of None \<Rightarrow> True | Some (msg, fs) \<Rightarrow> \<not> cancels (ch, k, i, payload) msg) \<Longrightarrow>
    multiplexed m sending msgs ws \<Longrightarrow> multiplexed m sending ((ch, k, i, payload) # msgs) (w # ws)"
| mx_first: "wire_frames m (message_of (ch, k, i, payload)) = w # fs \<Longrightarrow> fs \<noteq> [] \<Longrightarrow> sending ch = None \<Longrightarrow>
    multiplexed m (sending(ch \<mapsto> ((ch, k, i, payload), fs))) msgs ws \<Longrightarrow>
    multiplexed m sending ((ch, k, i, payload) # msgs) (w # ws)"
| mx_more: "sending ch = Some (msg, w # fs) \<Longrightarrow> fs \<noteq> [] \<Longrightarrow>
    multiplexed m (sending(ch \<mapsto> (msg, fs))) msgs ws \<Longrightarrow> multiplexed m sending msgs (w # ws)"
| mx_last: "sending ch = Some (msg, [w]) \<Longrightarrow>
    multiplexed m (sending(ch := None)) msgs ws \<Longrightarrow> multiplexed m sending msgs (w # ws)"

text \<open>
  A channel \<open>c\<close> that has received all of a message of several frames, changed back to what it is after the first
  \<open>n\<close> bytes of the payload: the request a response answers is outstanding until the last frame, while a
  request is counted with its first frame.
\<close>

definition opened :: "frame_kind \<Rightarrow> channel_id \<Rightarrow> msg_id \<Rightarrow> bytes \<Rightarrow> nat \<Rightarrow> channel \<Rightarrow> channel" where
  "opened k ch i pl n c = c\<lparr>
     outgoing_requests := (if k = ResponsePl then insert i (outgoing_requests c) else outgoing_requests c),
     current_multiframe_receiver := InProgress (header_new k ch i) (take n pl) (of_nat (length pl))\<rparr>"

lemma opened_simps [simp]:
  "current_multiframe_receiver (opened k ch i pl n c) = InProgress (header_new k ch i) (take n pl) (of_nat (length pl))"
  "config (opened k ch i pl n c) = config c"
  "outgoing_requests (opened k ch i pl n c)
     = (if k = ResponsePl then insert i (outgoing_requests c) else outgoing_requests c)"
  "(opened k ch i pl n c)\<lparr>current_multiframe_receiver := InProgress (header_new k ch i) (take n' pl) (of_nat (length pl))\<rparr>
     = opened k ch i pl n' c"
  by (simp_all add: opened_def)

lemma opened_closed:
  assumes "carries_payload k" and "k = ResponsePl \<Longrightarrow> i \<notin> outgoing_requests c"
    and "current_multiframe_receiver c = Ready"
  shows "(transfer_done k i (opened k ch i pl n c))\<lparr>current_multiframe_receiver := Ready\<rparr> = c"
  using assms by (cases c) (auto simp: opened_def transfer_done_def carries_payload_def)

text \<open>\<open>counted\<close>: what the message of several frames has changed at the receiver of whole messages.\<close>

definition counted :: "frame_kind \<Rightarrow> msg_id \<Rightarrow> channel \<Rightarrow> bool" where
  "counted k i c \<longleftrightarrow> carries_payload k \<and> (k = RequestPl \<longrightarrow> i \<in> incoming_requests c)
     \<and> (k = ResponsePl \<longrightarrow> i \<notin> outgoing_requests c)"

lemma receive_message_opened:
  assumes "counted k i c" and "receive_message k' ch i' payload c = (Inr read, c')"
  shows "receive_message k' ch i' payload (opened k ch i pl n c) = (Inr read, opened k ch i pl n c')"
    and "counted k i c'" and "carries_payload k' \<Longrightarrow> (k', i') \<noteq> (k, i)"
proof -
  note simps = receive_message_def counted_def carries_payload_def is_at_max_incoming_requests_def
    increment_cancellation_allowance_def
  show "receive_message k' ch i' payload (opened k ch i pl n c) = (Inr read, opened k ch i pl n c')"
    using assms by (cases c; cases k') (auto simp: simps opened_def insert_Diff_if split: if_splits)
  show "counted k i c'" "carries_payload k' \<Longrightarrow> (k', i') \<noteq> (k, i)"
    using assms by (cases k'; auto simp: simps split: if_splits)+
qed

section \<open>Comparison with whole messages\<close>

definition in_transfer ::
  "max_frame_size \<Rightarrow> channel_id \<Rightarrow> channel \<Rightarrow> channel \<Rightarrow> message_spec \<Rightarrow> bytes list \<Rightarrow> bool" where
  "in_transfer m ch c whole msg fs \<longleftrightarrow> (\<exists>k i pl n. msg = (ch, k, i, Some pl) \<and> n < length pl \<and> length pl \<le> u32_max
     \<and> fs = later_frames m (header_new k ch i) (drop n pl) \<and> counted k i whole \<and> c = opened k ch i pl n whole)"

text \<open>\<open>p\<close> receives interleaved frames, \<open>whole\<close> has received every message whole when its first frame was sent.\<close>

definition tracks ::
  "max_frame_size \<Rightarrow> (channel_id \<rightharpoonup> message_spec \<times> bytes list) \<Rightarrow> juliet_protocol \<Rightarrow> juliet_protocol \<Rightarrow> bool" where
  "tracks m sending p whole \<longleftrightarrow> protocol_inv p \<and> max_frame_size p = m \<and> max_frame_size whole = m
     \<and> length (channels p) = length (channels whole) \<and> drop 256 (channels p) = drop 256 (channels whole)
     \<and> finite (dom sending) \<and> (\<forall>ch \<in> dom sending. channel_exists ch whole)
     \<and> (\<forall>ch. channel_exists ch whole \<longrightarrow> current_multiframe_receiver (chan_of ch whole) = Ready
          \<and> (case sending ch of None \<Rightarrow> chan_of ch p = chan_of ch whole
             | Some (msg, fs) \<Rightarrow> in_transfer m ch (chan_of ch p) (chan_of ch whole) msg fs))"

lemma tracksD:
  assumes "tracks m sending p whole" and "channel_exists ch whole"
  shows "protocol_inv p" "max_frame_size p = m" "channel_exists ch p" "mfs_valid m" "channel_inv (chan_of ch p)"
    "current_multiframe_receiver (chan_of ch whole) = Ready"
    "sending ch = None \<Longrightarrow> chan_of ch p = chan_of ch whole"
    "sending ch = Some (msg, fs) \<Longrightarrow> in_transfer m ch (chan_of ch p) (chan_of ch whole) msg fs"
proof -
  have "channel_exists ch p" "protocol_inv p" "max_frame_size p = m"
    using assms by (simp_all add: tracks_def channel_exists_def)
  with protocol_channel [of p ch] show "protocol_inv p" "max_frame_size p = m" "channel_exists ch p" "mfs_valid m"
    "channel_inv (chan_of ch p)" by simp_all
  show "current_multiframe_receiver (chan_of ch whole) = Ready"
    "sending ch = None \<Longrightarrow> chan_of ch p = chan_of ch whole"
    "sending ch = Some (msg, fs) \<Longrightarrow> in_transfer m ch (chan_of ch p) (chan_of ch whole) msg fs"
    using assms by (auto simp: tracks_def)
qed

lemma tracks_put:
  assumes "tracks m sending p whole" and "channel_exists ch whole" and "protocol_inv (put_channel ch c p)"
    and "current_multiframe_receiver c' = Ready"
    and "case new of None \<Rightarrow> c = c' | Some (msg, fs) \<Rightarrow> in_transfer m ch c c' msg fs"
  shows "tracks m (sending(ch := new)) (put_channel ch c p) (put_channel ch c' whole)"
proof -
  have "channel_exists ch p"
    using tracksD(3) [OF assms(1,2)] .
  moreover have "drop 256 (channels (put_channel ch c p)) = drop 256 (channels p)" for c p
    using unat_u8_less [of "channel_get ch"] by (simp add: put_channel_def)
  ultimately show ?thesis
    using assms unfolding tracks_def by (cases new) (auto split: option.splits)
qed

lemma tracks_finite: "tracks m sending p whole \<Longrightarrow> finite (dom sending)"
  by (simp add: tracks_def)

lemma tracks_done:
  assumes "tracks m Map.empty p whole"
  shows "p = whole"
proof -
  have "channels p ! n = channels whole ! n" if "n < length (channels p)" for n
  proof (cases "n < 256")
    case True
    then have "unat (channel_get (ChannelId (of_nat n))) = n"
      by (simp add: unat_of_nat)
    then show ?thesis
      using assms that unfolding tracks_def channel_exists_def chan_of_def by (metis option.simps(4))
  next
    case False
    then have "drop 256 (channels p) ! (n - 256) = drop 256 (channels whole) ! (n - 256)"
      using assms by (simp add: tracks_def)
    then show ?thesis
      using False that assms by (simp add: tracks_def)
  qed
  then have "channels p = channels whole"
    using assms by (intro nth_equalityI) (simp_all add: tracks_def)
  then show ?thesis
    using assms by (simp add: tracks_def)
qed

lemma tracks_whole:
  assumes "tracks m sending p whole" and "channel_exists ch whole" and "well_formed (config (chan_of ch whole)) k payload"
    and "wire_frames m (message_of (ch, k, i, payload)) = [w]"
    and "case sending ch of None \<Rightarrow> True | Some (msg, fs) \<Rightarrow> \<not> cancels (ch, k, i, payload) msg"
    and "receive_message k ch i payload (chan_of ch whole) = (Inr read, c')"
  shows "\<exists>p'. consumes p w (case read of Some v \<Rightarrow> [v] | None \<Rightarrow> []) p' \<and> tracks m sending p' (put_channel ch c' whole)"
proof -
  note t = tracksD [OF assms(1,2)]
  let ?c = "chan_of ch p"
  have ready: "current_multiframe_receiver c' = Ready"
    using receive_message_receiver [OF assms(6)] t(6) by simp
  have "\<exists>c1. receive_message k ch i payload ?c = (Inr read, c1) \<and> config ?c = config (chan_of ch whole)
      \<and> in_progress_header (current_multiframe_receiver ?c) \<noteq> Some (header_new k ch i)
      \<and> (\<forall>h. k = CancelReq \<longrightarrow> in_progress_header (current_multiframe_receiver ?c) = Some h \<longrightarrow> header_id h \<noteq> i)
      \<and> (case sending ch of None \<Rightarrow> c1 = c' | Some (msg, fs) \<Rightarrow> in_transfer m ch c1 c' msg fs)"
  proof (cases "sending ch")
    case None
    then show ?thesis using t(6,7) assms(6) by simp
  next
    case (Some x)
    then obtain k0 i0 pl n where x: "x = ((ch, k0, i0, Some pl), later_frames m (header_new k0 ch i0) (drop n pl))"
        "n < length pl" "length pl \<le> u32_max" "counted k0 i0 (chan_of ch whole)" "?c = opened k0 ch i0 pl n (chan_of ch whole)"
      using t(8) [of "fst x" "snd x"] by (cases x) (auto simp: in_transfer_def)
    note whole = receive_message_opened [OF x(4) assms(6)]
    have "header_new k0 ch i0 \<noteq> header_new k ch i"
      using whole(3) x(4) header_new_access(2,4) by (metis counted_def option.inject)
    moreover have "k = CancelReq \<Longrightarrow> i0 \<noteq> i"
      using assms(5) Some x(1) by auto
    ultimately show ?thesis
      using whole(1,2) x Some by (auto simp: in_transfer_def)
  qed
  then obtain c1 where c1: "receive_message k ch i payload ?c = (Inr read, c1)" "config ?c = config (chan_of ch whole)"
      "in_progress_header (current_multiframe_receiver ?c) \<noteq> Some (header_new k ch i)"
      "\<And>h. k = CancelReq \<Longrightarrow> in_progress_header (current_multiframe_receiver ?c) = Some h \<Longrightarrow> header_id h \<noteq> i"
      "case sending ch of None \<Rightarrow> c1 = c' | Some (msg, fs) \<Rightarrow> in_transfer m ch c1 c' msg fs"
    by blast
  note frame = handle_whole [OF t(5,4) _ _ c1(3,4,1), unfolded c1(2), OF assms(3), of w]
  obtain body where "w = header_as_ref (header_new k ch i) @ body"
    using frame(1) assms(4) by auto
  note run = consumes_frame [OF t(1,3) this, unfolded t(2), OF frame(2)]
  show ?thesis
    using run tracks_put [OF assms(1,2) _ ready c1(5)] assms(4) by (auto simp: fun_upd_triv)
qed

lemma tracks_first:
  assumes "tracks m sending p whole" and "channel_exists ch whole" and "well_formed (config (chan_of ch whole)) k payload"
    and "wire_frames m (message_of (ch, k, i, payload)) = w # fs" and "fs \<noteq> []" and "sending ch = None"
    and "receive_message k ch i payload (chan_of ch whole) = (Inr read, c')"
  shows "read = Some (whole_read (ch, k, i, payload))"
    and "\<exists>p'. consumes p w [] p' \<and> tracks m (sending(ch \<mapsto> ((ch, k, i, payload), fs))) p' (put_channel ch c' whole)"
proof -
  note t = tracksD [OF assms(1,2)]
  note same = t(7) [OF assms(6)]
  have wire: "wire_frames m (outgoing_message_new (header_new k ch i) payload) = w # fs"
    using assms(4) by simp
  obtain pl n where start: "payload = Some pl" "carries_payload k" "length pl \<le> u32_max" "n < length pl"
      "fs = later_frames m (header_new k ch i) (drop n pl)" "\<exists>body. w = header_as_ref (header_new k ch i) @ body"
      "read = Some (transfer_read k ch i pl)" "c' = transfer_done k i (if k = RequestPl then c' else chan_of ch whole)"
      "k = ResponsePl \<Longrightarrow> i \<in> outgoing_requests (chan_of ch whole)"
      "\<And>xs. handle_frame m k (header_new k ch i) (chan_of ch whole) (w @ xs) = Some (None,
        (if k = RequestPl then c' else chan_of ch whole)
          \<lparr>current_multiframe_receiver := InProgress (header_new k ch i) (take n pl) (of_nat (length pl))\<rparr>, xs)"
    using handle_start [OF t(5) [unfolded same] t(4) assms(3) wire assms(5) t(6) assms(7)] by metis
  then show "read = Some (whole_read (ch, k, i, payload))"
    by (simp add: transfer_read_def)
  have counted: "counted k i c'"
    using start(2,8) assms(7) by (auto simp: counted_def carries_payload_def transfer_done_def receive_message_def
        increment_cancellation_allowance_def split: if_splits)
  have "(if k = RequestPl then c' else chan_of ch whole)
      \<lparr>current_multiframe_receiver := InProgress (header_new k ch i) (take n pl) (of_nat (length pl))\<rparr>
      = opened k ch i pl n c'"
    using start(2,8,9) by (auto simp: opened_def transfer_done_def carries_payload_def insert_absorb)
  with start(10) have step: "\<And>xs. handle_frame m k (header_new k ch i) (chan_of ch p) (w @ xs)
      = Some (map_option Success None, opened k ch i pl n c', xs)"
    by (simp add: same)
  obtain body where "w = header_as_ref (header_new k ch i) @ body"
    using start(6) by blast
  note run = consumes_frame [OF t(1,3) this, unfolded t(2), OF step]
  have "current_multiframe_receiver c' = Ready"
    using receive_message_receiver [OF assms(7)] t(6) by simp
  from tracks_put [OF assms(1,2) run(2) this, of "Some ((ch, k, i, payload), fs)"]
  show "\<exists>p'. consumes p w [] p' \<and> tracks m (sending(ch \<mapsto> ((ch, k, i, payload), fs))) p' (put_channel ch c' whole)"
    using run(1) start(1,3-5) counted by (auto simp: in_transfer_def)
qed

lemma tracks_later:
  assumes "tracks m sending p whole" and "sending ch = Some (msg, w # fs)"
  shows "fs \<noteq> [] \<Longrightarrow> \<exists>p'. consumes p w [] p' \<and> tracks m (sending(ch \<mapsto> (msg, fs))) p' whole"
    and "fs = [] \<Longrightarrow> \<exists>p'. consumes p w [whole_read msg] p' \<and> tracks m (sending(ch := None)) p' whole"
proof -
  have ex: "channel_exists ch whole"
    using assms by (auto simp: tracks_def)
  note t = tracksD [OF assms(1) this]
  obtain k i pl n where msg: "msg = (ch, k, i, Some pl)" "n < length pl" "length pl \<le> u32_max"
      "later_frames m (header_new k ch i) (drop n pl) = w # fs" "counted k i (chan_of ch whole)"
      "chan_of ch p = opened k ch i pl n (chan_of ch whole)"
    using t(8) [OF assms(2)] by (auto simp: in_transfer_def)
  then have k: "carries_payload k" "k = ResponsePl \<longrightarrow> i \<in> outgoing_requests (chan_of ch p)"
    and recv: "current_multiframe_receiver (chan_of ch p) = InProgress (header_new k ch i) (take n pl) (of_nat (length pl))"
    by (simp_all add: counted_def)
  note resume = handle_resume [OF t(5,4) k msg(4) recv msg(2,3)]
  obtain body where body: "w = header_as_ref (header_new k ch i) @ body"
    using resume(3) by blast
  note run = consumes_frame [OF t(1,3) body, unfolded t(2)]
  show "\<exists>p'. consumes p w [] p' \<and> tracks m (sending(ch \<mapsto> (msg, fs))) p' whole" if more: "fs \<noteq> []"
  proof -
    obtain n' where n': "n' < length pl" "fs = later_frames m (header_new k ch i) (drop n' pl)"
        "\<And>xs. handle_frame m k (header_new k ch i) (chan_of ch p) (w @ xs) = Some (map_option Success None,
          opened k ch i pl n' (chan_of ch whole), xs)"
      using resume(2) [OF more] by (auto simp: msg(6))
    note run = run [OF n'(3)]
    from tracks_put [OF assms(1) ex run(2) t(6), of "Some (msg, fs)"] show ?thesis
      using run(1) msg(1,3,5) n' by (auto simp: in_transfer_def)
  qed
  show "\<exists>p'. consumes p w [whole_read msg] p' \<and> tracks m (sending(ch := None)) p' whole" if last: "fs = []"
  proof -
    have "(transfer_done k i (chan_of ch p))\<lparr>current_multiframe_receiver := Ready\<rparr> = chan_of ch whole"
      unfolding msg(6) by (rule opened_closed) (use msg(5) t(6) in \<open>simp_all add: counted_def\<close>)
    then have "\<And>xs. handle_frame m k (header_new k ch i) (chan_of ch p) (w @ xs)
        = Some (map_option Success (Some (transfer_read k ch i pl)), chan_of ch whole, xs)"
      using resume(1) [OF last] by simp
    note run = run [OF this]
    from tracks_put [OF assms(1) ex run(2) t(6), of None] show ?thesis
      using run(1) msg(1) by (auto simp: transfer_read_def)
  qed
qed

text \<open>The reads still to come for the messages that are being sent.\<close>

definition due :: "(channel_id \<rightharpoonup> message_spec \<times> bytes list) \<Rightarrow> completed_read multiset" where
  "due sending = image_mset (\<lambda>ch. whole_read (fst (the (sending ch)))) (mset_set (dom sending))"

lemma due_split:
  assumes "finite (dom sending)" and "sending ch = Some (msg, fs)"
  shows "due sending = add_mset (whole_read msg) (due (sending(ch := None)))"
proof -
  have "dom sending = insert ch (dom sending - {ch})"
    using assms(2) by auto
  then have "mset_set (dom sending) = add_mset ch (mset_set (dom sending - {ch}))"
    using assms(1) by (metis finite_Diff insert_Diff_single mset_set.insert Diff_iff singletonI)
  then show ?thesis
    using assms(2) by (auto simp: due_def assms(1) intro!: image_mset_cong)
qed

lemma due_upd:
  assumes "finite (dom sending)"
  shows "sending ch = None \<Longrightarrow> due (sending(ch \<mapsto> (msg, fs))) = add_mset (whole_read msg) (due sending)"
    and "sending ch = Some (msg, fs') \<Longrightarrow> due (sending(ch \<mapsto> (msg, fs))) = due sending"
  using due_split [of "sending(ch \<mapsto> (msg, fs))" ch msg fs] due_split [of sending ch msg fs'] assms
  by (simp_all add: fun_upd_idem)

fun acceptable :: "juliet_protocol \<Rightarrow> message_spec \<Rightarrow> bool" where
  "acceptable p (ch, k, i, payload) \<longleftrightarrow> channel_exists ch p \<and> well_formed (config (chan_of ch p)) k payload"

lemma acceptable_put:
  "channel_exists ch p \<Longrightarrow> config c = config (chan_of ch p) \<Longrightarrow> acceptable (put_channel ch c p) msg = acceptable p msg"
  by (cases msg) (metis acceptable.simps chan_of_put_other chan_of_put_same channel_exists_put)

lemma multiplexed_tracks:
  assumes "multiplexed m sending msgs ws" and "tracks m sending p whole" and "list_all (acceptable whole) msgs"
    and "receive_all whole msgs = Some (vs, whole')"
  shows "\<exists>reads. consumes p (concat ws) reads whole' \<and> mset reads = mset vs + due sending"
  using assms
proof (induction arbitrary: p whole vs rule: multiplexed.induct)
  case mx_done
  then show ?case
    using consumes_Nil tracks_done by (auto simp: due_def)
next
  case (mx_whole ch k i payload w sending msgs ws)
  obtain read c' us where all: "receive_message k ch i payload (chan_of ch whole) = (Inr read, c')"
      "receive_all (put_channel ch c' whole) msgs = Some (us, whole')"
      "vs = (case read of Some v \<Rightarrow> v # us | None \<Rightarrow> us)"
    using receive_all_Cons [OF mx_whole.prems(3)] .
  have ok: "channel_exists ch whole" "well_formed (config (chan_of ch whole)) k payload"
    using mx_whole.prems(2) by simp_all
  obtain p' where p': "consumes p w (case read of Some v \<Rightarrow> [v] | None \<Rightarrow> []) p'"
      "tracks m sending p' (put_channel ch c' whole)"
    using tracks_whole [OF mx_whole.prems(1) ok mx_whole.hyps(1,2) all(1)] by blast
  have "list_all (acceptable (put_channel ch c' whole)) msgs"
    using mx_whole.prems(2) acceptable_put [OF ok(1)] receive_message_receiver [OF all(1)] by (simp add: list_all_iff)
  from consumes_Cons [OF p'(1) mx_whole.IH [OF p'(2) this all(2)]] show ?case
    using all(3) by (simp split: option.splits)
next
  case (mx_first ch k i payload w fs sending msgs ws)
  obtain read c' us where all: "receive_message k ch i payload (chan_of ch whole) = (Inr read, c')"
      "receive_all (put_channel ch c' whole) msgs = Some (us, whole')"
      "vs = (case read of Some v \<Rightarrow> v # us | None \<Rightarrow> us)"
    using receive_all_Cons [OF mx_first.prems(3)] .
  have ok: "channel_exists ch whole" "well_formed (config (chan_of ch whole)) k payload"
    using mx_first.prems(2) by simp_all
  note first = tracks_first [OF mx_first.prems(1) ok mx_first.hyps(1-3) all(1)]
  obtain p' where p': "consumes p w [] p'"
      "tracks m (sending(ch \<mapsto> ((ch, k, i, payload), fs))) p' (put_channel ch c' whole)"
    using first(2) by blast
  have "list_all (acceptable (put_channel ch c' whole)) msgs"
    using mx_first.prems(2) acceptable_put [OF ok(1)] receive_message_receiver [OF all(1)] by (simp add: list_all_iff)
  from consumes_Cons [OF p'(1) mx_first.IH [OF p'(2) this all(2)]] show ?case
    using all(3) first(1) due_upd(1) [OF tracks_finite [OF mx_first.prems(1)] mx_first.hyps(3)]
    by (simp del: fun_upd_apply whole_read.simps)
next
  case (mx_more sending ch msg w fs msgs ws)
  obtain p' where p': "consumes p w [] p'" "tracks m (sending(ch \<mapsto> (msg, fs))) p' whole"
    using tracks_later(1) [OF mx_more.prems(1) mx_more.hyps(1,2)] by blast
  from consumes_Cons [OF p'(1) mx_more.IH [OF p'(2) mx_more.prems(2,3)]] show ?case
    using due_upd(2) [OF tracks_finite [OF mx_more.prems(1)] mx_more.hyps(1)] by (simp del: fun_upd_apply)
next
  case (mx_last sending ch msg w msgs ws)
  obtain p' where p': "consumes p w [whole_read msg] p'" "tracks m (sending(ch := None)) p' whole"
    using tracks_later(2) [OF mx_last.prems(1) mx_last.hyps(1)] by blast
  from consumes_Cons [OF p'(1) mx_last.IH [OF p'(2) mx_last.prems(2,3)]] show ?case
    using due_split [OF tracks_finite [OF mx_last.prems(1)] mx_last.hyps(1)] by (simp del: fun_upd_apply)
qed


section \<open>The rounds of the ready queue\<close>

definition long_message :: "max_frame_size \<Rightarrow> message_spec \<Rightarrow> bool" where
  "long_message m msg \<longleftrightarrow> 1 < length (wire_frames m (message_of msg))"

text \<open>What a ready queue must be like: one long message per channel, and no cancellation of a long one.\<close>

definition schedulable :: "max_frame_size \<Rightarrow> message_spec list \<Rightarrow> bool" where
  "schedulable m msgs \<longleftrightarrow> distinct (map fst (filter (long_message m) msgs))
     \<and> (\<forall>msg \<in> set msgs. \<forall>msg' \<in> set msgs. long_message m msg' \<longrightarrow> \<not> cancels msg msg')"

text \<open>The messages that are being sent, as the entries at the end of the queue.\<close>

definition serves :: "(message_spec \<times> bytes list) list \<Rightarrow> (channel_id \<rightharpoonup> message_spec \<times> bytes list) \<Rightarrow> bool" where
  "serves queue sending \<longleftrightarrow> distinct (map (fst \<circ> fst) queue)
     \<and> (\<forall>ch x. sending ch = Some x \<longleftrightarrow> x \<in> set queue \<and> fst (fst x) = ch)"

lemma serves_Nil [simp]: "serves [] sending \<longleftrightarrow> sending = Map.empty"
  by (auto simp: serves_def fun_eq_iff simp del: split_paired_All)

lemma serves_close: "serves ((msg, fs) # queue) sending \<Longrightarrow> serves queue (sending(fst msg := None))"
  by (auto simp: serves_def image_iff simp del: split_paired_All split_paired_Ex)

lemma serves_add:
  assumes "serves queue sending" and "fst msg \<notin> (fst \<circ> fst) ` set queue"
  shows "serves (queue @ [(msg, fs)]) (sending(fst msg \<mapsto> (msg, fs)))"
  using assms by (auto simp: serves_def image_iff simp del: split_paired_All split_paired_Ex)

lemma serves_rotate:
  assumes "serves ((msg, fs) # queue) sending"
  shows "serves (queue @ [(msg, fs')]) (sending(fst msg \<mapsto> (msg, fs')))"
proof -
  have "fst msg \<notin> (fst \<circ> fst) ` set queue"
    using assms by (simp add: serves_def comp_def)
  from serves_add [OF serves_close [OF assms] this] show ?thesis by simp
qed

lemma serves_hd: "serves ((msg, fs) # queue) sending \<Longrightarrow> sending (fst msg) = Some (msg, fs)"
  by (simp add: serves_def del: split_paired_All)

lemma serves_free: "serves queue sending \<Longrightarrow> ch \<notin> (fst \<circ> fst) ` set queue \<Longrightarrow> sending ch = None"
  by (cases "sending ch") (auto simp: serves_def image_iff simp del: split_paired_All split_paired_Ex)

lemma rotate_started:
  "serves queue sending \<Longrightarrow> [] \<notin> set (map snd queue) \<Longrightarrow> multiplexed m sending [] (rotate_frames (map snd queue))"
proof (induction "map snd queue" arbitrary: queue sending rule: rotate_frames.induct)
  case 1
  then show ?case by (simp add: mx_done)
next
  case (2 fss)
  from 2(2)[symmetric] show ?case using 2(4) by auto
next
  case (3 f fss)
  then obtain msg rest where queue: "queue = (msg, [f]) # rest" "fss = map snd rest"
    by (cases queue) auto
  have "serves ((msg, [f]) # rest) sending"
    using 3(3) queue by simp
  note current = serves_hd [OF this] and closed = serves_close [OF this]
  from mx_last [OF current 3(1) [OF queue(2) closed]] show ?case
    using 3(4) queue by simp
next
  case (4 f g fs fss)
  then obtain msg rest where queue: "queue = (msg, f # g # fs) # rest" "fss = map snd rest"
    by (cases queue) auto
  have "serves ((msg, f # g # fs) # rest) sending"
    using 4(3) queue by simp
  note current = serves_hd [OF this] and moved = serves_rotate [OF this, of "g # fs"]
  from mx_more [OF current _ 4(1) [OF _ moved]] show ?case
    using 4(4) queue by simp
qed

lemma wire_frames_not_Nil [simp]: "wire_frames m msg \<noteq> []"
  by (simp add: wire_frames_def)

lemma rotate_multiplexed:
  assumes "serves queue sending" and "[] \<notin> set (map snd queue)"
    and "distinct (map fst (filter (long_message m) msgs))"
    and "\<forall>msg \<in> set (filter (long_message m) msgs). fst msg \<notin> (fst \<circ> fst) ` set queue"
    and "\<forall>msg \<in> set msgs. \<forall>msg' \<in> set (filter (long_message m) msgs) \<union> fst ` set queue. \<not> cancels msg msg'"
  shows "multiplexed m sending msgs (rotate_frames (map (wire_frames m \<circ> message_of) msgs @ map snd queue))"
  using assms
proof (induction msgs arbitrary: queue sending)
  case Nil
  then show ?case using rotate_started by simp
next
  case (Cons msg msgs)
  obtain ch k i payload where msg: "msg = (ch, k, i, payload)"
    by (metis prod.exhaust)
  obtain w fs where wire: "wire_frames m (message_of (ch, k, i, payload)) = w # fs"
    by (metis wire_frames_not_Nil list.exhaust)
  show ?case
  proof (cases fs)
    case Nil
    have "multiplexed m sending msgs (rotate_frames (map (wire_frames m \<circ> message_of) msgs @ map snd queue))"
      using Cons.prems by (intro Cons.IH) (auto split: if_splits)
    moreover have "\<not> cancels msg msg'" if "sending ch = Some (msg', fs')" for msg' fs'
    proof -
      have "(msg', fs') \<in> set queue"
        using that Cons.prems(1) unfolding serves_def by blast
      then show ?thesis
        using Cons.prems(5) by force
    qed
    then have "case sending ch of None \<Rightarrow> True | Some (msg', fs) \<Rightarrow> \<not> cancels (ch, k, i, payload) msg'"
      unfolding msg by (simp split: option.split)
    ultimately show ?thesis
      using mx_whole [of m ch k i payload w sending] wire Nil by (simp add: msg comp_def del: message_of.simps)
  next
    case (Cons g gs)
    then have long: "long_message m msg"
      by (simp add: long_message_def msg wire del: message_of.simps)
    let ?queue = "queue @ [(msg, g # gs)]" and ?sending = "sending(ch \<mapsto> (msg, g # gs))"
    have free: "ch \<notin> (fst \<circ> fst) ` set queue"
      using Cons.prems(4) long by (simp add: msg)
    have "multiplexed m ?sending msgs (rotate_frames (map (wire_frames m \<circ> message_of) msgs @ map snd ?queue))"
    proof (rule Cons.IH)
      show "serves ?queue ?sending"
        using serves_add [OF Cons.prems(1), of msg "g # gs"] free by (simp add: msg)
      show "\<forall>x \<in> set (filter (long_message m) msgs). fst x \<notin> (fst \<circ> fst) ` set ?queue"
        using Cons.prems(3,4) long by (auto simp: msg image_iff simp del: split_paired_All split_paired_Ex)
      show "\<forall>x \<in> set msgs. \<forall>y \<in> set (filter (long_message m) msgs) \<union> fst ` set ?queue. \<not> cancels x y"
        using Cons.prems(5) long by (simp del: cancels.simps)
    qed (use Cons.prems(2,3) long in simp_all)
    moreover have "sending ch = None"
      by (rule serves_free [OF Cons.prems(1) free])
    ultimately show ?thesis
      using mx_first [of m ch k i payload w fs sending] wire Cons by (simp add: msg comp_def del: message_of.simps)
  qed
qed

lemma schedulable_rotates:
  "schedulable m msgs \<Longrightarrow> multiplexed m Map.empty msgs (rotate_frames (map (wire_frames m \<circ> message_of) msgs))"
  using rotate_multiplexed [of "[]" Map.empty m msgs] by (simp add: schedulable_def)

section \<open>Properties\<close>

lemma multiplexed_drain:
  assumes "protocol_inv p" and "list_all (\<lambda>c. current_multiframe_receiver c = Ready) (channels p)"
    and "list_all (acceptable p) msgs" and "multiplexed (max_frame_size p) Map.empty msgs ws"
    and "receive_all p msgs = Some (vs, p')"
  shows "\<exists>reads. drain process_incoming p (concat ws) = Some (reads, Inl 4, p', []) \<and> mset reads = mset vs"
proof -
  have "tracks (max_frame_size p) Map.empty p p"
    using assms(1,2) by (simp add: tracks_def channel_exists_def chan_of_def list_all_length)
  from multiplexed_tracks [OF assms(4) this assms(3,5)] obtain reads where
    reads: "consumes p (concat ws) reads p'" "mset reads = mset vs"
    by (auto simp: due_def)
  have "drain process_incoming p' [] = Some ([], Inl 4, p', [])"
    by (simp add: drain.simps process_incoming.simps process_frame_def header_SIZE_def)
  then show ?thesis
    using reads consumes_def [of p "concat ws" reads p', THEN iffD1, rule_format, of "[]"] by auto
qed

text \<open>
  C12: Frames of different messages may be interleaved. If the sender keeps to the rules of the protocol (one
  message of several frames at a time on a channel, and no cancellation of a request whose frames are
  still being sent), the receiving \<^verbatim>\<open>process_incoming\<close> ends in the state, and reports the requests,
  responses and cancellations, that it would have if each message had come whole, in the order of the
  first frames; all bytes are consumed, and every payload is put together from its own frames only.
  The reads may come in another order, as a long message is reported with its last frame. The bytes
  may arrive in pieces of any size.
\<close>

theorem multiplexed_delivery:
  assumes "protocol_inv p" and "list_all (\<lambda>c. current_multiframe_receiver c = Ready) (channels p)"
    and "list_all (acceptable p) msgs" and "multiplexed (max_frame_size p) Map.empty msgs ws"
    and "receive_all p msgs = Some (vs, p')" and "concat pieces = concat ws"
  shows "\<exists>reads. feed process_incoming pieces p [] = Some (reads, Inl 4, p', []) \<and> mset reads = mset vs"
  using multiplexed_drain [OF assms(1-5)] juliet.looped.feed_drain [OF protocol_like_refl [OF assms(1)], of pieces "[]"]
    assms(6) by auto

lemma collect_message:
  assumes "mfs_valid m" and "acceptable p msg"
  obtains fs where "frame_iter_collect m (om_frames (message_of msg)) = Some fs"
    and "map frame_content fs = wire_frames m (message_of msg)"
proof -
  obtain ch k i payload where msg: "msg = (ch, k, i, payload)"
    by (metis prod.exhaust)
  have "payload_fits (message_of msg)"
  proof (cases payload)
    case (Some pl)
    then have "length pl \<le> unat (payload_limit k (config (chan_of ch p)))"
      using assms(2) by (simp add: msg well_formed_def)
    then show ?thesis
      using unat_u32_le [of "payload_limit k (config (chan_of ch p))"] Some
      by (simp add: msg payload_fits_def outgoing_message_new_def)
  qed (simp add: msg payload_fits_def outgoing_message_new_def)
  from om_frame_iter_wire [OF assms(1) this] show thesis
    using that by (auto simp: om_frame_iter_def frames_render_def)
qed

lemma collect_messages:
  assumes "mfs_valid m" and "list_all (acceptable p) msgs"
  shows "\<exists>fss. map (frame_iter_collect m \<circ> om_frames \<circ> message_of) msgs = map Some fss
    \<and> map (map frame_content) fss = map (wire_frames m \<circ> message_of) msgs"
  using assms(2)
proof (induction msgs)
  case (Cons msg msgs)
  then obtain fss where fss: "map (frame_iter_collect m \<circ> om_frames \<circ> message_of) msgs = map Some fss"
      "map (map frame_content) fss = map (wire_frames m \<circ> message_of) msgs"
    by (auto simp: comp_def)
  have "acceptable p msg"
    using Cons.prems by simp
  from collect_message [OF assms(1) this] obtain fs where
    "frame_iter_collect m (om_frames (message_of msg)) = Some fs" "map frame_content fs = wire_frames m (message_of msg)" .
  with fss show ?case
    by (intro exI [of _ "fs # fss"]) (simp add: comp_def)
qed simp

lemma rotate_frames_map: "rotate_frames (map (map f) fss) = map f (rotate_frames fss)"
  by (induction fss rule: rotate_frames.induct) simp_all

text \<open>
  From one ready queue to the other side. The core sends the messages of its ready queue round by round;
  the peer, reading the bytes of these frames, ends in the state, and reports what it would report, if it
  had received every queued message whole, in the order of the queue. This holds when the queue has no two
  messages of several frames on one channel and no cancellation of such a message.
\<close>

theorem ready_queue_delivered:
  assumes "io_current_frame self = None" and "io_ready_queue self = map (om_frames \<circ> message_of) msgs"
    and "max_frame_size (io_juliet self) = max_frame_size p" and "schedulable (max_frame_size p) msgs"
    and "protocol_inv p" and "list_all (\<lambda>c. current_multiframe_receiver c = Ready) (channels p)"
    and "list_all (acceptable p) msgs" and "receive_all p msgs = Some (vs, p')"
  shows "\<exists>frames reads. send_ready self = Some (frames, self\<lparr>io_ready_queue := []\<rparr>)
    \<and> drain process_incoming p (concat (map frame_content frames)) = Some (reads, Inl 4, p', [])
    \<and> mset reads = mset vs"
proof -
  let ?m = "max_frame_size p"
  have mfs: "mfs_valid ?m"
    using assms(5) by (simp add: protocol_inv_def)
  obtain fss where fss: "map (frame_iter_collect ?m \<circ> om_frames \<circ> message_of) msgs = map Some fss"
      "map (map frame_content) fss = map (wire_frames ?m \<circ> message_of) msgs"
    using collect_messages [OF mfs assms(7)] by blast
  have "send_ready self = Some (rotate_frames fss, self\<lparr>io_ready_queue := [], io_current_frame := None\<rparr>)"
    using send_ready_rotates [OF _ assms(1), of fss] fss(1) assms(2,3) by (simp add: comp_assoc)
  moreover have "self\<lparr>io_ready_queue := [], io_current_frame := None\<rparr> = self\<lparr>io_ready_queue := []\<rparr>"
    using assms(1) by (cases self) simp
  moreover have "multiplexed ?m Map.empty msgs (map frame_content (rotate_frames fss))"
    using schedulable_rotates [OF assms(4)] by (simp add: rotate_frames_map [symmetric] fss(2))
  ultimately show ?thesis
    using multiplexed_drain [OF assms(5-7) _ assms(8)] by auto
qed

text \<open>Two requests of three frames each on different channels, and a request of one frame behind them.\<close>

definition three_requests :: "message_spec list" where
  "three_requests = [(ChannelId 0, RequestPl, Id 1, Some (replicate 14 7)), (ChannelId 1, RequestPl, Id 2, Some (replicate 14 8)),
     (ChannelId 1, Request, Id 3, None)]"

abbreviation small_frames_peer :: juliet_protocol where
  "small_frames_peer \<equiv> builder_build (icb_protocol small_frames)"

lemma three_requests_sent:
  "protocol_inv small_frames_peer" "max_frame_size small_frames_peer = MaxFrameSize 10"
  "list_all (\<lambda>c. current_multiframe_receiver c = Ready) (channels small_frames_peer)"
  "list_all (acceptable small_frames_peer) three_requests" "schedulable (MaxFrameSize 10) three_requests"
  "\<exists>p'. receive_all small_frames_peer three_requests = Some ([NewRequest (ChannelId 0) (Id 1) (Some (replicate 14 7)),
     NewRequest (ChannelId 1) (Id 2) (Some (replicate 14 8)), NewRequest (ChannelId 1) (Id 3) None], p')"
proof -
  show "protocol_inv small_frames_peer"
    by (rule builder_build_inv) (simp add: small_frames_simps mfs_valid_def)
  show "max_frame_size small_frames_peer = MaxFrameSize 10"
    "list_all (\<lambda>c. current_multiframe_receiver c = Ready) (channels small_frames_peer)"
    "list_all (acceptable small_frames_peer) three_requests"
    by (simp_all add: small_frames_defs three_requests_def channel_exists_def chan_of_def well_formed_def
        carries_payload_def payload_limit_def list_all_iff)
  show "schedulable (MaxFrameSize 10) three_requests"
    by code_simp
  show "\<exists>p'. receive_all small_frames_peer three_requests = Some ([NewRequest (ChannelId 0) (Id 1) (Some (replicate 14 7)),
     NewRequest (ChannelId 1) (Id 2) (Some (replicate 14 8)), NewRequest (ChannelId 1) (Id 3) None], p')"
    by (simp add: small_frames_defs three_requests_def chan_of_def put_channel_def receive_message_def
        is_at_max_incoming_requests_def increment_cancellation_allowance_def)
qed

theorem multiplexed_delivery_witness:
  "\<exists>reads p'. feed process_incoming (map (\<lambda>b. [b]) (concat (rotate_frames
        (map (wire_frames (MaxFrameSize 10) \<circ> message_of) three_requests)))) small_frames_peer [] = Some (reads, Inl 4, p', [])
     \<and> mset reads = {#NewRequest (ChannelId 0) (Id 1) (Some (replicate 14 7)),
         NewRequest (ChannelId 1) (Id 2) (Some (replicate 14 8)), NewRequest (ChannelId 1) (Id 3) None#}"
proof -
  note sent = three_requests_sent
  let ?ws = "rotate_frames (map (wire_frames (MaxFrameSize 10) \<circ> message_of) three_requests)"
  obtain p' where recv: "receive_all small_frames_peer three_requests = Some ([NewRequest (ChannelId 0) (Id 1) (Some (replicate 14 7)),
     NewRequest (ChannelId 1) (Id 2) (Some (replicate 14 8)), NewRequest (ChannelId 1) (Id 3) None], p')"
    using sent(6) by blast
  have "multiplexed (max_frame_size small_frames_peer) Map.empty three_requests ?ws"
    unfolding sent(2) by (rule schedulable_rotates [OF sent(5)])
  moreover have "concat (map (\<lambda>b. [b]) bs) = bs" for bs :: bytes
    by (induction bs) simp_all
  ultimately obtain reads where "feed process_incoming (map (\<lambda>b. [b]) (concat ?ws)) small_frames_peer []
      = Some (reads, Inl 4, p', [])" "mset reads = {#NewRequest (ChannelId 0) (Id 1) (Some (replicate 14 7)),
         NewRequest (ChannelId 1) (Id 2) (Some (replicate 14 8)), NewRequest (ChannelId 1) (Id 3) None#}"
    using multiplexed_delivery [OF sent(1,3,4) _ recv, of ?ws "map (\<lambda>b. [b]) (concat ?ws)"] by auto
  then show ?thesis by blast
qed

theorem ready_queue_delivered_witness:
  "\<exists>frames reads self' p'. send_ready (small_frames_core\<lparr>io_ready_queue := map (om_frames \<circ> message_of) three_requests\<rparr>)
       = Some (frames, self')
     \<and> drain process_incoming small_frames_peer (concat (map frame_content frames)) = Some (reads, Inl 4, p', [])
     \<and> mset reads = {#NewRequest (ChannelId 0) (Id 1) (Some (replicate 14 7)),
         NewRequest (ChannelId 1) (Id 2) (Some (replicate 14 8)), NewRequest (ChannelId 1) (Id 3) None#}"
proof -
  note sent = three_requests_sent
  obtain p' where recv: "receive_all small_frames_peer three_requests = Some ([NewRequest (ChannelId 0) (Id 1) (Some (replicate 14 7)),
     NewRequest (ChannelId 1) (Id 2) (Some (replicate 14 8)), NewRequest (ChannelId 1) (Id 3) None], p')"
    using sent(6) by blast
  let ?self = "small_frames_core\<lparr>io_ready_queue := map (om_frames \<circ> message_of) three_requests\<rparr>"
  have "io_current_frame ?self = None" "io_ready_queue ?self = map (om_frames \<circ> message_of) three_requests"
    "max_frame_size (io_juliet ?self) = max_frame_size small_frames_peer"
    by (simp_all add: io_core_build_def Let_def)
  from ready_queue_delivered [OF this _ sent(1,3,4) recv] show ?thesis
    using sent(2,5) by fastforce
qed

end
