(* ===== verification/Io_Sending.thy ===== *)
theory Io_Sending
  imports Multiplexing
begin

text \<open>
  What \<^verbatim>\<open>IoCore\<close> puts on the wire, in whatever order items are queued, frames are written, data is read and the wait
  queue is processed. \<^verbatim>\<open>active_multi_frame\<close> keeps two messages of several frames from being sent on one channel
  at the same time; the invariant \<open>queue_inv\<close> says how, and the frames of every run of the core are an
  interleaving that \<open>multiplexed\<close> allows.
\<close>

section \<open>Admission to the ready queue\<close>

definition long_iter :: "max_frame_size \<Rightarrow> frame_iter \<Rightarrow> bool" where
  "long_iter m it \<longleftrightarrow> 1 < length (wire_frames m (fi_msg it))"

abbreviation iter_header :: "frame_iter \<Rightarrow> header" where
  "iter_header it \<equiv> om_header (fi_msg it)"

abbreviation channel_index :: "header \<Rightarrow> nat" where
  "channel_index h \<equiv> unat (channel_get (header_channel h))"

text \<open>Messages join the queue at the end; one of several frames only if none is active on its channel.\<close>

inductive admits ::
  "max_frame_size \<Rightarrow> channel_configuration list \<Rightarrow> frame_iter list \<Rightarrow> header option list
   \<Rightarrow> frame_iter list \<Rightarrow> header option list \<Rightarrow> bool" for m cfgs where
  admits_none: "admits m cfgs queue active queue active"
| admits_short: "admits m cfgs queue active queue' active' \<Longrightarrow> sendable cfgs msg \<Longrightarrow> length (wire_frames m msg) = 1 \<Longrightarrow>
    admits m cfgs queue active (queue' @ [om_frames msg]) active'"
| admits_long: "admits m cfgs queue active queue' active' \<Longrightarrow> sendable cfgs msg \<Longrightarrow> 1 < length (wire_frames m msg) \<Longrightarrow>
    active' ! channel_index (om_header msg) = None \<Longrightarrow>
    admits m cfgs queue active (queue' @ [om_frames msg]) (active'[channel_index (om_header msg) := Some (om_header msg)])"

lemma admits_trans:
  assumes "admits m cfgs q' a' q'' a''" and "admits m cfgs q a q' a'"
  shows "admits m cfgs q a q'' a''"
  using assms by (induction rule: admits.induct) (auto intro: admits.intros)

lemma admits_length: "admits m cfgs q a q' a' \<Longrightarrow> length a' = length a"
  by (induction rule: admits.induct) simp_all

definition base :: "max_frame_size \<Rightarrow> channel_configuration list \<Rightarrow> ('m, 'p) io_core \<Rightarrow> bool" where
  "base m cfgs self \<longleftrightarrow> protocol_like m cfgs (io_juliet self) \<and> length (io_active_multi_frame self) = length cfgs"

text \<open>A stage that only queues messages; after an error has been injected, nothing else is sent.\<close>

definition queues :: "max_frame_size \<Rightarrow> channel_configuration list \<Rightarrow> ('m, 'p) io_core \<Rightarrow> ('m, 'p) io_core \<Rightarrow> bool" where
  "queues m cfgs self self' \<longleftrightarrow> base m cfgs self' \<and> (io_pending_error self' = None \<longrightarrow>
     io_pending_error self = None \<and> io_current_frame self' = io_current_frame self
     \<and> admits m cfgs (io_ready_queue self) (io_active_multi_frame self) (io_ready_queue self') (io_active_multi_frame self'))"

lemma queues_refl: "base m cfgs self \<Longrightarrow> queues m cfgs self self"
  by (simp add: queues_def admits_none)

lemma queues_trans: "queues m cfgs self self' \<Longrightarrow> queues m cfgs self' self'' \<Longrightarrow> queues m cfgs self self''"
  by (auto simp: queues_def intro: admits_trans)

lemma queues_base: "queues m cfgs self self' \<Longrightarrow> base m cfgs self'"
  by (simp add: queues_def)

text \<open>Fields that sending does not depend on.\<close>

lemma queues_simps [simp]:
  "queues m cfgs self (self'\<lparr>io_released := x1\<rparr>) = queues m cfgs self self'"
  "queues m cfgs self (self'\<lparr>io_request_map := x2\<rparr>) = queues m cfgs self self'"
  "queues m cfgs self (self'\<lparr>io_wait_queue := x3\<rparr>) = queues m cfgs self self'"
  "queues m cfgs self (self'\<lparr>io_next_parse_at := x4\<rparr>) = queues m cfgs self self'"
  "queues m cfgs self (self'\<lparr>io_buffer := x5\<rparr>) = queues m cfgs self self'"
  by (simp_all add: queues_def base_def)

lemma queues_juliet:
  "base m cfgs self \<Longrightarrow> protocol_like m cfgs p \<Longrightarrow> queues m cfgs self (self\<lparr>io_juliet := p\<rparr>)"
  by (simp add: queues_def base_def admits_none)

lemma sendable_wire:
  assumes "protocol_like m cfgs p" and "sendable cfgs msg"
  shows "om_is_multi_frame m msg = Some (1 < length (wire_frames m msg))"
    and "payload_fits msg" and "\<not> header_is_error (om_header msg)" and "in_range (header_channel (om_header msg)) cfgs"
proof -
  obtain k ch i payload where msg: "msg = outgoing_message_new (header_new k ch i) payload"
      "unat (channel_get ch) < length cfgs" "well_formed (cfgs ! unat (channel_get ch)) k payload"
    using assms(2) by (auto simp: sendable_def)
  then show fits: "payload_fits msg" and "\<not> header_is_error (om_header msg)" "in_range (header_channel (om_header msg)) cfgs"
    using unat_u32_le [of "payload_limit k (cfgs ! unat (channel_get ch))"]
    by (auto simp: payload_fits_def well_formed_def outgoing_message_new_def in_range_def split: option.splits)
  have "mfs_valid m"
    using assms(1) by (auto simp: protocol_like_def protocol_inv_def)
  from om_is_multi_frame_wire [OF this fits] show "om_is_multi_frame m msg = Some (1 < length (wire_frames m msg))" .
qed

lemma push_ready_queues:
  assumes "queues m cfgs self self'" and "sendable cfgs msg" and "length (wire_frames m msg) = 1"
  shows "queues m cfgs self (push_ready msg self')"
  using assms by (auto simp: queues_def push_ready_def base_def intro: admits_short)

lemma note_push_queues:
  assumes "queues m cfgs self self'" and "sendable cfgs msg" and "header_channel (om_header msg) = ch"
    and "1 < length (wire_frames m msg) \<Longrightarrow> io_active_multi_frame self' ! unat (channel_get ch) = None"
    and "note_multi_frame ch msg self' = Some self''"
  shows "queues m cfgs self (push_ready msg self'')"
proof -
  have like: "protocol_like m cfgs (io_juliet self')" "max_frame_size (io_juliet self') = m"
    using queues_base [OF assms(1)] by (simp_all add: base_def protocol_like_def)
  note multi = sendable_wire(1) [OF like(1) assms(2)]
  show ?thesis
  proof (cases "1 < length (wire_frames m msg)")
    case True
    then have "self'' = self'\<lparr>io_active_multi_frame := (io_active_multi_frame self')[channel_index (om_header msg) := Some (om_header msg)]\<rparr>"
      using assms(3,5) multi like(2) by (auto simp: note_multi_frame_def rust_assert_def split: if_splits)
    then show ?thesis
      using assms(1,2,4) True assms(3) by (auto simp: queues_def push_ready_def base_def intro!: admits_long)
  next
    case False
    moreover have "wire_frames m msg \<noteq> []" by simp
    ultimately have "length (wire_frames m msg) = 1" and "self'' = self'"
      using assms(5) multi like(2) by (auto simp: note_multi_frame_def not_less le_Suc_eq)
    then show ?thesis
      using push_ready_queues [OF assms(1,2)] by simp
  qed
qed

section \<open>The stages of the core\<close>

lemma should_send_free:
  assumes "base m cfgs self" and "item_should_wait item (io_juliet self) (io_active_multi_frame self) = Some (Inr None)"
    and "item = ItemRequest ch ioid (om_payload msg) permit \<or> item = ItemResponse ch i (om_payload msg)"
    and "sendable cfgs msg" and "1 < length (wire_frames m msg)"
  shows "io_active_multi_frame self ! unat (channel_get ch) = None"
proof -
  have like: "protocol_like m cfgs (io_juliet self)" "max_frame_size (io_juliet self) = m"
    using assms(1) by (simp_all add: base_def protocol_like_def)
  have "om_is_multi_frame m msg = Some True"
    using sendable_wire(1) [OF like(1) assms(4)] assms(5) by simp
  then obtain pl where "om_payload msg = Some pl" "payload_is_multi_frame m (length pl) = Some True"
    by (auto simp: om_is_multi_frame_def split: option.splits)
  then show ?thesis
    using assms(2,3) like(2)
    by (auto simp: item_should_wait_def array_get_def Let_def bind_eq_Some_conv split: if_splits sum.splits)
qed

lemma created_header:
  assumes "protocol_like m cfgs p"
  shows "create_request ch payload p = Some (Inr msg, p') \<Longrightarrow> header_channel (om_header msg) = ch \<and> om_payload msg = payload"
    and "create_response ch i payload p = (Inr (Some msg), p') \<Longrightarrow> header_channel (om_header msg) = ch \<and> om_payload msg = payload"
    and "cancel_request ch i p = (Inr (Some msg), p') \<or> cancel_response ch i p = (Inr (Some msg), p') \<Longrightarrow>
      om_payload msg = None"
proof -
  assume "create_request ch payload p = Some (Inr msg, p')"
  with assms show "header_channel (om_header msg) = ch \<and> om_payload msg = payload"
    by (cases rule: create_request_cases [where ch = ch and payload = payload]) (auto simp: outgoing_message_new_def)
qed (auto simp: sending_defs create_unchecked_response_def create_unchecked_request_cancellation_def
      create_unchecked_response_cancellation_def outgoing_message_new_def split: if_splits option.splits)

lemma wire_frames_plain: "om_payload msg = None \<Longrightarrow> length (wire_frames m msg) = 1"
  by (simp add: wire_frames_def message_stream_def split_chunks_short)

lemma inject_error_queues:
  "base m cfgs self \<Longrightarrow> inject_error bm msg self = Some self' \<Longrightarrow> queues m cfgs self self'"
  by (auto simp: inject_error_def queues_def base_def bind_eq_Some_conv Let_def rust_assert_def split: if_splits)

lemma send_request_queues:
  assumes "base m cfgs self"
    and "item_should_wait (ItemRequest ch ioid payload permit) (io_juliet self) (io_active_multi_frame self) = Some (Inr None)"
    and "send_to_ready_queue bm (ItemRequest ch ioid payload permit) self = Some (res, self')"
  shows "queues m cfgs self self'"
proof -
  have like: "protocol_like m cfgs (io_juliet self)"
    using assms(1) by (simp add: base_def)
  obtain created p where created: "create_request ch payload (io_juliet self) = Some (created, p)"
    using assms(3) by (auto simp: send_to_ready_queue_def bind_eq_Some_conv)
  note step = queues_juliet [OF assms(1) create_request_like [OF like created]]
  show ?thesis
  proof (cases created)
    case (Inl e)
    then show ?thesis
      using assms(3) created step by (auto simp: send_to_ready_queue_def)
  next
    case (Inr msg)
    let ?self = "self\<lparr>io_juliet := p, io_request_map := bm_insert bm ioid (ch, header_id (om_header msg)) (io_request_map self)\<rparr>"
    note header = created_header(1) [OF like created [unfolded Inr]] and typed = create_request_typed [OF like created [unfolded Inr]]
    obtain self'' where "note_multi_frame ch msg ?self = Some self''"
        "self' = (push_ready msg self'')\<lparr>io_released := io_released (push_ready msg self'') @ [permit]\<rparr>"
      using assms(3) created Inr by (auto simp: send_to_ready_queue_def bind_eq_Some_conv Let_def)
    then show ?thesis
      using note_push_queues [OF _ typed, of m self ?self ch self''] step header typed
        should_send_free [OF assms(1,2), of ch ioid msg permit] by simp
  qed
qed

lemma send_response_queues:
  assumes "base m cfgs self"
    and "item_should_wait (ItemResponse ch i payload) (io_juliet self) (io_active_multi_frame self) = Some (Inr None)"
    and "send_to_ready_queue bm (ItemResponse ch i payload) self = Some (res, self')"
  shows "queues m cfgs self self'"
proof -
  have like: "protocol_like m cfgs (io_juliet self)"
    using assms(1) by (simp add: base_def)
  obtain created p where created: "create_response ch i payload (io_juliet self) = (created, p)"
    by (metis prod.exhaust)
  then have "protocol_like m cfgs p"
    using create_response_like [OF like, of ch i payload] by simp
  note step = queues_juliet [OF assms(1) this]
  show ?thesis
  proof (cases "\<exists>msg. created = Inr (Some msg)")
    case True
    then obtain msg where msg: "created = Inr (Some msg)" by blast
    note header = created_header(2) [OF like created [unfolded msg]] and typed = create_response_typed [OF like created [unfolded msg]]
    obtain self'' where "note_multi_frame ch msg (self\<lparr>io_juliet := p\<rparr>) = Some self''" "self' = push_ready msg self''"
      using assms(3) created msg by (auto simp: send_to_ready_queue_def bind_eq_Some_conv)
    then show ?thesis
      using note_push_queues [OF step typed] header typed should_send_free [OF assms(1,2), of ch _ msg _ i] by simp
  next
    case False
    then show ?thesis
      using assms(3) created step by (auto simp: send_to_ready_queue_def split: sum.splits option.splits)
  qed
qed

lemma cancellation_queues:
  assumes "base m cfgs self"
    and "cancel_request ch i (io_juliet self) = (created, p) \<or> cancel_response ch i (io_juliet self) = (created, p)"
  shows "queues m cfgs self (self\<lparr>io_juliet := p\<rparr>)"
    and "created = Inr (Some msg) \<Longrightarrow> queues m cfgs self (push_ready msg (self\<lparr>io_juliet := p\<rparr>))"
proof -
  have like: "protocol_like m cfgs (io_juliet self)"
    using assms(1) by (simp add: base_def)
  then have "protocol_like m cfgs p"
    using cancel_request_state [of ch i "io_juliet self"] cancel_response_like [OF like, of ch i] assms(2) by auto
  from queues_juliet [OF assms(1) this] show step: "queues m cfgs self (self\<lparr>io_juliet := p\<rparr>)" .
  assume msg: "created = Inr (Some msg)"
  have "sendable cfgs msg"
    using assms(2) cancel_request_typed [OF like] cancel_response_typed [OF like] unfolding msg by blast
  moreover have "om_payload msg = None"
    using assms(2) created_header(3) [OF like] unfolding msg by blast
  ultimately show "queues m cfgs self (push_ready msg (self\<lparr>io_juliet := p\<rparr>))"
    by (intro push_ready_queues [OF step] wire_frames_plain)
qed

lemma send_queues:
  assumes "base m cfgs self" and "item_should_wait item (io_juliet self) (io_active_multi_frame self) = Some (Inr None)"
    and "send_to_ready_queue bm item self = Some (res, self')"
  shows "queues m cfgs self self'"
proof (cases item)
  case (ItemRequestCancellation ioid)
  then show ?thesis
    using assms(3) queues_refl [OF assms(1)]
    by (auto simp: send_to_ready_queue_def intro: cancellation_queues [OF assms(1)] split: option.splits prod.splits sum.splits)
next
  case (ItemResponseCancellation ch i)
  then show ?thesis
    using assms(3)
    by (auto simp: send_to_ready_queue_def intro: cancellation_queues [OF assms(1)] split: option.splits prod.splits sum.splits)
next
  case (ItemError ch i payload)
  then obtain created where "custom_error ch i payload (io_juliet self) = Some created"
    using assms(3) by (auto simp: send_to_ready_queue_def bind_eq_Some_conv)
  then show ?thesis
    using assms(3) ItemError queues_refl [OF assms(1)] inject_error_queues [OF assms(1)]
    by (cases created) (auto simp: send_to_ready_queue_def bind_eq_Some_conv)
qed (use assms in \<open>auto intro: send_request_queues send_response_queues\<close>)

lemma wait_queue_push_eq:
  "wait_queue_push ch item self = Some self' \<Longrightarrow> \<exists>queue. self' = self\<lparr>io_wait_queue := queue\<rparr>"
  by (auto simp: wait_queue_push_def bind_eq_Some_conv)

lemma handle_incoming_item_queues:
  assumes "base m cfgs self" and "handle_incoming_item bm item self = Some (res, self')"
  shows "queues m cfgs self self'"
proof -
  obtain should_wait where wait: "item_should_wait item (io_juliet self) (io_active_multi_frame self) = Some should_wait"
    using assms(2) by (auto simp: handle_incoming_item_def bind_eq_Some_conv)
  show ?thesis
    using assms(2) wait queues_refl [OF assms(1)] send_queues [OF assms(1)]
    by (auto simp: handle_incoming_item_def bind_eq_Some_conv dest!: wait_queue_push_eq split: sum.splits option.splits)
qed

lemma items_stage_queues:
  "base m cfgs self \<Longrightarrow> items_stage bm items closed self = Some (res, self') \<Longrightarrow> queues m cfgs self self'"
proof (induction items arbitrary: self)
  case Nil
  then show ?case by (auto simp: queues_refl split: if_splits)
next
  case (Cons item items)
  obtain handled self1 where handled: "handle_incoming_item bm item self = Some (handled, self1)"
    using Cons.prems(2) by (auto simp: bind_eq_Some_conv)
  note step = handle_incoming_item_queues [OF Cons.prems(1) handled]
  show ?case
    using Cons.prems(2) handled step Cons.IH [OF queues_base [OF step]] queues_trans [OF step]
    by (auto split: sum.splits)
qed

lemma wait_queue_loop_queues:
  "base m cfgs self \<Longrightarrow> wait_queue_loop bm ch remaining self = Some (res, self') \<Longrightarrow> queues m cfgs self self'"
proof (induction remaining arbitrary: self rule: less_induct)
  case (less remaining)
  show ?case
  proof (cases "io_wait_queue self ! unat (channel_get ch)")
    case Nil
    then show ?thesis
      using less.prems queues_refl by (auto simp: wait_queue_loop.simps)
  next
    case (Cons item rest)
    let ?self = "self\<lparr>io_wait_queue := (io_wait_queue self)[unat (channel_get ch) := rest]\<rparr>"
    note run = less.prems(2) [unfolded wait_queue_loop.simps [of bm ch remaining self] Cons list.case Let_def]
    have popped: "queues m cfgs self ?self" and base: "base m cfgs ?self"
      using less.prems(1) queues_refl by (simp_all add: base_def)
    have again: "queues m cfgs self self'" if "queues m cfgs self self1"
        "do { remaining \<leftarrow> checked_sub remaining 1;
              if remaining = 0 then Some (Inr (), self1) else wait_queue_loop bm ch remaining self1 } = Some (res, self')" for self1
      using that less.IH [of "remaining - 1", OF _ queues_base [OF that(1)]] queues_trans [OF that(1)]
      by (auto simp: bind_eq_Some_conv checked_sub_eq_Some_iff split: if_splits)
    obtain should_wait where wait: "item_should_wait item (io_juliet ?self) (io_active_multi_frame ?self) = Some should_wait"
      using run by (auto simp: bind_eq_Some_conv)
    consider e where "should_wait = Inl e" | ch' where "should_wait = Inr (Some ch')" | "should_wait = Inr None"
      by (metis option.exhaust sum.exhaust)
    then show ?thesis
    proof cases
      case 1
      then show ?thesis
        using run wait popped by (auto simp: Let_def)
    next
      case 2
      then obtain self1 where pushed: "wait_queue_push ch item ?self = Some self1" and rest:
          "do { remaining \<leftarrow> checked_sub remaining 1;
                if remaining = 0 then Some (Inr (), self1) else wait_queue_loop bm ch remaining self1 } = Some (res, self')"
        using run wait by (auto simp: bind_eq_Some_conv)
      have "queues m cfgs self self1"
        using wait_queue_push_eq [OF pushed] popped by auto
      from again [OF this rest] show ?thesis .
    next
      case 3
      then obtain sent self1 where sent: "send_to_ready_queue bm item ?self = Some (sent, self1)"
        using run wait by (auto simp: bind_eq_Some_conv)
      have "queues m cfgs self self1"
        using queues_trans [OF popped send_queues [OF base _ sent]] wait 3 by simp
      then show ?thesis
        using run wait 3 sent again [of self1] by (auto simp: Let_def split: sum.splits if_splits)
    qed
  qed
qed

lemma process_wait_queue_queues:
  "base m cfgs self \<Longrightarrow> process_wait_queue bm ch self = Some (res, self') \<Longrightarrow> queues m cfgs self self'"
  by (auto simp: process_wait_queue_def bind_eq_Some_conv dest: wait_queue_loop_queues)

lemma handle_completed_read_queues:
  "base m cfgs self \<Longrightarrow> handle_completed_read bm read self = (res, self') \<Longrightarrow> queues m cfgs self self'"
  by (auto simp: handle_completed_read_def queues_refl split: completed_read.splits prod.splits option.splits)

lemma outcome_stage_queues:
  assumes "base m cfgs self" and "outcome_stage bm oc self = Some (res, self')"
  shows "queues m cfgs self self'"
proof (cases oc)
  case (Success read)
  then obtain processed self1 where processed:
      "(case read of ReceivedResponse ch _ _ \<Rightarrow> process_wait_queue bm ch self | _ \<Rightarrow> Some (Inr (), self)) = Some (processed, self1)"
      "(case processed of
          Inl e \<Rightarrow> Some (Some (Inl (LocalProtocolViolation e)), self1)
        | Inr _ \<Rightarrow> (case handle_completed_read bm read self1 of
              (Inl e, self) \<Rightarrow> Some (Some (Inl e), self)
            | (Inr event, self) \<Rightarrow> Some (Some (Inr (Some event)), self))) = Some (res, self')"
    using assms(2) by (auto simp: outcome_stage_def success_stage_def bind_eq_Some_conv)
  have step: "queues m cfgs self self1"
    using processed(1) assms(1) process_wait_queue_queues queues_refl by (auto split: completed_read.splits)
  show ?thesis
    using processed(2) step
    by (auto split: sum.splits prod.splits intro: queues_trans [OF step handle_completed_read_queues [OF queues_base [OF step]]])
qed (use assms queues_refl [OF assms(1)] inject_error_queues [OF assms(1)] in
     \<open>auto simp: outcome_stage_def bind_eq_Some_conv\<close>)

lemma parse_stage_queues:
  assumes "base m cfgs self" and "parse_stage bm self = Some (res, self')"
  shows "queues m cfgs self self'"
proof (cases "io_next_parse_at self \<le> length (io_buffer self)")
  case True
  then obtain oc p b where parsed: "process_incoming (io_juliet self) (io_buffer self) = Some (oc, p, b)"
      "outcome_stage bm oc (self\<lparr>io_next_parse_at := 0, io_juliet := p, io_buffer := b\<rparr>) = Some (res, self')"
    using assms(2) by (auto simp: parse_stage_def bind_eq_Some_conv)
  have "protocol_like m cfgs (io_juliet self)"
    using assms(1) by (simp add: base_def)
  from juliet.looped.parse_total [OF this, of "io_buffer self"] have "protocol_like m cfgs p"
    using parsed(1) by auto
  then have step: "queues m cfgs self (self\<lparr>io_next_parse_at := 0, io_juliet := p, io_buffer := b\<rparr>)"
    using assms(1) by (simp add: queues_def base_def admits_none)
  show ?thesis
    using queues_trans [OF step outcome_stage_queues [OF queues_base [OF step] parsed(2)]] .
qed (use assms queues_refl in \<open>simp add: parse_stage_def\<close>)

section \<open>Frames sent so far\<close>

text \<open>The beginning of an interleaving: \<open>sending\<close> is what the last frame has left open.\<close>

inductive partly_sent ::
  "max_frame_size \<Rightarrow> message_spec list \<Rightarrow> bytes list \<Rightarrow> (channel_id \<rightharpoonup> message_spec \<times> bytes list) \<Rightarrow> bool" for m where
  ps_none: "partly_sent m [] [] Map.empty"
| ps_whole: "partly_sent m msgs ws sending \<Longrightarrow> wire_frames m (message_of (ch, k, i, payload)) = [w] \<Longrightarrow>
    (case sending ch of None \<Rightarrow> True | Some (msg, fs) \<Rightarrow> \<not> cancels (ch, k, i, payload) msg) \<Longrightarrow>
    partly_sent m (msgs @ [(ch, k, i, payload)]) (ws @ [w]) sending"
| ps_first: "partly_sent m msgs ws sending \<Longrightarrow> wire_frames m (message_of (ch, k, i, payload)) = w # fs \<Longrightarrow> fs \<noteq> [] \<Longrightarrow>
    sending ch = None \<Longrightarrow> partly_sent m (msgs @ [(ch, k, i, payload)]) (ws @ [w]) (sending(ch \<mapsto> ((ch, k, i, payload), fs)))"
| ps_more: "partly_sent m msgs ws sending \<Longrightarrow> sending ch = Some (msg, w # fs) \<Longrightarrow> fs \<noteq> [] \<Longrightarrow>
    partly_sent m msgs (ws @ [w]) (sending(ch \<mapsto> (msg, fs)))"
| ps_last: "partly_sent m msgs ws sending \<Longrightarrow> sending ch = Some (msg, [w]) \<Longrightarrow>
    partly_sent m msgs (ws @ [w]) (sending(ch := None))"

lemma partly_sent_multiplexed:
  assumes "partly_sent m msgs ws sending" and "multiplexed m sending msgs' ws'"
  shows "multiplexed m Map.empty (msgs @ msgs') (ws @ ws')"
  using assms
  by (induction arbitrary: msgs' ws' rule: partly_sent.induct)
     (auto intro: mx_whole mx_first mx_more mx_last simp del: message_of.simps cancels.simps)

lemma partly_sent_done: "partly_sent m msgs ws Map.empty \<Longrightarrow> multiplexed m Map.empty msgs ws"
  using partly_sent_multiplexed [OF _ mx_done] by fastforce

section \<open>The invariant of the ready queue\<close>

declare split_paired_All [simp del] split_paired_Ex [simp del] message_of.simps [simp del]

text \<open>
  A message of several frames in the queue is the active one of its channel; one that has been started is
  the one \<open>sending\<close> knows, with the frames that the iterator will still yield.
\<close>

definition queue_inv ::
  "max_frame_size \<Rightarrow> channel_configuration list \<Rightarrow> (channel_id \<rightharpoonup> message_spec \<times> bytes list)
   \<Rightarrow> frame_iter list \<Rightarrow> header option list \<Rightarrow> bool" where
  "queue_inv m cfgs sending queue active \<longleftrightarrow>
     (\<forall>it \<in> set queue. iter_ok cfgs it \<and> sendable cfgs (fi_msg it)
        \<and> (long_iter m it \<longrightarrow> active ! channel_index (iter_header it) = Some (iter_header it))
        \<and> (fi_bytes_processed it \<noteq> 0 \<longrightarrow> (\<exists>msg fs. fi_msg it = message_of msg \<and> frame_iter_collect m it = Some fs
             \<and> sending (header_channel (iter_header it)) = Some (msg, map frame_content fs))))
     \<and> (\<forall>ch msg fs. sending ch = Some (msg, fs) \<longrightarrow>
          (\<exists>it \<in> set queue. fi_bytes_processed it \<noteq> 0 \<and> fi_msg it = message_of msg \<and> long_iter m it
             \<and> header_channel (iter_header it) = ch))"

lemma queue_invD:
  assumes "queue_inv m cfgs sending queue active" and "it \<in> set queue"
  shows "iter_ok cfgs it" and "sendable cfgs (fi_msg it)"
    and "long_iter m it \<Longrightarrow> active ! channel_index (iter_header it) = Some (iter_header it)"
    and "fi_bytes_processed it \<noteq> 0 \<Longrightarrow> \<exists>msg fs. fi_msg it = message_of msg \<and> frame_iter_collect m it = Some fs
      \<and> sending (header_channel (iter_header it)) = Some (msg, map frame_content fs)"
  using assms by (simp_all add: queue_inv_def)

lemma queue_inv_sending:
  assumes "queue_inv m cfgs sending queue active" and "sending ch = Some (msg, fs)"
  obtains it where "it \<in> set queue" "fi_bytes_processed it \<noteq> 0" "fi_msg it = message_of msg" "long_iter m it"
    "header_channel (iter_header it) = ch"
  using assms unfolding queue_inv_def by blast

lemma queue_invI:
  assumes "\<And>it. it \<in> set queue \<Longrightarrow> iter_ok cfgs it \<and> sendable cfgs (fi_msg it)
      \<and> (long_iter m it \<longrightarrow> active ! channel_index (iter_header it) = Some (iter_header it))"
    and "\<And>it. it \<in> set queue \<Longrightarrow> fi_bytes_processed it \<noteq> 0 \<Longrightarrow> \<exists>msg fs. fi_msg it = message_of msg
      \<and> frame_iter_collect m it = Some fs \<and> sending (header_channel (iter_header it)) = Some (msg, map frame_content fs)"
    and "\<And>ch msg fs. sending ch = Some (msg, fs) \<Longrightarrow> \<exists>it \<in> set queue. fi_bytes_processed it \<noteq> 0
      \<and> fi_msg it = message_of msg \<and> long_iter m it \<and> header_channel (iter_header it) = ch"
  shows "queue_inv m cfgs sending queue active"
  using assms unfolding queue_inv_def by blast

lemma queue_inv_push:
  assumes "queue_inv m cfgs sending queue active" and "protocol_like m cfgs p" and "sendable cfgs msg"
    and "length active = length cfgs"
  shows "length (wire_frames m msg) = 1 \<Longrightarrow> queue_inv m cfgs sending (queue @ [om_frames msg]) active"
    and "active ! channel_index (om_header msg) = None \<Longrightarrow>
      queue_inv m cfgs sending (queue @ [om_frames msg]) (active[channel_index (om_header msg) := Some (om_header msg)])"
proof -
  note wire = sendable_wire [OF assms(2,3)]
  have ok: "iter_ok cfgs (om_frames msg)" "fi_msg (om_frames msg) = msg" "fi_bytes_processed (om_frames msg) = 0"
    using wire(2-4) by (simp_all add: iter_ok_def om_frames_def)
  have "\<exists>it \<in> set queue. fi_bytes_processed it \<noteq> 0 \<and> fi_msg it = message_of msg' \<and> long_iter m it
      \<and> header_channel (iter_header it) = ch" if "sending ch = Some (msg', fs)" for ch msg' fs
    using queue_inv_sending [OF assms(1) that] by blast
  note inv = queue_invD [OF assms(1)] this
  show "queue_inv m cfgs sending (queue @ [om_frames msg]) active" if "length (wire_frames m msg) = 1"
    by (rule queue_invI) (use inv assms(3) ok that in \<open>auto simp: long_iter_def\<close>)
  have "channel_index (om_header msg) < length active"
    using wire(4) assms(4) by (simp add: in_range_def)
  note at = this
  have "(active[channel_index (om_header msg) := Some (om_header msg)]) ! channel_index (iter_header it) = Some (iter_header it)"
    if "active ! channel_index (om_header msg) = None" "it \<in> set (queue @ [om_frames msg])" "long_iter m it" for it
  proof (cases "it \<in> set queue")
    case True
    from inv(3) [OF this that(3)] show ?thesis
      using that(1) by (metis nth_list_update_neq option.distinct(1))
  qed (use that(2) ok(2) at in simp)
  then show "queue_inv m cfgs sending (queue @ [om_frames msg]) (active[channel_index (om_header msg) := Some (om_header msg)])"
    if "active ! channel_index (om_header msg) = None"
    by (intro queue_invI) (use inv assms(3) ok that in auto)
qed

lemma queue_inv_admits:
  assumes "admits m cfgs queue active queue' active'" and "queue_inv m cfgs sending queue active"
    and "protocol_like m cfgs p" and "length active = length cfgs"
  shows "queue_inv m cfgs sending queue' active'"
  using assms admits_length
  by (induction rule: admits.induct) (auto intro: queue_inv_push)

section \<open>Taking a frame\<close>

text \<open>
  The headers of the messages that are not completely sent. A run is undisturbed as long as no other message
  in flight has the header of one of several frames, and none is a cancellation of its request.
\<close>

definition headers_in_flight :: "('m, 'p) io_core \<Rightarrow> header list" where
  "headers_in_flight self =
     (case io_current_frame self of Some (f, True) \<Rightarrow> [frame_header f] | _ \<Rightarrow> []) @ map iter_header (io_ready_queue self)"

definition apart :: "max_frame_size \<Rightarrow> header list \<Rightarrow> frame_iter list \<Rightarrow> bool" where
  "apart m hs queue \<longleftrightarrow> (\<forall>it \<in> set queue. long_iter m it \<longrightarrow> count_list hs (iter_header it) = 1
     \<and> header_new CancelReq (header_channel (iter_header it)) (header_id (iter_header it)) \<notin> set hs)"

definition undisturbed :: "('m, 'p) io_core \<Rightarrow> bool" where
  "undisturbed self \<longleftrightarrow> io_pending_error self = None
     \<and> apart (max_frame_size (io_juliet self)) (headers_in_flight self) (io_ready_queue self)"

lemma started_long:
  assumes "queue_inv m cfgs sending queue active" and "it \<in> set queue" and "fi_bytes_processed it \<noteq> 0"
  shows "long_iter m it"
proof -
  obtain msg fs where msg: "fi_msg it = message_of msg" "sending (header_channel (iter_header it)) = Some (msg, fs)"
    using queue_invD(4) [OF assms] by blast
  obtain it' where "fi_msg it' = message_of msg" "long_iter m it'"
    using queue_inv_sending [OF assms(1) msg(2)] .
  then show ?thesis
    using msg(1) by (simp add: long_iter_def)
qed

lemma only_transfer:
  assumes "queue_inv m cfgs sending (it # rest) active" and "apart m (map iter_header (it # rest)) (it # rest)"
    and "long_iter m it" and "it' \<in> set rest" and "long_iter m it'"
  shows "header_channel (iter_header it') \<noteq> header_channel (iter_header it)"
proof
  assume same: "header_channel (iter_header it') = header_channel (iter_header it)"
  have "active ! channel_index (iter_header it') = Some (iter_header it')"
    "active ! channel_index (iter_header it) = Some (iter_header it)"
    using queue_invD(3) [OF assms(1) _ assms(5)] queue_invD(3) [OF assms(1) _ assms(3)] assms(4) by simp_all
  then have "iter_header it = iter_header it'"
    unfolding same by simp
  then have "iter_header it \<in> set (map iter_header rest)"
    using assms(4) by simp
  moreover have "count_list (map iter_header (it # rest)) (iter_header it) = 1"
    using assms(2,3) unfolding apart_def by (meson list.set_intros(1))
  ultimately show False
    by (simp add: count_list_0_iff)
qed

lemma message_of_inj: "message_of msg = message_of msg' \<longleftrightarrow> msg = msg'"
proof (cases msg; cases msg')
  fix ch k i payload ch' k' i' payload'
  assume msgs: "msg = (ch, k, i, payload)" "msg' = (ch', k', i', payload')"
  show "message_of msg = message_of msg' \<longleftrightarrow> msg = msg'"
  proof
    assume "message_of msg = message_of msg'"
    then have "header_new k ch i = header_new k' ch' i'" "payload = payload'"
      by (simp_all add: msgs message_of.simps outgoing_message_new_def)
    then show "msg = msg'"
      using header_new_access(1,2,4) by (metis msgs option.inject)
  qed simp
qed

lemma sendable_message: "sendable cfgs msg \<Longrightarrow> \<exists>spec. msg = message_of spec"
  by (auto simp: sendable_def) (metis message_of.simps)

lemma message_of_channel: "header_channel (om_header (message_of msg)) = fst msg"
  by (cases msg) (simp add: message_of.simps outgoing_message_new_def)

text \<open>The entry for the transfer of one channel changes; the other entries belong to other channels.\<close>

lemma queue_inv_change:
  assumes inv: "queue_inv m cfgs sending (it # rest) active" and "apart m (map iter_header (it # rest)) (it # rest)"
    and "long_iter m it" and "header_channel (iter_header it) = ch"
  shows "queue_inv m cfgs (sending(ch := None)) rest active"
    and "frame_iter_collect m it' = Some fs \<Longrightarrow> iter_ok cfgs it' \<Longrightarrow> fi_msg it' = fi_msg it \<Longrightarrow> fi_bytes_processed it' \<noteq> 0 \<Longrightarrow>
      fi_msg it = message_of msg \<Longrightarrow>
      queue_inv m cfgs (sending(ch \<mapsto> (msg, map frame_content fs))) (rest @ [it']) active"
proof -
  have other: "header_channel (iter_header it2) \<noteq> ch" if "it2 \<in> set rest" "fi_bytes_processed it2 \<noteq> 0" for it2
    using only_transfer [OF assms(1-3) that(1)] started_long [OF inv _ that(2)] that(1) assms(4) by simp
  have sending: "\<exists>it2 \<in> set rest. fi_bytes_processed it2 \<noteq> 0 \<and> fi_msg it2 = message_of msg2 \<and> long_iter m it2
      \<and> header_channel (iter_header it2) = ch2" if "sending ch2 = Some (msg2, fs2)" "ch2 \<noteq> ch" for ch2 msg2 fs2
    using queue_inv_sending [OF inv that(1)] that(2) assms(4) by (metis set_ConsD)
  show "queue_inv m cfgs (sending(ch := None)) rest active"
    by (rule queue_invI) (use queue_invD [OF inv] other sending in \<open>auto split: if_splits\<close>)
  assume it': "frame_iter_collect m it' = Some fs" "iter_ok cfgs it'" "fi_msg it' = fi_msg it" "fi_bytes_processed it' \<noteq> 0"
    "fi_msg it = message_of msg"
  then have "long_iter m it'"
    using assms(3) by (simp add: long_iter_def)
  note it' = it' this
  show "queue_inv m cfgs (sending(ch \<mapsto> (msg, map frame_content fs))) (rest @ [it']) active"
  proof (rule queue_invI)
    fix it2
    assume it2: "it2 \<in> set (rest @ [it'])"
    then show "iter_ok cfgs it2 \<and> sendable cfgs (fi_msg it2)
        \<and> (long_iter m it2 \<longrightarrow> active ! channel_index (iter_header it2) = Some (iter_header it2))"
      using queue_invD(1-3) [OF inv, of it2] queue_invD(2,3) [OF inv, of it] it'(2,3) assms(3) by auto
    assume "fi_bytes_processed it2 \<noteq> 0"
    then show "\<exists>msg' fs'. fi_msg it2 = message_of msg' \<and> frame_iter_collect m it2 = Some fs'
        \<and> (sending(ch \<mapsto> (msg, map frame_content fs))) (header_channel (iter_header it2)) = Some (msg', map frame_content fs')"
      using queue_invD(4) [OF inv, of it2] other it2 it' assms(4) by auto
  next
    fix ch2 msg2 fs2
    assume "(sending(ch \<mapsto> (msg, map frame_content fs))) ch2 = Some (msg2, fs2)"
    then show "\<exists>it \<in> set (rest @ [it']). fi_bytes_processed it \<noteq> 0 \<and> fi_msg it = message_of msg2 \<and> long_iter m it
        \<and> header_channel (iter_header it) = ch2"
      using sending [of ch2 msg2 fs2] it' assms(4) by (auto split: if_splits)
  qed
qed

lemma queue_inv_rest:
  assumes "queue_inv m cfgs sending (it # rest) active" and "fi_bytes_processed it = 0"
  shows "queue_inv m cfgs sending rest active"
proof (rule queue_invI)
  fix ch msg fs
  assume "sending ch = Some (msg, fs)"
  from queue_inv_sending [OF assms(1) this] show "\<exists>it \<in> set rest. fi_bytes_processed it \<noteq> 0 \<and> fi_msg it = message_of msg
      \<and> long_iter m it \<and> header_channel (iter_header it) = ch"
    using assms(2) by (metis set_ConsD)
qed (use queue_invD [OF assms(1)] in auto)

text \<open>The frames of a message that has not been started.\<close>

lemma collect_fresh:
  assumes "mfs_valid m" and "iter_ok cfgs it" and "fi_bytes_processed it = 0"
  obtains fs where "frame_iter_collect m it = Some fs" "map frame_content fs = wire_frames m (fi_msg it)"
proof -
  have "payload_fits (fi_msg it)" "it = om_frames (fi_msg it)"
    using assms(2,3) by (simp_all add: iter_ok_def om_frames_def)
  from om_frame_iter_wire [OF assms(1) this(1)] this(2) show thesis
    using that by (auto simp: om_frame_iter_def frames_render_def)
qed

lemma not_cancelled:
  assumes "queue_inv m cfgs sending (it # rest) active" and "apart m (map iter_header (it # rest)) (it # rest)"
    and "fi_msg it = message_of (ch, k, i, payload)"
  shows "case sending ch of None \<Rightarrow> True | Some (msg, fs) \<Rightarrow> \<not> cancels (ch, k, i, payload) msg"
proof (cases "sending ch")
  case (Some entry)
  obtain msg fs where entry: "entry = (msg, fs)" by (cases entry)
  obtain it' where it': "it' \<in> set (it # rest)" "fi_msg it' = message_of msg" "long_iter m it'"
    using queue_inv_sending [OF assms(1) Some [unfolded entry]] .
  have "header_new CancelReq (header_channel (iter_header it')) (header_id (iter_header it')) \<notin> set (map iter_header (it # rest))"
    using assms(2) it'(1,3) unfolding apart_def by blast
  then have "\<not> cancels (ch, k, i, payload) msg"
    using it'(2) assms(3) by (cases msg) (auto simp: message_of.simps outgoing_message_new_def)
  then show ?thesis
    by (simp add: Some entry)
qed simp

lemma collect_taken:
  assumes "frame_iter_collect m it = Some fs" and "frame_iter_next_owned m it = Some (f, left)"
  obtains "left = None" "fs = [f]"
  | it' fs' where "left = Some it'" "frame_iter_collect m it' = Some fs'" "fs = f # fs'" "fs' \<noteq> []"
proof (cases left)
  case None
  then show thesis
    using assms that(1) by (simp add: frame_iter_collect.simps [of m it])
next
  case (Some it')
  then show thesis
    using assms that(2) [of it'] collect_nonempty [of m it']
    by (auto simp: frame_iter_collect.simps [of m it] bind_eq_Some_conv)
qed

lemma take_frame:
  assumes inv: "queue_inv m cfgs sending (it # rest) active" and "mfs_valid m"
    and clear: "apart m (map iter_header (it # rest)) (it # rest)" and sent: "partly_sent m msgs ws sending"
    and taken: "frame_iter_next_owned m it = Some (f, left)"
    and typed: "list_all (\<lambda>msg. sendable cfgs (message_of msg)) msgs"
  shows "\<exists>msgs' sending'. partly_sent m msgs' (ws @ [frame_content f]) sending'
    \<and> queue_inv m cfgs sending' (case left of None \<Rightarrow> rest | Some it' \<Rightarrow> rest @ [it']) active
    \<and> list_all (\<lambda>msg. sendable cfgs (message_of msg)) msgs'"
proof -
  note it = queue_invD [OF inv list.set_intros(1)]
  obtain ch k i payload where msg: "fi_msg it = message_of (ch, k, i, payload)"
    using sendable_message [OF it(2)] by (metis prod.exhaust)
  then have ch: "header_channel (iter_header it) = ch"
    by (simp add: message_of_channel)
  have left: "iter_ok cfgs it'" "fi_msg it' = fi_msg it" "fi_bytes_processed it' \<noteq> 0" if "left = Some it'" for it'
    using next_owned_ok [OF assms(2) it(1)] taken that by auto
  note change = queue_inv_change [OF inv clear _ ch]
  have typed': "list_all (\<lambda>msg. sendable cfgs (message_of msg)) (msgs @ [(ch, k, i, payload)])"
    using typed it(2) msg by simp
  show ?thesis
  proof (cases "fi_bytes_processed it = 0")
    case True
    obtain fs where fs: "frame_iter_collect m it = Some fs" "map frame_content fs = wire_frames m (message_of (ch, k, i, payload))"
      using collect_fresh [OF assms(2) it(1) True] msg by metis
    show ?thesis
    proof (cases rule: collect_taken [OF fs(1) taken])
      case 1
      then show ?thesis
        using ps_whole [OF sent _ not_cancelled [OF inv clear msg], of "frame_content f"] fs(2) queue_inv_rest [OF inv True] typed'
        by fastforce
    next
      case (2 it' fs')
      then have long: "long_iter m it"
        using fs(2) msg by (cases fs') (auto simp: long_iter_def dest!: sym [of _ "wire_frames m _"])
      have "sending ch = None"
      proof (rule ccontr)
        assume "sending ch \<noteq> None"
        then obtain it2 where "it2 \<in> set (it # rest)" "fi_bytes_processed it2 \<noteq> 0" "header_channel (iter_header it2) = ch" "long_iter m it2"
          using queue_inv_sending [OF inv, of ch] by (metis option.exhaust prod.exhaust)
        then show False
          using True only_transfer [OF inv clear long, of it2] ch by auto
      qed
      from ps_first [OF sent _ _ this, of k i payload "frame_content f" "map frame_content fs'"] show ?thesis
        using 2 fs(2) change(2) [OF long 2(2) left [OF 2(1)] msg] typed' by fastforce
    qed
  next
    case False
    obtain fs where fs: "frame_iter_collect m it = Some fs" "sending ch = Some ((ch, k, i, payload), map frame_content fs)"
      using it(4) [OF False] msg ch by (auto simp: message_of_inj)
    note long = started_long [OF inv list.set_intros(1) False]
    show ?thesis
    proof (cases rule: collect_taken [OF fs(1) taken])
      case 1
      then show ?thesis
        using ps_last [OF sent, of ch "(ch, k, i, payload)" "frame_content f"] fs(2) change(1) [OF long] typed by fastforce
    next
      case (2 it' fs')
      then show ?thesis
        using ps_more [OF sent, of ch "(ch, k, i, payload)" "frame_content f" "map frame_content fs'"] fs(2)
          change(2) [OF long 2(2) left [OF 2(1)] msg] typed by fastforce
    qed
  qed
qed

section \<open>Runs of the core\<close>

text \<open>
  The stages that \<^verbatim>\<open>next_event\<close> is composed of, with the frames that start to be written. A frame counts
  when it becomes the current one; it is written completely before the next.
\<close>

definition new_frame :: "('m, 'p) io_core \<Rightarrow> ('m, 'p) io_core \<Rightarrow> bytes list" where
  "new_frame self self' = (case (io_current_frame self, io_current_frame self') of
       (None, Some (f, _)) \<Rightarrow> [frame_content f] | _ \<Rightarrow> [])"

inductive core_stage ::
  "'m request_bimap \<Rightarrow> ('m, 'p) io_core \<Rightarrow> bytes list \<Rightarrow> ('m, 'p) io_core \<Rightarrow> bool" for bm where
  stage_error: "io_pending_error self = Some e \<Longrightarrow> pending_error_stage e written self = Some (res, self') \<Longrightarrow>
    core_stage bm self [] self'"
| stage_parse: "parse_stage bm self = Some (res, self') \<Longrightarrow> core_stage bm self [] self'"
| stage_frame: "select_frame self = Some self' \<Longrightarrow> core_stage bm self (new_frame self self') self'"
| stage_waits: "select_stage bm input self = Some (Inl self') \<Longrightarrow> core_stage bm self [] self'"
| stage_ends: "select_stage bm input self = Some (Inr (res, self')) \<Longrightarrow> core_stage bm self [] self'"

text \<open>A run, with the states it visits and the frames it sends.\<close>

inductive core_run ::
  "'m request_bimap \<Rightarrow> ('m, 'p) io_core \<Rightarrow> ('m, 'p) io_core list \<Rightarrow> bytes list \<Rightarrow> ('m, 'p) io_core \<Rightarrow> bool" for bm where
  run_done: "core_run bm self [self] [] self"
| run_step: "core_stage bm self w self1 \<Longrightarrow> core_run bm self1 visited ws self' \<Longrightarrow>
    core_run bm self (self # visited) (w @ ws) self'"

lemma run_single: "core_stage bm self w self' \<Longrightarrow> core_run bm self [self, self'] w self'"
  using run_step [OF _ run_done] by fastforce

lemma run_trans:
  "core_run bm self visited ws self1 \<Longrightarrow> core_run bm self1 visited' ws' self' \<Longrightarrow>
     \<exists>visited. core_run bm self visited (ws @ ws') self'"
proof (induction rule: core_run.induct)
  case (run_step self w self1 visited ws self2)
  then show ?case
    using core_run.run_step [OF run_step.hyps(1)] by (metis append.assoc)
qed auto

text \<open>Every call of \<^verbatim>\<open>next_event\<close> is such a run.\<close>

lemma next_event_runs:
  "next_event bm inputs self = Some (res, self') \<Longrightarrow> \<exists>visited ws. core_run bm self visited ws self'"
  "io_select bm inputs self = Some (res, self') \<Longrightarrow> \<exists>visited ws. core_run bm self visited ws self'"
proof (induction bm inputs self and bm inputs self rule: next_event_io_select.induct)
  case (1 bm inputs self)
  show ?case
  proof (cases "io_pending_error self")
    case None
    then obtain parsed self1 where parsed: "parse_stage bm self = Some (parsed, self1)"
      using "1.prems" by (auto simp: bind_eq_Some_conv)
    note step = run_single [OF stage_parse [OF parsed]]
    show ?thesis
    proof (cases parsed)
      case None
      then obtain self2 where selected: "select_frame self1 = Some self2" "io_select bm inputs self2 = Some (res, self')"
        using "1.prems" \<open>io_pending_error self = None\<close> parsed by (auto simp: bind_eq_Some_conv)
      have "\<exists>visited ws. core_run bm self2 visited ws self'"
        using "1.IH" [OF \<open>io_pending_error self = None\<close> parsed refl None selected(1) selected(2)] by blast
      then show ?thesis
        using run_step [OF stage_parse [OF parsed] run_step [OF stage_frame [OF selected(1)]]] by blast
    qed (use "1.prems" \<open>io_pending_error self = None\<close> parsed step in auto)
  next
    case (Some e)
    then consider (still) "self' = self"
      | (written) written result where "pending_error_stage e written self = Some (result, self')"
      using "1.prems" by (auto simp: bind_eq_Some_conv split: list.splits io_input.splits)
    then show ?thesis
      using run_done [of bm self] run_single [OF stage_error [OF Some]] by cases blast+
  qed
next
  case (2 bm self)
  then show ?case using run_done by fastforce
next
  case (3 bm input inputs self)
  obtain selected where selected: "select_stage bm input self = Some selected"
    using "3.prems" by (auto simp: bind_eq_Some_conv)
  show ?case
  proof (cases selected)
    case (Inl self1)
    then have "\<exists>visited ws. core_run bm self1 visited ws self'"
      using "3.IH"(1) [OF selected Inl] "3.prems" selected by simp
    then show ?thesis
      using run_step [OF stage_waits [OF selected [unfolded Inl]]] by blast
  next
    case (Inr r)
    obtain ended self1 where r: "r = (ended, self1)" by (cases r)
    note stage = stage_ends [OF selected [unfolded Inr r]]
    show ?thesis
    proof (cases ended)
      case None
      then have "\<exists>visited ws. core_run bm self1 visited ws self'"
        using "3.IH"(2) [OF selected Inr r [symmetric]] "3.prems" selected Inr r by simp
      then show ?thesis
        using run_step [OF stage] by blast
    qed (use "3.prems" selected Inr r run_single [OF stage] in auto)
  qed
qed

text \<open>The frames sent so far are the beginning of a legal interleaving, and the queue continues it.\<close>

definition legal :: "max_frame_size \<Rightarrow> channel_configuration list \<Rightarrow> bytes list \<Rightarrow> ('m, 'p) io_core \<Rightarrow> bool" where
  "legal m cfgs ws self \<longleftrightarrow> base m cfgs self \<and> (\<exists>msgs sending. partly_sent m msgs ws sending
     \<and> queue_inv m cfgs sending (io_ready_queue self) (io_active_multi_frame self)
     \<and> list_all (\<lambda>msg. sendable cfgs (message_of msg)) msgs)"

lemma legal_cong:
  "io_juliet self' = io_juliet self \<Longrightarrow> io_ready_queue self' = io_ready_queue self \<Longrightarrow>
     io_active_multi_frame self' = io_active_multi_frame self \<Longrightarrow> legal m cfgs ws self' = legal m cfgs ws self"
  by (simp add: legal_def base_def)

lemma legal_queues:
  assumes "legal m cfgs ws self" and "queues m cfgs self self'" and "io_pending_error self' = None"
  shows "legal m cfgs ws self'"
proof -
  obtain msgs sending where sent: "partly_sent m msgs ws sending"
      "queue_inv m cfgs sending (io_ready_queue self) (io_active_multi_frame self)"
      "list_all (\<lambda>msg. sendable cfgs (message_of msg)) msgs"
    using assms(1) by (auto simp: legal_def)
  have "base m cfgs self" and admitted: "admits m cfgs (io_ready_queue self) (io_active_multi_frame self)
      (io_ready_queue self') (io_active_multi_frame self')"
    using assms by (simp_all add: legal_def queues_def)
  then have "queue_inv m cfgs sending (io_ready_queue self') (io_active_multi_frame self')"
    using queue_inv_admits [OF admitted sent(2)] by (auto simp: base_def)
  then show ?thesis
    using sent(1,3) queues_base [OF assms(2)] by (auto simp: legal_def)
qed

lemma legal_frame:
  assumes "legal m cfgs ws self" and "undisturbed self" and "select_frame self = Some self'"
  shows "legal m cfgs (ws @ new_frame self self') self'"
proof (cases "io_current_frame self = None \<and> io_ready_queue self \<noteq> []")
  case True
  then obtain it rest where queue: "io_ready_queue self = it # rest"
    by (cases "io_ready_queue self") auto
  have m: "max_frame_size (io_juliet self) = m" "mfs_valid m" and base: "base m cfgs self"
    using assms(1) by (auto simp: legal_def base_def protocol_like_def protocol_inv_def)
  obtain msgs sending where sent: "partly_sent m msgs ws sending" "queue_inv m cfgs sending (it # rest) (io_active_multi_frame self)"
      "list_all (\<lambda>msg. sendable cfgs (message_of msg)) msgs"
    using assms(1) queue by (auto simp: legal_def)
  obtain f left where taken: "frame_iter_next_owned m it = Some (f, left)" and self': "io_juliet self' = io_juliet self"
      "io_ready_queue self' = (case left of None \<Rightarrow> rest | Some it' \<Rightarrow> rest @ [it'])"
      "io_active_multi_frame self' = io_active_multi_frame self" "io_current_frame self' = Some (f, left = None)"
    using assms(3) True queue m(1)
    by (auto simp: select_frame_def ready_next_frame_def bind_eq_Some_conv rust_assert_def split: option.splits if_splits)
  have "apart m (map iter_header (it # rest)) (it # rest)"
    using assms(2) m(1) queue True by (simp add: undisturbed_def headers_in_flight_def)
  from take_frame [OF sent(2) m(2) this sent(1) taken sent(3)] show ?thesis
    using base self' True by (simp add: legal_def base_def new_frame_def)
next
  case False
  then show ?thesis
    using assms(1,3) by (auto simp: select_frame_def new_frame_def split: option.splits if_splits)
qed

lemma queue_inv_finish:
  assumes "queue_inv m cfgs sending queue active" and "apart m (h # map iter_header queue) queue"
    and "active ! channel_index h = Some h"
  shows "queue_inv m cfgs sending queue (active[channel_index h := None])"
proof (rule queue_invI)
  fix it
  assume it: "it \<in> set queue"
  have "channel_index (iter_header it) \<noteq> channel_index h" if "long_iter m it"
  proof
    assume same: "channel_index (iter_header it) = channel_index h"
    have h: "h = iter_header it"
      using queue_invD(3) [OF assms(1) it that, unfolded same] assms(3) by simp
    have "count_list (h # map iter_header queue) (iter_header it) = 1"
      using assms(2) it that unfolding apart_def by blast
    then have "iter_header it \<notin> set (map iter_header queue)"
      unfolding h by (simp add: count_list_0_iff)
    then show False
      using it by simp
  qed
  then show "iter_ok cfgs it \<and> sendable cfgs (fi_msg it) \<and> (long_iter m it \<longrightarrow>
      (active[channel_index h := None]) ! channel_index (iter_header it) = Some (iter_header it))"
    using queue_invD(1-3) [OF assms(1) it] by (metis nth_list_update_neq)
qed (use queue_invD(4) [OF assms(1)] queue_inv_sending [OF assms(1)] in blast)+

lemma legal_written:
  assumes "legal m cfgs ws self" and "undisturbed self" and "frame_written_stage bm self = Some (res, self')"
    and "io_pending_error self' = None"
  shows "legal m cfgs ws self'"
proof (cases "io_current_frame self")
  case None
  then show ?thesis
    using assms(1,3) by (simp add: frame_written_stage_def)
next
  case (Some current)
  obtain f final where current: "current = (f, final)" by (cases current)
  let ?h = "frame_header f"
  define active where "active = (if final \<and> io_active_multi_frame self ! channel_index ?h = Some ?h
    then (io_active_multi_frame self)[channel_index ?h := None] else io_active_multi_frame self)"
  let ?self = "self\<lparr>io_current_frame := None, io_active_multi_frame := active\<rparr>"
  have step: "self' = ?self \<or> (\<exists>processed. process_wait_queue bm (header_channel ?h) ?self = Some (processed, self'))"
    using assms(3) Some current
    by (auto simp: frame_written_stage_def active_def array_get_def bind_eq_Some_conv Let_def split: if_splits sum.splits)
  obtain msgs sending where sent: "partly_sent m msgs ws sending"
      "queue_inv m cfgs sending (io_ready_queue self) (io_active_multi_frame self)"
      "list_all (\<lambda>msg. sendable cfgs (message_of msg)) msgs" and base: "base m cfgs self"
    using assms(1) by (auto simp: legal_def)
  have "queue_inv m cfgs sending (io_ready_queue self) active"
    using sent(2) queue_inv_finish [OF sent(2), of ?h] assms(2) base Some current
    by (auto simp: active_def undisturbed_def headers_in_flight_def base_def protocol_like_def)
  moreover have base': "base m cfgs ?self"
    using base by (simp add: base_def active_def)
  ultimately have legal: "legal m cfgs ws ?self"
    unfolding legal_def using sent(1,3) by (intro conjI exI) simp_all
  from step show ?thesis
    using legal legal_queues [OF legal process_wait_queue_queues [OF base'] assms(4)] by blast
qed

lemma legal_select:
  assumes "legal m cfgs ws self" and "undisturbed self" and "io_pending_error self' = None"
    and "select_stage bm input self = Some (Inl self') \<or> select_stage bm input self = Some (Inr (res, self'))"
  shows "legal m cfgs ws self'"
proof -
  have base: "base m cfgs self"
    using assms(1) by (simp add: legal_def)
  have same: "legal m cfgs ws self'" if "io_juliet self' = io_juliet self" "io_ready_queue self' = io_ready_queue self"
      "io_active_multi_frame self' = io_active_multi_frame self"
    using legal_cong [OF that] assms(1) by simp
  show ?thesis
  proof (cases input)
    case (FrameWriteDone e)
    then show ?thesis
      using assms(4) legal_written [OF assms(1,2) _ assms(3)] same by (cases e) (auto simp: select_stage_def)
  next
    case (ItemsReceived items closed)
    then show ?thesis
      using assms(4) legal_queues [OF assms(1) items_stage_queues [OF base] assms(3)] by (auto simp: select_stage_def)
  qed (use assms(4) same in \<open>auto simp: select_stage_def bind_eq_Some_conv split: option.splits sum.splits if_splits\<close>)
qed

lemma legal_stage:
  assumes "core_stage bm self w self'" and "legal m cfgs ws self" and "undisturbed self" and "undisturbed self'"
  shows "legal m cfgs (ws @ w) self'"
proof -
  have pending: "io_pending_error self = None" "io_pending_error self' = None" and base: "base m cfgs self"
    using assms(2-4) by (simp_all add: undisturbed_def legal_def)
  show ?thesis
    using assms(1)
  proof cases
    case (stage_parse res)
    then show ?thesis
      using legal_queues [OF assms(2) parse_stage_queues [OF base] pending(2)] by simp
  next
    case stage_frame
    then show ?thesis
      using legal_frame [OF assms(2,3)] by simp
  qed (use pending legal_select [OF assms(2,3) pending(2)] in auto)
qed

lemma legal_run:
  "core_run bm self visited ws' self' \<Longrightarrow> legal m cfgs ws self \<Longrightarrow> list_all undisturbed visited \<Longrightarrow>
     legal m cfgs (ws @ ws') self'"
proof (induction arbitrary: ws rule: core_run.induct)
  case (run_step self w self1 visited ws' self')
  have "undisturbed self1"
    using run_step.hyps(2) run_step.prems(2) by (cases rule: core_run.cases) auto
  then have "legal m cfgs (ws @ w) self1"
    using legal_stage [OF run_step.hyps(1)] run_step.prems by simp
  then show ?case
    using run_step.IH [of "ws @ w"] run_step.prems by simp
qed simp

section \<open>Properties\<close>

text \<open>What has been started can be completed, for example in rounds.\<close>

lemma partly_sent_finite: "partly_sent m msgs ws sending \<Longrightarrow> finite (dom sending)"
  by (induction rule: partly_sent.induct) (auto simp del: fun_upd_apply)

lemma partly_sent_entry:
  "partly_sent m msgs ws sending \<Longrightarrow> sending ch = Some (msg, fs) \<Longrightarrow> fst msg = ch \<and> fs \<noteq> []"
  by (induction arbitrary: ch msg fs rule: partly_sent.induct) (auto split: if_splits)

lemma partly_sent_completes:
  assumes "partly_sent m msgs ws sending"
  shows "\<exists>rest. multiplexed m sending [] rest"
proof -
  obtain chs where chs: "set chs = dom sending" "distinct chs"
    using finite_distinct_list [OF partly_sent_finite [OF assms]] by auto
  let ?queue = "map (\<lambda>ch. the (sending ch)) chs"
  have entry: "fst (fst (the (sending ch))) = ch \<and> snd (the (sending ch)) \<noteq> []" if "ch \<in> set chs" for ch
  proof -
    have "ch \<in> dom sending"
      using that chs(1) by simp
    then obtain x where "sending ch = Some x"
      by blast
    moreover obtain msg fs where "x = (msg, fs)"
      by (cases x) simp
    ultimately show ?thesis
      using partly_sent_entry [OF assms, of ch msg fs] by simp
  qed
  have "map (fst \<circ> fst) ?queue = chs"
    using entry by (simp add: map_idI)
  moreover have "sending ch = Some x \<longleftrightarrow> x \<in> set ?queue \<and> fst (fst x) = ch" for ch x
  proof
    assume some: "sending ch = Some x"
    then have "ch \<in> set chs" "x = the (sending ch)"
      unfolding chs(1) by (simp_all add: domI)
    then show "x \<in> set ?queue \<and> fst (fst x) = ch"
      using entry by simp
  next
    assume "x \<in> set ?queue \<and> fst (fst x) = ch"
    then obtain ch' where "ch' \<in> set chs" "x = the (sending ch')" "fst (fst x) = ch"
      by auto
    then show "sending ch = Some x"
      using entry [of ch'] unfolding chs(1) by (metis domD option.sel)
  qed
  ultimately have "serves ?queue sending"
    using chs(2) by (simp add: serves_def)
  moreover have "[] \<notin> set (map snd ?queue)"
    using entry by force
  ultimately show ?thesis
    using rotate_started by blast
qed

lemma sendable_acceptable:
  assumes "protocol_like m cfgs p" and "sendable cfgs (message_of msg)"
  shows "acceptable p msg"
proof -
  obtain k ch i payload where msg: "message_of msg = message_of (ch, k, i, payload)"
      "unat (channel_get ch) < length cfgs" "well_formed (cfgs ! unat (channel_get ch)) k payload"
    using assms(2) by (auto simp: sendable_def message_of.simps)
  then show ?thesis
    using exists_like [OF assms(1), of ch] config_like [OF assms(1), of ch] by (simp add: message_of_inj)
qed

lemma built_legal:
  assumes "protocol_inv (builder_build (icb_protocol b))"
  shows "legal (pb_max_frame_size (icb_protocol b)) (pb_channel_config (icb_protocol b)) [] (io_core_build bm b)"
proof -
  have "protocol_like (pb_max_frame_size (icb_protocol b)) (pb_channel_config (icb_protocol b)) (builder_build (icb_protocol b))"
    using assms by (simp add: protocol_like_def builder_build_def channel_new_def comp_def)
  then have "base (pb_max_frame_size (icb_protocol b)) (pb_channel_config (icb_protocol b)) (io_core_build bm b)"
    by (simp add: base_def io_core_build_def Let_def) (simp add: builder_build_def)
  moreover have "queue_inv m cfgs Map.empty [] active" for m cfgs active
    by (simp add: queue_inv_def)
  ultimately show ?thesis
    unfolding legal_def using ps_none
    by (intro conjI exI [of _ "[]"] exI [of _ Map.empty]) (simp_all add: io_core_build_def Let_def)
qed

lemma legal_interleaving:
  assumes "legal m cfgs ws self"
  obtains msgs rest where "list_all (\<lambda>msg. sendable cfgs (message_of msg)) msgs" "multiplexed m Map.empty msgs (ws @ rest)"
    "io_ready_queue self = [] \<Longrightarrow> rest = []"
proof -
  obtain msgs sending where sent: "partly_sent m msgs ws sending"
      "queue_inv m cfgs sending (io_ready_queue self) (io_active_multi_frame self)"
      "list_all (\<lambda>msg. sendable cfgs (message_of msg)) msgs"
    using assms by (auto simp: legal_def)
  show thesis
  proof (cases "io_ready_queue self = []")
    case True
    then have "sending = Map.empty"
      using queue_inv_sending [OF sent(2)] by (auto intro!: ext) (metis empty_iff option.exhaust set_empty surj_pair)
    then show thesis
      using that [OF sent(3), of "[]"] partly_sent_done sent(1) by simp
  next
    case False
    obtain rest where "multiplexed m sending [] rest"
      using partly_sent_completes [OF sent(1)] by blast
    then show thesis
      using that [OF sent(3), of rest] partly_sent_multiplexed [OF sent(1), of "[]" rest] False by simp
  qed
qed

text \<open>
  C14: The core keeps to the rules for interleaving. In every undisturbed run of the event loop, whatever items are
  queued, whatever is read and in whatever order frames are written, the frames sent so far are the beginning of a
  legal interleaving of well-typed messages, at most one message of several frames at a time on a channel.
  Once the ready queue is empty they are a complete one. A peer with the same configuration to which these messages, received
  whole one after the other, are no violation (\<open>receive_all\<close>), reads exactly them from these bytes, in pieces of any
  size. A run is undisturbed if in none of its states an error is pending, and every message of several frames in the
  ready queue is apart from the others: no second message with its header is queued or being written (which takes a peer that
  reuses the identifier of an unanswered request), and no cancellation of a request with its identifier (what that
  does to the request itself is shown by \<open>cancelled_run\<close> in \<open>Cancel_In_Flight\<close>).
\<close>

theorem core_run_delivered:
  fixes b :: io_core_builder
  defines "m \<equiv> pb_max_frame_size (icb_protocol b)" and "cfgs \<equiv> pb_channel_config (icb_protocol b)"
  assumes "protocol_inv (builder_build (icb_protocol b))"
    and "core_run bm (io_core_build bm b) visited ws self" and "list_all undisturbed visited"
  shows "\<exists>msgs rest. list_all (\<lambda>msg. sendable cfgs (message_of msg)) msgs
    \<and> multiplexed m Map.empty msgs (ws @ rest) \<and> (io_ready_queue self = [] \<longrightarrow> rest = [])
    \<and> (\<forall>peer vs peer' pieces. protocol_like m cfgs peer \<and> list_all (\<lambda>c. current_multiframe_receiver c = Ready) (channels peer)
         \<and> receive_all peer msgs = Some (vs, peer') \<and> concat pieces = concat (ws @ rest) \<longrightarrow>
         (\<exists>reads. feed process_incoming pieces peer [] = Some (reads, Inl 4, peer', []) \<and> mset reads = mset vs))"
proof -
  have "legal m cfgs ws self"
    using legal_run [OF assms(4) built_legal [OF assms(3)] assms(5)] by (simp add: m_def cfgs_def)
  then obtain msgs rest where sent: "list_all (\<lambda>msg. sendable cfgs (message_of msg)) msgs"
      "multiplexed m Map.empty msgs (ws @ rest)" "io_ready_queue self = [] \<Longrightarrow> rest = []"
    by (rule legal_interleaving) blast
  have "\<exists>reads. feed process_incoming pieces peer [] = Some (reads, Inl 4, peer', []) \<and> mset reads = mset vs"
    if peer: "protocol_like m cfgs peer" "list_all (\<lambda>c. current_multiframe_receiver c = Ready) (channels peer)"
      "receive_all peer msgs = Some (vs, peer')" "concat pieces = concat (ws @ rest)" for peer vs peer' pieces
  proof -
    have "list_all (acceptable peer) msgs"
      using sent(1) sendable_acceptable [OF peer(1)] by (auto simp: list_all_iff)
    then show ?thesis
      using multiplexed_drain [of peer msgs "ws @ rest" vs peer'] juliet.looped.feed_drain [OF peer(1), of pieces "[]"] peer sent(2)
      by (auto simp: protocol_like_def)
  qed
  then show ?thesis
    using sent by blast
qed

text \<open>A request of three frames is queued and its first frame is sent.\<close>

theorem core_run_delivered_witness:
  "\<exists>visited self msgs rest. core_run alist_bimap_ops small_frames_core visited [[2, 1, 1, 0, 14, 0, 0, 0, 0, 0]] self
     \<and> list_all (\<lambda>msg. sendable (pb_channel_config (icb_protocol small_frames)) (message_of msg)) msgs
     \<and> multiplexed (MaxFrameSize 10) Map.empty msgs ([2, 1, 1, 0, 14, 0, 0, 0, 0, 0] # rest)"
proof -
  let ?payload = "Some (replicate 11 0 @ [2, 7, 8]) :: bytes option"
  obtain core1 where core1: "handle_incoming_item alist_bimap_ops (ItemRequest (ChannelId 1) (IoId 0) ?payload ()) small_frames_core
        = Some (Inr (), core1)" "io_ready_queue core1 = [om_frames long_request]" "io_current_frame core1 = None"
      "io_pending_error core1 = None" "max_frame_size (io_juliet core1) = MaxFrameSize 10"
    using queue_long_request by blast
  obtain f1 f2 f3 where frames: "frame_iter_collect (MaxFrameSize 10) (om_frames long_request) = Some [f1, f2, f3]"
      "frame_content f1 = [2, 1, 1, 0, 14, 0, 0, 0, 0, 0]"
    using long_request_frames by blast
  obtain it where it: "frame_iter_next_owned (MaxFrameSize 10) (om_frames long_request) = Some (f1, Some it)"
    using collect_Cons [OF frames(1)] by blast
  let ?core2 = "core1\<lparr>io_ready_queue := [it], io_current_frame := Some (f1, False)\<rparr>"
  have select: "select_stage alist_bimap_ops (ItemsReceived [ItemRequest (ChannelId 1) (IoId 0) ?payload ()] False) small_frames_core
      = Some (Inr (None, core1))" "select_frame core1 = Some ?core2"
    using core1 it by (simp_all add: select_stage_def select_frame_def ready_next_frame_def)
  have run: "core_run alist_bimap_ops small_frames_core [small_frames_core, core1, ?core2] [[2, 1, 1, 0, 14, 0, 0, 0, 0, 0]] ?core2"
    using run_step [OF stage_ends [OF select(1)] run_single [OF stage_frame [OF select(2)]]] core1(3) frames(2)
    by (simp add: new_frame_def)
  have "iter_ok (pb_channel_config (icb_protocol small_frames)) (om_frames long_request)"
    by (simp add: iter_ok_def om_frames_def long_request_def payload_fits_def outgoing_message_new_def in_range_def small_frames_simps)
  from next_owned_ok [OF _ this, of "MaxFrameSize 10"] have "fi_msg it = long_request"
    using it by (auto simp: mfs_valid_def om_frames_def)
  moreover have "om_header long_request = header_new RequestPl (ChannelId 1) (Id 1)"
    by (simp add: long_request_def outgoing_message_new_def)
  moreover have "header_new CancelReq (ChannelId 1) (Id 1) \<noteq> header_new RequestPl (ChannelId 1) (Id 1)"
    by code_simp
  ultimately have "list_all undisturbed [small_frames_core, core1, ?core2]"
    using core1 by (simp add: undisturbed_def apart_def headers_in_flight_def om_frames_def io_core_build_def Let_def)
  from core_run_delivered [OF _ run this] show ?thesis
    using run three_requests_sent(1) small_frames_simps(1) by fastforce
qed

end
