(* ===== verification/Cancel_In_Flight.thy ===== *)
theory Cancel_In_Flight
  imports Multiplexing
begin

text \<open>
  A request that is cancelled while its frames are being sent, from the queues of \<^verbatim>\<open>IoCore\<close> to the peer. The core
  goes on sending the frames after the cancellation, which the peer takes for the beginning of another request.
\<close>

section \<open>The frames\<close>

text \<open>
  A payload of three frames whose last frame begins like a message: with a length prefix and that many bytes. The
  first two frames carry the length prefix of the whole and \<open>a\<close>.
\<close>

definition splits_like :: "max_frame_size \<Rightarrow> bytes \<Rightarrow> bytes \<Rightarrow> bytes \<Rightarrow> bool" where
  "splits_like m pl a q \<longleftrightarrow> pl = a @ leb128 (length q) @ q \<and> length pl \<le> u32_max
     \<and> length (leb128 (length pl)) + length a = 2 * (mfs_get_usize m - 4)
     \<and> length (leb128 (length q)) + length q \<le> mfs_get_usize m - 4"

text \<open>What the first frame carries of the payload.\<close>

definition head_length :: "max_frame_size \<Rightarrow> bytes \<Rightarrow> nat" where
  "head_length m pl = mfs_get_usize m - 4 - length (leb128 (length pl))"

lemma splits_likeD:
  assumes "splits_like m pl a q" and "mfs_valid m"
  shows "head_length m pl < length pl" "mfs_get_usize m - 4 < length (drop (head_length m pl) pl)"
    "drop (mfs_get_usize m - 4) (drop (head_length m pl) pl) = leb128 (length q) @ q"
    "length (leb128 (length q)) + length q \<le> mfs_get_usize m - 4" "length q \<le> length pl" "length pl \<le> u32_max"
proof -
  let ?N = "mfs_get_usize m - 4" and ?l = "length (leb128 (length pl))"
  have parts: "pl = a @ leb128 (length q) @ q" "?l + length a = 2 * ?N"
    and fits: "length (leb128 (length q)) + length q \<le> ?N" "length pl \<le> u32_max"
    using assms(1) unfolding splits_like_def by blast+
  have l: "?l < ?N" "0 < length (leb128 (length q))"
    using mfs_valid_get [OF assms(2)] length_leb128_bounds(2) [OF fits(2)] length_leb128_bounds(1) [of "length q"]
    by linarith+
  have a: "length a = ?N + head_length m pl" and len: "length pl = length a + length (leb128 (length q)) + length q"
    using parts(2) l(1) unfolding head_length_def by (linarith, simp only: parts(1), simp)
  show "head_length m pl < length pl" "?N < length (drop (head_length m pl) pl)" "length q \<le> length pl"
    using a len l(2) unfolding length_drop by linarith+
  show "drop ?N (drop (head_length m pl) pl) = leb128 (length q) @ q"
    unfolding drop_drop a [symmetric] by (simp only: parts(1)) simp
  show "length (leb128 (length q)) + length q \<le> ?N" "length pl \<le> u32_max"
    by (fact fits)+
qed

lemma three_frames:
  assumes "splits_like m pl a q" and "mfs_valid m"
  shows "wire_frames m (outgoing_message_new h (Some pl)) =
    [header_as_ref h @ leb128 (length pl) @ take (head_length m pl) pl,
     header_as_ref h @ take (mfs_get_usize m - 4) (drop (head_length m pl) pl), header_as_ref h @ leb128 (length q) @ q]"
proof -
  note parts = splits_likeD [OF assms]
  have "0 < mfs_get_usize m - 4"
    using mfs_valid_get [OF assms(2)] by simp
  then have "later_frames m h (drop (head_length m pl) pl) =
     [header_as_ref h @ take (mfs_get_usize m - 4) (drop (head_length m pl) pl), header_as_ref h @ leb128 (length q) @ q]"
    using split_chunks_long [OF _ parts(2)] parts(3,4) by (simp add: later_frames_def header_SIZE_def split_chunks_short)
  then show ?thesis
    using wire_frames_cases [OF assms(2) parts(6), of h] parts(1) by (simp add: head_length_def)
qed

lemma last_frame_whole:
  assumes "splits_like m pl a q" and "mfs_valid m"
  shows "wire_frames m (outgoing_message_new h (Some q)) = [header_as_ref h @ leb128 (length q) @ q]"
proof -
  note parts = splits_likeD [OF assms]
  have "length q \<le> u32_max" "length q \<le> mfs_get_usize m - 4 - length (leb128 (length q))"
    using parts(4-6) by linarith+
  then show ?thesis
    using wire_frames_cases [OF assms(2), of q h] by simp
qed

section \<open>The peer\<close>

lemma allowance_after_request:
  assumes "channel_inv c" and "\<not> is_at_max_incoming_requests c"
  shows "cancellation_allowance (increment_cancellation_allowance c) \<noteq> 0"
proof -
  have "0 < unat (request_limit (config c))" "cancellation_allowance c \<le> request_limit (config c)"
    using assms by (auto simp: is_at_max_incoming_requests_def channel_inv_def)
  then have "0 < unat (cancellation_allowance (increment_cancellation_allowance c))"
    by (auto simp: increment_cancellation_allowance_def unat_plus_1_u16 word_less_nat_alt word_le_nat_alt)
  then show ?thesis by auto
qed

lemma cancel_drops_transfer:
  assumes "channel_inv c" and "current_multiframe_receiver c = InProgress (header_new RequestPl ch i) acc n"
    and "cancellation_allowance c \<noteq> 0"
  shows "handle_frame m CancelReq (header_new CancelReq ch i) c (header_as_ref (header_new CancelReq ch i) @ xs) =
    Some (None, c\<lparr>cancellation_allowance := cancellation_allowance c - 1, current_multiframe_receiver := Ready,
      incoming_requests := incoming_requests c - {i}\<rparr>, xs)"
  using assms by (simp add: handle_frame_def handle_cancel_req_alt cancel_transfer_def buf_advance_def)

text \<open>The channel of the peer after each of the four frames.\<close>

lemma transfer_begun:
  fixes ch i
  defines "h \<equiv> header_new RequestPl ch i"
  assumes "channel_inv c" and "mfs_valid m" and "splits_like m pl a q"
    and "length pl \<le> unat (max_request_payload_size (config c))" and "current_multiframe_receiver c = Ready"
    and "\<not> is_at_max_incoming_requests c" and "i \<notin> incoming_requests c"
  shows "handle_frame m RequestPl h c (header_as_ref h @ leb128 (length pl) @ take (head_length m pl) pl @ xs) =
    Some (None, (increment_cancellation_allowance (c\<lparr>incoming_requests := insert i (incoming_requests c)\<rparr>))
      \<lparr>current_multiframe_receiver := InProgress h (take (head_length m pl) pl) (of_nat (length pl))\<rparr>, xs)"
proof -
  note parts = splits_likeD [OF assms(4,3)]
  have received: "receive_message RequestPl ch i (Some pl) c = (Inr (Some (NewRequest ch i (Some pl))),
      increment_cancellation_allowance (c\<lparr>incoming_requests := insert i (incoming_requests c)\<rparr>))"
    using assms(7,8) by (simp add: receive_message_def)
  have accepted: "accept_spec m (payload_limit RequestPl (config c)) (if RequestPl = RequestPl then RequestTooLarge else ResponseTooLarge)
      (current_multiframe_receiver c) (header_new RequestPl ch i)
      (header_as_ref h @ leb128 (length pl) @ take (head_length m pl) pl @ xs)
    = (Success NewMultiFrame, InProgress h (take (head_length m pl) pl) (of_nat (length pl)), xs)"
    using accept_spec_first_frame [OF assms(3,5) parts(1) [unfolded head_length_def], of RequestTooLarge h xs]
    by (simp add: payload_limit_def assms(6) h_def head_length_def)
  show ?thesis
    using handle_first_frame(1) [OF _ assms(2,3) _ received accepted] by (simp add: h_def carries_payload_def)
qed

lemma transfer_goes_on:
  fixes ch i
  defines "h \<equiv> header_new RequestPl ch i"
  assumes "channel_inv c" and "mfs_valid m" and "splits_like m pl a q"
    and "current_multiframe_receiver c = InProgress h (take (head_length m pl) pl) (of_nat (length pl))"
  shows "handle_frame m RequestPl h c
      (header_as_ref h @ take (mfs_get_usize m - 4) (drop (head_length m pl) pl) @ xs) =
    Some (None, c\<lparr>current_multiframe_receiver := InProgress h
      (take (head_length m pl) pl @ take (mfs_get_usize m - 4) (drop (head_length m pl) pl)) (of_nat (length pl))\<rparr>, xs)"
proof -
  note parts = splits_likeD [OF assms(4,3)]
  have "drop (head_length m pl) pl \<noteq> []"
    using parts(1) by simp
  from handle_later_frame(2) [OF _ _ assms(3,2) assms(5) [unfolded h_def] append_take_drop_id this parts(6,2), of xs]
  show ?thesis
    by (auto simp: h_def carries_payload_def)
qed

lemma peer_misreads:
  fixes ch i
  defines "h \<equiv> header_new RequestPl ch i"
  assumes "protocol_inv p" and "channel_exists ch p" and "max_frame_size p = m" and "splits_like m pl a q"
    and "length pl \<le> unat (max_request_payload_size (config (chan_of ch p)))"
    and "current_multiframe_receiver (chan_of ch p) = Ready"
    and "\<not> is_at_max_incoming_requests (chan_of ch p)" and "i \<notin> incoming_requests (chan_of ch p)"
  shows "\<exists>p'. process_incoming p (header_as_ref h @ leb128 (length pl) @ take (head_length m pl) pl
      @ header_as_ref h @ take (mfs_get_usize m - 4) (drop (head_length m pl) pl)
      @ header_as_ref (header_new CancelReq ch i) @ header_as_ref h @ leb128 (length q) @ q)
    = Some (Success (NewRequest ch i (Some q)), p', [])"
proof -
  let ?c = "chan_of ch p"
  note mfs = protocol_channel(1) [OF assms(2,3), unfolded assms(4)] and inv = protocol_channel(2) [OF assms(2,3)]
  note parts = splits_likeD [OF assms(5) mfs]
  define c1 where "c1 = (increment_cancellation_allowance (?c\<lparr>incoming_requests := insert i (incoming_requests ?c)\<rparr>))
    \<lparr>current_multiframe_receiver := InProgress h (take (head_length m pl) pl) (of_nat (length pl))\<rparr>"
  define p1 where "p1 = put_channel ch c1 p"
  note first = transfer_begun [OF inv mfs assms(5-9), of ch, folded h_def, folded c1_def]
  note step1 = process_incoming_continue [OF assms(2,3), of RequestPl i, folded h_def, unfolded assms(4), OF first, folded p1_def]
  have p1: "protocol_inv p1" "channel_exists ch p1" "max_frame_size p1 = m" "chan_of ch p1 = c1"
    using step1(2) assms(3,4) by (simp_all add: p1_def)
  have c1: "channel_inv c1" "current_multiframe_receiver c1 = InProgress h (take (head_length m pl) pl) (of_nat (length pl))"
    using protocol_channel(2) [OF p1(1,2)] p1(4) by (simp_all add: c1_def)
  let ?acc = "take (head_length m pl) pl @ take (mfs_get_usize m - 4) (drop (head_length m pl) pl)"
  note second = transfer_goes_on [OF c1(1) mfs assms(5), of ch i, folded h_def, OF c1(2)]
  define c2 where "c2 = c1\<lparr>current_multiframe_receiver := InProgress h ?acc (of_nat (length pl))\<rparr>"
  define p2 where "p2 = put_channel ch c2 p1"
  note step2 = process_incoming_continue [OF p1(1,2), of RequestPl i, folded h_def, unfolded p1(3,4), OF second, folded c2_def p2_def]
  have p2: "protocol_inv p2" "channel_exists ch p2" "max_frame_size p2 = m" "chan_of ch p2 = c2"
    using step2(2) p1 by (simp_all add: p2_def)
  have c2: "channel_inv c2" "current_multiframe_receiver c2 = InProgress (header_new RequestPl ch i) ?acc (of_nat (length pl))"
    "cancellation_allowance c2 \<noteq> 0"
    using protocol_channel(2) [OF p2(1,2)] p2(4) allowance_after_request [OF inv assms(8)]
    by (simp_all add: c2_def c1_def h_def increment_cancellation_allowance_def split: if_splits)
  define c3 where "c3 = c2\<lparr>cancellation_allowance := cancellation_allowance c2 - 1, current_multiframe_receiver := Ready,
    incoming_requests := incoming_requests c2 - {i}\<rparr>"
  define p3 where "p3 = put_channel ch c3 p2"
  note step3 = process_incoming_continue [OF p2(1,2), of CancelReq i, unfolded p2(3,4),
    OF cancel_drops_transfer [OF c2], folded c3_def p3_def]
  have p3: "protocol_inv p3" "channel_exists ch p3" "max_frame_size p3 = m" "chan_of ch p3 = c3"
    using step3(2) p2 by (simp_all add: p3_def)
  have c3: "channel_inv c3" "config c3 = config ?c" "incoming_requests c3 = incoming_requests ?c"
    "current_multiframe_receiver c3 = Ready"
    using protocol_channel(2) [OF p3(1,2)] p3(4) assms(9) by (simp_all add: c3_def c2_def c1_def)
  have received: "receive_message RequestPl ch i (Some q) c3 = (Inr (Some (NewRequest ch i (Some q))),
      increment_cancellation_allowance (c3\<lparr>incoming_requests := insert i (incoming_requests c3)\<rparr>))"
    using assms(8,9) c3(2,3) by (simp add: receive_message_def is_at_max_incoming_requests_def)
  have "well_formed (config c3) RequestPl (Some q)"
    using assms(6) parts(5) c3(2) by (simp add: well_formed_def carries_payload_def payload_limit_def)
  from handle_whole(2) [OF c3(1) mfs this last_frame_whole [OF assms(5) mfs] _ _ received, of "[]"]
  have last: "handle_frame m RequestPl h c3 (header_as_ref h @ leb128 (length q) @ q) = Some
      (Some (Success (NewRequest ch i (Some q))),
       increment_cancellation_allowance (c3\<lparr>incoming_requests := insert i (incoming_requests c3)\<rparr>), [])"
    using c3(4) by (simp add: h_def)
  note step4 = process_incoming_step [OF p3(2), of RequestPl i, folded h_def, unfolded p3(3,4), OF last]
  show ?thesis
    by (simp add: step1(1) step2(1) step3(1) step4)
qed

section \<open>The core\<close>

text \<open>
  The core waits in the select with nothing to parse; \<open>ch\<close> has no waiting items. Only the ready queue and the
  current frame change from frame to frame.
\<close>

definition quiet :: "channel_id \<Rightarrow> ('m, 'p) io_core \<Rightarrow> bool" where
  "quiet ch self \<longleftrightarrow> io_pending_error self = None \<and> length (io_buffer self) < io_next_parse_at self
     \<and> unat (channel_get ch) < length (io_wait_queue self) \<and> unat (channel_get ch) < length (io_active_multi_frame self)
     \<and> io_wait_queue self ! unat (channel_get ch) = []"

lemma quiet_simps [simp]:
  "quiet ch (self\<lparr>io_ready_queue := queue\<rparr>) = quiet ch self"
  "quiet ch (self\<lparr>io_current_frame := current\<rparr>) = quiet ch self"
  by (simp_all add: quiet_def)

lemma next_event_quiet:
  "quiet ch self \<Longrightarrow> next_event bm inputs self = do { self \<leftarrow> select_frame self; io_select bm inputs self }"
  by (simp add: quiet_def parse_stage_def)

text \<open>The current frame is written, and the next one is taken from the front of the ready queue.\<close>

lemma next_frame_sent:
  assumes "quiet ch self" and "io_current_frame self = Some (f, final)" and "io_ready_queue self = it # rest"
    and "frame_header f = header_new k ch i"
    and "final \<longrightarrow> io_active_multi_frame self ! unat (channel_get ch) \<noteq> Some (frame_header f)"
    and "frame_iter_next_owned (max_frame_size (io_juliet self)) it = Some (g, remaining)"
  shows "next_event bm [FrameWriteDone None] self =
    Some (None, self\<lparr>io_ready_queue := rest @ (case remaining of Some it' \<Rightarrow> [it'] | None \<Rightarrow> []),
      io_current_frame := Some (g, remaining = None)\<rparr>)"
proof -
  let ?self = "self\<lparr>io_current_frame := None\<rparr>"
  have "process_wait_queue bm ch ?self = Some (Inr (), ?self)"
    using assms(1) by (simp add: quiet_def process_wait_queue_def wait_queue_loop.simps)
  then have "frame_written_stage bm self = Some (None, ?self)"
    using assms(1,2,4,5) by (cases final) (auto simp: frame_written_stage_def quiet_def Let_def)
  moreover have "select_frame self = Some self"
    using assms(2) by (simp add: select_frame_def)
  moreover have "select_frame ?self = Some (self\<lparr>io_ready_queue := rest @ (case remaining of Some it' \<Rightarrow> [it'] | None \<Rightarrow> []),
      io_current_frame := Some (g, remaining = None)\<rparr>)"
    using assms(3,6) by (cases remaining) (simp_all add: select_frame_def ready_next_frame_def)
  moreover have "quiet ch ?self"
    using assms(1) by simp
  ultimately show ?thesis
    using assms(1) by (simp add: next_event_quiet [of ch] select_stage_def del: next_event.simps)
qed

text \<open>A request and its cancellation enter the ready queue.\<close>

lemma request_queued:
  assumes "request_map bm pairs" and "io_shape m cfgs self" and "in_range ch cfgs" and "quiet ch self"
    and "io_active_multi_frame self ! unat (channel_get ch) = None"
    and "channel_allowed_to_send_request (chan_of ch (io_juliet self))"
    and "splits_like m pl a q" and "length pl \<le> unat (max_request_payload_size (cfgs ! unat (channel_get ch)))"
  shows "\<exists>i self'. handle_incoming_item bm (ItemRequest ch ioid (Some pl) permit) self = Some (Inr (), self')
    \<and> quiet ch self' \<and> max_frame_size (io_juliet self') = m \<and> io_current_frame self' = io_current_frame self
    \<and> io_ready_queue self' = io_ready_queue self @ [om_frames (outgoing_message_new (header_new RequestPl ch i) (Some pl))]
    \<and> io_active_multi_frame self' ! unat (channel_get ch) = Some (header_new RequestPl ch i)
    \<and> bm_get_by_left bm (io_request_map self') ioid = Some (ch, i)
    \<and> channel_exists ch (io_juliet self') \<and> i \<in> outgoing_requests (chan_of ch (io_juliet self'))"
proof -
  note shape = io_shapeD [OF assms(2)] and bm = assms(1) [unfolded request_map_def]
  note parts = splits_likeD [OF assms(7) shape(2)]
  have ch: "channel_exists ch (io_juliet self)"
    using assms(3) shape(7) by simp
  have "config (chan_of ch (io_juliet self)) = cfgs ! unat (channel_get ch)"
    using shape(1) ch by (auto simp: protocol_like_def channel_exists_def chan_of_def)
  then obtain i where created: "create_request ch (Some pl) (io_juliet self) = Some
      (Inr (outgoing_message_new (header_new RequestPl ch i) (Some pl)),
       put_channel ch ((chan_of ch (io_juliet self))\<lparr>prev_request_id := id_get i,
         outgoing_requests := insert i (outgoing_requests (chan_of ch (io_juliet self)))\<rparr>) (io_juliet self))"
    using ch assms(6,8)
    by (cases rule: create_request_cases [OF shape(1), of ch "Some pl"]) (auto simp: channel_allowed_to_send_request_def)
  have "fits (Some pl)"
    using parts(6) by (simp add: fits_def)
  then have ready: "item_should_wait (ItemRequest ch ioid (Some pl) permit) (io_juliet self) (io_active_multi_frame self) = Some (Inr None)"
    using item_should_wait_eq(1) [OF assms(2,3), of "Some pl" ioid permit] assms(5,6) by (simp add: may_send_def)
  have multi: "om_is_multi_frame m (outgoing_message_new (header_new RequestPl ch i) (Some pl)) = Some True"
    using om_is_multi_frame_wire [OF shape(2), of "outgoing_message_new (header_new RequestPl ch i) (Some pl)"]
      three_frames [OF assms(7) shape(2)] parts(6) by (simp add: payload_fits_def outgoing_message_new_def)
  show ?thesis
    using created ready multi assms(4) shape(3) ch bimap.get_by_left [OF bm] bimap.pairs_insert [OF bm]
    by (intro exI [of _ i])
       (simp add: handle_incoming_item_def send_to_ready_queue_def note_multi_frame_def push_ready_def quiet_def
         outgoing_message_new_def)
qed

lemma cancellation_queued:
  assumes "bm_get_by_left bm (io_request_map self) ioid = Some (ch, i)"
    and "channel_exists ch (io_juliet self)" and "i \<in> outgoing_requests (chan_of ch (io_juliet self))"
  shows "handle_incoming_item bm (ItemRequestCancellation ioid) self = Some (Inr (), self\<lparr>io_ready_queue :=
    io_ready_queue self @ [om_frames (outgoing_message_new (header_new CancelReq ch i) None)]\<rparr>)"
  using assms(1) cancel_request_known [OF assms(2,3)]
  by (simp add: handle_incoming_item_def item_should_wait_def send_to_ready_queue_def push_ready_def)

lemma collect_single: "frame_iter_collect m it = Some [f] \<Longrightarrow> frame_iter_next_owned m it = Some (f, None)"
  by (erule collect_Cons) (auto dest: collect_nonempty)

lemma cancel_header: "header_new CancelReq ch i \<noteq> header_new RequestPl ch i"
  by (auto dest!: arg_cong [of _ _ header_kind])

lemma frames_rendered:
  assumes "mfs_valid m" and "payload_fits msg" and "wire_frames m msg = ws"
  obtains fs where "frame_iter_collect m (om_frames msg) = Some fs" "frames_render fs (om_header msg) ws"
  using om_frame_iter_wire [OF assms(1,2)] assms(3) by (auto simp: om_frame_iter_def)

text \<open>The frames of the request and its cancellation, and the iterators between them.\<close>

lemma interleaved_frames:
  fixes ch i
  defines "h \<equiv> header_new RequestPl ch i"
  assumes "mfs_valid m" and "splits_like m pl a q"
  shows "\<exists>f1 f2 f3 c it1 it2. frame_iter_next_owned m (om_frames (outgoing_message_new h (Some pl))) = Some (f1, Some it1)
    \<and> frame_iter_next_owned m it1 = Some (f2, Some it2) \<and> frame_iter_next_owned m it2 = Some (f3, None)
    \<and> frame_iter_next_owned m (om_frames (outgoing_message_new (header_new CancelReq ch i) None)) = Some (c, None)
    \<and> frame_header f1 = h \<and> frame_header f2 = h \<and> frame_header f3 = h \<and> frame_header c = header_new CancelReq ch i
    \<and> concat (map frame_content [f1, f2, c, f3]) = header_as_ref h @ leb128 (length pl) @ take (head_length m pl) pl
      @ header_as_ref h @ take (mfs_get_usize m - 4) (drop (head_length m pl) pl)
      @ header_as_ref (header_new CancelReq ch i) @ header_as_ref h @ leb128 (length q) @ q"
proof -
  let ?msg = "outgoing_message_new h (Some pl)" and ?cancel = "outgoing_message_new (header_new CancelReq ch i) None"
  have fits: "payload_fits ?msg" "payload_fits ?cancel"
    using splits_likeD(6) [OF assms(3,2)] by (simp_all add: payload_fits_def outgoing_message_new_def)
  have wire: "wire_frames m ?cancel = [header_as_ref (header_new CancelReq ch i)]"
    by (simp add: wire_frames_def outgoing_message_new_def message_stream_def split_chunks_short)
  obtain f1 f2 f3 where long: "frame_iter_collect m (om_frames ?msg) = Some [f1, f2, f3]"
      "frames_render [f1, f2, f3] h (wire_frames m ?msg)"
    using three_frames [OF assms(3,2), of h]
    by (rule_tac frames_rendered [OF assms(2) fits(1) refl])
       (auto simp: frames_render_def map_eq_Cons_conv outgoing_message_new_def)
  obtain c where cancel: "frame_iter_collect m (om_frames ?cancel) = Some [c]"
      "frames_render [c] (header_new CancelReq ch i) (wire_frames m ?cancel)"
    using wire
    by (rule_tac frames_rendered [OF assms(2) fits(2) refl])
       (auto simp: frames_render_def map_eq_Cons_conv outgoing_message_new_def)
  obtain it1 where it1: "frame_iter_next_owned m (om_frames ?msg) = Some (f1, Some it1)" "frame_iter_collect m it1 = Some [f2, f3]"
    using collect_Cons [OF long(1)] by blast
  obtain it2 where it2: "frame_iter_next_owned m it1 = Some (f2, Some it2)" "frame_iter_collect m it2 = Some [f3]"
    using collect_Cons [OF it1(2)] by blast
  have "frame_iter_next_owned m it2 = Some (f3, None)" "frame_iter_next_owned m (om_frames ?cancel) = Some (c, None)"
    using collect_single it2(2) cancel(1) by blast+
  then show ?thesis
    using it1(1) it2(1) long(2) cancel(2) unfolding three_frames [OF assms(3,2)] wire
    by (intro exI [of _ f1] exI [of _ f2] exI [of _ f3] exI [of _ c] exI [of _ it1] exI [of _ it2]) (auto simp: frames_render_Cons)
qed

text \<open>
  The run: the request is queued, it is cancelled while its first frame is written, and the frames that follow
  are written one after the other.
\<close>

lemma cancelled_run:
  assumes "request_map bm pairs" and "io_shape m cfgs self" and "in_range ch cfgs" and "quiet ch self"
    and "io_current_frame self = None" and "io_ready_queue self = []"
    and "io_active_multi_frame self ! unat (channel_get ch) = None"
    and "channel_allowed_to_send_request (chan_of ch (io_juliet self))"
    and "splits_like m pl a q" and "length pl \<le> unat (max_request_payload_size (cfgs ! unat (channel_get ch)))"
  shows "\<exists>i f1 f2 f3 c s1 s2 s3 s4.
     next_event bm [ItemsReceived [ItemRequest ch ioid (Some pl) permit] False] self = Some (None, s1)
   \<and> io_current_frame s1 = Some (f1, False)
   \<and> next_event bm [ItemsReceived [ItemRequestCancellation ioid] False, FrameWriteDone None] s1 = Some (None, s2)
   \<and> io_current_frame s2 = Some (f2, False)
   \<and> next_event bm [FrameWriteDone None] s2 = Some (None, s3) \<and> io_current_frame s3 = Some (c, True)
   \<and> next_event bm [FrameWriteDone None] s3 = Some (None, s4) \<and> io_current_frame s4 = Some (f3, True)
   \<and> concat (map frame_content [f1, f2, c, f3]) =
       header_as_ref (header_new RequestPl ch i) @ leb128 (length pl) @ take (head_length m pl) pl
       @ header_as_ref (header_new RequestPl ch i) @ take (mfs_get_usize m - 4) (drop (head_length m pl) pl)
       @ header_as_ref (header_new CancelReq ch i) @ header_as_ref (header_new RequestPl ch i) @ leb128 (length q) @ q"
proof -
  obtain i s0 where queued: "handle_incoming_item bm (ItemRequest ch ioid (Some pl) permit) self = Some (Inr (), s0)"
      and s0: "quiet ch s0" "max_frame_size (io_juliet s0) = m" "io_current_frame s0 = None"
      "io_ready_queue s0 = [om_frames (outgoing_message_new (header_new RequestPl ch i) (Some pl))]"
      "io_active_multi_frame s0 ! unat (channel_get ch) = Some (header_new RequestPl ch i)"
      "bm_get_by_left bm (io_request_map s0) ioid = Some (ch, i)"
      "channel_exists ch (io_juliet s0)" "i \<in> outgoing_requests (chan_of ch (io_juliet s0))"
    using request_queued [OF assms(1-4,7-10), of ioid permit] unfolding assms(5,6) by auto
  obtain f1 f2 f3 c it1 it2 where iters:
      "frame_iter_next_owned m (om_frames (outgoing_message_new (header_new RequestPl ch i) (Some pl))) = Some (f1, Some it1)"
      "frame_iter_next_owned m it1 = Some (f2, Some it2)" "frame_iter_next_owned m it2 = Some (f3, None)"
      "frame_iter_next_owned m (om_frames (outgoing_message_new (header_new CancelReq ch i) None)) = Some (c, None)"
    and headers: "frame_header f1 = header_new RequestPl ch i" "frame_header f2 = header_new RequestPl ch i"
      "frame_header c = header_new CancelReq ch i"
    and content: "concat (map frame_content [f1, f2, c, f3]) =
       header_as_ref (header_new RequestPl ch i) @ leb128 (length pl) @ take (head_length m pl) pl
       @ header_as_ref (header_new RequestPl ch i) @ take (mfs_get_usize m - 4) (drop (head_length m pl) pl)
       @ header_as_ref (header_new CancelReq ch i) @ header_as_ref (header_new RequestPl ch i) @ leb128 (length q) @ q"
    using interleaved_frames [OF io_shapeD(2) [OF assms(2)] assms(9), of ch i] by blast
  let ?cancel = "om_frames (outgoing_message_new (header_new CancelReq ch i) None)"
  define s where "s queue current = s0\<lparr>io_ready_queue := queue, io_current_frame := current\<rparr>" for queue current
  have quiet_s: "quiet ch (s queue current)" for queue current
    using s0(1) by (simp add: s_def)
  have "select_frame self = Some self" "select_frame s0 = Some (s [it1] (Some (f1, False)))"
    using assms(5,6) s0(2-4) iters(1) by (simp_all add: select_frame_def ready_next_frame_def s_def)
  then have first: "next_event bm [ItemsReceived [ItemRequest ch ioid (Some pl) permit] False] self
      = Some (None, s [it1] (Some (f1, False)))"
    using queued by (simp add: next_event_quiet [OF assms(4)] next_event_quiet [OF s0(1)] select_stage_def del: next_event.simps)
  have cancelled: "handle_incoming_item bm (ItemRequestCancellation ioid) (s [it1] (Some (f1, False)))
      = Some (Inr (), s [it1, ?cancel] (Some (f1, False)))"
    using cancellation_queued [of bm "s [it1] (Some (f1, False))" ioid ch i] s0(6-8) by (simp add: s_def)
  have "select_frame (s [it1] (Some (f1, False))) = Some (s [it1] (Some (f1, False)))"
    by (simp add: select_frame_def s_def)
  then have "next_event bm [ItemsReceived [ItemRequestCancellation ioid] False, FrameWriteDone None] (s [it1] (Some (f1, False)))
      = next_event bm [FrameWriteDone None] (s [it1, ?cancel] (Some (f1, False)))"
    using cancelled by (simp add: next_event_quiet [OF quiet_s, of bm "_ # _"] select_stage_def del: next_event.simps)
  also have "\<dots> = Some (None, s [?cancel, it2] (Some (f2, False)))"
    using next_frame_sent [OF quiet_s, of "[it1, ?cancel]" "Some (f1, False)" f1 False it1 "[?cancel]" RequestPl i f2 "Some it2" bm]
      s0(2) iters(2) headers(1) by (simp add: s_def del: next_event.simps)
  finally have second: "next_event bm [ItemsReceived [ItemRequestCancellation ioid] False, FrameWriteDone None]
      (s [it1] (Some (f1, False))) = Some (None, s [?cancel, it2] (Some (f2, False)))" .
  have third: "next_event bm [FrameWriteDone None] (s [?cancel, it2] (Some (f2, False))) = Some (None, s [it2] (Some (c, True)))"
    using next_frame_sent [OF quiet_s, of "[?cancel, it2]" "Some (f2, False)" f2 False ?cancel "[it2]" RequestPl i c None bm]
      s0(2) iters(4) headers(2) by (simp add: s_def del: next_event.simps)
  have fourth: "next_event bm [FrameWriteDone None] (s [it2] (Some (c, True))) = Some (None, s [] (Some (f3, True)))"
    using next_frame_sent [OF quiet_s, of "[it2]" "Some (c, True)" c True it2 "[]" CancelReq i f3 None bm]
      s0(2,5) iters(3) headers(3) by (simp add: s_def cancel_header [symmetric] del: next_event.simps)
  have "io_current_frame (s queue current) = current" for queue current
    by (simp add: s_def)
  then show ?thesis
    using first second third fourth content by blast
qed

section \<open>A request that was never made\<close>

text \<open>
  C28: Cancelling a request while its frames are being sent can make the peer receive a request that was never
  made. Let an idle core be given a request whose payload takes three frames, the last of which begins like a
  message of its own (a length prefix and that many bytes). If the request is cancelled while its first frame is
  written, as the timeouts of the RPC layer do, \<^verbatim>\<open>next_event\<close> writes the second frame, the cancellation, and then the
  third frame all the same. Every peer with the same configuration that can take the request drops the transfer on the
  cancellation and reads the third frame as a new request: with the identifier of the cancelled one, and with bytes
  from the end of its payload as its payload.
\<close>

theorem cancel_during_send_makes_request:
  assumes "request_map bm pairs" and "io_shape m cfgs self" and "in_range ch cfgs"
    and "io_pending_error self = None" and "length (io_buffer self) < io_next_parse_at self"
    and "io_current_frame self = None" and "io_ready_queue self = []"
    and "io_wait_queue self ! unat (channel_get ch) = []"
    and "io_active_multi_frame self ! unat (channel_get ch) = None"
    and "channel_allowed_to_send_request (chan_of ch (io_juliet self))"
    and "splits_like m pl a q" and "length pl \<le> unat (max_request_payload_size (cfgs ! unat (channel_get ch)))"
  shows "\<exists>i f1 f2 f3 c s1 s2 s3 s4.
     next_event bm [ItemsReceived [ItemRequest ch ioid (Some pl) permit] False] self = Some (None, s1)
   \<and> io_current_frame s1 = Some (f1, False)
   \<and> next_event bm [ItemsReceived [ItemRequestCancellation ioid] False, FrameWriteDone None] s1 = Some (None, s2)
   \<and> io_current_frame s2 = Some (f2, False)
   \<and> next_event bm [FrameWriteDone None] s2 = Some (None, s3) \<and> io_current_frame s3 = Some (c, True)
   \<and> next_event bm [FrameWriteDone None] s3 = Some (None, s4) \<and> io_current_frame s4 = Some (f3, True)
   \<and> (\<forall>peer. protocol_like m cfgs peer \<longrightarrow> current_multiframe_receiver (chan_of ch peer) = Ready
        \<longrightarrow> \<not> is_at_max_incoming_requests (chan_of ch peer) \<longrightarrow> i \<notin> incoming_requests (chan_of ch peer)
        \<longrightarrow> (\<exists>peer'. process_incoming peer (concat (map frame_content [f1, f2, c, f3]))
              = Some (Success (NewRequest ch i (Some q)), peer', [])))"
proof -
  have "quiet ch self"
    using assms(3-5,8) io_shapeD(5,6) [OF assms(2)] by (simp add: quiet_def in_range_def)
  from cancelled_run [OF assms(1-3) this assms(6,7,9-12), of ioid permit] obtain i f1 f2 f3 c s1 s2 s3 s4 where run:
     "next_event bm [ItemsReceived [ItemRequest ch ioid (Some pl) permit] False] self = Some (None, s1)"
     "io_current_frame s1 = Some (f1, False)"
     "next_event bm [ItemsReceived [ItemRequestCancellation ioid] False, FrameWriteDone None] s1 = Some (None, s2)"
     "io_current_frame s2 = Some (f2, False)"
     "next_event bm [FrameWriteDone None] s2 = Some (None, s3)" "io_current_frame s3 = Some (c, True)"
     "next_event bm [FrameWriteDone None] s3 = Some (None, s4)" "io_current_frame s4 = Some (f3, True)"
   and content: "concat (map frame_content [f1, f2, c, f3]) =
       header_as_ref (header_new RequestPl ch i) @ leb128 (length pl) @ take (head_length m pl) pl
       @ header_as_ref (header_new RequestPl ch i) @ take (mfs_get_usize m - 4) (drop (head_length m pl) pl)
       @ header_as_ref (header_new CancelReq ch i) @ header_as_ref (header_new RequestPl ch i) @ leb128 (length q) @ q"
    by blast
  have "\<exists>peer'. process_incoming peer (concat (map frame_content [f1, f2, c, f3]))
      = Some (Success (NewRequest ch i (Some q)), peer', [])"
    if peer: "protocol_like m cfgs peer" "current_multiframe_receiver (chan_of ch peer) = Ready"
      "\<not> is_at_max_incoming_requests (chan_of ch peer)" "i \<notin> incoming_requests (chan_of ch peer)" for peer
  proof -
    have "protocol_inv peer" "max_frame_size peer = m" "channel_exists ch peer"
        "config (chan_of ch peer) = cfgs ! unat (channel_get ch)"
      using peer(1) assms(3) config_like [OF peer(1)] by (auto simp: protocol_like_def channel_exists_def in_range_def)
    then show ?thesis
      unfolding content using peer_misreads [of peer ch m pl a q i] assms(11,12) peer(2-4) by simp
  qed
  with run show ?thesis by metis
qed

text \<open>The witness: the core of \<open>small_frames\<close> once it waits for the first header.\<close>

theorem cancel_during_send_makes_request_witness:
  "\<exists>i f1 f2 f3 c s1 s2 s3 s4 peer'.
     next_event alist_bimap_ops [ItemsReceived [ItemRequest (ChannelId 1) (IoId 0) (Some (replicate 11 0 @ [2, 7, 8])) ()] False]
       (small_frames_core\<lparr>io_next_parse_at := 4\<rparr>) = Some (None, s1)
   \<and> next_event alist_bimap_ops [ItemsReceived [ItemRequestCancellation (IoId 0)] False, FrameWriteDone None] s1 = Some (None, s2)
   \<and> next_event alist_bimap_ops [FrameWriteDone None] s2 = Some (None, s3)
   \<and> next_event alist_bimap_ops [FrameWriteDone None] s3 = Some (None, s4)
   \<and> map io_current_frame [s1, s2, s3, s4] = [Some (f1, False), Some (f2, False), Some (c, True), Some (f3, True)]
   \<and> process_incoming (builder_build (icb_protocol small_frames)) (concat (map frame_content [f1, f2, c, f3]))
       = Some (Success (NewRequest (ChannelId 1) i (Some [7, 8])), peer', [])"
proof -
  let ?core = "small_frames_core\<lparr>io_next_parse_at := 4\<rparr>" and ?cfgs = "pb_channel_config (icb_protocol small_frames)"
  let ?peer = "builder_build (icb_protocol small_frames)"
  have core: "io_shape (MaxFrameSize 10) ?cfgs ?core" "channel_allowed_to_send_request (chan_of (ChannelId 1) (io_juliet ?core))"
    using small_frames_shape
    by (simp, simp add: io_core_build_def small_frames_defs Let_def chan_of_def channel_allowed_to_send_request_def)
  have idle: "io_pending_error ?core = None" "length (io_buffer ?core) < io_next_parse_at ?core"
      "io_current_frame ?core = None" "io_ready_queue ?core = []"
      "io_wait_queue ?core ! unat (channel_get (ChannelId 1)) = []"
      "io_active_multi_frame ?core ! unat (channel_get (ChannelId 1)) = None"
    by (simp_all add: io_core_build_def small_frames_defs Let_def)
  have range: "in_range (ChannelId 1) ?cfgs"
    by (simp add: in_range_def small_frames_simps)
  have payload: "splits_like (MaxFrameSize 10) (replicate 11 0 @ [2, 7, 8]) (replicate 11 0) [7, 8]"
      "length (replicate 11 0 @ [2, 7, 8 :: u8]) \<le> unat (max_request_payload_size (?cfgs ! unat (channel_get (ChannelId 1))))"
    by (simp_all add: splits_like_def leb128.simps mfs_get_usize_def small_frames_defs)
  have peer: "protocol_like (MaxFrameSize 10) ?cfgs ?peer" "current_multiframe_receiver (chan_of (ChannelId 1) ?peer) = Ready"
      "\<not> is_at_max_incoming_requests (chan_of (ChannelId 1) ?peer)" "i \<notin> incoming_requests (chan_of (ChannelId 1) ?peer)" for i
    using io_shapeD(1) [OF core(1)]
    by (simp_all add: io_core_build_def small_frames_defs Let_def chan_of_def is_at_max_incoming_requests_def)
  show ?thesis
    using cancel_during_send_makes_request [OF alist_requests.request_map_axioms core(1) range idle core(2) payload, of "IoId 0" "()"]
      peer by (simp only: list.map) blast
qed

end
