(* ===== verification/Text.thy ===== *)
theory Text
  imports Core_Types
begin

text \<open>
  The text that the formatting macros of the standard library produce for the values the crate
  prints: unsigned integers with \<^verbatim>\<open>{}\<close> (decimal, no leading zeros) and bytes with \<^verbatim>\<open>{:02x}\<close> (two lower
  case hexadecimal digits), and with them \<^verbatim>\<open>src/src/util.rs\<close>: \<^verbatim>\<open>Index\<close> and the \<^verbatim>\<open>PayloadFormat\<close> of
  payloads in log messages.

  A printed value is a field of a longer text. The locale \<open>field_printer\<close> states what makes fields
  readable: a printer is injective, and uses only letters of an alphabet. A separator outside of the
  alphabet then ends the field, whatever follows.
\<close>

text \<open>The bytes of a text of ASCII characters.\<close>

definition string_bytes :: "string \<Rightarrow> bytes" where
  "string_bytes s = map (\<lambda>c. of_nat (of_char c)) s"

section \<open>Fields\<close>

lemma separator_split:
  "c \<notin> set xs \<Longrightarrow> c \<notin> set ys \<Longrightarrow> xs @ c # us = ys @ c # vs \<longleftrightarrow> xs = ys \<and> us = vs"
proof (induction xs arbitrary: ys)
  case Nil
  then show ?case by (cases ys) auto
next
  case (Cons x xs)
  then show ?case by (cases ys) auto
qed

locale field_printer =
  fixes shown :: "'a \<Rightarrow> string"
    and letter :: "char \<Rightarrow> bool"
  assumes shown_inject: "shown x = shown y \<Longrightarrow> x = y"
    and shown_letters: "list_all letter (shown x)"
begin

lemma shown_eq_iff [simp]: "shown x = shown y \<longleftrightarrow> x = y"
  using shown_inject by blast

text \<open>A separator ends the field.\<close>

lemma field_eq_iff:
  assumes "\<not> letter c"
  shows "shown x @ c # rest = shown y @ c # rest' \<longleftrightarrow> x = y \<and> rest = rest'"
  using assms shown_letters [of x] shown_letters [of y]
  by (subst separator_split) (auto simp: list_all_iff)

end

section \<open>Integers\<close>

definition digit :: "nat \<Rightarrow> char" where
  "digit d = (if d < 10 then char_of (48 + d) else char_of (87 + d))"

fun decimal :: "nat \<Rightarrow> string" where
  "decimal n = (if n < 10 then [digit n] else decimal (n div 10) @ [digit (n mod 10)])"

declare decimal.simps [simp del]

definition hex_byte :: "u8 \<Rightarrow> string" where
  "hex_byte b = [digit (unat b div 16), digit (unat b mod 16)]"

definition is_digit :: "char \<Rightarrow> bool" where
  "is_digit c \<longleftrightarrow> 48 \<le> (of_char c :: nat) \<and> (of_char c :: nat) \<le> 57"

lemma digit_inject: "d < 16 \<Longrightarrow> e < 16 \<Longrightarrow> digit d = digit e \<longleftrightarrow> d = e"
  by (auto simp: digit_def split: if_splits)

lemma is_digit_digit [simp]: "d < 10 \<Longrightarrow> is_digit (digit d)"
  by (simp add: digit_def is_digit_def)

lemma decimal_digits: "list_all is_digit (decimal n)"
  by (induction n rule: decimal.induct) (subst decimal.simps, simp)

lemma decimal_nonempty [simp]: "decimal n \<noteq> []" "[] \<noteq> decimal n"
  by (simp_all add: decimal.simps [of n])

lemma length_decimal_pos [simp]: "0 < length (decimal n)"
  by simp

lemma decimal_inject: "decimal m = decimal n \<Longrightarrow> m = n"
proof (induction m arbitrary: n rule: decimal.induct)
  case (1 m)
  show ?case
  proof (cases "m < 10 \<or> n < 10")
    case True
    with 1(2) show ?thesis
      by (auto simp: decimal.simps [of m] decimal.simps [of n] digit_inject split: if_splits)
  next
    case False
    with 1(2) have "decimal (m div 10) = decimal (n div 10)" and "m mod 10 = n mod 10"
      by (auto simp: decimal.simps [of m] decimal.simps [of n] digit_inject)
    with 1(1) False show ?thesis
      by (metis div_mult_mod_eq)
  qed
qed

lemma length_decimal_le: "n < 10 ^ Suc k \<Longrightarrow> length (decimal n) \<le> Suc k"
proof (induction k arbitrary: n)
  case 0
  then show ?case by (simp add: decimal.simps [of n])
next
  case (Suc k)
  then have "n div 10 < 10 ^ Suc k" by (simp add: div_less_iff_less_mult)
  with Suc.IH [of "n div 10"] show ?case by (simp add: decimal.simps [of n])
qed

interpretation decimal: field_printer decimal is_digit
  by unfold_locales (simp_all add: decimal_inject decimal_digits)

lemma hex_byte_inject [simp]: "hex_byte a = hex_byte b \<longleftrightarrow> a = b"
proof
  assume "hex_byte a = hex_byte b"
  then have "unat a div 16 = unat b div 16" and "unat a mod 16 = unat b mod 16"
    using unat_u8_less [of a] unat_u8_less [of b]
    by (simp_all add: hex_byte_def digit_inject div_less_iff_less_mult)
  then show "a = b" by (metis div_mult_mod_eq word_unat_eq_iff)
qed simp

lemma length_hex_byte [simp]: "length (hex_byte b) = 2"
  by (simp add: hex_byte_def)

section \<open>Index\<close>

text \<open>
  \<^verbatim>\<open>Index\<close> is an offset that borrows the buffer it was computed for; the borrow has no representation
  at run time. The other theories use the offset itself.
\<close>

datatype index = Index (index_deref: nat)

definition index_new :: "bytes \<Rightarrow> nat \<Rightarrow> index" where
  "index_new buffer index = Index index"

section \<open>Payloads\<close>

definition payload_format :: "bytes \<Rightarrow> string" where
  "payload_format raw =
     concat (map (\<lambda>byte. hex_byte byte @ '' '') (take (min (length raw) 16) raw))
     @ (if 16 < length raw then ''... '' else '''')
     @ ''('' @ decimal (length raw) @ '' bytes)''"

text \<open>The first bytes of a payload, two digits and a space each.\<close>

abbreviation payload_bytes :: "bytes \<Rightarrow> string" where
  "payload_bytes bs \<equiv> concat (map (\<lambda>byte. hex_byte byte @ '' '') bs)"

lemma length_payload_bytes: "length (payload_bytes bs) = 3 * length bs"
  by (induction bs) simp_all

lemma payload_bytes_eq_iff:
  "length bs = length cs \<Longrightarrow> payload_bytes bs = payload_bytes cs \<longleftrightarrow> bs = cs"
  by (induction bs cs rule: list_induct2) (simp_all add: append_eq_append_conv)

lemma of_char_digit: "d < 16 \<Longrightarrow> (of_char (digit d) :: nat) = (if d < 10 then 48 + d else 87 + d)"
  by (simp add: digit_def)

lemma hex_byte_no_bracket: "CHR ''('' \<notin> set (hex_byte b)"
proof -
  have "digit d \<noteq> CHR ''(''" if "d < 16" for d
    using of_char_digit [OF that] by (auto split: if_splits)
  moreover have "unat b div 16 < 16" using unat_u8_less [of b] by simp
  ultimately show ?thesis unfolding hex_byte_def by (metis list.set_intros(1) mod_less_divisor
        set_ConsD empty_iff list.set(1) zero_less_numeral)
qed

lemma payload_bytes_no_bracket: "CHR ''('' \<notin> set (payload_bytes bs)"
  by (auto simp: hex_byte_no_bracket)

lemma payload_format_split:
  "payload_format raw =
     (payload_bytes (take 16 raw) @ (if 16 < length raw then ''... '' else ''''))
     @ CHR ''('' # decimal (length raw) @ '' bytes)''"
  by (simp add: payload_format_def min_def)

text \<open>
  Two payloads are printed alike in the logs exactly if they have the same length and agree on
  their first sixteen bytes: the text shows these bytes and the length, and nothing of it is ambiguous.
  Its length is bounded by a constant plus the digits of the payload length, so that an arbitrarily
  large payload does not end up in the log.
\<close>

theorem payload_format_exact:
  "(payload_format p = payload_format q \<longleftrightarrow> length p = length q \<and> take 16 p = take 16 q)
   \<and> length (payload_format p)
       = 3 * min 16 (length p) + (if 16 < length p then 4 else 0) + length (decimal (length p)) + 8"
proof
  let ?pre = "\<lambda>raw. payload_bytes (take 16 raw) @ (if 16 < length raw then ''... '' else '''')"
  have no_bracket: "CHR ''('' \<notin> set (?pre raw)" for raw
    using payload_bytes_no_bracket [of "take 16 raw"] by simp
  have "payload_format p = payload_format q \<longleftrightarrow> ?pre p = ?pre q \<and> length p = length q"
    unfolding payload_format_split separator_split [OF no_bracket no_bracket]
    using decimal.field_eq_iff [of "CHR '' ''" "length p" "''bytes)''" "length q" "''bytes)''"]
    by (simp add: is_digit_def)
  then show "payload_format p = payload_format q \<longleftrightarrow> length p = length q \<and> take 16 p = take 16 q"
    by (auto simp: payload_bytes_eq_iff)
  show "length (payload_format p)
       = 3 * min 16 (length p) + (if 16 < length p then 4 else 0) + length (decimal (length p)) + 8"
    by (simp add: payload_format_split length_payload_bytes del: length_concat)
qed

end
