(* ===== verification/Testing_Setup.thy ===== *)
theory Testing_Setup
  imports Delivery Text
begin

text \<open>
  The test environment of \<^verbatim>\<open>src/src/protocol.rs\<close> (module \<^verbatim>\<open>tests\<close>, \<^verbatim>\<open>TestingSetup\<close>) and the scenarios that are run in it. Two
  peers, Alice and Bob, exchange messages on one channel; \<^verbatim>\<open>recv_on\<close> hands a message to a peer at once
  and, on a copy of the peer, in chunks of every size up to two frames, and compares the results. A failed
  assertion is a panic, so a scenario is a computation that must not be \<^const>\<open>None\<close>.

  The tests run the scenarios for four payloads. Here the payload is a parameter, and the scenarios are
  shown to succeed for every payload within the limit.
\<close>

section \<open>Payloads\<close>

datatype varying_payload =
    PayloadNone
  | PayloadSingleFrame
  | PayloadMultiFrame
  | PayloadLargeMultiFrame
  | PayloadTooLarge

definition all_valid :: "varying_payload list" where
  "all_valid = [PayloadNone, PayloadSingleFrame, PayloadMultiFrame, PayloadLargeMultiFrame]"

text \<open>The kinds of the messages that carry a payload, or none.\<close>

definition payload_request_kind :: "bytes option \<Rightarrow> frame_kind" where
  "payload_request_kind payload = (if payload = None then Request else RequestPl)"

definition payload_response_kind :: "bytes option \<Rightarrow> frame_kind" where
  "payload_response_kind payload = (if payload = None then Response else ResponsePl)"

text \<open>The long texts repeat a phrase; they are written as repetitions.\<close>

definition LONG_PAYLOAD :: string where
  "LONG_PAYLOAD = ''large payload'' @ concat (replicate 5 '' large payload'')"

definition VERY_LONG_PAYLOAD :: string where
  "VERY_LONG_PAYLOAD =
     (let phrase = ''very very large payload'' @ concat (replicate 5 '' very large payload'')
      in phrase @ concat (replicate 3 (CHR '' '' # phrase)))"

definition OVERLY_LONG_PAYLOAD :: string where
  "OVERLY_LONG_PAYLOAD = concat (replicate 128 ''abcdefgh'')"

definition get_slice :: "varying_payload \<Rightarrow> bytes option" where
  "get_slice self = map_option string_bytes (case self of
       PayloadNone \<Rightarrow> None
     | PayloadSingleFrame \<Rightarrow> Some ''asdf''
     | PayloadMultiFrame \<Rightarrow> Some LONG_PAYLOAD
     | PayloadLargeMultiFrame \<Rightarrow> Some VERY_LONG_PAYLOAD
     | PayloadTooLarge \<Rightarrow> Some OVERLY_LONG_PAYLOAD)"

section \<open>The environment\<close>

record testing_setup =
  alice :: juliet_protocol
  bob :: juliet_protocol
  common_channel :: channel_id
  ts_max_frame_size :: max_frame_size

datatype test_peer = Alice | Bob

fun peer_not :: "test_peer \<Rightarrow> test_peer" where
  "peer_not Alice = Bob"
| "peer_not Bob = Alice"

definition MAX_PAYLOAD_SIZE :: u32 where "MAX_PAYLOAD_SIZE = 512"
definition MAX_FRAME_SIZE :: u32 where "MAX_FRAME_SIZE = 20"
definition NUM_CHANNELS :: u8 where "NUM_CHANNELS = 4"

definition testing_config :: channel_configuration where
  "testing_config =
     with_max_response_payload_size MAX_PAYLOAD_SIZE
       (with_max_request_payload_size MAX_PAYLOAD_SIZE (with_request_limit 2 channel_configuration_new))"

definition testing_setup_new :: "testing_setup option" where
  "testing_setup_new =
     do { max_frame_size \<leftarrow> mfs_new MAX_FRAME_SIZE;
          pb \<leftarrow> builder_max_frame_size (mfs_get max_frame_size)
            (builder_with_default_channel_config (unat NUM_CHANNELS) testing_config);
          Some \<lparr>alice = builder_build pb, bob = builder_build pb,
                common_channel = ChannelId (NUM_CHANNELS - 1), ts_max_frame_size = max_frame_size\<rparr> }"

text \<open>\<^verbatim>\<open>get_peer_mut\<close> is a reference; here it is read and written.\<close>

definition get_peer :: "test_peer \<Rightarrow> testing_setup \<Rightarrow> juliet_protocol" where
  "get_peer peer self = (case peer of Alice \<Rightarrow> alice self | Bob \<Rightarrow> bob self)"

definition set_peer :: "test_peer \<Rightarrow> juliet_protocol \<Rightarrow> testing_setup \<Rightarrow> testing_setup" where
  "set_peer peer p self = (case peer of Alice \<Rightarrow> self\<lparr>alice := p\<rparr> | Bob \<Rightarrow> self\<lparr>bob := p\<rparr>)"

type_synonym read_result = "outgoing_message + completed_read"

text \<open>
  The loop that receives the bytes in chunks of one size. It panics if all bytes are sent and the message
  is still incomplete.
\<close>

partial_function (option) trickle ::
  "nat \<Rightarrow> juliet_protocol \<Rightarrow> bytes \<Rightarrow> bytes \<Rightarrow> read_result option" where
  "trickle transmission_chunk_size this unsent buffer =
     do { let chunk = take (min transmission_chunk_size (length unsent)) unsent;
          let unsent = drop (min transmission_chunk_size (length unsent)) unsent;
          (outcome, this, buffer) \<leftarrow> process_incoming this (buffer @ chunk);
          case outcome of
            Incomplete _ \<Rightarrow>
              if unsent = [] then None else trickle transmission_chunk_size this unsent buffer
          | _ \<Rightarrow> outcome_to_result outcome }"

definition recv_on ::
  "test_peer \<Rightarrow> outgoing_message \<Rightarrow> testing_setup \<Rightarrow> (read_result \<times> testing_setup) option" where
  "recv_on dest msg self =
     do { msg_bytes \<leftarrow> om_to_bytes (ts_max_frame_size self) msg;
          (outcome, p, msg_bytes_buffer) \<leftarrow> process_incoming (get_peer dest self) msg_bytes;
          expected \<leftarrow> outcome_to_result outcome;
          rust_assert (case expected of Inr _ \<Rightarrow> msg_bytes_buffer = [] | Inl _ \<Rightarrow> True);
          rust_assert (list_all
            (\<lambda>size. trickle size (get_peer dest self) msg_bytes [] = Some expected)
            [1 ..< unat (mfs_get (ts_max_frame_size self)) * 2 + 2]);
          Some (expected, set_peer dest p self) }"

definition expect_consumes :: "test_peer \<Rightarrow> outgoing_message \<Rightarrow> testing_setup \<Rightarrow> testing_setup option" where
  "expect_consumes dest msg self =
     do { msg_bytes \<leftarrow> om_to_bytes (ts_max_frame_size self) msg;
          (outcome, p, msg_bytes) \<leftarrow> process_incoming (get_peer dest self) msg_bytes;
          rust_assert (msg_bytes = []);
          rust_assert (outcome = Incomplete 4);
          Some (set_peer dest p self) }"

text \<open>\<^verbatim>\<open>expect\<close> and \<^verbatim>\<open>expect_err\<close> of a \<^verbatim>\<open>Result\<close>.\<close>

fun expect :: "'e + 'a \<Rightarrow> 'a option" where
  "expect (Inr v) = Some v"
| "expect (Inl _) = None"

fun expect_err :: "'e + 'a \<Rightarrow> 'e option" where
  "expect_err (Inl e) = Some e"
| "expect_err (Inr _) = None"

definition create_and_send_request ::
  "test_peer \<Rightarrow> bytes option \<Rightarrow> testing_setup \<Rightarrow> (read_result \<times> testing_setup) option" where
  "create_and_send_request origin payload self =
     do { (created, p) \<leftarrow> create_request (common_channel self) payload (get_peer origin self);
          msg \<leftarrow> expect created;
          recv_on (peer_not origin) msg (set_peer origin p self) }"

definition inject_and_send_request ::
  "test_peer \<Rightarrow> bytes option \<Rightarrow> testing_setup \<Rightarrow> (read_result \<times> testing_setup) option" where
  "inject_and_send_request origin payload self =
     do { let ch = common_channel self;
          origin_channel \<leftarrow> expect (lookup_channel (get_peer origin self) ch);
          (msg, origin_channel) \<leftarrow> create_unchecked_request ch payload origin_channel;
          recv_on (peer_not origin) msg
            (set_peer origin (put_channel ch origin_channel (get_peer origin self)) self) }"

text \<open>
  The functions that send an answer or a cancellation return \<^verbatim>\<open>None\<close> if nothing is sent.
\<close>

definition send_if_created ::
  "test_peer \<Rightarrow> (local_protocol_violation + outgoing_message option) \<times> juliet_protocol \<Rightarrow> testing_setup
   \<Rightarrow> (read_result option \<times> testing_setup) option" where
  "send_if_created origin created self =
     do { msg \<leftarrow> expect (fst created);
          let self = set_peer origin (snd created) self;
          case msg of
            None \<Rightarrow> Some (None, self)
          | Some msg \<Rightarrow> do { (res, self) \<leftarrow> recv_on (peer_not origin) msg self; Some (Some res, self) } }"

definition cancel_request_and_send ::
  "test_peer \<Rightarrow> msg_id \<Rightarrow> testing_setup \<Rightarrow> (read_result option \<times> testing_setup) option" where
  "cancel_request_and_send origin i self =
     send_if_created origin (cancel_request (common_channel self) i (get_peer origin self)) self"

definition cancel_response_and_send ::
  "test_peer \<Rightarrow> msg_id \<Rightarrow> testing_setup \<Rightarrow> (read_result option \<times> testing_setup) option" where
  "cancel_response_and_send origin i self =
     send_if_created origin (cancel_response (common_channel self) i (get_peer origin self)) self"

definition create_and_send_response ::
  "test_peer \<Rightarrow> msg_id \<Rightarrow> bytes option \<Rightarrow> testing_setup \<Rightarrow> (read_result option \<times> testing_setup) option" where
  "create_and_send_response origin i payload self =
     send_if_created origin (create_response (common_channel self) i payload (get_peer origin self)) self"

definition inject_and_send_response ::
  "test_peer \<Rightarrow> msg_id \<Rightarrow> bytes option \<Rightarrow> testing_setup \<Rightarrow> (read_result \<times> testing_setup) option" where
  "inject_and_send_response origin i payload self =
     recv_on (peer_not origin) (create_unchecked_response (common_channel self) i payload) self"

definition inject_and_send_response_cancellation ::
  "test_peer \<Rightarrow> msg_id \<Rightarrow> testing_setup \<Rightarrow> (read_result \<times> testing_setup) option" where
  "inject_and_send_response_cancellation origin i self =
     recv_on (peer_not origin) (create_unchecked_response_cancellation (common_channel self) i) self"

definition assert_is_new_request ::
  "msg_id \<Rightarrow> bytes option \<Rightarrow> completed_read \<Rightarrow> testing_setup \<Rightarrow> unit option" where
  "assert_is_new_request expected_id expected_payload completed_read self = (case completed_read of
       NewRequest ch i payload \<Rightarrow>
         rust_assert (ch = common_channel self \<and> i = expected_id \<and> payload = expected_payload)
     | _ \<Rightarrow> None)"

definition assert_is_request_cancellation ::
  "msg_id \<Rightarrow> completed_read \<Rightarrow> testing_setup \<Rightarrow> unit option" where
  "assert_is_request_cancellation expected_id completed_read self = (case completed_read of
       RequestCancellation ch i \<Rightarrow> rust_assert (ch = common_channel self \<and> i = expected_id)
     | _ \<Rightarrow> None)"

definition assert_is_received_response ::
  "msg_id \<Rightarrow> bytes option \<Rightarrow> completed_read \<Rightarrow> testing_setup \<Rightarrow> unit option" where
  "assert_is_received_response expected_id expected_payload completed_read self = (case completed_read of
       ReceivedResponse ch i payload \<Rightarrow>
         rust_assert (ch = common_channel self \<and> i = expected_id \<and> payload = expected_payload)
     | _ \<Rightarrow> None)"

definition assert_is_response_cancellation ::
  "msg_id \<Rightarrow> completed_read \<Rightarrow> testing_setup \<Rightarrow> unit option" where
  "assert_is_response_cancellation expected_id completed_read self = (case completed_read of
       ResponseCancellation ch i \<Rightarrow> rust_assert (ch = common_channel self \<and> i = expected_id)
     | _ \<Rightarrow> None)"

definition assert_is_error_message ::
  "error_kind \<Rightarrow> msg_id \<Rightarrow> outgoing_message + 'a \<Rightarrow> testing_setup \<Rightarrow> unit option" where
  "assert_is_error_message kind i result self =
     do { err \<leftarrow> expect_err result;
          let h = om_header err;
          k \<leftarrow> header_error_kind h;
          rust_assert (k = kind);
          rust_assert (header_id h = i);
          rust_assert (header_channel h = common_channel self) }"

section \<open>Reception\<close>

lemma trickle_settled:
  assumes "protocol_inv p" and "0 < n"
    and "process_incoming p (buffer @ unsent) = Some (oc, p', rest)" and "outcome_to_result oc = Some res"
  shows "trickle n p unsent buffer = Some res"
  using assms
proof (induction "length unsent" arbitrary: p buffer unsent rule: less_induct)
  case less
  let ?m = "max_frame_size p" and ?cfgs = "map config (channels p)"
  let ?k = "min n (length unsent)"
  have like: "protocol_like ?m ?cfgs p"
    by (rule protocol_like_refl [OF less.prems(1)])
  obtain oc1 p1 b1 where first: "process_incoming p (buffer @ take ?k unsent) = Some (oc1, p1, b1)"
      "protocol_like ?m ?cfgs p1"
    using juliet.looped.parse_total [OF like] by blast
  show ?case
  proof (cases "\<exists>h. oc1 = Incomplete h")
    case True
    then have whole: "process_incoming p1 (b1 @ drop ?k unsent) = Some (oc, p', rest)"
      using juliet.looped.parse_resume [OF like, of "buffer @ take ?k unsent" _ p1 b1 "drop ?k unsent"] first(1) less.prems(3)
      by auto
    have more_unsent: "drop ?k unsent \<noteq> []"
    proof
      assume "drop ?k unsent = []"
      then have "\<exists>h. oc = Incomplete h"
        using first(1) less.prems(3) True by auto
      then show False
        using less.prems(4) by (auto simp: outcome_to_result_def)
    qed
    then have "length (drop ?k unsent) < length unsent"
      using less.prems(2) by (cases unsent) auto
    then have "trickle n p1 (drop ?k unsent) b1 = Some res"
      using less.hyps [of "drop ?k unsent" p1 b1] whole first(2) less.prems(2,4) by (simp add: protocol_like_def)
    then show ?thesis
      using first(1) True more_unsent by (subst trickle.simps) (auto simp: Let_def)
  next
    case False
    then have "oc = oc1"
      using juliet.looped.parse_settled [OF like first(1), of "drop ?k unsent"] less.prems(3) by simp
    then show ?thesis
      using first(1) less.prems(4) False by (subst trickle.simps) (auto simp: Let_def split: outcome.split)
  qed
qed

lemma om_to_bytes_wire:
  "mfs_valid m \<Longrightarrow> payload_fits msg \<Longrightarrow> om_to_bytes m msg = Some (concat (wire_frames m msg))"
  using byte_iter_buf.copy_to_bytes_content [OF om_iter_bytes_inv(1)] by (simp add: om_to_bytes_def om_iter_bytes_inv(2))

lemma recv_on_settled:
  assumes "protocol_inv (get_peer dest env)" and "ts_max_frame_size env = max_frame_size (get_peer dest env)"
    and "payload_fits msg"
    and "process_incoming (get_peer dest env) (concat (wire_frames (ts_max_frame_size env) msg)) = Some (oc, p', rest)"
    and "outcome_to_result oc = Some res" and "\<And>v. res = Inr v \<Longrightarrow> rest = []"
  shows "recv_on dest msg env = Some (res, set_peer dest p' env)"
proof -
  have "mfs_valid (ts_max_frame_size env)"
    using assms(1,2) by (simp add: protocol_inv_def)
  note bytes = om_to_bytes_wire [OF this assms(3)]
  have "trickle n (get_peer dest env) (concat (wire_frames (ts_max_frame_size env) msg)) [] = Some res" if "0 < n" for n
    using trickle_settled [OF assms(1) that, of "[]"] assms(4,5) by simp
  then show ?thesis
    using assms(4-6) by (auto simp: recv_on_def bytes rust_assert_def list_all_iff split: sum.split)
qed

text \<open>
  What the environment does with a message is its abstract effect on the channel of the receiver.
\<close>

lemma recv_on_message:
  assumes "protocol_inv (get_peer dest env)" and "ts_max_frame_size env = max_frame_size (get_peer dest env)"
    and "channel_exists ch (get_peer dest env)" and "current_multiframe_receiver (chan_of ch (get_peer dest env)) = Ready"
    and "well_formed (config (chan_of ch (get_peer dest env))) k payload"
  shows "receive_message k ch i payload (chan_of ch (get_peer dest env)) = (Inr (Some v), c') \<Longrightarrow>
      recv_on dest (outgoing_message_new (header_new k ch i) payload) env
        = Some (Inr v, set_peer dest (put_channel ch c' (get_peer dest env)) env)"
    and "receive_message k ch i payload (chan_of ch (get_peer dest env)) = (Inl e, c') \<Longrightarrow>
      \<exists>env'. recv_on dest (outgoing_message_new (header_new k ch i) payload) env
        = Some (Inl (outgoing_message_new (header_new_error e ch i) None), env')
        \<and> common_channel env' = common_channel env"
proof -
  let ?p = "get_peer dest env" and ?msg = "outgoing_message_new (header_new k ch i) payload"
  have fits: "payload_fits ?msg"
    using assms(5) order_trans [OF _ unat_u32_le]
    by (auto simp: payload_fits_def well_formed_def outgoing_message_new_def split: option.splits)
  note effect = message_delivery_effect [OF assms(1,3-5), of i "[]"]
  show "recv_on dest ?msg env = Some (Inr v, set_peer dest (put_channel ch c' ?p) env)"
    if "receive_message k ch i payload (chan_of ch ?p) = (Inr (Some v), c')"
    using effect that assms(2)
    by (intro recv_on_settled [OF assms(1,2) fits, where oc = "Success v" and rest = "[]"])
       (simp_all add: message_effect_def outcome_to_result_def)
  show "\<exists>env'. recv_on dest ?msg env = Some (Inl (outgoing_message_new (header_new_error e ch i) None), env')
      \<and> common_channel env' = common_channel env"
    if refused: "receive_message k ch i payload (chan_of ch ?p) = (Inl e, c')"
  proof -
    obtain p' b' where "process_incoming ?p (concat (wire_frames (ts_max_frame_size env) ?msg))
        = Some (Fatal (outgoing_message_new (header_new_error e ch i) None), p', b')"
      using effect assms(2) unfolding refused by (auto simp: message_effect_def)
    from recv_on_settled [OF assms(1,2) fits this]
    show ?thesis
      by (simp add: outcome_to_result_def) (simp add: set_peer_def split: test_peer.split)
  qed
qed

section \<open>The state of the environment\<close>

text \<open>
  The scenarios only change the common channel of both peers, so that an environment is described by
  these two channels.
\<close>

definition testing_protocol :: juliet_protocol where
  "testing_protocol = \<lparr>channels = replicate 4 (channel_new testing_config), max_frame_size = MaxFrameSize 20\<rparr>"

definition testing_env :: "(test_peer \<Rightarrow> channel) \<Rightarrow> testing_setup" where
  "testing_env f =
     \<lparr>alice = put_channel (ChannelId 3) (f Alice) testing_protocol,
      bob = put_channel (ChannelId 3) (f Bob) testing_protocol,
      common_channel = ChannelId 3, ts_max_frame_size = MaxFrameSize 20\<rparr>"

lemma testing_setup_new_env: "testing_setup_new = Some (testing_env (\<lambda>_. channel_new testing_config))"
proof -
  have "(replicate n x)[i := x] = replicate n x" for n i and x :: channel
    by (cases "i < n") (simp_all add: list_eq_iff_nth_eq nth_list_update)
  then show ?thesis
    by (simp add: testing_setup_new_def testing_env_def testing_protocol_def put_channel_def mfs_new_def
        builder_max_frame_size_def builder_with_default_channel_config_def builder_build_def rust_assert_def
        mfs_MIN_def header_SIZE_def varint32_MAX_LEN_def MAX_FRAME_SIZE_def NUM_CHANNELS_def)
qed

lemma testing_env_simps [simp]:
  "get_peer peer (testing_env f) = put_channel (ChannelId 3) (f peer) testing_protocol"
  "set_peer peer (put_channel (ChannelId 3) c testing_protocol) (testing_env f) = testing_env (f(peer := c))"
  "common_channel (testing_env f) = ChannelId 3"
  "ts_max_frame_size (testing_env f) = MaxFrameSize 20"
  "max_frame_size testing_protocol = MaxFrameSize 20"
  "channel_exists (ChannelId 3) testing_protocol"
  by (cases peer; simp add: get_peer_def set_peer_def testing_env_def testing_protocol_def channel_exists_def)+

definition tested :: "channel \<Rightarrow> bool" where
  "tested c \<longleftrightarrow> channel_inv c \<and> config c = testing_config \<and> current_multiframe_receiver c = Ready"

definition valid_payload :: "bytes option \<Rightarrow> bool" where
  "valid_payload payload \<longleftrightarrow> (case payload of None \<Rightarrow> True | Some pl \<Rightarrow> length pl \<le> 512)"

lemma all_valid_payloads: "payload \<in> set all_valid \<Longrightarrow> valid_payload (get_slice payload)"
  by (auto simp: all_valid_def get_slice_def valid_payload_def string_bytes_def LONG_PAYLOAD_def
      VERY_LONG_PAYLOAD_def Let_def length_concat sum_list_replicate)

lemma testing_config_simps [simp]:
  "request_limit testing_config = 2"
  "max_request_payload_size testing_config = 512"
  "max_response_payload_size testing_config = 512"
  by (simp_all add: testing_config_def MAX_PAYLOAD_SIZE_def channel_configuration_defs)

lemma testing_protocol_inv: "channel_inv c \<Longrightarrow> protocol_inv (put_channel (ChannelId 3) c testing_protocol)"
  by (auto simp: protocol_inv_def testing_protocol_def put_channel_def list_all_iff channel_new_inv
      mfs_valid_def mfs_MIN_def header_SIZE_def varint32_MAX_LEN_def dest: set_update_subset_insert [THEN subsetD])

text \<open>Headers of messages that carry a payload or not.\<close>

lemma well_formed_testing:
  "valid_payload payload \<Longrightarrow> well_formed testing_config (if payload = None then Request else RequestPl) payload"
  "valid_payload payload \<Longrightarrow> well_formed testing_config (if payload = None then Response else ResponsePl) payload"
  by (auto simp: well_formed_def valid_payload_def carries_payload_def payload_limit_def split: option.splits)

lemma testing_receives:
  assumes "tested (f dest)" and "well_formed testing_config k payload"
    and "receive_message k (ChannelId 3) i payload (f dest) = (Inr (Some v), c')"
  shows "recv_on dest (outgoing_message_new (header_new k (ChannelId 3) i) payload) (testing_env f)
    = Some (Inr v, testing_env (f(dest := c')))"
  using recv_on_message(1) [of dest "testing_env f" "ChannelId 3" k payload i v c'] assms
  by (simp add: tested_def testing_protocol_inv)

lemma testing_refuses:
  assumes "tested (f dest)" and "well_formed testing_config k payload"
    and "receive_message k (ChannelId 3) i payload (f dest) = (Inl e, c')"
  shows "\<exists>env'. recv_on dest (outgoing_message_new (header_new k (ChannelId 3) i) payload) (testing_env f)
    = Some (Inl (outgoing_message_new (header_new_error e (ChannelId 3) i) None), env')
    \<and> common_channel env' = ChannelId 3"
  using recv_on_message(2) [of dest "testing_env f" "ChannelId 3" k payload i e c'] assms
  by (simp add: tested_def testing_protocol_inv)

section \<open>Operations of the environment\<close>

lemma next_unused_id_unused: "i \<notin> used \<Longrightarrow> next_unused_id used i = Some i"
  by (simp add: next_unused_id.simps)

lemma unchecked_request:
  assumes "Id (prev_request_id c + 1) \<notin> outgoing_requests c" and "card (outgoing_requests c) < 65535"
  shows "create_unchecked_request ch payload c = Some
    (outgoing_message_new (header_new (if payload = None then Request else RequestPl) ch (Id (prev_request_id c + 1))) payload,
     c\<lparr>prev_request_id := prev_request_id c + 1,
       outgoing_requests := insert (Id (prev_request_id c + 1)) (outgoing_requests c)\<rparr>)"
  using assms by (cases payload) (simp_all add: create_unchecked_request_def generate_request_id_def next_unused_id_unused Let_def)

lemma unchecked_response:
  "create_unchecked_response ch i payload =
     outgoing_message_new (header_new (if payload = None then Response else ResponsePl) ch i) payload"
  by (cases payload) (simp_all add: create_unchecked_response_def)

lemma peer_not_neq [simp]: "peer_not peer \<noteq> peer" "peer \<noteq> peer_not peer"
  by (cases peer; simp)+

lemma creates_request:
  assumes "tested c" and "valid_payload payload" and "i = Id (prev_request_id c + 1)"
    and "card (outgoing_requests c) < 2" and "i \<notin> outgoing_requests c"
  shows "create_request (ChannelId 3) payload (put_channel (ChannelId 3) c testing_protocol) = Some
    (Inr (outgoing_message_new (header_new (if payload = None then Request else RequestPl) (ChannelId 3) i) payload),
     put_channel (ChannelId 3) (c\<lparr>prev_request_id := id_get i, outgoing_requests := insert i (outgoing_requests c)\<rparr>)
       testing_protocol)"
  using assms unchecked_request [of c "ChannelId 3" payload]
  by (auto simp: create_request_def lookup_channel_eq channel_allowed_to_send_request_def tested_def valid_payload_def
      split: option.splits)

lemma sends_request:
  assumes "tested (f origin)" and "tested (f (peer_not origin))" and "valid_payload payload"
    and "i = Id (prev_request_id (f origin) + 1)"
    and "card (outgoing_requests (f origin)) < 2" and "i \<notin> outgoing_requests (f origin)"
    and "card (incoming_requests (f (peer_not origin))) < 2" and "i \<notin> incoming_requests (f (peer_not origin))"
  shows "create_and_send_request origin payload (testing_env f) = Some
    (Inr (NewRequest (ChannelId 3) i payload),
     testing_env (f(origin := (f origin)\<lparr>prev_request_id := id_get i, outgoing_requests := insert i (outgoing_requests (f origin))\<rparr>,
       peer_not origin := increment_cancellation_allowance ((f (peer_not origin))
         \<lparr>incoming_requests := insert i (incoming_requests (f (peer_not origin)))\<rparr>))))"
proof -
  let ?a = "(f origin)\<lparr>prev_request_id := id_get i, outgoing_requests := insert i (outgoing_requests (f origin))\<rparr>"
  have "recv_on (peer_not origin) (outgoing_message_new (header_new (if payload = None then Request else RequestPl)
      (ChannelId 3) i) payload) (testing_env (f(origin := ?a))) = Some (Inr (NewRequest (ChannelId 3) i payload),
      testing_env (f(origin := ?a, peer_not origin := increment_cancellation_allowance ((f (peer_not origin))
         \<lparr>incoming_requests := insert i (incoming_requests (f (peer_not origin)))\<rparr>))))"
    using assms(2,7,8)
    by (intro testing_receives well_formed_testing assms(3))
       (simp_all add: receive_message_def is_at_max_incoming_requests_def tested_def)
  then show ?thesis
    using creates_request [OF assms(1,3-6)] by (simp add: create_and_send_request_def)
qed

lemma sends_response:
  assumes "tested (f (peer_not origin))" and "tested (f origin)" and "valid_payload payload"
    and "i \<in> incoming_requests (f origin)" and "i \<in> outgoing_requests (f (peer_not origin))"
  shows "create_and_send_response origin i payload (testing_env f) = Some
    (Some (Inr (ReceivedResponse (ChannelId 3) i payload)),
     testing_env (f(origin := (f origin)\<lparr>incoming_requests := incoming_requests (f origin) - {i}\<rparr>,
       peer_not origin := (f (peer_not origin))\<lparr>outgoing_requests := outgoing_requests (f (peer_not origin)) - {i}\<rparr>)))"
proof -
  let ?f = "f(origin := (f origin)\<lparr>incoming_requests := incoming_requests (f origin) - {i}\<rparr>)"
  have "create_response (ChannelId 3) i payload (get_peer origin (testing_env f)) =
      (Inr (Some (create_unchecked_response (ChannelId 3) i payload)), put_channel (ChannelId 3) (?f origin) testing_protocol)"
    using assms(2-4) by (auto simp: create_response_def lookup_channel_eq tested_def valid_payload_def split: option.splits)
  moreover have "recv_on (peer_not origin) (create_unchecked_response (ChannelId 3) i payload) (testing_env ?f)
    = Some (Inr (ReceivedResponse (ChannelId 3) i payload),
     testing_env (?f(peer_not origin := (f (peer_not origin))\<lparr>outgoing_requests := outgoing_requests (f (peer_not origin)) - {i}\<rparr>)))"
    unfolding unchecked_response using assms(1,5)
    by (intro testing_receives well_formed_testing assms(3)) (simp_all add: receive_message_def)
  ultimately show ?thesis
    by (simp add: create_and_send_response_def send_if_created_def)
qed

lemma well_formed_cancellation: "well_formed cfg CancelReq None" "well_formed cfg CancelResp None"
  by (simp_all add: well_formed_def carries_payload_def)

lemma receives_request_cancellation:
  assumes "tested (f dest)" and "0 < cancellation_allowance (f dest)" and "i \<in> incoming_requests (f dest)"
  shows "recv_on dest (create_unchecked_request_cancellation (ChannelId 3) i) (testing_env f) = Some
    (Inr (RequestCancellation (ChannelId 3) i),
     testing_env (f(dest := (f dest)\<lparr>cancellation_allowance := cancellation_allowance (f dest) - 1\<rparr>)))"
  unfolding create_unchecked_request_cancellation_def using assms
  by (intro testing_receives well_formed_cancellation) (auto simp: receive_message_def)

lemma sends_request_cancellation:
  assumes "tested (f (peer_not origin))" and "0 < cancellation_allowance (f (peer_not origin))"
    and "i \<in> outgoing_requests (f origin)" and "i \<in> incoming_requests (f (peer_not origin))"
  shows "cancel_request_and_send origin i (testing_env f) = Some
    (Some (Inr (RequestCancellation (ChannelId 3) i)), testing_env (f(peer_not origin :=
       (f (peer_not origin))\<lparr>cancellation_allowance := cancellation_allowance (f (peer_not origin)) - 1\<rparr>)))"
  using assms receives_request_cancellation [of f "peer_not origin" i]
  by (simp add: cancel_request_and_send_def send_if_created_def cancel_request_def lookup_channel_eq)

lemma swallows_request_cancellation:
  "i \<notin> outgoing_requests (f origin) \<Longrightarrow> cancel_request_and_send origin i (testing_env f) = Some (None, testing_env f)"
  by (simp add: cancel_request_and_send_def send_if_created_def cancel_request_def lookup_channel_eq)

lemma sends_response_cancellation:
  assumes "tested (f (peer_not origin))"
    and "i \<in> incoming_requests (f origin)" and "i \<in> outgoing_requests (f (peer_not origin))"
  shows "cancel_response_and_send origin i (testing_env f) = Some
    (Some (Inr (ResponseCancellation (ChannelId 3) i)),
     testing_env (f(origin := (f origin)\<lparr>incoming_requests := incoming_requests (f origin) - {i}\<rparr>,
       peer_not origin := (f (peer_not origin))\<lparr>outgoing_requests := outgoing_requests (f (peer_not origin)) - {i}\<rparr>)))"
proof -
  let ?f = "f(origin := (f origin)\<lparr>incoming_requests := incoming_requests (f origin) - {i}\<rparr>)"
  have "recv_on (peer_not origin) (create_unchecked_response_cancellation (ChannelId 3) i) (testing_env ?f)
    = Some (Inr (ResponseCancellation (ChannelId 3) i),
     testing_env (?f(peer_not origin := (f (peer_not origin))\<lparr>outgoing_requests := outgoing_requests (f (peer_not origin)) - {i}\<rparr>)))"
    unfolding create_unchecked_response_cancellation_def using assms(1,3)
    by (intro testing_receives well_formed_cancellation) (simp_all add: receive_message_def)
  then show ?thesis
    using assms(2)
    by (simp add: cancel_response_and_send_def send_if_created_def cancel_response_def lookup_channel_eq)
qed

lemma consumes_late_cancellation:
  assumes "tested (f dest)" and "0 < cancellation_allowance (f dest)" and "i \<notin> incoming_requests (f dest)"
  shows "expect_consumes dest (create_unchecked_request_cancellation (ChannelId 3) i) (testing_env f) = Some
    (testing_env (f(dest := (f dest)\<lparr>cancellation_allowance := cancellation_allowance (f dest) - 1\<rparr>)))"
proof -
  let ?p = "put_channel (ChannelId 3) (f dest) testing_protocol"
  let ?msg = "create_unchecked_request_cancellation (ChannelId 3) i"
  have "process_incoming q [] = Some (Incomplete 4, q, [])" for q
    by (subst process_incoming.simps) (simp add: process_frame_def outcome_incomplete_def header_SIZE_def rust_assert_def)
  moreover have "receive_message CancelReq (ChannelId 3) i None (f dest) =
      (Inr None, (f dest)\<lparr>cancellation_allowance := cancellation_allowance (f dest) - 1\<rparr>)"
    using assms(2,3) by (auto simp: receive_message_def)
  ultimately have "process_incoming ?p (concat (wire_frames (MaxFrameSize 20) ?msg)) = Some (Incomplete 4,
      put_channel (ChannelId 3) ((f dest)\<lparr>cancellation_allowance := cancellation_allowance (f dest) - 1\<rparr>) testing_protocol, [])"
    using message_delivery_effect [of ?p "ChannelId 3" CancelReq None i "[]"] assms(1)
    by (simp add: message_effect_def create_unchecked_request_cancellation_def tested_def
        testing_protocol_inv well_formed_cancellation)
  moreover have "mfs_valid (MaxFrameSize 20)" "payload_fits ?msg"
    using testing_protocol_inv [OF channel_new_inv]
    by (simp_all add: protocol_inv_def payload_fits_def create_unchecked_request_cancellation_def outgoing_message_new_def)
  ultimately show ?thesis
    by (simp add: expect_consumes_def om_to_bytes_wire rust_assert_def)
qed

section \<open>Refused messages\<close>

lemma checks_error:
  "common_channel env = ChannelId 3 \<Longrightarrow> assert_is_error_message e i
     (Inl (outgoing_message_new (header_new_error e (ChannelId 3) i) None)) env = Some ()"
  by (simp add: assert_is_error_message_def outgoing_message_new_def rust_assert_def)

lemma receives_violation:
  assumes "tested (f dest)" and "well_formed testing_config k payload"
    and "fst (receive_message k (ChannelId 3) i payload (f dest)) = Inl e"
  shows "do { (res, env) \<leftarrow> recv_on dest (outgoing_message_new (header_new k (ChannelId 3) i) payload) (testing_env f);
    assert_is_error_message e i res env } = Some ()"
  using testing_refuses [of f dest, OF assms(1,2), of i e] assms(3)
  by (cases "receive_message k (ChannelId 3) i payload (f dest)") (auto simp: checks_error)

lemma receives_excess_cancellation:
  "tested (f dest) \<Longrightarrow> cancellation_allowance (f dest) = 0 \<Longrightarrow>
     do { (res, env) \<leftarrow> recv_on dest (create_unchecked_request_cancellation (ChannelId 3) i) (testing_env f);
          assert_is_error_message CancellationLimitExceeded i res env } = Some ()"
  unfolding create_unchecked_request_cancellation_def
  by (intro receives_violation well_formed_cancellation) (simp_all add: receive_message_def)

lemma injects_request:
  assumes "i = Id (prev_request_id (f origin) + 1)" and "i \<notin> outgoing_requests (f origin)"
    and "card (outgoing_requests (f origin)) < 65535"
  shows "inject_and_send_request origin payload (testing_env f) =
    recv_on (peer_not origin) (outgoing_message_new (header_new (if payload = None then Request else RequestPl) (ChannelId 3) i) payload)
      (testing_env (f(origin := (f origin)\<lparr>prev_request_id := id_get i,
         outgoing_requests := insert i (outgoing_requests (f origin))\<rparr>)))"
  using assms by (simp add: inject_and_send_request_def lookup_channel_eq unchecked_request)

lemma injects_forbidden_request:
  assumes "tested (f (peer_not origin))" and "valid_payload payload" and "i = Id (prev_request_id (f origin) + 1)"
    and "i \<notin> outgoing_requests (f origin)" and "card (outgoing_requests (f origin)) < 65535"
    and "e = (if is_at_max_incoming_requests (f (peer_not origin)) then RequestLimitExceeded else DuplicateRequest)"
    and "is_at_max_incoming_requests (f (peer_not origin)) \<or> i \<in> incoming_requests (f (peer_not origin))"
  shows "do { (res, env) \<leftarrow> inject_and_send_request origin payload (testing_env f);
    assert_is_error_message e i res env } = Some ()"
  unfolding injects_request [of i f origin, OF assms(3-5)] using assms(1,6,7)
  by (intro receives_violation well_formed_testing assms(2)) (auto simp: receive_message_def)

lemma injects_forbidden_response:
  "tested (f (peer_not origin)) \<Longrightarrow> valid_payload payload \<Longrightarrow> i \<notin> outgoing_requests (f (peer_not origin)) \<Longrightarrow>
     do { (res, env) \<leftarrow> inject_and_send_response origin i payload (testing_env f);
          assert_is_error_message FictitiousRequest i res env } = Some ()"
  unfolding inject_and_send_response_def testing_env_simps unchecked_response
  by (intro receives_violation well_formed_testing) (simp_all add: receive_message_def)

lemma injects_forbidden_response_cancellation:
  "tested (f (peer_not origin)) \<Longrightarrow> i \<notin> outgoing_requests (f (peer_not origin)) \<Longrightarrow>
     do { (res, env) \<leftarrow> inject_and_send_response_cancellation origin i (testing_env f);
          assert_is_error_message FictitiousCancel i res env } = Some ()"
  unfolding inject_and_send_response_cancellation_def testing_env_simps create_unchecked_response_cancellation_def
  by (intro receives_violation well_formed_cancellation) (simp_all add: receive_message_def)

text \<open>A payload whose length prefix is not a number, or is above the limit.\<close>

lemma bad_start_refused:
  assumes "protocol_inv p" and "channel_exists ch p" and "carries_payload k"
    and "current_multiframe_receiver (chan_of ch p) = Ready"
    and "k = ResponsePl \<Longrightarrow> i \<in> outgoing_requests (chan_of ch p)"
    and "start_spec (max_frame_size p) (payload_limit k (config (chan_of ch p)))
      (if k = RequestPl then RequestTooLarge else ResponseTooLarge) (header_new k ch i)
      (header_as_ref (header_new k ch i) @ xs) = err_msg (header_new k ch i) e"
  shows "process_incoming p (header_as_ref (header_new k ch i) @ xs) =
    Some (Fatal (outgoing_message_new (header_new_error e ch i) None), p, header_as_ref (header_new k ch i) @ xs)"
proof -
  let ?c = "chan_of ch p" and ?h = "header_new k ch i"
  have "receiver_inv (current_multiframe_receiver ?c)"
    by (simp add: assms(4) receiver_inv_def)
  note acc = accept_accept_spec [OF protocol_channel(1) [OF assms(1,2)] this, of "header_as_ref ?h @ xs" ?h]
  have "in_progress_header (current_multiframe_receiver ?c) \<noteq> Some ?h"
    by (simp add: assms(4))
  note refused = accept_spec_start(2) [OF this assms(6) [unfolded err_msg_header_new]]
  have same: "c\<lparr>current_multiframe_receiver := Ready\<rparr> = c" if "current_multiframe_receiver c = Ready" for c :: channel
    using that by (metis channel.surjective channel.update_convs(3) channel.select_convs(3))
  have "handle_frame (max_frame_size p) k ?h ?c (header_as_ref ?h @ xs) =
      Some (Some (err_msg ?h e), ?c, header_as_ref ?h @ xs)"
    using assms(3-5) acc refused
    by (auto simp: carries_payload_def handle_frame_def handle_request_pl_def handle_response_pl_def
        payload_limit_def err_msg_header_new same)
  from process_incoming_step [OF assms(2) this]
  show ?thesis
    by (simp add: err_msg_header_new)
qed

lemma wire_starts:
  assumes "mfs_valid m" and "length pl \<le> u32_max"
  obtains xs where "concat (wire_frames m (outgoing_message_new h (Some pl))) = header_as_ref h @ leb128 (length pl) @ xs"
  using first_frame_bytes [OF assms, of h] by (meson not_less)

lemma too_large_refused:
  assumes "mfs_valid m" and "length pl \<le> u32_max" and "512 < length pl" and "tested c" and "carries_payload k"
    and "k = ResponsePl \<Longrightarrow> i \<in> outgoing_requests c"
  shows "\<exists>xs. process_incoming (put_channel (ChannelId 3) c testing_protocol)
    (concat (wire_frames m (outgoing_message_new (header_new k (ChannelId 3) i) (Some pl)))) =
    Some (Fatal (outgoing_message_new (header_new_error (if k = RequestPl then RequestTooLarge else ResponseTooLarge)
      (ChannelId 3) i) None), put_channel (ChannelId 3) c testing_protocol, xs)"
proof -
  let ?h = "header_new k (ChannelId 3) i"
  obtain xs where wire: "concat (wire_frames m (outgoing_message_new ?h (Some pl))) = header_as_ref ?h @ leb128 (length pl) @ xs"
    by (rule wire_starts [OF assms(1,2)])
  have "(512 :: u32) < of_nat (length pl)"
    using assms(2,3) by (simp add: word_less_nat_alt unat_of_nat_u32)
  then have "start_spec (MaxFrameSize 20) (payload_limit k testing_config) ek ?h (header_as_ref ?h @ leb128 (length pl) @ xs)
      = err_msg ?h ek" for ek
    using decode_varint32_leb128 [of "length pl" xs] assms(2) by (simp add: start_spec_def payload_limit_def)
  then show ?thesis
    unfolding wire using assms(4-6)
      bad_start_refused [of "put_channel (ChannelId 3) c testing_protocol" "ChannelId 3" k i "leb128 (length pl) @ xs"
        "if k = RequestPl then RequestTooLarge else ResponseTooLarge"]
    by (intro exI) (simp add: tested_def testing_protocol_inv)
qed

lemma recv_too_large:
  assumes "tested (f dest)" and "carries_payload k" and "k = ResponsePl \<Longrightarrow> i \<in> outgoing_requests (f dest)"
    and "512 < length pl" and "length pl \<le> u32_max"
  shows "recv_on dest (outgoing_message_new (header_new k (ChannelId 3) i) (Some pl)) (testing_env f) = Some
    (Inl (outgoing_message_new (header_new_error (if k = RequestPl then RequestTooLarge else ResponseTooLarge) (ChannelId 3) i) None),
     testing_env f)"
proof -
  let ?msg = "outgoing_message_new (header_new k (ChannelId 3) i) (Some pl)"
  let ?err = "outgoing_message_new (header_new_error (if k = RequestPl then RequestTooLarge else ResponseTooLarge) (ChannelId 3) i) None"
  have inv: "protocol_inv (get_peer dest (testing_env f))"
    using assms(1) by (simp add: tested_def testing_protocol_inv)
  then have "mfs_valid (MaxFrameSize 20)"
    by (simp add: protocol_inv_def)
  from too_large_refused [OF this assms(5,4,1-3)]
  obtain xs where "process_incoming (get_peer dest (testing_env f)) (concat (wire_frames (ts_max_frame_size (testing_env f)) ?msg))
      = Some (Fatal ?err, get_peer dest (testing_env f), xs)"
    by auto
  from recv_on_settled [OF inv _ _ this] assms(5) show ?thesis
    by (simp add: payload_fits_def outgoing_message_new_def outcome_to_result_def)
qed

lemma receives_too_large:
  assumes "tested (f dest)" and "carries_payload k" and "k = ResponsePl \<Longrightarrow> i \<in> outgoing_requests (f dest)"
    and "512 < length pl" and "length pl \<le> u32_max"
  shows "do { (res, env) \<leftarrow> recv_on dest (outgoing_message_new (header_new k (ChannelId 3) i) (Some pl)) (testing_env f);
    assert_is_error_message (if k = RequestPl then RequestTooLarge else ResponseTooLarge) i res env } = Some ()"
  by (simp add: recv_too_large [of f dest, OF assms] checks_error)

end
