(* ===== verification/Testing_Scenarios.thy ===== *)
theory Testing_Scenarios
  imports Testing_Setup
begin

text \<open>
  The scenarios of \<^verbatim>\<open>src/src/protocol.rs\<close> that run in the test environment, each as a computation that
  panics if an assertion fails. The loops over payloads are the quantification in the theorems, which show that
  every scenario succeeds for every payload within the limit, or for every payload above it.
\<close>

section \<open>Use cases\<close>

definition use_case_req_ok :: "bytes option \<Rightarrow> unit option" where
  "use_case_req_ok payload =
     do { env \<leftarrow> testing_setup_new;
          let expected_id = Id 1;
          (res, env) \<leftarrow> create_and_send_request Alice payload env;
          bob_completed_read \<leftarrow> expect res;
          assert_is_new_request expected_id payload bob_completed_read env;
          (res, env) \<leftarrow> create_and_send_response Bob expected_id payload env;
          res \<leftarrow> res;
          alice_completed_read \<leftarrow> expect res;
          assert_is_received_response expected_id payload alice_completed_read env }"

definition env_with_initial_areq :: "bytes option \<Rightarrow> (testing_setup \<times> msg_id) option" where
  "env_with_initial_areq payload =
     do { env \<leftarrow> testing_setup_new;
          let expected_id = Id 1;
          (res, env) \<leftarrow> create_and_send_request Alice payload env;
          bob_initial_completed_read \<leftarrow> expect res;
          assert_is_new_request expected_id payload bob_initial_completed_read env;
          Some (env, expected_id) }"

definition use_case_areq_acnc_brsp :: "bytes option \<Rightarrow> unit option" where
  "use_case_areq_acnc_brsp payload =
     do { (env, i) \<leftarrow> env_with_initial_areq payload;
          (res, env) \<leftarrow> cancel_request_and_send Alice i env;
          res \<leftarrow> res;
          bob_read_of_cancel \<leftarrow> expect res;
          assert_is_request_cancellation i bob_read_of_cancel env;
          (res, env) \<leftarrow> create_and_send_response Bob i payload env;
          res \<leftarrow> res;
          alices_read \<leftarrow> expect res;
          assert_is_received_response i payload alices_read env }"

definition use_case_areq_acnc_bcnc :: "bytes option \<Rightarrow> unit option" where
  "use_case_areq_acnc_bcnc payload =
     do { (env, i) \<leftarrow> env_with_initial_areq payload;
          (res, env) \<leftarrow> cancel_request_and_send Alice i env;
          res \<leftarrow> res;
          bob_read_of_cancel \<leftarrow> expect res;
          assert_is_request_cancellation i bob_read_of_cancel env;
          (res, env) \<leftarrow> cancel_response_and_send Bob i env;
          res \<leftarrow> res;
          alices_read \<leftarrow> expect res;
          assert_is_response_cancellation i alices_read env }"

definition use_case_areq_brsp_acnc :: "bytes option \<Rightarrow> unit option" where
  "use_case_areq_brsp_acnc payload =
     do { (env, i) \<leftarrow> env_with_initial_areq payload;
          (res, env) \<leftarrow> create_and_send_response Bob i payload env;
          res \<leftarrow> res;
          alices_read \<leftarrow> expect res;
          assert_is_received_response i payload alices_read env;
          (res, env) \<leftarrow> cancel_request_and_send Alice i env;
          rust_assert (res = None) }"

definition use_case_areq_bcnc_acnc :: "bytes option \<Rightarrow> unit option" where
  "use_case_areq_bcnc_acnc payload =
     do { (env, i) \<leftarrow> env_with_initial_areq payload;
          (res, env) \<leftarrow> cancel_response_and_send Bob i env;
          res \<leftarrow> res;
          alices_read \<leftarrow> expect res;
          assert_is_response_cancellation i alices_read env;
          (res, env) \<leftarrow> cancel_request_and_send Alice i env;
          rust_assert (res = None) }"

definition use_case_areq_brsp_acncsim :: "bytes option \<Rightarrow> unit option" where
  "use_case_areq_brsp_acncsim payload =
     do { (env, i) \<leftarrow> env_with_initial_areq payload;
          (res, env) \<leftarrow> create_and_send_response Bob i payload env;
          res \<leftarrow> res;
          alices_read \<leftarrow> expect res;
          assert_is_received_response i payload alices_read env;
          env \<leftarrow> expect_consumes Bob (create_unchecked_request_cancellation (common_channel env) i) env;
          Some () }"

definition use_case_areq_bcnc_acncsim :: "bytes option \<Rightarrow> unit option" where
  "use_case_areq_bcnc_acncsim payload =
     do { (env, i) \<leftarrow> env_with_initial_areq payload;
          (res, env) \<leftarrow> cancel_response_and_send Bob i env;
          res \<leftarrow> res;
          alices_read \<leftarrow> expect res;
          assert_is_response_cancellation i alices_read env;
          env \<leftarrow> expect_consumes Bob (create_unchecked_request_cancellation (common_channel env) i) env;
          Some () }"

definition use_cases :: "(bytes option \<Rightarrow> unit option) list" where
  "use_cases =
     [use_case_req_ok, use_case_areq_acnc_brsp, use_case_areq_acnc_bcnc, use_case_areq_brsp_acnc,
      use_case_areq_bcnc_acnc, use_case_areq_brsp_acncsim, use_case_areq_bcnc_acncsim]"

section \<open>Violations\<close>

definition env_req_exceed_in_flight_limit :: "bytes option \<Rightarrow> unit option" where
  "env_req_exceed_in_flight_limit payload =
     do { env \<leftarrow> testing_setup_new;
          (res, env) \<leftarrow> create_and_send_request Alice payload env;
          bob_completed_read_1 \<leftarrow> expect res;
          assert_is_new_request (Id 1) payload bob_completed_read_1 env;
          (res, env) \<leftarrow> create_and_send_request Alice payload env;
          bob_completed_read_2 \<leftarrow> expect res;
          assert_is_new_request (Id 2) payload bob_completed_read_2 env;
          (local_err_result, env) \<leftarrow> inject_and_send_request Alice payload env;
          assert_is_error_message RequestLimitExceeded (Id 3) local_err_result env }"

definition env_req_exceed_req_size_limit :: "bytes option \<Rightarrow> unit option" where
  "env_req_exceed_req_size_limit payload =
     do { env \<leftarrow> testing_setup_new;
          (bob_result, env) \<leftarrow> inject_and_send_request Alice payload env;
          assert_is_error_message RequestTooLarge (Id 1) bob_result env }"

definition env_req_duplicate_request :: "bytes option \<Rightarrow> unit option" where
  "env_req_duplicate_request payload =
     do { env \<leftarrow> testing_setup_new;
          (res, env) \<leftarrow> create_and_send_request Alice payload env;
          bob_completed_read_1 \<leftarrow> expect res;
          assert_is_new_request (Id 1) payload bob_completed_read_1 env;
          alice_channel \<leftarrow> expect (lookup_channel (alice env) (common_channel env));
          rust_assert (1 \<le> prev_request_id alice_channel);
          let alice_channel = alice_channel\<lparr>prev_request_id := prev_request_id alice_channel - 1,
            outgoing_requests := {}\<rparr>;
          let env = env\<lparr>alice := put_channel (common_channel env) alice_channel (alice env)\<rparr>;
          (second_send_result, env) \<leftarrow> inject_and_send_request Alice payload env;
          assert_is_error_message DuplicateRequest (Id 1) second_send_result env }"

definition env_req_response_for_ficticious_request :: "bytes option \<Rightarrow> unit option" where
  "env_req_response_for_ficticious_request payload =
     do { env \<leftarrow> testing_setup_new;
          (res, env) \<leftarrow> create_and_send_request Alice payload env;
          bob_completed_read_1 \<leftarrow> expect res;
          assert_is_new_request (Id 1) payload bob_completed_read_1 env;
          (second_send_result, env) \<leftarrow> inject_and_send_response Bob (Id 123) payload env;
          assert_is_error_message FictitiousRequest (Id 123) second_send_result env }"

definition env_req_cancellation_for_ficticious_request :: "bytes option \<Rightarrow> unit option" where
  "env_req_cancellation_for_ficticious_request payload =
     do { env \<leftarrow> testing_setup_new;
          (res, env) \<leftarrow> create_and_send_request Alice payload env;
          bob_completed_read_1 \<leftarrow> expect res;
          assert_is_new_request (Id 1) payload bob_completed_read_1 env;
          (alice_result, env) \<leftarrow> inject_and_send_response Bob (Id 123) payload env;
          assert_is_error_message FictitiousRequest (Id 123) alice_result env }"

definition is_payload_exceeds_limit :: "local_protocol_violation \<Rightarrow> bool" where
  "is_payload_exceeds_limit violation = (case violation of PayloadExceedsLimit _ _ \<Rightarrow> True | _ \<Rightarrow> False)"

definition env_req_size_limit_exceeded :: "bytes option \<Rightarrow> unit option" where
  "env_req_size_limit_exceeded payload =
     do { env \<leftarrow> testing_setup_new;
          (created, p) \<leftarrow> create_request (common_channel env) payload (alice env);
          let env = env\<lparr>alice := p\<rparr>;
          violation \<leftarrow> expect_err created;
          rust_assert (is_payload_exceeds_limit violation);
          (bob_result, env) \<leftarrow> inject_and_send_request Alice payload env;
          assert_is_error_message RequestTooLarge (Id 1) bob_result env }"

definition env_response_size_limit_exceeded :: "bytes option \<Rightarrow> unit option" where
  "env_response_size_limit_exceeded payload =
     do { (env, i) \<leftarrow> env_with_initial_areq None;
          (created, p) \<leftarrow> create_request (common_channel env) payload (bob env);
          let env = env\<lparr>bob := p\<rparr>;
          violation \<leftarrow> expect_err created;
          rust_assert (is_payload_exceeds_limit violation);
          (alice_result, env) \<leftarrow> inject_and_send_response Bob i payload env;
          assert_is_error_message ResponseTooLarge (Id 1) alice_result env }"

text \<open>A loop over a list whose body may panic.\<close>

fun for_each :: "('a \<Rightarrow> 's \<Rightarrow> 's option) \<Rightarrow> 'a list \<Rightarrow> 's \<Rightarrow> 's option" where
  "for_each body [] s = Some s"
| "for_each body (x # xs) s = do { s \<leftarrow> body x s; for_each body xs s }"

definition env_req_response_cancellation_limit_exceeded :: "u16 \<Rightarrow> bytes option \<Rightarrow> unit option" where
  "env_req_response_cancellation_limit_exceeded num_requests payload =
     do { env \<leftarrow> testing_setup_new;
          env \<leftarrow> for_each (\<lambda>i env. do {
              let expected_id = Id (of_nat i + 1);
              (res, env) \<leftarrow> create_and_send_request Alice payload env;
              bobs_read \<leftarrow> expect res;
              assert_is_new_request expected_id payload bobs_read env;
              Some env }) [0 ..< unat num_requests] env;
          env \<leftarrow> for_each (\<lambda>i env. do {
              let i = Id (of_nat i + 1);
              let msg = create_unchecked_request_cancellation (common_channel env) i;
              (res, env) \<leftarrow> recv_on Bob msg env;
              bobs_read \<leftarrow> expect res;
              assert_is_request_cancellation i bobs_read env;
              Some env }) [0 ..< unat num_requests] env;
          let i = Id (num_requests + 1);
          let msg = create_unchecked_request_cancellation (common_channel env) i;
          (bobs_result, env) \<leftarrow> recv_on Bob msg env;
          assert_is_error_message CancellationLimitExceeded i bobs_result env }"

definition env_max_frame_size_exceeded :: "bytes option \<Rightarrow> unit option" where
  "env_max_frame_size_exceeded payload =
     do { env \<leftarrow> testing_setup_new;
          let i = Id 1;
          let msg = outgoing_message_new (header_new RequestPl (common_channel env) i) payload;
          body \<leftarrow> payload;
          let len = (of_nat (length body) :: u32);
          rust_assert (2 * unat len \<le> u32_max);
          m \<leftarrow> mfs_new (2 * len);
          encoded \<leftarrow> om_to_bytes m msg;
          (outcome, p, encoded) \<leftarrow> process_incoming (bob env) encoded;
          let env = env\<lparr>bob := p\<rparr>;
          violation \<leftarrow> outcome_to_result outcome;
          assert_is_error_message RequestTooLarge i violation env }"

text \<open>\<^verbatim>\<open>encoded[n] = b\<close>, which panics if the index is out of range.\<close>

definition set_byte :: "nat \<Rightarrow> u8 \<Rightarrow> bytes \<Rightarrow> bytes option" where
  "set_byte n b bs = (if n < length bs then Some (bs[n := b]) else None)"

definition env_invalid_header :: "bytes option \<Rightarrow> unit option" where
  "env_invalid_header payload =
     do { env \<leftarrow> testing_setup_new;
          let i = Id 123;
          let msg = outgoing_message_new (header_new RequestPl (common_channel env) i) payload;
          encoded \<leftarrow> om_to_bytes (ts_max_frame_size env) msg;
          encoded \<leftarrow> set_byte 0 0b00001111 encoded;
          (outcome, p, encoded) \<leftarrow> process_incoming (bob env) encoded;
          result \<leftarrow> outcome_to_result outcome;
          violation \<leftarrow> expect_err result;
          let h = om_header violation;
          k \<leftarrow> header_error_kind h;
          rust_assert (k = InvalidHeader);
          rust_assert (header_id h = Id 0);
          rust_assert (header_channel h = ChannelId 0) }"

definition env_bad_varint :: "bytes option \<Rightarrow> unit option" where
  "env_bad_varint payload =
     do { env \<leftarrow> testing_setup_new;
          let i = Id 1;
          let msg = outgoing_message_new (header_new RequestPl (common_channel env) i) payload;
          encoded \<leftarrow> om_to_bytes (ts_max_frame_size env) msg;
          encoded \<leftarrow> set_byte 4 0xFF encoded;
          encoded \<leftarrow> set_byte 5 0xFF encoded;
          encoded \<leftarrow> set_byte 6 0xFF encoded;
          encoded \<leftarrow> set_byte 7 0xFF encoded;
          encoded \<leftarrow> set_byte 8 0xFF encoded;
          (outcome, p, encoded) \<leftarrow> process_incoming (bob env) encoded;
          let env = env\<lparr>bob := p\<rparr>;
          violation \<leftarrow> outcome_to_result outcome;
          assert_is_error_message BadVarInt i violation env }"

definition one_respone_or_cancellation_per_request :: "bytes option \<Rightarrow> unit option" where
  "one_respone_or_cancellation_per_request payload =
     do { (env, i) \<leftarrow> env_with_initial_areq payload;
          (res, env) \<leftarrow> create_and_send_response Bob i payload env;
          res \<leftarrow> res;
          completed_read \<leftarrow> expect res;
          assert_is_received_response i payload completed_read env;
          (alice_result, env) \<leftarrow> inject_and_send_response Bob i payload env;
          assert_is_error_message FictitiousRequest i alice_result env;
          (env, i) \<leftarrow> env_with_initial_areq payload;
          (res, env) \<leftarrow> create_and_send_response Bob i payload env;
          res \<leftarrow> res;
          completed_read \<leftarrow> expect res;
          assert_is_received_response i payload completed_read env;
          (alice_result, env) \<leftarrow> inject_and_send_response_cancellation Bob i env;
          assert_is_error_message FictitiousCancel i alice_result env;
          (env, i) \<leftarrow> env_with_initial_areq payload;
          (res, env) \<leftarrow> cancel_response_and_send Bob i env;
          res \<leftarrow> res;
          completed_read \<leftarrow> expect res;
          assert_is_response_cancellation i completed_read env;
          (alice_result, env) \<leftarrow> inject_and_send_response Bob i payload env;
          assert_is_error_message FictitiousRequest i alice_result env;
          (env, i) \<leftarrow> env_with_initial_areq payload;
          (res, env) \<leftarrow> create_and_send_response Bob i payload env;
          res \<leftarrow> res;
          completed_read \<leftarrow> expect res;
          assert_is_received_response i payload completed_read env;
          (alice_result, env) \<leftarrow> inject_and_send_response Bob i payload env;
          assert_is_error_message FictitiousRequest i alice_result env }"

definition refusals :: "(bytes option \<Rightarrow> unit option) list" where
  "refusals =
     [env_req_exceed_in_flight_limit, env_req_duplicate_request, env_req_response_for_ficticious_request,
      env_req_cancellation_for_ficticious_request, env_req_response_cancellation_limit_exceeded 0,
      env_req_response_cancellation_limit_exceeded 1, env_req_response_cancellation_limit_exceeded 2,
      env_invalid_header, one_respone_or_cancellation_per_request]"

definition size_refusals :: "(bytes option \<Rightarrow> unit option) list" where
  "size_refusals =
     [env_req_exceed_req_size_limit, env_req_size_limit_exceeded, env_response_size_limit_exceeded,
      env_max_frame_size_exceeded]"

section \<open>Runs of the use cases\<close>

lemmas scenario_checks = assert_is_new_request_def assert_is_request_cancellation_def
  assert_is_received_response_def assert_is_response_cancellation_def rust_assert_def

lemmas channel_checks = tested_def channel_inv_def transfer_inv_def receiver_inv_def channel_new_def
  increment_cancellation_allowance_def

lemmas environment_runs = sends_request sends_response sends_request_cancellation swallows_request_cancellation
  sends_response_cancellation consumes_late_cancellation receives_request_cancellation

lemma initial_areq:
  assumes "valid_payload payload"
  shows "env_with_initial_areq payload = Some (testing_env ((\<lambda>_. channel_new testing_config)
      (Alice := (channel_new testing_config)\<lparr>outgoing_requests := {Id 1}, prev_request_id := 1\<rparr>,
       Bob := (channel_new testing_config)\<lparr>incoming_requests := {Id 1}, cancellation_allowance := 1\<rparr>)), Id 1)"
  using assms
  by (simp add: env_with_initial_areq_def testing_setup_new_env sends_request scenario_checks channel_checks Let_def)

lemma use_cases_run:
  assumes "valid_payload payload"
  shows "list_all (\<lambda>scenario. scenario payload = Some ()) use_cases"
proof -
  note run = testing_setup_new_env initial_areq [OF assms] environment_runs scenario_checks channel_checks Let_def assms
  have "use_case_req_ok payload = Some ()"
    by (simp add: use_case_req_ok_def run)
  moreover have "use_case_areq_acnc_brsp payload = Some ()" "use_case_areq_acnc_bcnc payload = Some ()"
    by (simp_all add: use_case_areq_acnc_brsp_def use_case_areq_acnc_bcnc_def run)
  moreover have "use_case_areq_brsp_acnc payload = Some ()" "use_case_areq_bcnc_acnc payload = Some ()"
    by (simp_all add: use_case_areq_brsp_acnc_def use_case_areq_bcnc_acnc_def run)
  moreover have "use_case_areq_brsp_acncsim payload = Some ()" "use_case_areq_bcnc_acncsim payload = Some ()"
    by (simp_all add: use_case_areq_brsp_acncsim_def use_case_areq_bcnc_acncsim_def run)
  ultimately show ?thesis
    by (simp add: use_cases_def)
qed

section \<open>Runs of the violations\<close>

lemma then_continue:
  assumes "do { (res, env) \<leftarrow> x; check res env } = Some ()"
  shows "do { (res, env) \<leftarrow> x; check res env; rest } = rest"
  using assms by (cases x) (auto simp: bind_eq_Some_conv)

lemmas violation_runs = receives_excess_cancellation injects_forbidden_request injects_forbidden_response
  injects_forbidden_response_cancellation

lemma testing_env_alice:
  "alice (testing_env f) = put_channel (ChannelId 3) (f Alice) testing_protocol"
  "bob (testing_env f) = put_channel (ChannelId 3) (f Bob) testing_protocol"
  "testing_env f\<lparr>alice := put_channel (ChannelId 3) c testing_protocol\<rparr> = testing_env (f(Alice := c))"
  "testing_env f\<lparr>bob := put_channel (ChannelId 3) c testing_protocol\<rparr> = testing_env (f(Bob := c))"
  by (simp_all add: testing_env_def)

lemma invalid_header_refused:
  "process_incoming p (15 # a # b # c # xs) = Some (Fatal (outgoing_message_new
     (header_new_error InvalidHeader UNKNOWN_CHANNEL UNKNOWN_ID) None), p, 15 # a # b # c # xs)"
proof -
  have "header_parse 15 a b c = None"
    by (simp add: header_parse_def header_defs kind_consts Let_def word_le_nat_alt)
  then show ?thesis
    by (subst process_incoming.simps) (simp add: process_frame_def header_SIZE_def)
qed

lemma wire_header: "\<exists>xs. concat (wire_frames m msg) = header_as_ref (om_header msg) @ xs"
  by (cases "split_chunks (mfs_get_usize m - header_SIZE) (message_stream (om_payload msg))")
     (auto simp: wire_frames_def)

lemma invalid_header_scenario:
  assumes "valid_payload payload"
  shows "env_invalid_header payload = Some ()"
proof -
  let ?msg = "outgoing_message_new (header_new RequestPl (ChannelId 3) (Id 123)) payload"
  have "mfs_valid (MaxFrameSize 20)"
    using testing_protocol_inv [OF channel_new_inv] by (simp add: protocol_inv_def)
  moreover have "payload_fits ?msg"
    using assms by (auto simp: payload_fits_def valid_payload_def outgoing_message_new_def split: option.splits)
  moreover obtain xs where "concat (wire_frames (MaxFrameSize 20) ?msg) = header_as_ref (om_header ?msg) @ xs"
    using wire_header by blast
  ultimately show ?thesis
    by (simp add: env_invalid_header_def testing_setup_new_env om_to_bytes_wire header_as_ref_def set_byte_def
        testing_env_alice invalid_header_refused outcome_to_result_def outgoing_message_new_def rust_assert_def
        UNKNOWN_CHANNEL_def UNKNOWN_ID_def)
qed

lemma refusals_run:
  assumes "valid_payload payload"
  shows "list_all (\<lambda>scenario. scenario payload = Some ()) refusals"
proof -
  note run = testing_setup_new_env initial_areq [OF assms] environment_runs scenario_checks channel_checks
    violation_runs is_at_max_incoming_requests_def Let_def assms
  have "env_req_exceed_in_flight_limit payload = Some ()"
    by (simp add: env_req_exceed_in_flight_limit_def run)
  moreover have "env_req_duplicate_request payload = Some ()"
    by (simp add: env_req_duplicate_request_def run testing_env_alice lookup_channel_eq)
  moreover have "env_req_response_for_ficticious_request payload = Some ()"
      "env_req_cancellation_for_ficticious_request payload = Some ()"
    by (simp_all add: env_req_response_for_ficticious_request_def env_req_cancellation_for_ficticious_request_def run)
  moreover have "env_req_response_cancellation_limit_exceeded 0 payload = Some ()"
      "env_req_response_cancellation_limit_exceeded 1 payload = Some ()"
      "env_req_response_cancellation_limit_exceeded 2 payload = Some ()"
    by (simp_all add: env_req_response_cancellation_limit_exceeded_def upt_rec run)
  moreover have "one_respone_or_cancellation_per_request payload = Some ()"
    by (simp add: one_respone_or_cancellation_per_request_def run violation_runs [THEN then_continue])
  moreover note invalid_header_scenario [OF assms]
  ultimately show ?thesis
    by (simp add: refusals_def)
qed

lemma large_frame_scenario:
  assumes "512 < length pl" and "2 * length pl \<le> u32_max"
  shows "env_max_frame_size_exceeded (Some pl) = Some ()"
proof -
  let ?n = "of_nat (length pl) :: u32"
  have n: "unat ?n = length pl" "unat (2 * ?n) = 2 * length pl"
    using assms unat_of_nat_u32 [of "length pl"] unat_of_nat_u32 [of "2 * length pl"] by simp_all
  then have m: "mfs_new (2 * ?n) = Some (MaxFrameSize (2 * ?n))" "mfs_valid (MaxFrameSize (2 * ?n))"
    using assms(1) by (simp_all add: mfs_new_def mfs_valid_def rust_assert_def mfs_MIN_def header_SIZE_def
        varint32_MAX_LEN_def word_le_nat_alt)
  have "tested (channel_new testing_config)"
    by (simp add: channel_checks)
  from too_large_refused [OF m(2) _ assms(1) this, of RequestPl "Id 1"] assms(2)
  obtain xs where "process_incoming (put_channel (ChannelId 3) (channel_new testing_config) testing_protocol)
      (concat (wire_frames (MaxFrameSize (2 * ?n)) (outgoing_message_new (header_new RequestPl (ChannelId 3) (Id 1)) (Some pl)))) =
      Some (Fatal (outgoing_message_new (header_new_error RequestTooLarge (ChannelId 3) (Id 1)) None),
        put_channel (ChannelId 3) (channel_new testing_config) testing_protocol, xs)"
    by (auto simp: carries_payload_def)
  moreover have "payload_fits (outgoing_message_new (header_new RequestPl (ChannelId 3) (Id 1)) (Some pl))"
    using assms(2) by (simp add: payload_fits_def outgoing_message_new_def)
  ultimately show ?thesis
    using n m assms(2)
    by (simp add: env_max_frame_size_exceeded_def testing_setup_new_env om_to_bytes_wire rust_assert_def
        testing_env_alice outcome_to_result_def checks_error)
qed

lemma size_refusals_run:
  assumes "512 < length pl" and "2 * length pl \<le> u32_max"
  shows "list_all (\<lambda>scenario. scenario (Some pl) = Some ()) size_refusals"
proof -
  have none: "valid_payload None"
    by (simp add: valid_payload_def)
  note run = testing_setup_new_env scenario_checks channel_checks injects_request initial_areq [OF none] Let_def
    create_request_def lookup_channel_eq is_payload_exceeds_limit_def testing_env_alice
  have fits: "length pl \<le> u32_max"
    using assms(2) by simp
  note request = receives_too_large [of _ _ RequestPl _ pl, OF _ _ _ assms(1) fits, simplified carries_payload_def, simplified]
    and response = receives_too_large [of _ _ ResponsePl _ pl, OF _ _ _ assms(1) fits, simplified carries_payload_def, simplified]
  have "env_req_exceed_req_size_limit (Some pl) = Some ()" "env_req_size_limit_exceeded (Some pl) = Some ()"
    using assms(1) by (simp_all add: env_req_exceed_req_size_limit_def env_req_size_limit_exceeded_def run request)
  moreover have "env_response_size_limit_exceeded (Some pl) = Some ()"
    using assms(1) by (simp add: env_response_size_limit_exceeded_def run inject_and_send_response_def
        create_unchecked_response_def response)
  moreover note large_frame_scenario [OF assms]
  ultimately show ?thesis
    by (simp add: size_refusals_def)
qed

end
