(* ===== verification/Testing_Creation.thy ===== *)
theory Testing_Creation
  imports Testing_Setup
begin

text \<open>
  The tests of \<^verbatim>\<open>src/src/protocol.rs\<close> that create messages on a single protocol instance and inspect its
  state, for every payload within the limits.
\<close>

section \<open>Tests\<close>

definition create_requests_with_correct_input_sets_state_accordingly :: "bytes option \<Rightarrow> unit option" where
  "create_requests_with_correct_input_sets_state_accordingly payload =
     do { builder \<leftarrow> builder_max_frame_size 20 (builder_with_default_channel_config 5
            (with_max_request_payload_size 1024 (with_request_limit 1 channel_configuration_new)));
          let protocol = builder_build builder;
          let ch = ChannelId 2;
          let other_channel = ChannelId 0;
          allowed \<leftarrow> expect (protocol_allowed_to_send_request protocol ch);
          rust_assert allowed;
          (created, protocol) \<leftarrow> create_request ch payload protocol;
          req \<leftarrow> expect created;
          rust_assert (header_channel (om_header req) = ch);
          kind \<leftarrow> header_kind (om_header req);
          rust_assert (kind = payload_request_kind payload);
          chan \<leftarrow> expect (lookup_channel protocol ch);
          rust_assert (outgoing_requests chan = {Id 1});
          allowed \<leftarrow> expect (protocol_allowed_to_send_request protocol ch);
          rust_assert (\<not> allowed);
          chan \<leftarrow> expect (lookup_channel protocol other_channel);
          rust_assert (outgoing_requests chan = {});
          (created, protocol) \<leftarrow> create_request other_channel payload protocol;
          other_req \<leftarrow> expect created;
          rust_assert (header_channel (om_header other_req) = other_channel);
          kind \<leftarrow> header_kind (om_header other_req);
          rust_assert (kind = payload_request_kind payload);
          chan \<leftarrow> expect (lookup_channel protocol ch);
          rust_assert (outgoing_requests chan = {Id 1});
          chan \<leftarrow> expect (lookup_channel protocol other_channel);
          rust_assert (outgoing_requests chan = {Id 1}) }"

definition create_requests_with_invalid_inputs_fails :: "bytes option \<Rightarrow> unit option" where
  "create_requests_with_invalid_inputs_fails payload =
     do { let protocol = builder_build (builder_with_default_channel_config 2
            (with_max_response_payload_size 512 (with_max_request_payload_size 512 channel_configuration_new)));
          let ch = ChannelId 1;
          (created, protocol) \<leftarrow> create_request (ChannelId 2) payload protocol;
          rust_assert (created = Inl (InvalidChannel (ChannelId 2) 2));
          allowed \<leftarrow> expect (protocol_allowed_to_send_request protocol ch);
          rust_assert allowed;
          (created, protocol) \<leftarrow> create_request ch payload protocol;
          req \<leftarrow> expect created;
          (created, protocol) \<leftarrow> create_request ch payload protocol;
          rust_assert (created = Inl (WouldExceedRequestLimit 1)) }"

definition create_response_with_correct_input_clears_state_accordingly :: "bytes option \<Rightarrow> unit option" where
  "create_response_with_correct_input_clears_state_accordingly payload =
     do { let protocol = builder_build (builder_with_default_channel_config 4
            (with_max_response_payload_size 512 (with_max_request_payload_size 512 channel_configuration_new)));
          let ch = ChannelId 3;
          let req_id = Id 9;
          let leftover_id = Id 77;
          chan \<leftarrow> expect (lookup_channel protocol ch);
          let protocol = put_channel ch
            (chan\<lparr>incoming_requests := incoming_requests chan \<union> {req_id, leftover_id}\<rparr>) protocol;
          let (created, protocol) = create_response ch (Id 12) payload protocol;
          nothing \<leftarrow> expect created;
          rust_assert (nothing = None);
          let (created, protocol) = create_response ch req_id payload protocol;
          resp \<leftarrow> expect created;
          resp \<leftarrow> resp;
          rust_assert (header_channel (om_header resp) = ch);
          rust_assert (header_id (om_header resp) = req_id);
          kind \<leftarrow> header_kind (om_header resp);
          rust_assert (kind = payload_response_kind payload);
          chan \<leftarrow> expect (lookup_channel protocol ch);
          rust_assert (incoming_requests chan = {leftover_id}) }"

definition custom_errors_are_possible :: "unit option" where
  "custom_errors_are_possible =
     do { let protocol = builder_build (builder_new 4);
          let i = Id 12345;
          let ch = ChannelId 123;
          created \<leftarrow> custom_error ch i [] protocol;
          outgoing \<leftarrow> expect created;
          rust_assert (header_id (om_header outgoing) = i);
          rust_assert (header_channel (om_header outgoing) = ch);
          kind \<leftarrow> header_error_kind (om_header outgoing);
          rust_assert (kind = Other) }"

definition response_with_no_payload_is_cleared_from_buffer :: "unit option" where
  "response_with_no_payload_is_cleared_from_buffer =
     do { let protocol = builder_build (builder_with_default_channel_config 16
            (with_max_response_payload_size 4096 (with_max_request_payload_size 4096 channel_configuration_new)));
          let ch = ChannelId 6;
          let i = Id 1;
          (created, protocol) \<leftarrow> create_request ch (Some (string_bytes ''foobar'')) protocol;
          msg \<leftarrow> expect created;
          rust_assert (header_channel (om_header msg) = ch);
          rust_assert (header_id (om_header msg) = i);
          let response_raw = header_as_ref (header_new Response ch i);
          rust_assert (length response_raw = 4);
          (outcome, protocol, response_raw) \<leftarrow> process_incoming protocol response_raw;
          read \<leftarrow> outcome_expect outcome;
          rust_assert (read = ReceivedResponse ch i None);
          rust_assert (length response_raw = 0) }"

section \<open>Runs\<close>

lemma creates_unchecked:
  assumes "channel_exists ch p" and "payload_within (max_request_payload_size (config (chan_of ch p))) payload"
    and "card (outgoing_requests (chan_of ch p)) < unat (request_limit (config (chan_of ch p)))"
    and "i = Id (prev_request_id (chan_of ch p) + 1)" and "i \<notin> outgoing_requests (chan_of ch p)"
  shows "create_request ch payload p = Some
    (Inr (outgoing_message_new (header_new (payload_request_kind payload) ch i) payload),
     put_channel ch ((chan_of ch p)\<lparr>prev_request_id := id_get i,
       outgoing_requests := insert i (outgoing_requests (chan_of ch p))\<rparr>) p)"
proof -
  have "card (outgoing_requests (chan_of ch p)) < 65535"
    using assms(3) unsigned_less [of "request_limit (config (chan_of ch p))", where ?'a = nat] by simp
  then show ?thesis
    using assms unchecked_request [of "chan_of ch p" ch payload]
    by (auto simp: create_request_def lookup_channel_eq channel_allowed_to_send_request_def payload_request_kind_def
        payload_within_def split: option.splits)
qed

lemma built_protocol:
  assumes "p = builder_build (builder_with_default_channel_config n cfg)
    \<or> p = builder_build (builder_with_default_channel_config n cfg\<lparr>pb_max_frame_size := m\<rparr>)"
  shows "channel_exists ch p \<longleftrightarrow> unat (channel_get ch) < n" and "length (channels p) = n"
    and "unat (channel_get ch) < n \<Longrightarrow> chan_of ch p = channel_new cfg"
  using assms by (auto simp: channel_exists_def chan_of_def builder_build_def builder_with_default_channel_config_def)

lemmas creation_runs = creates_unchecked lookup_channel_eq protocol_allowed_to_send_request_def
  channel_allowed_to_send_request_def rust_assert_def Let_def outgoing_message_new_def channel_new_def
  channel_configuration_defs built_protocol [OF disjI1 [OF refl]] built_protocol [OF disjI2 [OF refl]]

lemma create_requests_sets_state:
  assumes "payload_within 1024 payload"
  shows "create_requests_with_correct_input_sets_state_accordingly payload = Some ()"
  using assms
  by (simp add: create_requests_with_correct_input_sets_state_accordingly_def creation_runs
      builder_max_frame_size_def mfs_new_def mfs_MIN_def header_SIZE_def varint32_MAX_LEN_def)

lemma valid_within: "valid_payload payload \<longleftrightarrow> payload_within 512 payload"
  by (simp add: valid_payload_def payload_within_def split: option.split)

lemma create_requests_refuses:
  assumes "valid_payload payload"
  shows "create_requests_with_invalid_inputs_fails payload = Some ()"
proof -
  have "create_request ch payload p = Some (Inl (InvalidChannel ch (length (channels p))), p)" if "\<not> channel_exists ch p" for ch p
    using that by (simp add: create_request_def lookup_channel_eq)
  moreover have "create_request ch payload p = Some (Inl (WouldExceedRequestLimit (request_limit (config (chan_of ch p)))), p)"
    if "channel_exists ch p" "payload_within (max_request_payload_size (config (chan_of ch p))) payload"
      "card (outgoing_requests (chan_of ch p)) = unat (request_limit (config (chan_of ch p)))" for ch p
    using that by (auto simp: create_request_def lookup_channel_eq channel_allowed_to_send_request_def
        channel_request_limit_def payload_within_def split: option.splits)
  ultimately show ?thesis
    using assms unfolding valid_within
    by (simp add: create_requests_with_invalid_inputs_fails_def creation_runs)
qed

lemma create_response_clears_state:
  assumes "valid_payload payload"
  shows "create_response_with_correct_input_clears_state_accordingly payload = Some ()"
proof -
  have absent: "create_response ch i payload p = (Inr None, p)" if "channel_exists ch p" "i \<notin> incoming_requests (chan_of ch p)" for ch i p
    using that by (simp add: create_response_def lookup_channel_eq)
  have present: "create_response ch i payload p = (Inr (Some (outgoing_message_new (header_new (payload_response_kind payload) ch i) payload)),
      put_channel ch ((chan_of ch p)\<lparr>incoming_requests := incoming_requests (chan_of ch p) - {i}\<rparr>) p)"
    if "channel_exists ch p" "payload_within (max_response_payload_size (config (chan_of ch p))) payload"
      "i \<in> incoming_requests (chan_of ch p)" for ch i p
    using that by (auto simp: create_response_def lookup_channel_eq unchecked_response payload_response_kind_def
        payload_within_def split: option.splits)
  have "{Id 9, Id 77} - {Id 9} = {Id 77}"
    by auto
  then show ?thesis
    using assms unfolding valid_within
    by (simp add: create_response_with_correct_input_clears_state_accordingly_def absent present creation_runs)
qed

lemma custom_errors_created: "custom_errors_are_possible = Some ()"
  by (simp add: custom_errors_are_possible_def custom_error_def builder_new_def builder_with_default_channel_config_def
      builder_build_def om_is_multi_frame_def outgoing_message_new_def payload_is_multi_frame_def mfs_DEFAULT_def
      mfs_without_preamble_def mfs_without_header_def mfs_get_usize_def checked_sub_def rust_assert_def Let_def
      varint32_length_of_def header_SIZE_def)

lemma response_leaves_buffer: "response_with_no_payload_is_cleared_from_buffer = Some ()"
proof -
  let ?h = "header_new Response (ChannelId 6) (Id 1)"
  have read: "process_incoming p (header_as_ref ?h) = Some (Success (ReceivedResponse (ChannelId 6) (Id 1) None),
      put_channel (ChannelId 6) ((chan_of (ChannelId 6) p)\<lparr>outgoing_requests := outgoing_requests (chan_of (ChannelId 6) p) - {Id 1}\<rparr>) p, [])"
    if "channel_exists (ChannelId 6) p" "Id 1 \<in> outgoing_requests (chan_of (ChannelId 6) p)" for p
    using process_incoming_step [OF that(1), of Response "Id 1" "[]"] that(2)
    by (simp add: handle_frame_def handle_response_def header_SIZE_def)
  show ?thesis
    by (simp add: response_with_no_payload_is_cleared_from_buffer_def creation_runs payload_within_def string_bytes_def
        read outcome_expect_def)
qed

end
