(* ===== verification/Testing_Frames.thy ===== *)
theory Testing_Frames
  imports Testing_Scenarios Testing_Creation Multiplexing
begin

text \<open>
  The scenarios of \<^verbatim>\<open>src/src/protocol.rs\<close> in which single frames are sent: a request that is cancelled after its first frame,
  a second long request or a short one after the first frame of a long one, and a broken length prefix.
\<close>

section \<open>Scenarios\<close>

text \<open>\<^verbatim>\<open>msg.frames().next_owned(max_frame_size)\<close>, then \<^verbatim>\<open>frame.to_bytes()\<close>.\<close>

definition opening_frame :: "max_frame_size \<Rightarrow> outgoing_message \<Rightarrow> bytes option" where
  "opening_frame m msg =
     do { let frames = om_frames msg;
          (frame, additional_frames) \<leftarrow> frame_iter_next_owned m frames;
          frame_to_bytes frame }"

definition multiframe_messages_cancelled_correctly_after_partial_reception :: "bytes option \<Rightarrow> unit option" where
  "multiframe_messages_cancelled_correctly_after_partial_reception payload =
     do { env \<leftarrow> testing_setup_new;
          let expected_id = Id 1;
          let ch = common_channel env;
          (created, p) \<leftarrow> create_request ch payload (get_peer Alice env);
          let env = set_peer Alice p env;
          alices_multiframe_request \<leftarrow> expect created;
          let req_header = om_header alices_multiframe_request;
          multi \<leftarrow> om_is_multi_frame (ts_max_frame_size env) alices_multiframe_request;
          rust_assert multi;
          buffer \<leftarrow> opening_frame (ts_max_frame_size env) alices_multiframe_request;
          (outcome, p, buffer) \<leftarrow> process_incoming (get_peer Bob env) buffer;
          let env = set_peer Bob p env;
          rust_assert (outcome = Incomplete 4);
          bobs_channel \<leftarrow> array_get (channels (get_peer Bob env)) (unat (channel_get ch));
          rust_assert (incoming_requests bobs_channel = {expected_id});
          rust_assert (in_progress_header (current_multiframe_receiver bobs_channel) = Some req_header);
          let (cancelled, p) = cancel_request ch expected_id (get_peer Alice env);
          let env = set_peer Alice p env;
          cancellation \<leftarrow> expect cancelled;
          cancellation \<leftarrow> cancellation;
          buffer \<leftarrow> opening_frame (ts_max_frame_size env) cancellation;
          (bobs_outcome, p, buffer) \<leftarrow> process_incoming (get_peer Bob env) buffer;
          let env = set_peer Bob p env;
          rust_assert (bobs_outcome = Incomplete 4);
          bobs_channel \<leftarrow> array_get (channels (get_peer Bob env)) (unat (channel_get ch));
          rust_assert (incoming_requests bobs_channel = {});
          rust_assert (current_multiframe_receiver bobs_channel = Ready) }"

definition two_multi_frame_messages_interleaved_causes_error :: "bytes option \<Rightarrow> bytes option \<Rightarrow> unit option" where
  "two_multi_frame_messages_interleaved_causes_error big_payload_1 big_payload_2 =
     do { env \<leftarrow> testing_setup_new;
          let ch = common_channel env;
          (created, p) \<leftarrow> create_request ch big_payload_1 (get_peer Alice env);
          let env = set_peer Alice p env;
          alices_multiframe_request_1 \<leftarrow> expect created;
          multi \<leftarrow> om_is_multi_frame (ts_max_frame_size env) alices_multiframe_request_1;
          rust_assert multi;
          buffer \<leftarrow> opening_frame (ts_max_frame_size env) alices_multiframe_request_1;
          (outcome, p, buffer) \<leftarrow> process_incoming (get_peer Bob env) buffer;
          let env = set_peer Bob p env;
          rust_assert (outcome = Incomplete 4);
          (created, p) \<leftarrow> create_request ch big_payload_2 (get_peer Alice env);
          let env = set_peer Alice p env;
          alices_multiframe_request_2 \<leftarrow> expect created;
          multi \<leftarrow> om_is_multi_frame (ts_max_frame_size env) alices_multiframe_request_2;
          rust_assert multi;
          buffer \<leftarrow> opening_frame (ts_max_frame_size env) alices_multiframe_request_2;
          (outcome, p, buffer) \<leftarrow> process_incoming (get_peer Bob env) buffer;
          rust_assert (outcome =
            Fatal (outgoing_message_new (header_new_error error_kind.InProgress ch (Id 2)) None)) }"

definition multi_frame_followed_by_single_frame_request_is_acceptable ::
  "bytes option \<Rightarrow> bytes option \<Rightarrow> unit option" where
  "multi_frame_followed_by_single_frame_request_is_acceptable payload_mf payload_sf =
     do { env \<leftarrow> testing_setup_new;
          let ch = common_channel env;
          (created, p) \<leftarrow> create_request ch payload_mf (get_peer Alice env);
          let env = set_peer Alice p env;
          alices_multiframe_request \<leftarrow> expect created;
          multi \<leftarrow> om_is_multi_frame (ts_max_frame_size env) alices_multiframe_request;
          rust_assert multi;
          buffer \<leftarrow> opening_frame (ts_max_frame_size env) alices_multiframe_request;
          (outcome, p, buffer) \<leftarrow> process_incoming (get_peer Bob env) buffer;
          let env = set_peer Bob p env;
          rust_assert (outcome = Incomplete 4);
          (created, p) \<leftarrow> create_request ch payload_sf (get_peer Alice env);
          let env = set_peer Alice p env;
          alices_single_frame_request \<leftarrow> expect created;
          multi \<leftarrow> om_is_multi_frame (ts_max_frame_size env) alices_single_frame_request;
          rust_assert (\<not> multi);
          buffer \<leftarrow> opening_frame (ts_max_frame_size env) alices_single_frame_request;
          (outcome, p, buffer) \<leftarrow> process_incoming (get_peer Bob env) buffer;
          payload \<leftarrow> payload_sf;
          rust_assert (outcome = Success (NewRequest ch (Id 2) (Some payload))) }"

definition can_send_back_to_back_multi_frame_requests :: "bytes option \<Rightarrow> bytes option \<Rightarrow> unit option" where
  "can_send_back_to_back_multi_frame_requests big_payload_1 big_payload_2 =
     do { env \<leftarrow> testing_setup_new;
          (res, env) \<leftarrow> create_and_send_request Alice big_payload_1 env;
          resp1 \<leftarrow> expect res;
          (res, env) \<leftarrow> create_and_send_request Alice big_payload_2 env;
          resp2 \<leftarrow> expect res;
          rust_assert (case resp1 of NewRequest _ i _ \<Rightarrow> i = Id 1 | _ \<Rightarrow> False);
          rust_assert (case resp2 of NewRequest _ i _ \<Rightarrow> i = Id 2 | _ \<Rightarrow> False) }"

section \<open>Frames\<close>

lemma opening_frame_wire:
  assumes "mfs_valid m" and "payload_fits msg"
  shows "opening_frame m msg = Some (hd (wire_frames m msg))"
proof -
  obtain fs where fs: "om_frame_iter m msg = Some fs" "frames_render fs (om_header msg) (wire_frames m msg)"
    using om_frame_iter_wire [OF assms] by blast
  have "\<exists>frame it. frame_iter_next_owned m (om_frames msg) = Some (frame, it) \<and> hd fs = frame \<and> fs \<noteq> []"
    using fs(1) by (auto simp: om_frame_iter_def frame_iter_collect.simps [of m "om_frames msg"] bind_eq_Some_conv
        split: option.splits)
  moreover have "frame_to_bytes (hd fs) = Some (hd (wire_frames m msg))" if "fs \<noteq> []"
    using frames_render_to_bytes [OF fs(2)] that by (cases fs; cases "wire_frames m msg") simp_all
  ultimately show ?thesis
    by (auto simp: opening_frame_def)
qed

lemma testing_frame_size: "mfs_valid (MaxFrameSize 20)" "mfs_get_usize (MaxFrameSize 20) = 20"
  by (simp_all add: mfs_valid_def mfs_get_usize_def)

lemma testing_long_frames:
  assumes "15 < length pl" and "length pl \<le> 512"
  obtains w rest where "wire_frames (MaxFrameSize 20) (outgoing_message_new h (Some pl)) = w # rest" and "rest \<noteq> []"
proof -
  have fits: "length pl \<le> u32_max"
    using assms(2) by simp
  have "0 < length (leb128 (length pl))"
    using length_leb128_bounds(1) [of "length pl"] by simp
  then have "\<not> length pl \<le> mfs_get_usize (MaxFrameSize 20) - 4 - length (leb128 (length pl))"
    using assms(1) testing_frame_size(2) by linarith
  then show thesis
    using that wire_frames_cases [OF testing_frame_size(1) fits, of h] by simp
qed

lemma testing_short_frame:
  "length pl \<le> 15 \<Longrightarrow> wire_frames (MaxFrameSize 20) (outgoing_message_new h (Some pl)) = [header_as_ref h @ leb128 (length pl) @ pl]"
  using wire_frames_cases [OF testing_frame_size(1), of pl h] by (simp add: testing_frame_size leb128.simps [of "length pl"])

lemma nothing_left: "process_incoming p [] = Some (Incomplete 4, p, [])"
  by (subst process_incoming.simps) (simp add: process_frame_def outcome_incomplete_def header_SIZE_def rust_assert_def)

text \<open>The first frame of a long request opens a transfer.\<close>

lemma opens_transfer:
  assumes "tested c" and "15 < length pl" and "length pl \<le> 512"
    and "card (incoming_requests c) < 2" and "i \<notin> incoming_requests c"
  defines "h \<equiv> header_new RequestPl (ChannelId 3) i"
  obtains acc sz where "process_incoming (put_channel (ChannelId 3) c testing_protocol)
      (hd (wire_frames (MaxFrameSize 20) (outgoing_message_new h (Some pl))))
    = Some (Incomplete 4, put_channel (ChannelId 3) ((increment_cancellation_allowance
        (c\<lparr>incoming_requests := insert i (incoming_requests c)\<rparr>))\<lparr>current_multiframe_receiver := InProgress h acc sz\<rparr>)
        testing_protocol, [])"
    and "channel_inv ((increment_cancellation_allowance
        (c\<lparr>incoming_requests := insert i (incoming_requests c)\<rparr>))\<lparr>current_multiframe_receiver := InProgress h acc sz\<rparr>)"
proof -
  let ?p = "put_channel (ChannelId 3) c testing_protocol"
  let ?c' = "increment_cancellation_allowance (c\<lparr>incoming_requests := insert i (incoming_requests c)\<rparr>)"
  have inv: "protocol_inv ?p" "channel_inv c" and wf: "well_formed (config c) RequestPl (Some pl)"
    using assms(1,3) by (simp_all add: tested_def testing_protocol_inv well_formed_def carries_payload_def payload_limit_def)
  obtain w rest where w: "wire_frames (MaxFrameSize 20) (outgoing_message_new h (Some pl)) = w # rest" "rest \<noteq> []"
    by (rule testing_long_frames [OF assms(2,3)])
  have received: "receive_message RequestPl (ChannelId 3) i (Some pl) c = (Inr (Some (NewRequest (ChannelId 3) i (Some pl))), ?c')"
    using assms(1,4,5) by (simp add: receive_message_def is_at_max_incoming_requests_def tested_def)
  have ready: "current_multiframe_receiver c = Ready"
    using assms(1) by (simp add: tested_def)
  obtain pl' n where start: "Some pl = Some pl'" "\<exists>body. w = header_as_ref (header_new RequestPl (ChannelId 3) i) @ body"
      "\<And>xs. handle_frame (MaxFrameSize 20) RequestPl (header_new RequestPl (ChannelId 3) i) c (w @ xs)
        = Some (None, (if RequestPl = RequestPl then ?c' else c)\<lparr>current_multiframe_receiver :=
            InProgress (header_new RequestPl (ChannelId 3) i) (take n pl') (of_nat (length pl'))\<rparr>, xs)"
    by (rule handle_start [OF inv(2) testing_frame_size(1) wf w [unfolded h_def] ready received]) blast
  obtain body where frame: "w = header_as_ref h @ body"
      "handle_frame (MaxFrameSize 20) RequestPl h c (w @ []) = Some (None, ?c'\<lparr>current_multiframe_receiver :=
        InProgress h (take n pl) (of_nat (length pl))\<rparr>, [])"
    using start(1,2) start(3) [of "[]"] by (auto simp: h_def)
  have "process_incoming ?p w = process_incoming (put_channel (ChannelId 3) (?c'\<lparr>current_multiframe_receiver :=
        InProgress h (take n pl) (of_nat (length pl))\<rparr>) ?p) []"
    and next_inv: "protocol_inv (put_channel (ChannelId 3) (?c'\<lparr>current_multiframe_receiver :=
        InProgress h (take n pl) (of_nat (length pl))\<rparr>) ?p)"
    using process_incoming_continue [OF inv(1), of "ChannelId 3" RequestPl i body] frame by (simp_all add: h_def)
  then show thesis
    using that [of "take n pl" "of_nat (length pl)"] w protocol_channel(2) [OF next_inv, of "ChannelId 3"] by (simp add: nothing_left)
qed

text \<open>While it is open, another long request is a violation, and a short one is read.\<close>

lemma second_transfer_refused:
  assumes "channel_inv c" and "config c = testing_config" and "current_multiframe_receiver c = InProgress h acc sz"
    and "h \<noteq> header_new RequestPl (ChannelId 3) i" and "15 < length pl" and "length pl \<le> 512"
  shows "\<exists>p' b'. process_incoming (put_channel (ChannelId 3) c testing_protocol)
      (hd (wire_frames (MaxFrameSize 20) (outgoing_message_new (header_new RequestPl (ChannelId 3) i) (Some pl))))
    = Some (Fatal (outgoing_message_new (header_new_error error_kind.InProgress (ChannelId 3) i) None), p', b')"
proof -
  let ?h = "header_new RequestPl (ChannelId 3) i" and ?m = "MaxFrameSize 20"
  let ?n = "mfs_get_usize ?m - 4 - length (leb128 (length pl))"
  have len: "length pl \<le> unat (512 :: u32)" "length pl \<le> u32_max" "unat (of_nat (length pl) :: u32) = length pl"
    using assms(6) unat_of_nat_u32 [of "length pl"] by simp_all
  obtain w rest where w: "wire_frames ?m (outgoing_message_new ?h (Some pl)) = w # rest" "rest \<noteq> []"
    by (rule testing_long_frames [OF assms(5,6)])
  then have long: "?n < length pl" and frame: "w = header_as_ref ?h @ leb128 (length pl) @ take ?n pl"
    using wire_frames_cases [OF testing_frame_size(1) len(2), of ?h] by (simp_all split: if_splits)
  have "accept (current_multiframe_receiver c) ?h w ?m 512 RequestTooLarge = Some (err_msg ?h error_kind.InProgress, current_multiframe_receiver c, w)"
  proof -
    have "start_spec ?m 512 RequestTooLarge ?h w = Success \<lparr>ifd_preamble_len = 4 + length (leb128 (length pl)),
        ifd_segment_len = ?n, ifd_payload_size = of_nat (length pl)\<rparr>"
      using start_spec_message [OF testing_frame_size(1) len(1), of RequestTooLarge ?h "[]"] long by (simp add: frame)
    then have "accept_spec ?m 512 RequestTooLarge (current_multiframe_receiver c) ?h w
        = (err_msg ?h error_kind.InProgress, current_multiframe_receiver c, w)"
      using accept_spec_start(3) [of "current_multiframe_receiver c" ?h ?m 512 RequestTooLarge w] assms(3,4) long len(3)
      by simp
    moreover have "receiver_inv (current_multiframe_receiver c)"
      using assms(1) by (simp add: channel_inv_def transfer_inv_def)
    ultimately show ?thesis
      using accept_accept_spec [OF testing_frame_size(1), of "current_multiframe_receiver c" w ?h] frame by simp
  qed
  then have "handle_frame ?m RequestPl ?h c w = Some (Some (err_msg ?h error_kind.InProgress),
      c\<lparr>current_multiframe_receiver := current_multiframe_receiver c\<rparr>, w)"
    using assms(2) by (simp add: handle_frame_def handle_request_pl_def err_msg_header_new)
  then show ?thesis
    using process_incoming_step [of "ChannelId 3" "put_channel (ChannelId 3) c testing_protocol" RequestPl i
        "leb128 (length pl) @ take ?n pl"] w(1)
    by (simp add: frame err_msg_header_new)
qed

lemma short_request_read:
  assumes "channel_inv c" and "config c = testing_config" and "current_multiframe_receiver c = InProgress h acc sz"
    and "h \<noteq> header_new RequestPl (ChannelId 3) i" and "length pl \<le> 15"
    and "card (incoming_requests c) < 2" and "i \<notin> incoming_requests c"
  shows "\<exists>p'. process_incoming (put_channel (ChannelId 3) c testing_protocol)
      (hd (wire_frames (MaxFrameSize 20) (outgoing_message_new (header_new RequestPl (ChannelId 3) i) (Some pl))))
    = Some (Success (NewRequest (ChannelId 3) i (Some pl)), p', [])"
proof -
  let ?h = "header_new RequestPl (ChannelId 3) i"
  have wf: "well_formed (config c) RequestPl (Some pl)"
    using assms(2,5) by (simp add: well_formed_def carries_payload_def payload_limit_def)
  have "receive_message RequestPl (ChannelId 3) i (Some pl) c = (Inr (Some (NewRequest (ChannelId 3) i (Some pl))),
      increment_cancellation_allowance (c\<lparr>incoming_requests := insert i (incoming_requests c)\<rparr>))"
    using assms(2,6,7) by (simp add: receive_message_def is_at_max_incoming_requests_def)
  from handle_whole(2) [OF assms(1) testing_frame_size(1) wf testing_short_frame [OF assms(5)] _ _ this, of "[]"]
    process_incoming_step [of "ChannelId 3" "put_channel (ChannelId 3) c testing_protocol" RequestPl i "leb128 (length pl) @ pl"]
  show ?thesis
    using assms(3,4) by (simp add: testing_short_frame [OF assms(5)])
qed

section \<open>Runs\<close>

lemma cancelled_transfer:
  assumes "0 < cancellation_allowance c" and "current_multiframe_receiver c = InProgress (header_new RequestPl (ChannelId 3) i) acc sz"
  shows "process_incoming (put_channel (ChannelId 3) c testing_protocol)
      (hd (wire_frames (MaxFrameSize 20) (create_unchecked_request_cancellation (ChannelId 3) i)))
    = Some (Incomplete 4, put_channel (ChannelId 3) (c\<lparr>cancellation_allowance := cancellation_allowance c - 1,
        current_multiframe_receiver := Ready, incoming_requests := incoming_requests c - {i}\<rparr>) testing_protocol, [])"
proof -
  let ?h = "header_new CancelReq (ChannelId 3) i"
  have wire: "wire_frames (MaxFrameSize 20) (create_unchecked_request_cancellation (ChannelId 3) i) = [header_as_ref ?h @ []]"
    by (simp add: wire_frames_def create_unchecked_request_cancellation_def outgoing_message_new_def message_stream_def
        split_chunks_short)
  have "handle_frame (MaxFrameSize 20) CancelReq ?h c (header_as_ref ?h @ []) = Some (None, c\<lparr>cancellation_allowance :=
      cancellation_allowance c - 1, current_multiframe_receiver := Ready, incoming_requests := incoming_requests c - {i}\<rparr>, [])"
    using assms by (auto simp: handle_frame_def handle_cancel_req_alt cancel_transfer_def header_SIZE_def)
  then show ?thesis
    using process_incoming_step [of "ChannelId 3" "put_channel (ChannelId 3) c testing_protocol" CancelReq i "[]"]
    by (simp add: wire nothing_left)
qed

lemma header_id_neq: "i \<noteq> j \<Longrightarrow> header_new k ch i \<noteq> header_new k' ch' j"
  by (metis header_new_access(2))

lemma testing_message_fits: "length pl \<le> 512 \<Longrightarrow> payload_fits (outgoing_message_new h (Some pl))"
  "payload_fits (create_unchecked_request_cancellation ch i)"
  by (simp_all add: payload_fits_def outgoing_message_new_def create_unchecked_request_cancellation_def)

lemma testing_is_multi:
  "15 < length pl \<Longrightarrow> length pl \<le> 512 \<Longrightarrow> om_is_multi_frame (MaxFrameSize 20) (outgoing_message_new h (Some pl)) = Some True"
  "length pl \<le> 15 \<Longrightarrow> om_is_multi_frame (MaxFrameSize 20) (outgoing_message_new h (Some pl)) = Some False"
  using om_is_multi_frame_wire [OF testing_frame_size(1) testing_message_fits(1), of pl h] testing_long_frames [of pl h]
  by (fastforce simp: testing_short_frame)+

lemmas frame_runs = testing_setup_new_env creates_request testing_is_multi opening_frame_wire testing_frame_size
  testing_message_fits scenario_checks channel_checks valid_payload_def Let_def cancel_request_def lookup_channel_eq

lemma first_transfer:
  assumes "15 < length pl" and "length pl \<le> 512"
  obtains c acc sz where "process_incoming (put_channel (ChannelId 3) (channel_new testing_config) testing_protocol)
      (hd (wire_frames (MaxFrameSize 20) (outgoing_message_new (header_new RequestPl (ChannelId 3) (Id 1)) (Some pl))))
    = Some (Incomplete 4, put_channel (ChannelId 3) c testing_protocol, [])"
    and "channel_inv c" and "config c = testing_config" and "incoming_requests c = {Id 1}" and "cancellation_allowance c = 1"
    and "current_multiframe_receiver c = InProgress (header_new RequestPl (ChannelId 3) (Id 1)) acc sz"
proof -
  have "tested (channel_new testing_config)" "card (incoming_requests (channel_new testing_config)) < 2"
      "Id 1 \<notin> incoming_requests (channel_new testing_config)"
    by (simp_all add: channel_checks)
  then show thesis
  proof (rule opens_transfer [OF _ assms])
    fix acc sz
    let ?c = "(increment_cancellation_allowance ((channel_new testing_config)\<lparr>incoming_requests :=
        insert (Id 1) (incoming_requests (channel_new testing_config))\<rparr>))
        \<lparr>current_multiframe_receiver := InProgress (header_new RequestPl (ChannelId 3) (Id 1)) acc sz\<rparr>"
    assume "process_incoming (put_channel (ChannelId 3) (channel_new testing_config) testing_protocol)
        (hd (wire_frames (MaxFrameSize 20) (outgoing_message_new (header_new RequestPl (ChannelId 3) (Id 1)) (Some pl))))
      = Some (Incomplete 4, put_channel (ChannelId 3) ?c testing_protocol, [])" and "channel_inv ?c"
    then show thesis
      by (rule that) (simp_all add: channel_new_def increment_cancellation_allowance_def)
  qed
qed

lemma long_request_cancelled:
  assumes "15 < length pl" and "length pl \<le> 512"
  shows "multiframe_messages_cancelled_correctly_after_partial_reception (Some pl) = Some ()"
proof -
  obtain c acc sz where opened: "process_incoming (put_channel (ChannelId 3) (channel_new testing_config) testing_protocol)
      (hd (wire_frames (MaxFrameSize 20) (outgoing_message_new (header_new RequestPl (ChannelId 3) (Id 1)) (Some pl))))
    = Some (Incomplete 4, put_channel (ChannelId 3) c testing_protocol, [])"
    "incoming_requests c = {Id 1}" "cancellation_allowance c = 1"
    "current_multiframe_receiver c = InProgress (header_new RequestPl (ChannelId 3) (Id 1)) acc sz"
    by (rule first_transfer [OF assms])
  have header: "om_header (outgoing_message_new h payload) = h" for h payload
    by (simp add: outgoing_message_new_def)
  have bob: "array_get (channels (put_channel (ChannelId 3) c testing_protocol)) 3 = Some c" for c
    by (simp add: array_get_def put_channel_def testing_protocol_def)
  show ?thesis
    using assms opened
    by (simp add: multiframe_messages_cancelled_correctly_after_partial_reception_def frame_runs cancelled_transfer bob header)
qed

lemma second_request_scenarios:
  assumes "15 < length pl" and "length pl \<le> 512"
  shows "15 < length pl' \<Longrightarrow> length pl' \<le> 512 \<Longrightarrow>
      two_multi_frame_messages_interleaved_causes_error (Some pl) (Some pl') = Some ()"
    and "length pl' \<le> 15 \<Longrightarrow>
      multi_frame_followed_by_single_frame_request_is_acceptable (Some pl) (Some pl') = Some ()"
proof -
  obtain c acc sz where opened: "process_incoming (put_channel (ChannelId 3) (channel_new testing_config) testing_protocol)
      (hd (wire_frames (MaxFrameSize 20) (outgoing_message_new (header_new RequestPl (ChannelId 3) (Id 1)) (Some pl))))
    = Some (Incomplete 4, put_channel (ChannelId 3) c testing_protocol, [])"
    and c: "channel_inv c" "config c = testing_config" "incoming_requests c = {Id 1}"
    "current_multiframe_receiver c = InProgress (header_new RequestPl (ChannelId 3) (Id 1)) acc sz"
    by (rule first_transfer [OF assms])
  have other: "header_new RequestPl (ChannelId 3) (Id 1) \<noteq> header_new RequestPl (ChannelId 3) (Id 2)"
    by (rule header_id_neq) simp
  show "two_multi_frame_messages_interleaved_causes_error (Some pl) (Some pl') = Some ()"
    if "15 < length pl'" "length pl' \<le> 512"
    using second_transfer_refused [OF c(1,2,4) other that] assms that opened
    by (auto simp: two_multi_frame_messages_interleaved_causes_error_def frame_runs)
  show "multi_frame_followed_by_single_frame_request_is_acceptable (Some pl) (Some pl') = Some ()" if "length pl' \<le> 15"
    using short_request_read [OF c(1,2,4) other that] c(3) assms that opened
    by (auto simp: multi_frame_followed_by_single_frame_request_is_acceptable_def frame_runs)
qed

lemma back_to_back_scenario:
  "valid_payload payload \<Longrightarrow> valid_payload payload' \<Longrightarrow> can_send_back_to_back_multi_frame_requests payload payload' = Some ()"
  by (simp add: can_send_back_to_back_multi_frame_requests_def testing_setup_new_env sends_request scenario_checks channel_checks)

lemma bad_varint_scenario:
  assumes "4 \<le> length pl" and "length pl \<le> 512"
  shows "env_bad_varint (Some pl) = Some ()"
proof -
  let ?h = "header_new RequestPl (ChannelId 3) (Id 1)" and ?l = "leb128 (length pl)"
  have fits: "length pl \<le> u32_max"
    using assms(2) by simp
  have l: "0 < length ?l" "length ?l \<le> 5"
    using length_leb128_bounds [of "length pl"] fits by simp_all
  then have five_bytes: "5 \<le> length ?l + length pl"
    using assms(1) by linarith
  obtain zs where zs: "concat (wire_frames (MaxFrameSize 20) (outgoing_message_new ?h (Some pl))) = header_as_ref ?h @ zs" "5 \<le> length zs"
    using first_frame_bytes [OF testing_frame_size(1) fits, of ?h] l five_bytes
    by (cases "length pl \<le> mfs_get_usize (MaxFrameSize 20) - 4 - length ?l") (auto simp: testing_frame_size)
  then obtain x1 x2 x3 x4 x5 ys where five: "zs = x1 # x2 # x3 # x4 # x5 # ys"
    by (auto simp: numeral_eq_Suc Suc_le_length_iff)
  have "start_spec (MaxFrameSize 20) 512 RequestTooLarge ?h (header_as_ref ?h @ [255, 255, 255, 255, 255] @ ys) = err_msg ?h BadVarInt"
    by (simp add: start_spec_def decode_varint32_def VARINT_MASK_def)
  then have "process_incoming (put_channel (ChannelId 3) (channel_new testing_config) testing_protocol)
      (header_as_ref ?h @ [255, 255, 255, 255, 255] @ ys)
    = Some (Fatal (outgoing_message_new (header_new_error BadVarInt (ChannelId 3) (Id 1)) None),
        put_channel (ChannelId 3) (channel_new testing_config) testing_protocol, header_as_ref ?h @ [255, 255, 255, 255, 255] @ ys)"
    by (intro bad_start_refused testing_protocol_inv channel_new_inv)
       (simp_all add: carries_payload_def payload_limit_def channel_new_def)
  then show ?thesis
    using zs five assms(2)
    by (simp add: env_bad_varint_def testing_setup_new_env om_to_bytes_wire testing_frame_size testing_message_fits
        set_byte_def header_as_ref_def Let_def testing_env_alice outcome_to_result_def checks_error)
qed

end
