(* ===== verification/Testing_Scripts.thy ===== *)
theory Testing_Scripts
  imports Testing_Frames
begin

text \<open>
  The test environment of \<^verbatim>\<open>src/src/protocol.rs\<close> beyond the scripts of the tests: both peers make requests, answer and
  cancel in any order, and the reads are predicted by a plain account of the open requests. At the end, the
  properties: correct use succeeds, in every order, and every kind of violation is refused, in every state that correct use
  reaches; both with the scenarios of the tests, for every payload of the right size.
\<close>

section \<open>An account of the exchange\<close>

text \<open>
  For each peer the requests it has made and that are not answered, its last identifier, and the
  cancellations it may still send.
\<close>

record exchange =
  open_requests :: "test_peer \<Rightarrow> msg_id set"
  last_id :: "test_peer \<Rightarrow> u16"
  cancel_credit :: "test_peer \<Rightarrow> u16"

definition exchange_start :: exchange where
  "exchange_start = \<lparr>open_requests = \<lambda>_. {}, last_id = \<lambda>_. 0, cancel_credit = \<lambda>_. 0\<rparr>"

datatype exchange_op =
    MakeRequest test_peer "bytes option"
  | MakeResponse test_peer msg_id "bytes option"
  | CancelRequest test_peer msg_id
  | CancelResponse test_peer msg_id

text \<open>The operations of the environment; \<open>None\<close> is a message that is not sent.\<close>

fun perform :: "exchange_op \<Rightarrow> testing_setup \<Rightarrow> (read_result option \<times> testing_setup) option" where
  "perform (MakeRequest origin payload) env =
     do { (res, env) \<leftarrow> create_and_send_request origin payload env; Some (Some res, env) }"
| "perform (MakeResponse origin i payload) env = create_and_send_response origin i payload env"
| "perform (CancelRequest origin i) env = cancel_request_and_send origin i env"
| "perform (CancelResponse origin i) env = cancel_response_and_send origin i env"

fun perform_all :: "exchange_op list \<Rightarrow> testing_setup \<Rightarrow> (read_result option list \<times> testing_setup) option" where
  "perform_all [] env = Some ([], env)"
| "perform_all (op # ops) env =
     do { (res, env) \<leftarrow> perform op env; (results, env) \<leftarrow> perform_all ops env; Some (res # results, env) }"

text \<open>The identifier after the last one, or the one after that if it is in use.\<close>

definition fresh_id :: "msg_id set \<Rightarrow> u16 \<Rightarrow> msg_id" where
  "fresh_id used lst = (if Id (lst + 1) \<in> used then Id (lst + 2) else Id (lst + 1))"

text \<open>
  What the account predicts: the read at the other peer. An operation that is not allowed has no prediction:
  a third open request, a payload above the limit, a cancellation without credit.
\<close>

definition answered :: "test_peer \<Rightarrow> msg_id \<Rightarrow> exchange \<Rightarrow> exchange" where
  "answered origin i ex = ex\<lparr>open_requests := (open_requests ex)(peer_not origin := open_requests ex (peer_not origin) - {i})\<rparr>"

fun predict :: "exchange_op \<Rightarrow> exchange \<Rightarrow> (completed_read option \<times> exchange) option" where
  "predict (MakeRequest origin payload) ex =
     (if valid_payload payload \<and> card (open_requests ex origin) < 2
      then let i = fresh_id (open_requests ex origin) (last_id ex origin)
           in Some (Some (NewRequest (ChannelId 3) i payload),
                ex\<lparr>open_requests := (open_requests ex)(origin := insert i (open_requests ex origin)),
                   last_id := (last_id ex)(origin := id_get i),
                   cancel_credit := (cancel_credit ex)(origin := min 2 (cancel_credit ex origin + 1))\<rparr>)
      else None)"
| "predict (MakeResponse origin i payload) ex =
     (if i \<notin> open_requests ex (peer_not origin) then Some (None, ex)
      else if valid_payload payload then Some (Some (ReceivedResponse (ChannelId 3) i payload), answered origin i ex)
      else None)"
| "predict (CancelRequest origin i) ex =
     (if i \<notin> open_requests ex origin then Some (None, ex)
      else if 0 < cancel_credit ex origin
      then Some (Some (RequestCancellation (ChannelId 3) i),
             ex\<lparr>cancel_credit := (cancel_credit ex)(origin := cancel_credit ex origin - 1)\<rparr>)
      else None)"
| "predict (CancelResponse origin i) ex =
     (if i \<notin> open_requests ex (peer_not origin) then Some (None, ex)
      else Some (Some (ResponseCancellation (ChannelId 3) i), answered origin i ex))"

fun predict_all :: "exchange_op list \<Rightarrow> exchange \<Rightarrow> (completed_read option list \<times> exchange) option" where
  "predict_all [] ex = Some ([], ex)"
| "predict_all (op # ops) ex =
     do { (read, ex) \<leftarrow> predict op ex; (reads, ex) \<leftarrow> predict_all ops ex; Some (read # reads, ex) }"

section \<open>The environment keeps the account\<close>

definition exchange_channel :: "exchange \<Rightarrow> test_peer \<Rightarrow> channel" where
  "exchange_channel ex peer =
     \<lparr>incoming_requests = open_requests ex (peer_not peer), outgoing_requests = open_requests ex peer,
      current_multiframe_receiver = Ready, cancellation_allowance = cancel_credit ex (peer_not peer),
      config = testing_config, prev_request_id = last_id ex peer\<rparr>"

definition exchange_env :: "exchange \<Rightarrow> testing_setup" where
  "exchange_env ex = testing_env (exchange_channel ex)"

definition exchange_ok :: "exchange \<Rightarrow> bool" where
  "exchange_ok ex \<longleftrightarrow> (\<forall>peer. finite (open_requests ex peer) \<and> card (open_requests ex peer) \<le> 2 \<and> cancel_credit ex peer \<le> 2)"

lemma exchange_channel_simps [simp]:
  "incoming_requests (exchange_channel ex peer) = open_requests ex (peer_not peer)"
  "outgoing_requests (exchange_channel ex peer) = open_requests ex peer"
  "current_multiframe_receiver (exchange_channel ex peer) = Ready"
  "cancellation_allowance (exchange_channel ex peer) = cancel_credit ex (peer_not peer)"
  "config (exchange_channel ex peer) = testing_config"
  "prev_request_id (exchange_channel ex peer) = last_id ex peer"
  by (simp_all add: exchange_channel_def)

lemma peer_not_not [simp]: "peer_not (peer_not peer) = peer"
  by (cases peer) simp_all

lemma exchange_tested: "exchange_ok ex \<Longrightarrow> tested (exchange_channel ex peer)"
  by (simp add: exchange_ok_def tested_def channel_inv_def transfer_inv_def receiver_inv_def)

lemma exchange_started: "testing_setup_new = Some (exchange_env exchange_start)" "exchange_ok exchange_start"
proof -
  have "exchange_channel exchange_start = (\<lambda>_. channel_new testing_config)"
    by (simp add: fun_eq_iff exchange_channel_def exchange_start_def channel_new_def)
  then show "testing_setup_new = Some (exchange_env exchange_start)"
    by (simp add: exchange_env_def testing_setup_new_env)
  show "exchange_ok exchange_start"
    by (simp add: exchange_ok_def exchange_start_def)
qed

lemma credit_cases: "(credit :: u16) \<le> 2 \<Longrightarrow> credit = 0 \<or> credit = 1 \<or> credit = 2"
proof -
  assume "credit \<le> 2"
  then have "unat credit \<le> 2"
    by (simp add: word_le_nat_alt)
  then consider "unat credit = 0" | "unat credit = 1" | "unat credit = 2"
    by linarith
  then show ?thesis
    by cases (simp_all add: word_unat_eq_iff)
qed

lemma fresh_id_unused:
  assumes "finite used" and "card used < 2"
  shows "next_unused_id used (Id (lst + 1)) = Some (fresh_id used lst)" and "fresh_id used lst \<notin> used"
proof -
  have "Id (lst + 2) \<notin> used" if "Id (lst + 1) \<in> used"
  proof
    assume "Id (lst + 2) \<in> used"
    with that have "card {Id (lst + 1), Id (lst + 2)} \<le> card used"
      using assms(1) by (intro card_mono) auto
    then show False
      using assms(2) by simp
  qed
  then show "next_unused_id used (Id (lst + 1)) = Some (fresh_id used lst)" "fresh_id used lst \<notin> used"
    by (simp_all add: fresh_id_def next_unused_id.simps add.assoc)
qed

lemma performs_request:
  assumes "exchange_ok ex" and "predict (MakeRequest origin payload) ex = Some (read, ex')"
  shows "perform (MakeRequest origin payload) (exchange_env ex) = Some (map_option Inr read, exchange_env ex') \<and> exchange_ok ex'"
proof -
  let ?f = "exchange_channel ex" and ?used = "open_requests ex origin" and ?dest = "peer_not origin"
  let ?i = "fresh_id ?used (last_id ex origin)"
  let ?kind = "if payload = None then Request else RequestPl"
  let ?a = "(?f origin)\<lparr>prev_request_id := id_get ?i, outgoing_requests := insert ?i ?used\<rparr>"
  let ?b = "increment_cancellation_allowance ((?f ?dest)\<lparr>incoming_requests := insert ?i ?used\<rparr>)"
  have allowed: "valid_payload payload" "card ?used < 2" and read: "read = Some (NewRequest (ChannelId 3) ?i payload)"
    and ex': "ex' = ex\<lparr>open_requests := (open_requests ex)(origin := insert ?i ?used), last_id := (last_id ex)(origin := id_get ?i),
      cancel_credit := (cancel_credit ex)(origin := min 2 (cancel_credit ex origin + 1))\<rparr>"
    using assms(2) by (auto simp: Let_def split: if_splits)
  have fin: "finite ?used" "cancel_credit ex origin \<le> 2"
    using assms(1) by (simp_all add: exchange_ok_def)
  note fresh = fresh_id_unused [OF fin(1) allowed(2), of "last_id ex origin"]
  have "create_request (ChannelId 3) payload (get_peer origin (testing_env ?f)) = Some
      (Inr (outgoing_message_new (header_new ?kind (ChannelId 3) ?i) payload), put_channel (ChannelId 3) ?a testing_protocol)"
    using allowed fresh
    by (auto simp: create_request_def lookup_channel_eq channel_allowed_to_send_request_def valid_payload_def
        create_unchecked_request_def generate_request_id_def Let_def split: option.splits)
  moreover have "recv_on ?dest (outgoing_message_new (header_new ?kind (ChannelId 3) ?i) payload) (testing_env (?f(origin := ?a)))
      = Some (Inr (NewRequest (ChannelId 3) ?i payload), testing_env (?f(origin := ?a, ?dest := ?b)))"
    using exchange_tested [OF assms(1), of ?dest] allowed fresh(2)
    by (intro testing_receives well_formed_testing) (simp_all add: receive_message_def is_at_max_incoming_requests_def)
  moreover have "?f(origin := ?a, ?dest := ?b) = exchange_channel ex'"
  proof
    have "min 2 (cancel_credit ex origin + 1) = (if cancel_credit ex origin < 2 then cancel_credit ex origin + 1 else cancel_credit ex origin)"
      using credit_cases [OF fin(2)] by auto
    then have b: "?b = (?f ?dest)\<lparr>incoming_requests := insert ?i ?used, cancellation_allowance := min 2 (cancel_credit ex origin + 1)\<rparr>"
      by (simp add: increment_cancellation_allowance_def exchange_channel_def)
    fix peer
    show "(?f(origin := ?a, ?dest := ?b)) peer = exchange_channel ex' peer"
      unfolding b by (cases origin; cases peer) (simp_all add: ex' exchange_channel_def)
  qed
  moreover have "exchange_ok ex'"
    using assms(1) allowed(2) fin fresh(2) by (auto simp: exchange_ok_def ex')
  ultimately show ?thesis
    by (simp add: read create_and_send_request_def exchange_env_def)
qed

lemma answered_channels:
  assumes "exchange_ok ex"
  shows "(exchange_channel ex)(origin := (exchange_channel ex origin)\<lparr>incoming_requests := open_requests ex (peer_not origin) - {i}\<rparr>,
      peer_not origin := (exchange_channel ex (peer_not origin))\<lparr>outgoing_requests := open_requests ex (peer_not origin) - {i}\<rparr>)
    = exchange_channel (answered origin i ex)"
    and "exchange_ok (answered origin i ex)"
proof -
  show "(exchange_channel ex)(origin := (exchange_channel ex origin)\<lparr>incoming_requests := open_requests ex (peer_not origin) - {i}\<rparr>,
      peer_not origin := (exchange_channel ex (peer_not origin))\<lparr>outgoing_requests := open_requests ex (peer_not origin) - {i}\<rparr>)
    = exchange_channel (answered origin i ex)" (is "?f = ?g")
  proof
    fix peer
    show "?f peer = ?g peer"
      by (cases origin; cases peer) (simp_all add: exchange_channel_def answered_def)
  qed
  show "exchange_ok (answered origin i ex)"
    using assms by (auto simp: exchange_ok_def answered_def card_Diff_singleton_if intro: le_trans [OF diff_le_self])
qed

lemma performs_predicted:
  assumes "exchange_ok ex" and "predict op ex = Some (read, ex')"
  shows "perform op (exchange_env ex) = Some (map_option Inr read, exchange_env ex') \<and> exchange_ok ex'"
proof (cases op)
  case (MakeRequest origin payload)
  then show ?thesis
    using performs_request [OF assms(1)] assms(2) by simp
next
  case (MakeResponse origin i payload)
  show ?thesis
  proof (cases "i \<in> open_requests ex (peer_not origin)")
    case True
    then show ?thesis
      using assms MakeResponse answered_channels [OF assms(1), of origin i]
        sends_response [of "exchange_channel ex" origin payload i] exchange_tested [OF assms(1)]
      by (auto simp: exchange_env_def split: if_splits)
  next
    case False
    then show ?thesis
      using assms MakeResponse
      by (simp add: exchange_env_def create_and_send_response_def send_if_created_def create_response_def lookup_channel_eq)
  qed
next
  case (CancelRequest origin i)
  have "(exchange_channel ex)(peer_not origin := (exchange_channel ex (peer_not origin))\<lparr>cancellation_allowance := cancel_credit ex origin - 1\<rparr>)
      = exchange_channel (ex\<lparr>cancel_credit := (cancel_credit ex)(origin := cancel_credit ex origin - 1)\<rparr>)" (is "?f = ?g")
  proof
    fix peer
    show "?f peer = ?g peer"
      by (cases origin; cases peer) (simp_all add: exchange_channel_def)
  qed
  moreover have "cancel_credit ex origin - 1 \<le> 2" if "0 < cancel_credit ex origin"
  proof -
    have "cancel_credit ex origin \<le> 2"
      using assms(1) by (simp add: exchange_ok_def)
    from credit_cases [OF this] that show ?thesis
      by auto
  qed
  ultimately show ?thesis
    using assms CancelRequest exchange_tested [OF assms(1)] swallows_request_cancellation [of i "exchange_channel ex" origin]
      sends_request_cancellation [of "exchange_channel ex" origin i]
    by (auto simp: exchange_env_def exchange_ok_def split: if_splits)
next
  case (CancelResponse origin i)
  show ?thesis
  proof (cases "i \<in> open_requests ex (peer_not origin)")
    case True
    then show ?thesis
      using assms CancelResponse answered_channels [OF assms(1), of origin i]
        sends_response_cancellation [of "exchange_channel ex" origin i] exchange_tested [OF assms(1)]
      by (auto simp: exchange_env_def)
  next
    case False
    then show ?thesis
      using assms CancelResponse
      by (simp add: exchange_env_def cancel_response_and_send_def send_if_created_def cancel_response_def lookup_channel_eq)
  qed
qed

lemma performs_all_predicted:
  assumes "exchange_ok ex" and "predict_all ops ex = Some (reads, ex')"
  shows "perform_all ops (exchange_env ex) = Some (map (map_option Inr) reads, exchange_env ex') \<and> exchange_ok ex'"
  using assms
proof (induction ops arbitrary: ex reads)
  case (Cons op ops)
  then obtain read ex1 reads1 where step: "predict op ex = Some (read, ex1)" "predict_all ops ex1 = Some (reads1, ex')" "reads = read # reads1"
    by (auto simp: bind_eq_Some_conv)
  then show ?case
    using performs_predicted [OF Cons.prems(1) step(1)] Cons.IH by fastforce
qed simp

section \<open>Violations\<close>

text \<open>
  The violation that a message of \<open>origin\<close> on the common channel is, according to the account.
\<close>

definition violation :: "exchange \<Rightarrow> test_peer \<Rightarrow> frame_kind \<Rightarrow> msg_id \<Rightarrow> bytes option \<Rightarrow> error_kind option" where
  "violation ex origin k i payload =
     (if k = Request \<or> k = RequestPl
      then if \<not> valid_payload payload then Some RequestTooLarge
           else if 2 \<le> card (open_requests ex origin) then Some RequestLimitExceeded
           else if i \<in> open_requests ex origin then Some DuplicateRequest
           else None
      else if k = Response \<or> k = ResponsePl
      then if i \<notin> open_requests ex (peer_not origin) then Some FictitiousRequest
           else if \<not> valid_payload payload then Some ResponseTooLarge
           else None
      else if k = CancelReq then if cancel_credit ex origin = 0 then Some CancellationLimitExceeded else None
      else if i \<notin> open_requests ex (peer_not origin) then Some FictitiousCancel else None)"

text \<open>
  A message, or any sequence of bytes, is refused with an error of the given kind, channel and identifier; the message also when it
  is received in chunks.
\<close>

definition message_refused :: "testing_setup \<Rightarrow> test_peer \<Rightarrow> outgoing_message \<Rightarrow> error_kind \<Rightarrow> bool" where
  "message_refused env dest msg e \<longleftrightarrow> (\<exists>env'. recv_on dest msg env = Some
     (Inl (outgoing_message_new (header_new_error e (header_channel (om_header msg)) (header_id (om_header msg))) None), env'))"

definition bytes_refused :: "testing_setup \<Rightarrow> test_peer \<Rightarrow> bytes \<Rightarrow> error_kind \<Rightarrow> channel_id \<Rightarrow> msg_id \<Rightarrow> bool" where
  "bytes_refused env dest bytes e ch i \<longleftrightarrow> (\<exists>p' b'. process_incoming (get_peer dest env) bytes
     = Some (Fatal (outgoing_message_new (header_new_error e ch i) None), p', b'))"

lemma om_header_new: "om_header (outgoing_message_new h payload) = h"
  by (simp add: outgoing_message_new_def)

lemma message_refused_bytes:
  assumes "exchange_ok ex" and "payload_fits msg"
    and "\<And>xs. bytes_refused (exchange_env ex) dest (header_as_ref (om_header msg) @ xs) e (header_channel (om_header msg)) (header_id (om_header msg))"
  shows "message_refused (exchange_env ex) dest msg e"
proof -
  obtain xs where "concat (wire_frames (MaxFrameSize 20) msg) = header_as_ref (om_header msg) @ xs"
    using wire_header by blast
  then obtain p' b' where "process_incoming (get_peer dest (exchange_env ex)) (concat (wire_frames (ts_max_frame_size (exchange_env ex)) msg))
      = Some (Fatal (outgoing_message_new (header_new_error e (header_channel (om_header msg)) (header_id (om_header msg))) None), p', b')"
    using assms(3) [of xs] by (auto simp: bytes_refused_def exchange_env_def)
  from recv_on_settled [OF _ _ assms(2) this] show ?thesis
    using exchange_tested [OF assms(1)] by (simp add: message_refused_def exchange_env_def tested_def testing_protocol_inv outcome_to_result_def)
qed

lemma fictitious_response_refused:
  assumes "i \<notin> open_requests ex dest"
  shows "bytes_refused (exchange_env ex) dest (header_as_ref (header_new ResponsePl (ChannelId 3) i) @ xs) FictitiousRequest (ChannelId 3) i"
proof -
  let ?p = "put_channel (ChannelId 3) (exchange_channel ex dest) testing_protocol"
  have "handle_frame (max_frame_size ?p) ResponsePl (header_new ResponsePl (ChannelId 3) i) (chan_of (ChannelId 3) ?p)
      (header_as_ref (header_new ResponsePl (ChannelId 3) i) @ xs) =
      Some (Some (err_msg (header_new ResponsePl (ChannelId 3) i) FictitiousRequest), exchange_channel ex dest,
        header_as_ref (header_new ResponsePl (ChannelId 3) i) @ xs)"
    using assms by (simp add: handle_frame_def handle_response_pl_def)
  from process_incoming_step [OF _ this] show ?thesis
    by (simp add: bytes_refused_def exchange_env_def err_msg_header_new)
qed

lemma violation_refused:
  assumes "exchange_ok ex" and "violation ex origin k i payload = Some e"
    and "payload \<noteq> None \<longleftrightarrow> carries_payload k" and "payload_fits (outgoing_message_new (header_new k (ChannelId 3) i) payload)"
  shows "message_refused (exchange_env ex) (peer_not origin) (outgoing_message_new (header_new k (ChannelId 3) i) payload) e"
proof -
  let ?f = "exchange_channel ex" and ?dest = "peer_not origin" and ?msg = "outgoing_message_new (header_new k (ChannelId 3) i) payload"
  note tested = exchange_tested [OF assms(1), of ?dest]
  show ?thesis
  proof (cases "valid_payload payload")
    case True
    then have "well_formed testing_config k payload"
      using assms(3) by (auto simp: well_formed_def valid_payload_def payload_limit_def split: option.splits)
    moreover have "fst (receive_message k (ChannelId 3) i payload (?f ?dest)) = Inl e"
      using assms(2) True unfolding violation_def receive_message_def is_at_max_incoming_requests_def by (cases k) (auto split: if_splits)
    ultimately show ?thesis
      using testing_refuses [of ?f ?dest, OF tested]
      by (cases "receive_message k (ChannelId 3) i payload (?f ?dest)") (fastforce simp: message_refused_def exchange_env_def om_header_new)
  next
    case False
    then obtain pl where pl: "payload = Some pl" "512 < length pl"
      by (auto simp: valid_payload_def split: option.splits)
    show ?thesis
    proof (cases "e = FictitiousRequest")
      case True
      then have "k = ResponsePl" "i \<notin> open_requests ex ?dest"
        using assms(2,3) pl by (auto simp: violation_def carries_payload_def split: if_splits)
      then show ?thesis
        using message_refused_bytes [OF assms(1,4)] fictitious_response_refused [of i ex ?dest] True by (simp add: om_header_new)
    next
      case other: False
      then have "e = (if k = RequestPl then RequestTooLarge else ResponseTooLarge)" "k = ResponsePl \<Longrightarrow> i \<in> open_requests ex ?dest"
        using assms(2,3) pl False by (auto simp: violation_def carries_payload_def split: if_splits)
      then show ?thesis
        using recv_too_large [of ?f ?dest k i pl, OF tested] assms(3,4) pl
        by (auto simp: message_refused_def exchange_env_def payload_fits_def om_header_new) (simp_all add: outgoing_message_new_def)
    qed
  qed
qed

section \<open>Malformed input\<close>

lemma invalid_channel_refused:
  assumes "exchange_ok ex" and "4 \<le> unat (channel_get ch)" and "payload_fits (outgoing_message_new (header_new k ch i) payload)"
  shows "message_refused (exchange_env ex) dest (outgoing_message_new (header_new k ch i) payload) error_kind.InvalidChannel"
proof (rule message_refused_bytes [OF assms(1,3)])
  let ?h = "header_new k ch i" and ?p = "put_channel (ChannelId 3) (exchange_channel ex dest) testing_protocol"
  fix xs
  have "header_parse (header_b0 ?h) (header_b1 ?h) (header_b2 ?h) (header_b3 ?h) = Some ?h"
    using header_new_valid by (simp only: header_valid_def)
  then have "process_incoming p (header_as_ref ?h @ xs)
      = Some (Fatal (outgoing_message_new (header_new_error error_kind.InvalidChannel ch i) None), p, header_as_ref ?h @ xs)"
    if "array_get (channels p) (unat (channel_get ch)) = None" for p
    using that by (subst process_incoming.simps)
      (simp add: process_frame_def header_SIZE_def header_as_ref_def err_msg_header_new array_get_def split: if_splits)
  moreover have "array_get (channels ?p) (unat (channel_get ch)) = None"
    using assms(2) by (simp add: array_get_def put_channel_def testing_protocol_def)
  ultimately have "process_incoming ?p (header_as_ref ?h @ xs)
      = Some (Fatal (outgoing_message_new (header_new_error error_kind.InvalidChannel ch i) None), ?p, header_as_ref ?h @ xs)" .
  then show "bytes_refused (exchange_env ex) dest (header_as_ref (om_header (outgoing_message_new ?h payload)) @ xs) error_kind.InvalidChannel
      (header_channel (om_header (outgoing_message_new ?h payload))) (header_id (om_header (outgoing_message_new ?h payload)))"
    by (simp add: bytes_refused_def exchange_env_def om_header_new)
qed

lemma unknown_header_refused:
  assumes "header_parse b0 b1 b2 b3 = None"
  shows "bytes_refused env dest ([b0, b1, b2, b3] @ xs) InvalidHeader UNKNOWN_CHANNEL UNKNOWN_ID"
  using assms by (subst bytes_refused_def, subst process_incoming.simps) (simp add: process_frame_def header_SIZE_def)

text \<open>A length prefix that is not a number, or announces an error message beyond a single frame.\<close>

lemma broken_length_refused:
  assumes "exchange_ok ex" and "decode_varint32 xs = Fatal overflow"
    and "k = RequestPl \<or> k = ResponsePl \<and> i \<in> open_requests ex dest"
  shows "bytes_refused (exchange_env ex) dest (header_as_ref (header_new k (ChannelId 3) i) @ xs) BadVarInt (ChannelId 3) i"
proof -
  let ?h = "header_new k (ChannelId 3) i" and ?p = "put_channel (ChannelId 3) (exchange_channel ex dest) testing_protocol"
  have "start_spec m maxp ek ?h (header_as_ref ?h @ xs) = err_msg ?h BadVarInt" for m maxp ek
    using assms(2) by (simp add: start_spec_def)
  then have "process_incoming ?p (header_as_ref ?h @ xs)
      = Some (Fatal (outgoing_message_new (header_new_error BadVarInt (ChannelId 3) i) None), ?p, header_as_ref ?h @ xs)"
    using assms(3) exchange_tested [OF assms(1), of dest]
    by (intro bad_start_refused testing_protocol_inv) (auto simp: carries_payload_def tested_def)
  then show ?thesis
    by (auto simp: bytes_refused_def exchange_env_def)
qed

lemma broken_error_refused:
  assumes "decode_varint32 xs = oc" and "oc = Fatal overflow \<and> e = BadVarInt
      \<or> (\<exists>v. oc = Success v \<and> 20 < 4 + unat (parsed_offset v) + unat (parsed_value v) \<and> e = SegmentViolation)"
  shows "bytes_refused (exchange_env ex) dest (header_as_ref (header_new_error Other ch i) @ xs) e ch i"
proof -
  let ?h = "header_new_error Other ch i" and ?p = "put_channel (ChannelId 3) (exchange_channel ex dest) testing_protocol"
  have parsed: "header_parse (header_b0 ?h) (header_b1 ?h) (header_b2 ?h) (header_b3 ?h) = Some ?h"
  proof -
    have "header_valid ?h"
      unfolding header_valid_iff by blast
    then show ?thesis
      by (simp only: header_valid_def)
  qed
  have error: "err_msg ?h e' = Fatal (outgoing_message_new (header_new_error e' ch i) None)"
      "outgoing_message_new (header_with_err e' ?h) None = outgoing_message_new (header_new_error e' ch i) None" for e'
    by (simp_all add: err_msg_def header_with_err_def)
  have "handle_error_frame (MaxFrameSize 20) ?h (header_as_ref ?h @ xs)
      = Some (Fatal (outgoing_message_new (header_new_error e ch i) None), header_as_ref ?h @ xs)"
    using assms testing_frame_size(2) by (auto simp: handle_error_frame_def header_SIZE_def error Let_def)
  then have "process_frame ?p (header_as_ref ?h @ xs)
      = Some (Some (Fatal (outgoing_message_new (header_new_error e ch i) None)), ?p, header_as_ref ?h @ xs)"
    using parsed by (simp add: process_frame_def header_SIZE_def header_as_ref_def)
  then show ?thesis
    by (subst bytes_refused_def, subst process_incoming.simps) (simp add: exchange_env_def)
qed

text \<open>A second long request on the channel before the first is complete.\<close>

lemma second_transfer_in_exchange:
  assumes "exchange_ok ex" and "card (open_requests ex origin) < 2" and "i \<notin> open_requests ex origin" and "j \<noteq> i"
    and "15 < length long" and "length long \<le> 512" and "15 < length long'" and "length long' \<le> 512"
  shows "bytes_refused (exchange_env ex) (peer_not origin)
    (hd (wire_frames (MaxFrameSize 20) (outgoing_message_new (header_new RequestPl (ChannelId 3) i) (Some long)))
     @ hd (wire_frames (MaxFrameSize 20) (outgoing_message_new (header_new RequestPl (ChannelId 3) j) (Some long'))))
    error_kind.InProgress (ChannelId 3) j"
proof -
  let ?c = "exchange_channel ex (peer_not origin)"
  let ?p = "put_channel (ChannelId 3) ?c testing_protocol"
  have tested: "tested ?c" "card (incoming_requests ?c) < 2" "i \<notin> incoming_requests ?c"
    using exchange_tested [OF assms(1)] assms(2,3) by simp_all
  have other: "header_new RequestPl (ChannelId 3) i \<noteq> header_new RequestPl (ChannelId 3) j"
    using header_id_neq [OF assms(4)] by metis
  have inv: "protocol_inv ?p"
    using tested(1) by (simp add: tested_def testing_protocol_inv)
  show ?thesis
  proof (rule opens_transfer [OF tested(1) assms(5,6) tested(2,3)])
    fix acc sz
    let ?c' = "(increment_cancellation_allowance (?c\<lparr>incoming_requests := insert i (incoming_requests ?c)\<rparr>))
        \<lparr>current_multiframe_receiver := InProgress (header_new RequestPl (ChannelId 3) i) acc sz\<rparr>"
    assume opened: "process_incoming ?p (hd (wire_frames (MaxFrameSize 20) (outgoing_message_new (header_new RequestPl (ChannelId 3) i) (Some long))))
        = Some (Incomplete 4, put_channel (ChannelId 3) ?c' testing_protocol, [])" and inv': "channel_inv ?c'"
    have "config ?c' = testing_config" "current_multiframe_receiver ?c' = InProgress (header_new RequestPl (ChannelId 3) i) acc sz"
      by (simp_all add: increment_cancellation_allowance_def)
    from second_transfer_refused [OF inv' this other assms(7,8)] show ?thesis
      using juliet.looped.parse_resume [OF protocol_like_refl [OF inv] opened]
      by (simp add: bytes_refused_def exchange_env_def)
  qed
qed

section \<open>Properties\<close>

lemma test_payload_sizes:
  "map_option length (get_slice PayloadSingleFrame) = Some 4"
  "map_option length (get_slice PayloadMultiFrame) = Some 83"
  "map_option length (get_slice PayloadTooLarge) = Some 1024"
  by (simp_all add: get_slice_def string_bytes_def LONG_PAYLOAD_def OVERLY_LONG_PAYLOAD_def length_concat sum_list_replicate)

text \<open>
  C15: Correct use of the protocol. In the environment of the tests, where each message is received at once and in
  chunks of every size, both peers may make requests, answer, cancel requests and cancel responses in any
  order: as long as each has at most two open requests, payloads are at most 512 bytes and cancellations are
  covered by requests, every message is read as the account of open requests predicts, with identifier
  and payload, and nothing is sent for a request that is not open. The scenarios of the tests succeed too, for every payload of the
  right size: the use cases; two requests in a row; a request cancelled after its first frame leaves no trace; a
  short request is read while a long one is being received; the state of a peer that creates messages is as
  expected.
\<close>

theorem test_scenarios_succeed:
  assumes "predict_all ops exchange_start = Some (reads, ex)"
    and "valid_payload payload" and "valid_payload payload'"
    and "15 < length long" and "length long \<le> 512" and "length short \<le> 15"
  shows "do { env \<leftarrow> testing_setup_new; perform_all ops env } = Some (map (map_option Inr) reads, exchange_env ex)
    \<and> list_all (\<lambda>scenario. scenario payload = Some ()) use_cases
    \<and> can_send_back_to_back_multi_frame_requests payload payload' = Some ()
    \<and> multiframe_messages_cancelled_correctly_after_partial_reception (Some long) = Some ()
    \<and> multi_frame_followed_by_single_frame_request_is_acceptable (Some long) (Some short) = Some ()
    \<and> create_requests_with_correct_input_sets_state_accordingly payload = Some ()
    \<and> create_response_with_correct_input_clears_state_accordingly payload = Some ()
    \<and> custom_errors_are_possible = Some () \<and> response_with_no_payload_is_cleared_from_buffer = Some ()"
proof -
  have "payload_within 1024 payload"
    using assms(2) by (auto simp: valid_payload_def payload_within_def split: option.splits)
  then show ?thesis
    using assms performs_all_predicted [OF exchange_started(2) assms(1)]
    by (simp add: exchange_started(1) use_cases_run back_to_back_scenario long_request_cancelled second_request_scenarios
        create_requests_sets_state create_response_clears_state custom_errors_created response_leaves_buffer)
qed

text \<open>Two requests of one peer and one of the other, answered in another order; and the payloads of the tests.\<close>

definition crossing_requests :: "exchange_op list" where
  "crossing_requests = [MakeRequest Alice (Some [1]), MakeRequest Bob None, MakeRequest Alice None, CancelRequest Alice (Id 1),
     MakeResponse Bob (Id 2) (Some [2]), CancelResponse Alice (Id 1), MakeResponse Bob (Id 1) None, MakeResponse Bob (Id 1) None]"

lemma crossing_requests_predicted:
  "\<exists>ex. predict_all crossing_requests exchange_start = Some
     ([Some (NewRequest (ChannelId 3) (Id 1) (Some [1])), Some (NewRequest (ChannelId 3) (Id 1) None),
       Some (NewRequest (ChannelId 3) (Id 2) None), Some (RequestCancellation (ChannelId 3) (Id 1)),
       Some (ReceivedResponse (ChannelId 3) (Id 2) (Some [2])), Some (ResponseCancellation (ChannelId 3) (Id 1)),
       Some (ReceivedResponse (ChannelId 3) (Id 1) None), None], ex)"
  by (simp add: crossing_requests_def exchange_start_def fresh_id_def valid_payload_def answered_def Let_def)

theorem test_scenarios_succeed_witness:
  "do { env \<leftarrow> testing_setup_new; (results, env) \<leftarrow> perform_all crossing_requests env; Some results } = Some
     [Some (Inr (NewRequest (ChannelId 3) (Id 1) (Some [1]))), Some (Inr (NewRequest (ChannelId 3) (Id 1) None)),
      Some (Inr (NewRequest (ChannelId 3) (Id 2) None)), Some (Inr (RequestCancellation (ChannelId 3) (Id 1))),
      Some (Inr (ReceivedResponse (ChannelId 3) (Id 2) (Some [2]))), Some (Inr (ResponseCancellation (ChannelId 3) (Id 1))),
      Some (Inr (ReceivedResponse (ChannelId 3) (Id 1) None)), None]
   \<and> list_all (\<lambda>payload. list_all (\<lambda>scenario. scenario (get_slice payload) = Some ()) use_cases) all_valid
   \<and> multiframe_messages_cancelled_correctly_after_partial_reception (get_slice PayloadMultiFrame) = Some ()
   \<and> multi_frame_followed_by_single_frame_request_is_acceptable (get_slice PayloadMultiFrame) (get_slice PayloadSingleFrame) = Some ()"
proof -
  obtain long short where payloads: "get_slice PayloadMultiFrame = Some long" "length long = 83"
      "get_slice PayloadSingleFrame = Some short" "length short = 4"
    using test_payload_sizes by auto
  have none: "valid_payload None"
    by (simp add: valid_payload_def)
  obtain ex where predicted: "predict_all crossing_requests exchange_start = Some
     ([Some (NewRequest (ChannelId 3) (Id 1) (Some [1])), Some (NewRequest (ChannelId 3) (Id 1) None),
       Some (NewRequest (ChannelId 3) (Id 2) None), Some (RequestCancellation (ChannelId 3) (Id 1)),
       Some (ReceivedResponse (ChannelId 3) (Id 2) (Some [2])), Some (ResponseCancellation (ChannelId 3) (Id 1)),
       Some (ReceivedResponse (ChannelId 3) (Id 1) None), None], ex)"
    using crossing_requests_predicted by blast
  note holds = test_scenarios_succeed [OF predicted all_valid_payloads none, of _ long short]
  have "do { env \<leftarrow> testing_setup_new; perform_all crossing_requests env } \<bind> (\<lambda>(results, env). Some results) = Some
     [Some (Inr (NewRequest (ChannelId 3) (Id 1) (Some [1]))), Some (Inr (NewRequest (ChannelId 3) (Id 1) None)),
      Some (Inr (NewRequest (ChannelId 3) (Id 2) None)), Some (Inr (RequestCancellation (ChannelId 3) (Id 1))),
      Some (Inr (ReceivedResponse (ChannelId 3) (Id 2) (Some [2]))), Some (Inr (ResponseCancellation (ChannelId 3) (Id 1))),
      Some (Inr (ReceivedResponse (ChannelId 3) (Id 1) None)), None]"
    using holds [of PayloadNone] payloads by (simp add: all_valid_def)
  then show ?thesis
    using holds payloads by (auto simp: list_all_iff all_valid_def bind_assoc)
qed

text \<open>
  C29: Violations, of every kind that a peer can be accused of. In the environment of the tests, in every state
  that correct use of both peers leads to, a message on the common channel that is a violation according
  to the account of open requests (a request too many or too large, a repeated identifier, a response or response
  cancellation for a request that is not open, a response too large, a cancellation without credit) and
  any message on a channel that does not exist are answered with the error that names the violation, the
  channel and the identifier, at once and in chunks of every size. So are bytes that no header starts with, a broken length
  prefix of a request, a response or an error message, an error message that exceeds a single frame, and the first frame of
  a long request while another one is being received. The scenarios of the tests that provoke errors end as they expect, for
  every payload of the right size, and the own side refuses to create such requests.
\<close>

theorem test_violations_refused:
  assumes "predict_all ops exchange_start = Some (reads, ex)"
    and "valid_payload payload" and "512 < length large" and "2 * length large \<le> u32_max"
    and "15 < length long" and "length long \<le> 512" and "15 < length long'" and "length long' \<le> 512"
  shows "\<exists>env. do { env \<leftarrow> testing_setup_new; perform_all ops env } = Some (map (map_option Inr) reads, env)
    \<and> (\<forall>origin k i pl e. violation ex origin k i pl = Some e \<and> (pl \<noteq> None \<longleftrightarrow> carries_payload k)
         \<and> payload_fits (outgoing_message_new (header_new k (ChannelId 3) i) pl) \<longrightarrow>
         message_refused env (peer_not origin) (outgoing_message_new (header_new k (ChannelId 3) i) pl) e)
    \<and> (\<forall>dest k ch i pl. 4 \<le> unat (channel_get ch) \<and> payload_fits (outgoing_message_new (header_new k ch i) pl) \<longrightarrow>
         message_refused env dest (outgoing_message_new (header_new k ch i) pl) error_kind.InvalidChannel)
    \<and> (\<forall>dest b0 b1 b2 b3 xs. header_parse b0 b1 b2 b3 = None \<longrightarrow>
         bytes_refused env dest ([b0, b1, b2, b3] @ xs) InvalidHeader UNKNOWN_CHANNEL UNKNOWN_ID)
    \<and> (\<forall>dest k i xs overflow. decode_varint32 xs = Fatal overflow \<and> (k = RequestPl \<or> k = ResponsePl \<and> i \<in> open_requests ex dest) \<longrightarrow>
         bytes_refused env dest (header_as_ref (header_new k (ChannelId 3) i) @ xs) BadVarInt (ChannelId 3) i)
    \<and> (\<forall>dest ch i xs overflow. decode_varint32 xs = Fatal overflow \<longrightarrow>
         bytes_refused env dest (header_as_ref (header_new_error Other ch i) @ xs) BadVarInt ch i)
    \<and> (\<forall>dest ch i xs v. decode_varint32 xs = Success v \<and> 20 < 4 + unat (parsed_offset v) + unat (parsed_value v) \<longrightarrow>
         bytes_refused env dest (header_as_ref (header_new_error Other ch i) @ xs) SegmentViolation ch i)
    \<and> (\<forall>origin i j. card (open_requests ex origin) < 2 \<and> i \<notin> open_requests ex origin \<and> j \<noteq> i \<longrightarrow>
         bytes_refused env (peer_not origin)
           (hd (wire_frames (MaxFrameSize 20) (outgoing_message_new (header_new RequestPl (ChannelId 3) i) (Some long)))
            @ hd (wire_frames (MaxFrameSize 20) (outgoing_message_new (header_new RequestPl (ChannelId 3) j) (Some long'))))
           error_kind.InProgress (ChannelId 3) j)
    \<and> list_all (\<lambda>scenario. scenario payload = Some ()) refusals
    \<and> list_all (\<lambda>scenario. scenario (Some large) = Some ()) size_refusals
    \<and> create_requests_with_invalid_inputs_fails payload = Some ()
    \<and> env_bad_varint (Some long) = Some ()
    \<and> two_multi_frame_messages_interleaved_causes_error (Some long) (Some long') = Some ()"
proof (intro exI [of _ "exchange_env ex"] conjI allI impI)
  have ok: "exchange_ok ex" and run: "perform_all ops (exchange_env exchange_start) = Some (map (map_option Inr) reads, exchange_env ex)"
    using performs_all_predicted [OF exchange_started(2) assms(1)] by auto
  show "do { env \<leftarrow> testing_setup_new; perform_all ops env } = Some (map (map_option Inr) reads, exchange_env ex)"
    using run by (simp add: exchange_started(1))
  show "message_refused (exchange_env ex) (peer_not origin) (outgoing_message_new (header_new k (ChannelId 3) i) pl) e"
    if "violation ex origin k i pl = Some e \<and> (pl \<noteq> None \<longleftrightarrow> carries_payload k)
      \<and> payload_fits (outgoing_message_new (header_new k (ChannelId 3) i) pl)" for origin k i pl e
    using violation_refused [OF ok] that by blast
  show "message_refused (exchange_env ex) dest (outgoing_message_new (header_new k ch i) pl) error_kind.InvalidChannel"
    if "4 \<le> unat (channel_get ch) \<and> payload_fits (outgoing_message_new (header_new k ch i) pl)" for dest k ch i pl
    using invalid_channel_refused [OF ok] that by blast
  show "bytes_refused (exchange_env ex) dest (header_as_ref (header_new k (ChannelId 3) i) @ xs) BadVarInt (ChannelId 3) i"
    if "decode_varint32 xs = Fatal overflow \<and> (k = RequestPl \<or> k = ResponsePl \<and> i \<in> open_requests ex dest)" for dest k i xs overflow
    using broken_length_refused [OF ok] that by blast
  show "bytes_refused (exchange_env ex) (peer_not origin)
      (hd (wire_frames (MaxFrameSize 20) (outgoing_message_new (header_new RequestPl (ChannelId 3) i) (Some long)))
       @ hd (wire_frames (MaxFrameSize 20) (outgoing_message_new (header_new RequestPl (ChannelId 3) j) (Some long'))))
      error_kind.InProgress (ChannelId 3) j"
    if "card (open_requests ex origin) < 2 \<and> i \<notin> open_requests ex origin \<and> j \<noteq> i" for origin i j
    using second_transfer_in_exchange [OF ok _ _ _ assms(5-8)] that by blast
qed (use assms unknown_header_refused broken_error_refused in
      \<open>simp_all add: refusals_run size_refusals_run create_requests_refuses bad_varint_scenario second_request_scenarios\<close>)

text \<open>With two open requests a third one is refused, and an error message of 17 bytes is too long for a frame.\<close>

definition two_open_requests :: "exchange_op list" where
  "two_open_requests = [MakeRequest Alice None, MakeRequest Alice None]"

theorem test_violations_refused_witness:
  "\<exists>results env. do { env \<leftarrow> testing_setup_new; perform_all two_open_requests env } = Some (results, env)
     \<and> message_refused env Bob (outgoing_message_new (header_new Request (ChannelId 3) (Id 9)) None) RequestLimitExceeded
     \<and> message_refused env Bob (outgoing_message_new (header_new Request (ChannelId 7) (Id 9)) None) error_kind.InvalidChannel
     \<and> bytes_refused env Bob (header_as_ref (header_new_error Other (ChannelId 3) (Id 9)) @ [17]) SegmentViolation (ChannelId 3) (Id 9)
     \<and> list_all (\<lambda>scenario. scenario (get_slice PayloadSingleFrame) = Some ()) refusals
     \<and> list_all (\<lambda>scenario. scenario (get_slice PayloadTooLarge) = Some ()) size_refusals
     \<and> env_bad_varint (get_slice PayloadMultiFrame) = Some ()"
proof -
  obtain long large where payloads: "get_slice PayloadMultiFrame = Some long" "length long = 83"
      "get_slice PayloadTooLarge = Some large" "length large = 1024"
    using test_payload_sizes by auto
  let ?ex = "\<lparr>open_requests = (\<lambda>_. {})(Alice := {Id 2, Id 1}), last_id = (\<lambda>_. 0)(Alice := 2), cancel_credit = (\<lambda>_. 0)(Alice := 2)\<rparr>"
  have predicted: "predict_all two_open_requests exchange_start = Some ([Some (NewRequest (ChannelId 3) (Id 1) None),
      Some (NewRequest (ChannelId 3) (Id 2) None)], ?ex)"
    by (simp add: two_open_requests_def exchange_start_def fresh_id_def valid_payload_def Let_def)
  have single: "PayloadSingleFrame \<in> set all_valid"
    by (simp add: all_valid_def)
  have "violation ?ex Alice Request (Id 9) None = Some RequestLimitExceeded"
      "decode_varint32 [17] = Success \<lparr>parsed_offset = 1, parsed_value = 17\<rparr>"
    by (simp_all add: violation_def valid_payload_def decode_varint32_def VARINT_MASK_def)
  moreover have "payload_fits (outgoing_message_new (header_new k ch i) None)" for k ch i
    by (simp add: payload_fits_def outgoing_message_new_def)
  moreover note holds = test_violations_refused [OF predicted all_valid_payloads [OF single], of large long long]
  ultimately show ?thesis
    using payloads by (fastforce simp: carries_payload_def)
qed

end
