(* ===== verification/Multiframe_Model.thy ===== *)
theory Multiframe_Model
  imports Multiframe
begin

text \<open>
  The model test of \<^verbatim>\<open>src/src/protocol/multiframe.rs\<close> (module \<^verbatim>\<open>tests\<close>). A list of actions is turned into the
  bytes that a peer would send and the outcomes that are expected (\<^verbatim>\<open>generate_model_sequence\<close>); the
  receiver then reads these bytes frame by frame (\<^verbatim>\<open>check_model_sequence\<close>). The test draws random lists of actions;
  here the expected outcomes are shown to be the actual ones for all of them.
\<close>

section \<open>Definitions\<close>

definition multiframe_MAX_FRAME_SIZE :: max_frame_size where
  "multiframe_MAX_FRAME_SIZE = MaxFrameSize 16"

definition MAX_SINGLE_FRAME_PAYLOAD_SIZE :: u32 where
  "MAX_SINGLE_FRAME_PAYLOAD_SIZE = mfs_get multiframe_MAX_FRAME_SIZE - of_nat header_SIZE - 1"

definition multiframe_MAX_PAYLOAD_SIZE :: u32 where
  "multiframe_MAX_PAYLOAD_SIZE = 4096"

datatype action =
    SendSingleFrame header bytes
  | BeginMultiFrameMessage header bytes
  | Continue
  | SendConflictingMultiFrameMessage channel_id msg_id bytes
  | ExceedPayloadSizeLimit header bytes

text \<open>The sizes of the payloads that the strategies of the test draw.\<close>

fun action_strategy :: "action \<Rightarrow> bool" where
  "action_strategy (SendSingleFrame h payload) \<longleftrightarrow>
     header_valid h \<and> length payload \<le> unat MAX_SINGLE_FRAME_PAYLOAD_SIZE"
| "action_strategy (BeginMultiFrameMessage h payload) \<longleftrightarrow>
     header_valid h \<and> unat MAX_SINGLE_FRAME_PAYLOAD_SIZE + 1 \<le> length payload
     \<and> length payload \<le> unat multiframe_MAX_PAYLOAD_SIZE"
| "action_strategy Continue \<longleftrightarrow> True"
| "action_strategy (SendConflictingMultiFrameMessage ch i payload) \<longleftrightarrow>
     unat MAX_SINGLE_FRAME_PAYLOAD_SIZE + 1 \<le> length payload \<and> length payload \<le> unat multiframe_MAX_PAYLOAD_SIZE"
| "action_strategy (ExceedPayloadSizeLimit h payload) \<longleftrightarrow>
     header_valid h \<and> unat multiframe_MAX_PAYLOAD_SIZE + 1 \<le> length payload
     \<and> length payload \<le> 2 + 2 * unat multiframe_MAX_PAYLOAD_SIZE"

definition twiddle_header :: "header \<Rightarrow> header option" where
  "twiddle_header h =
     (let new_id = Id (id_get (header_id h) + 1)
      in if header_is_error h
         then do { kind \<leftarrow> header_error_kind h; Some (header_new_error kind (header_channel h) new_id) }
         else do { kind \<leftarrow> header_kind h; Some (header_new kind (header_channel h) new_id) })"

type_synonym model_outcome = "(bytes option, outgoing_message) outcome"

text \<open>The header of an active transfer that a new header must not be equal to.\<close>

definition avoid_active :: "frame_iter option \<Rightarrow> header \<Rightarrow> header option" where
  "avoid_active active_transfer h = (case active_transfer of
       Some active \<Rightarrow> if om_header (fi_msg active) = h then twiddle_header h else Some h
     | None \<Rightarrow> Some h)"

fun generate_model_sequence_loop ::
  "action list \<Rightarrow> model_outcome list \<Rightarrow> frame_iter option \<Rightarrow> bytes \<Rightarrow> bytes
   \<Rightarrow> (bytes \<times> model_outcome list) option" where
  "generate_model_sequence_loop [] expected active_transfer active_payload input = Some (input, expected)"
| "generate_model_sequence_loop (action # actions) expected active_transfer active_payload input =
     (case action of
        SendSingleFrame h payload \<Rightarrow> do {
          h \<leftarrow> avoid_active active_transfer h;
          let expected = expected @ [Success (Some payload)];
          bs \<leftarrow> om_to_bytes multiframe_MAX_FRAME_SIZE (outgoing_message_new h (Some payload));
          generate_model_sequence_loop actions expected active_transfer active_payload (input @ bs) }
      | BeginMultiFrameMessage h payload \<Rightarrow>
          if active_transfer \<noteq> None
          then generate_model_sequence_loop actions expected active_transfer active_payload input
          else do {
            let frames = om_frames (outgoing_message_new h (Some payload));
            let active_payload = payload;
            let expected = expected @ [Success None];
            (frame, more_frames) \<leftarrow> frame_iter_next_owned multiframe_MAX_FRAME_SIZE frames;
            bs \<leftarrow> frame_to_bytes frame;
            more_frames \<leftarrow> more_frames;
            generate_model_sequence_loop actions expected (Some more_frames) active_payload (input @ bs) }
      | Continue \<Rightarrow>
          (case active_transfer of
             Some frames \<Rightarrow> do {
               (frame, more_frames) \<leftarrow> frame_iter_next_owned multiframe_MAX_FRAME_SIZE frames;
               let expected = expected @ [Success (if more_frames \<noteq> None then None else Some active_payload)];
               bs \<leftarrow> frame_to_bytes frame;
               generate_model_sequence_loop actions expected more_frames active_payload (input @ bs) }
           | None \<Rightarrow> generate_model_sequence_loop actions expected active_transfer active_payload input)
      | SendConflictingMultiFrameMessage ch i payload \<Rightarrow> do {
          let h = header_new Request ch i;
          if active_transfer \<noteq> None
          then do {
            h \<leftarrow> avoid_active active_transfer h;
            let msg = outgoing_message_new h (Some payload);
            (frame, _) \<leftarrow> frame_iter_next_owned multiframe_MAX_FRAME_SIZE (om_frames msg);
            bs \<leftarrow> frame_to_bytes frame;
            let expected = expected
              @ [Fatal (outgoing_message_new (header_with_err error_kind.InProgress h) None)];
            Some (input @ bs, expected) }
          else generate_model_sequence_loop actions expected active_transfer active_payload input }
      | ExceedPayloadSizeLimit h payload \<Rightarrow> do {
          let msg = outgoing_message_new h (Some payload);
          (frame, _) \<leftarrow> frame_iter_next_owned multiframe_MAX_FRAME_SIZE (om_frames msg);
          bs \<leftarrow> frame_to_bytes frame;
          let expected = expected
            @ [Fatal (outgoing_message_new (header_with_err RequestTooLarge h) None)];
          Some (input @ bs, expected) })"

definition generate_model_sequence :: "action list \<Rightarrow> (bytes \<times> model_outcome list) option" where
  "generate_model_sequence actions = generate_model_sequence_loop actions [] None [] []"

definition expect_header_from_slice :: "bytes \<Rightarrow> header option" where
  "expect_header_from_slice data =
     do { raw_header \<leftarrow> buf_slice 0 header_SIZE data;
          header_parse (raw_header ! 0) (raw_header ! 1) (raw_header ! 2) (raw_header ! 3) }"

text \<open>The loop of the check. It would not end if the receiver waited for more input.\<close>

partial_function (option) check_model_sequence_loop ::
  "multiframe_receiver \<Rightarrow> bytes \<Rightarrow> model_outcome list \<Rightarrow> model_outcome list option" where
  "check_model_sequence_loop receiver input actual =
     (if input = [] then Some actual
      else do {
        h \<leftarrow> expect_header_from_slice input;
        (outcome, receiver, input) \<leftarrow> accept receiver h input multiframe_MAX_FRAME_SIZE
          multiframe_MAX_PAYLOAD_SIZE RequestTooLarge;
        let actual = actual @ [outcome_map into_completed_payload outcome];
        case outcome of
          Fatal _ \<Rightarrow> Some actual
        | _ \<Rightarrow> check_model_sequence_loop receiver input actual })"

definition check_model_sequence :: "bytes \<Rightarrow> model_outcome list \<Rightarrow> unit option" where
  "check_model_sequence input expected =
     do { actual \<leftarrow> check_model_sequence_loop Ready input [];
          rust_assert (actual = expected) }"

definition model_sequence_test_multi_frame_receiver :: "action list \<Rightarrow> unit option" where
  "model_sequence_test_multi_frame_receiver actions =
     do { (input, expected) \<leftarrow> generate_model_sequence actions;
          check_model_sequence input expected }"

definition gen_payload :: "nat \<Rightarrow> bytes" where
  "gen_payload n = map (\<lambda>i. of_nat (i mod 256)) [0 ..< n]"

text \<open>The frames of one message, one after the other.\<close>

fun frame_by_frame ::
  "header \<Rightarrow> bytes \<Rightarrow> outgoing_frame list \<Rightarrow> multiframe_receiver \<Rightarrow> bytes \<Rightarrow> nat \<Rightarrow> unit option" where
  "frame_by_frame h payload [] receiver buffer frames_left = Some ()"
| "frame_by_frame h payload (frame # frames) receiver buffer frames_left =
     do { rust_assert (0 < frames_left);
          let frames_left = frames_left - 1;
          bs \<leftarrow> frame_to_bytes frame;
          (outcome, receiver, buffer) \<leftarrow> accept receiver h (buffer @ bs) multiframe_MAX_FRAME_SIZE
            multiframe_MAX_PAYLOAD_SIZE RequestLimitExceeded;
          (case outcome_map into_completed_payload outcome of
             Incomplete n \<Rightarrow> rust_assert (n = 4)
           | Fatal _ \<Rightarrow> None
           | Success (Some output) \<Rightarrow> do { rust_assert (frames_left = 0); rust_assert (output = payload) }
           | Success None \<Rightarrow> Some ());
          rust_assert (buffer = []);
          frame_by_frame h payload frames receiver buffer frames_left }"

definition single_message_frame_by_frame :: "header \<Rightarrow> bytes \<Rightarrow> unit option" where
  "single_message_frame_by_frame h payload =
     do { let msg = outgoing_message_new h (Some payload);
          frames_left \<leftarrow> om_num_frames multiframe_MAX_FRAME_SIZE msg;
          frames \<leftarrow> om_frame_iter multiframe_MAX_FRAME_SIZE msg;
          frame_by_frame h payload frames Ready [] frames_left }"

section \<open>Frames\<close>

lemma model_constants [simp]:
  "mfs_valid multiframe_MAX_FRAME_SIZE" "mfs_get_usize multiframe_MAX_FRAME_SIZE = 16"
  "unat multiframe_MAX_PAYLOAD_SIZE = 4096" "unat MAX_SINGLE_FRAME_PAYLOAD_SIZE = 11"
  by (simp_all add: multiframe_MAX_FRAME_SIZE_def multiframe_MAX_PAYLOAD_SIZE_def MAX_SINGLE_FRAME_PAYLOAD_SIZE_def
      mfs_valid_def mfs_get_usize_def header_SIZE_def)

lemma frame_bytes:
  assumes "length (preamble_as_ref p) = preamble_len p"
  shows "frame_to_bytes \<lparr>of_preamble = p, of_position = 0, of_segment = seg\<rparr> = Some (preamble_as_ref p @ seg)"
  using assms frame_buf.copy_to_bytes_content [of "\<lparr>of_preamble = p, of_position = 0, of_segment = seg\<rparr>"]
  by (simp add: frame_inv_def frame_content_def frame_to_bytes_def)

lemma first_frame:
  fixes h :: header
  assumes "length pl \<le> u32_max"
  defines "msg \<equiv> outgoing_message_new h (Some pl)" and "k \<equiv> 12 - length (leb128 (length pl))"
  shows "\<exists>frame. frame_iter_next_owned multiframe_MAX_FRAME_SIZE (om_frames msg) = Some (frame,
      if length pl \<le> k then None else Some \<lparr>fi_msg = msg, fi_bytes_processed = k\<rparr>)
    \<and> frame_to_bytes frame = Some (header_as_ref h @ leb128 (length pl) @ take k pl)"
  using assms(1) next_owned_first [OF model_constants(1), of msg pl]
  by (simp add: msg_def k_def outgoing_message_new_def frame_bytes wire_simps unat_of_nat_u32)

lemma later_frame:
  fixes h :: header
  assumes "length pl \<le> u32_max" and "0 < n" and "n < length pl"
  defines "msg \<equiv> outgoing_message_new h (Some pl)"
  shows "\<exists>frame. frame_iter_next_owned multiframe_MAX_FRAME_SIZE \<lparr>fi_msg = msg, fi_bytes_processed = n\<rparr> = Some (frame,
      if length pl - n \<le> 12 then None else Some \<lparr>fi_msg = msg, fi_bytes_processed = n + 12\<rparr>)
    \<and> frame_to_bytes frame = Some (header_as_ref h @ take 12 (drop n pl))"
  using assms(1-3) next_owned_later [OF model_constants(1), of msg pl n]
  by (simp add: msg_def outgoing_message_new_def frame_bytes wire_simps)

text \<open>One frame of the check.\<close>

lemma check_frame:
  assumes "header_valid h" and "receiver_inv r"
    and "accept_spec multiframe_MAX_FRAME_SIZE multiframe_MAX_PAYLOAD_SIZE RequestTooLarge r h (header_as_ref h @ body) = (oc, r', b)"
  shows "check_model_sequence_loop r (header_as_ref h @ body) actual = (case oc of
      Fatal e \<Rightarrow> Some (actual @ [Fatal e])
    | _ \<Rightarrow> check_model_sequence_loop r' b (actual @ [outcome_map into_completed_payload oc]))"
proof -
  have "expect_header_from_slice (header_as_ref h @ body) = Some h"
    using assms(1) by (simp add: expect_header_from_slice_def buf_slice_def header_SIZE_def header_as_ref_def header_valid_def)
  moreover have "accept r h (header_as_ref h @ body) multiframe_MAX_FRAME_SIZE multiframe_MAX_PAYLOAD_SIZE RequestTooLarge
      = Some (oc, r', b)"
    using accept_accept_spec [OF model_constants(1) assms(2), of "header_as_ref h @ body" h] assms(3) by simp
  ultimately show ?thesis
    by (subst check_model_sequence_loop.simps) (simp add: outcome_map_def Let_def header_as_ref_def split: outcome.split)
qed

section \<open>Actions\<close>

text \<open>
  Which lists of actions the model describes correctly. The transfer in progress is followed by its header and the number of
  bytes that are still to come; the actions end with the first refusal. The model is wrong about a message
  above the limit that has the header of the transfer in progress.
\<close>

fun clash_free :: "(header \<times> nat) option \<Rightarrow> action list \<Rightarrow> bool" where
  "clash_free transfer [] \<longleftrightarrow> True"
| "clash_free transfer (SendSingleFrame h payload # actions) \<longleftrightarrow> clash_free transfer actions"
| "clash_free transfer (BeginMultiFrameMessage h payload # actions) \<longleftrightarrow>
     clash_free (if transfer = None then Some (h, length payload - (12 - length (leb128 (length payload)))) else transfer) actions"
| "clash_free transfer (Continue # actions) \<longleftrightarrow>
     clash_free (case transfer of Some (h, left) \<Rightarrow> if left \<le> 12 then None else Some (h, left - 12) | None \<Rightarrow> None) actions"
| "clash_free transfer (SendConflictingMultiFrameMessage ch i payload # actions) \<longleftrightarrow>
     (if transfer = None then clash_free transfer actions else True)"
| "clash_free transfer (ExceedPayloadSizeLimit h payload # actions) \<longleftrightarrow> map_option fst transfer \<noteq> Some h"

text \<open>
  Sender and receiver in step: the receiver has the part of the payload of the active transfer that the frames
  so far carried.
\<close>

definition in_step :: "(header \<times> nat) option \<Rightarrow> frame_iter option \<Rightarrow> bytes \<Rightarrow> multiframe_receiver \<Rightarrow> bool" where
  "in_step transfer active pl r \<longleftrightarrow> (case active of
       None \<Rightarrow> r = Ready \<and> transfer = None
     | Some it \<Rightarrow> \<exists>h n. it = \<lparr>fi_msg = outgoing_message_new h (Some pl), fi_bytes_processed = n\<rparr>
         \<and> 0 < n \<and> n < length pl \<and> length pl \<le> 4096 \<and> header_valid h \<and> transfer = Some (h, length pl - n)
         \<and> r = InProgress h (take n pl) (of_nat (length pl)))"

lemma in_step_receiver: "in_step H active pl r \<Longrightarrow> receiver_inv r"
  by (auto simp: in_step_def receiver_inv_def unat_of_nat_u32 split: option.splits)

lemma in_step_header:
  "in_step transfer active pl r \<Longrightarrow> in_progress_header r = map_option (om_header \<circ> fi_msg) active"
  "in_step transfer active pl r \<Longrightarrow> in_progress_header r = map_option fst transfer"
  by (auto simp: in_step_def outgoing_message_new_def split: option.splits)

lemma twiddle_header_differs:
  assumes "header_valid h"
  obtains h' where "twiddle_header h = Some h'" and "header_valid h'" and "h' \<noteq> h"
proof -
  have next_id: "Id (id_get i + 1) \<noteq> i" for i
    by (cases i) simp
  from assms consider (frame) k c i where "h = header_new k c i" | (err) e c i where "h = header_new_error e c i"
    by (auto simp: header_valid_iff)
  then show thesis
  proof cases
    case frame
    show thesis
    proof (rule that [of "header_new k c (Id (id_get i + 1))"])
      show "header_new k c (Id (id_get i + 1)) \<noteq> h"
        unfolding frame by (metis header_new_access(2) next_id)
    qed (simp_all add: frame twiddle_header_def)
  next
    case err
    show thesis
    proof (rule that [of "header_new_error e c (Id (id_get i + 1))"])
      show "header_new_error e c (Id (id_get i + 1)) \<noteq> h"
        unfolding err by (metis header_new_error_access(2) next_id)
    qed (simp_all add: err twiddle_header_def)
  qed
qed

lemma avoids_active:
  assumes "header_valid h" and "in_step H active pl r"
  obtains h' where "avoid_active active h = Some h'" and "header_valid h'" and "in_progress_header r \<noteq> Some h'"
proof (cases "in_progress_header r = Some h")
  case True
  then obtain it where it: "active = Some it" "om_header (fi_msg it) = h"
    using in_step_header(1) [OF assms(2)] by auto
  obtain h' where "twiddle_header h = Some h'" "header_valid h'" "h' \<noteq> h"
    by (rule twiddle_header_differs [OF assms(1)])
  then show thesis
    using that [of h'] it True by (simp add: avoid_active_def)
next
  case False
  then show thesis
    using in_step_header(1) [OF assms(2)] that [of h] assms(1)
    by (cases active) (simp_all add: avoid_active_def)
qed

lemma single_frame_read:
  assumes "header_valid h" and "receiver_inv r" and "in_progress_header r \<noteq> Some h" and "length payload \<le> 11"
  shows "om_to_bytes multiframe_MAX_FRAME_SIZE (outgoing_message_new h (Some payload))
      = Some (header_as_ref h @ leb128 (length payload) @ payload)"
    and "check_model_sequence_loop r (header_as_ref h @ leb128 (length payload) @ payload @ rest) actual
      = check_model_sequence_loop r rest (actual @ [Success (Some payload)])"
proof -
  have one: "length (leb128 (length payload)) = 1"
    using assms(4) by (simp add: leb128.simps [of "length payload"])
  have "wire_frames multiframe_MAX_FRAME_SIZE (outgoing_message_new h (Some payload))
      = [header_as_ref h @ leb128 (length payload) @ payload]"
    using one assms(4) by (simp add: wire_frames_def outgoing_message_new_def message_stream_def header_SIZE_def split_chunks_short)
  then show "om_to_bytes multiframe_MAX_FRAME_SIZE (outgoing_message_new h (Some payload))
      = Some (header_as_ref h @ leb128 (length payload) @ payload)"
    using byte_iter_buf.copy_to_bytes_content [OF om_iter_bytes_inv(1) [OF model_constants(1)], of "outgoing_message_new h (Some payload)"]
      om_iter_bytes_inv(2) [OF model_constants(1), of "outgoing_message_new h (Some payload)"] assms(4)
    by (simp add: om_to_bytes_def payload_fits_def outgoing_message_new_def)
  show "check_model_sequence_loop r (header_as_ref h @ leb128 (length payload) @ payload @ rest) actual
      = check_model_sequence_loop r rest (actual @ [Success (Some payload)])"
    using check_frame [OF assms(1,2) accept_spec_single_frame [OF model_constants(1) _ assms(3)], of payload rest] one assms(4)
    by (simp add: outcome_map_def)
qed

lemma transfer_begins:
  assumes "header_valid h" and "12 \<le> length pl" and "length pl \<le> 4096"
  defines "k \<equiv> 12 - length (leb128 (length pl))"
  shows "0 < k" and "k < length pl"
    and "check_model_sequence_loop Ready (header_as_ref h @ leb128 (length pl) @ take k pl @ rest) actual
      = check_model_sequence_loop (InProgress h (take k pl) (of_nat (length pl))) rest (actual @ [Success None])"
proof -
  have "length (leb128 (length pl)) \<le> 5" "0 < length (leb128 (length pl))"
    using length_leb128_bounds [of "length pl"] assms(3) by simp_all
  then show k: "0 < k" "k < length pl"
    using assms(2) unfolding k_def by linarith+
  show "check_model_sequence_loop Ready (header_as_ref h @ leb128 (length pl) @ take k pl @ rest) actual
      = check_model_sequence_loop (InProgress h (take k pl) (of_nat (length pl))) rest (actual @ [Success None])"
    using check_frame [OF assms(1) _ accept_spec_first_frame [OF model_constants(1)], of pl rest] k(2) assms(3)
    by (simp add: receiver_inv_def outcome_map_def k_def)
qed

lemma transfer_continues:
  assumes "header_valid h" and "0 < n" and "n < length pl" and "length pl \<le> 4096"
  shows "check_model_sequence_loop (InProgress h (take n pl) (of_nat (length pl))) (header_as_ref h @ take 12 (drop n pl) @ rest) actual
    = (if length pl - n \<le> 12 then check_model_sequence_loop Ready rest (actual @ [Success (Some pl)])
       else check_model_sequence_loop (InProgress h (take (n + 12) pl) (of_nat (length pl))) rest (actual @ [Success None]))"
proof -
  have size: "unat (of_nat (length pl) :: u32) = length pl"
    using assms(4) by (simp add: unat_of_nat_u32)
  have "take n pl @ take 12 (drop n pl) = take (n + 12) pl"
    by (simp add: take_add)
  then have "accept_spec multiframe_MAX_FRAME_SIZE multiframe_MAX_PAYLOAD_SIZE RequestTooLarge
      (InProgress h (take n pl) (of_nat (length pl))) h (header_as_ref h @ take 12 (drop n pl) @ rest) =
      (if length pl - n \<le> 12 then (Success (CompletedMultiFrame pl), Ready, rest)
       else (Success IntermediateMultiFrame, InProgress h (take (n + 12) pl) (of_nat (length pl)), rest))"
    using accept_spec_later_frame [of "take n pl" "of_nat (length pl)" "take 12 (drop n pl)" multiframe_MAX_FRAME_SIZE] assms(3)
    by (simp add: size min_def le_diff_conv add.commute)
  moreover have "receiver_inv (InProgress h (take n pl) (of_nat (length pl)))"
    using assms(1,3) by (simp add: receiver_inv_def size)
  ultimately show ?thesis
    using check_frame [OF assms(1), of "InProgress h (take n pl) (of_nat (length pl))" "take 12 (drop n pl) @ rest"]
    by (cases "length pl - n \<le> 12") (simp_all add: outcome_map_def)
qed

lemma conflict_refused:
  assumes "header_valid h" and "receiver_inv r" and "r \<noteq> Ready" and "in_progress_header r \<noteq> Some h"
    and "12 \<le> length pl" and "length pl \<le> 4096"
  shows "check_model_sequence_loop r (header_as_ref h @ leb128 (length pl) @ take (12 - length (leb128 (length pl))) pl) actual
    = Some (actual @ [Fatal (outgoing_message_new (header_with_err error_kind.InProgress h) None)])"
proof -
  let ?k = "12 - length (leb128 (length pl))"
  note k = transfer_begins(2) [OF assms(1,5,6)]
  have "start_spec multiframe_MAX_FRAME_SIZE multiframe_MAX_PAYLOAD_SIZE RequestTooLarge h (header_as_ref h @ leb128 (length pl) @ take ?k pl)
      = Success \<lparr>ifd_preamble_len = 4 + length (leb128 (length pl)), ifd_segment_len = ?k, ifd_payload_size = of_nat (length pl)\<rparr>"
    using start_spec_message [OF model_constants(1), of pl multiframe_MAX_PAYLOAD_SIZE RequestTooLarge h "[]"] assms(6) k by simp
  moreover have "unat (of_nat (length pl) :: u32) = length pl"
    using assms(6) by (simp add: unat_of_nat_u32)
  ultimately have "accept_spec multiframe_MAX_FRAME_SIZE multiframe_MAX_PAYLOAD_SIZE RequestTooLarge r h
      (header_as_ref h @ leb128 (length pl) @ take ?k pl)
    = (Fatal (outgoing_message_new (header_with_err error_kind.InProgress h) None), r, header_as_ref h @ leb128 (length pl) @ take ?k pl)"
    using accept_spec_start(3) [OF assms(4)] assms(3) k by (simp add: err_msg_def)
  from check_frame [OF assms(1,2) this] show ?thesis
    by simp
qed

lemma excess_refused:
  assumes "header_valid h" and "receiver_inv r" and "in_progress_header r \<noteq> Some h"
    and "4096 < length pl" and "length pl \<le> u32_max"
  shows "check_model_sequence_loop r (header_as_ref h @ leb128 (length pl) @ rest) actual
    = Some (actual @ [Fatal (outgoing_message_new (header_with_err RequestTooLarge h) None)])"
proof -
  have "multiframe_MAX_PAYLOAD_SIZE < (of_nat (length pl) :: u32)"
    using assms(4,5) by (simp add: word_less_nat_alt unat_of_nat_u32)
  then have "start_spec multiframe_MAX_FRAME_SIZE multiframe_MAX_PAYLOAD_SIZE RequestTooLarge h (header_as_ref h @ leb128 (length pl) @ rest)
      = Fatal (outgoing_message_new (header_with_err RequestTooLarge h) None)"
    using decode_varint32_leb128 [of "length pl" rest] assms(5) by (simp add: start_spec_def err_msg_def)
  from check_frame [OF assms(1,2) accept_spec_start(2) [OF assms(3) this]] show ?thesis
    by simp
qed

text \<open>
  The remaining actions put bytes into the input and announce outcomes; the receiver reads exactly these
  outcomes from the bytes if, and only if, the actions are \<open>good\<close>.
\<close>

definition agrees :: "bool \<Rightarrow> action list \<Rightarrow> frame_iter option \<Rightarrow> bytes \<Rightarrow> multiframe_receiver \<Rightarrow> bool" where
  "agrees good actions active pl r \<longleftrightarrow> (\<forall>expected input. \<exists>i e.
     generate_model_sequence_loop actions expected active pl input = Some (input @ i, expected @ e)
     \<and> (\<forall>actual. check_model_sequence_loop r i actual = Some (actual @ e) \<longleftrightarrow> good))"

lemma agrees_frame:
  assumes "agrees good actions active pl r'"
    and "\<And>rest actual. check_model_sequence_loop r (bs @ rest) actual = check_model_sequence_loop r' rest (actual @ e0)"
  shows "\<exists>i e. generate_model_sequence_loop actions (expected @ e0) active pl (input @ bs) = Some (input @ i, expected @ e)
    \<and> (\<forall>actual. check_model_sequence_loop r i actual = Some (actual @ e) \<longleftrightarrow> good)"
proof -
  obtain i e where "generate_model_sequence_loop actions (expected @ e0) active pl (input @ bs)
      = Some ((input @ bs) @ i, (expected @ e0) @ e)"
    and check: "check_model_sequence_loop r' i (actual @ e0) = Some ((actual @ e0) @ e) \<longleftrightarrow> good" for actual
    using assms(1) unfolding agrees_def by blast
  then show ?thesis
    using assms(2) check by (intro exI [of _ "bs @ i"] exI [of _ "e0 @ e"]) simp
qed

lemma agrees_single:
  assumes "in_step transfer active pl r" and "agrees good actions active pl r" and "header_valid h" and "length payload \<le> 11"
  shows "agrees good (SendSingleFrame h payload # actions) active pl r"
proof -
  obtain h' where h': "avoid_active active h = Some h'" "header_valid h'" "in_progress_header r \<noteq> Some h'"
    by (rule avoids_active [OF assms(3,1)])
  note read = single_frame_read [OF h'(2) in_step_receiver [OF assms(1)] h'(3) assms(4)]
  show ?thesis
    using agrees_frame [OF assms(2), of r "header_as_ref h' @ leb128 (length payload) @ payload" "[Success (Some payload)]"]
      read(2) h'(1) by (simp add: read(1) agrees_def)
qed

lemma agrees_begin:
  assumes "header_valid h" and "12 \<le> length payload" and "length payload \<le> 4096"
    and "\<And>transfer active pl r. in_step transfer active pl r \<Longrightarrow> agrees (clash_free transfer actions) actions active pl r"
  shows "agrees (clash_free None (BeginMultiFrameMessage h payload # actions)) (BeginMultiFrameMessage h payload # actions) None pl Ready"
proof -
  let ?k = "12 - length (leb128 (length payload))"
  let ?it = "\<lparr>fi_msg = outgoing_message_new h (Some payload), fi_bytes_processed = ?k\<rparr>"
  note begun = transfer_begins [OF assms(1-3)]
  have fits: "length payload \<le> u32_max"
    using assms(3) by simp
  obtain frame where frame: "frame_iter_next_owned multiframe_MAX_FRAME_SIZE (om_frames (outgoing_message_new h (Some payload)))
      = Some (frame, Some ?it)"
    "frame_to_bytes frame = Some (header_as_ref h @ leb128 (length payload) @ take ?k payload)"
    using first_frame [OF fits, of h] begun(2) by auto
  have "in_step (Some (h, length payload - ?k)) (Some ?it) payload (InProgress h (take ?k payload) (of_nat (length payload)))"
    using assms(1-3) begun(1,2) by (simp add: in_step_def)
  from agrees_frame [OF assms(4) [OF this], of Ready "header_as_ref h @ leb128 (length payload) @ take ?k payload" "[Success None]"]
  show ?thesis
    using frame begun(3) by (simp add: agrees_def)
qed

lemma agrees_continue:
  assumes "in_step transfer (Some it) pl r"
    and "\<And>transfer active pl r. in_step transfer active pl r \<Longrightarrow> agrees (clash_free transfer actions) actions active pl r"
  shows "agrees (clash_free transfer (Continue # actions)) (Continue # actions) (Some it) pl r"
proof -
  obtain h n where it: "it = \<lparr>fi_msg = outgoing_message_new h (Some pl), fi_bytes_processed = n\<rparr>"
    and n: "header_valid h" "0 < n" "n < length pl" "length pl \<le> 4096"
    and transfer: "transfer = Some (h, length pl - n)" and r: "r = InProgress h (take n pl) (of_nat (length pl))"
    using assms(1) by (auto simp: in_step_def)
  let ?next = "if length pl - n \<le> 12 then None
    else Some \<lparr>fi_msg = outgoing_message_new h (Some pl), fi_bytes_processed = n + 12\<rparr>"
  let ?r = "if length pl - n \<le> 12 then Ready else InProgress h (take (n + 12) pl) (of_nat (length pl))"
  have fits: "length pl \<le> u32_max"
    using n(4) by simp
  obtain frame where frame: "frame_iter_next_owned multiframe_MAX_FRAME_SIZE it = Some (frame, ?next)"
    "frame_to_bytes frame = Some (header_as_ref h @ take 12 (drop n pl))"
    using later_frame [OF fits n(2,3), of h] by (auto simp: it)
  have "in_step (if length pl - n \<le> 12 then None else Some (h, length pl - n - 12)) ?next pl ?r"
    using n by (auto simp: in_step_def)
  from agrees_frame [OF assms(2) [OF this], of r "header_as_ref h @ take 12 (drop n pl)"
      "[Success (if ?next \<noteq> None then None else Some pl)]"]
  show ?thesis
    using frame transfer_continues [OF n] by (simp add: r transfer agrees_def)
qed

lemma agrees_conflict:
  assumes "in_step transfer (Some it) pl r" and "12 \<le> length payload" and "length payload \<le> 4096"
  shows "agrees True (SendConflictingMultiFrameMessage ch i payload # actions) (Some it) pl r"
proof -
  have busy: "r \<noteq> Ready"
    using assms(1) by (auto simp: in_step_def)
  have fits: "length payload \<le> u32_max"
    using assms(3) by simp
  obtain h' where h': "avoid_active (Some it) (header_new Request ch i) = Some h'" "header_valid h'" "in_progress_header r \<noteq> Some h'"
    by (rule avoids_active [OF header_new_valid assms(1)])
  note refused = conflict_refused [OF h'(2) in_step_receiver [OF assms(1)] busy h'(3) assms(2,3)]
  show ?thesis
    using first_frame [OF fits, of h'] h'(1) refused by (auto simp: agrees_def)
qed

lemma agrees_excess:
  assumes "in_step transfer active pl r" and "header_valid h" and "map_option fst transfer \<noteq> Some h"
    and "4096 < length payload" and "length payload \<le> 8194"
  shows "agrees True (ExceedPayloadSizeLimit h payload # actions) active pl r"
proof -
  have fits: "length payload \<le> u32_max"
    using assms(5) by simp
  show ?thesis
    using first_frame [OF fits, of h] assms(3) in_step_header(2) [OF assms(1)]
      excess_refused [OF assms(2) in_step_receiver [OF assms(1)] _ assms(4) fits]
    by (auto simp: agrees_def)
qed

text \<open>
  The excluded case: the message above the limit is taken for the next frame of the transfer, so that the first outcome of the
  receiver is a success where the model announces an error.
\<close>

lemma check_extends: "check_model_sequence_loop r input actual = Some outcomes \<Longrightarrow> \<exists>more. outcomes = actual @ more"
proof (induction rule: check_model_sequence_loop.raw_induct [rotated, consumes 1, case_names step])
  case (step check r input actual outcomes)
  show ?case
  proof (cases "input = []")
    case False
    then obtain h oc r' rest where read: "(case oc of
          Fatal _ \<Rightarrow> Some (actual @ [outcome_map into_completed_payload oc])
        | _ \<Rightarrow> check r' rest (actual @ [outcome_map into_completed_payload oc])) = Some outcomes"
      using step.hyps by (auto simp: bind_eq_Some_conv Let_def)
    show ?thesis
    proof (cases oc)
      case (Fatal e)
      then show ?thesis
        using read by auto
    next
      case (Success v)
      then show ?thesis
        using read step.IH [of r' rest "actual @ [outcome_map into_completed_payload oc]" outcomes] by auto
    next
      case (Incomplete n)
      then show ?thesis
        using read step.IH [of r' rest "actual @ [outcome_map into_completed_payload oc]" outcomes] by auto
    qed
  qed (use step.hyps in simp)
qed

lemma excess_taken_for_frame:
  assumes "in_step (Some (h, left)) active pl r" and "length body = 12"
  shows "check_model_sequence_loop r (header_as_ref h @ body) actual \<noteq> Some (actual @ [Fatal e])"
proof -
  obtain n where n: "header_valid h" "0 < n" "n < length pl" "length pl \<le> 4096"
    and r: "r = InProgress h (take n pl) (of_nat (length pl))"
    using assms(1) by (auto simp: in_step_def split: option.splits)
  have size: "unat (of_nat (length pl) :: u32) = length pl"
    using n(4) by (simp add: unat_of_nat_u32)
  have "\<exists>v r' b. accept_spec multiframe_MAX_FRAME_SIZE multiframe_MAX_PAYLOAD_SIZE RequestTooLarge r h (header_as_ref h @ body)
      = (Success v, r', b)"
    using assms(2) n(3) by (auto simp: r accept_spec_active continue_spec_def Let_def size)
  then obtain v r' b where "accept_spec multiframe_MAX_FRAME_SIZE multiframe_MAX_PAYLOAD_SIZE RequestTooLarge r h (header_as_ref h @ body)
      = (Success v, r', b)"
    by blast
  from check_frame [OF n(1) in_step_receiver [OF assms(1)] this]
  have step: "check_model_sequence_loop r (header_as_ref h @ body) actual
      = check_model_sequence_loop r' b (actual @ [Success (into_completed_payload v)])"
    by (simp add: outcome_map_def)
  show ?thesis
    unfolding step using check_extends [of r' b "actual @ [Success (into_completed_payload v)]"] by fastforce
qed

lemma agrees_clash:
  assumes "in_step (Some (h, left)) active pl r" and "4096 < length payload" and "length payload \<le> 8194"
  shows "agrees False (ExceedPayloadSizeLimit h payload # actions) active pl r"
proof -
  have fits: "length payload \<le> u32_max"
    using assms(3) by simp
  have "length (leb128 (length payload)) \<le> 5"
    using length_leb128_bounds [of "length payload"] fits by simp
  then have "length (leb128 (length payload) @ take (12 - length (leb128 (length payload))) payload) = 12"
    using assms(2) by simp
  from excess_taken_for_frame [OF assms(1) this] show ?thesis
    using first_frame [OF fits, of h] by (auto simp: agrees_def)
qed

lemma actions_agree:
  assumes "list_all action_strategy actions" and "in_step transfer active pl r"
  shows "agrees (clash_free transfer actions) actions active pl r"
  using assms
proof (induction actions arbitrary: transfer active pl r)
  case Nil
  then show ?case
    by (simp add: agrees_def check_model_sequence_loop.simps)
next
  case (Cons a actions)
  then have IH: "agrees (clash_free transfer actions) actions active pl r" if "in_step transfer active pl r" for transfer active pl r
    using that by simp
  have idle: "r = Ready" "transfer = None" if "active = None"
    using Cons.prems(2) that by (simp_all add: in_step_def)
  have busy: "transfer \<noteq> None" if "active \<noteq> None"
    using Cons.prems(2) that by (auto simp: in_step_def)
  show ?case
  proof (cases a)
    case (SendSingleFrame h payload)
    then show ?thesis
      using agrees_single [OF Cons.prems(2) IH [OF Cons.prems(2)]] Cons.prems(1) by simp
  next
    case (BeginMultiFrameMessage h payload)
    then show ?thesis
      using agrees_begin [of h payload actions pl] IH idle busy Cons.prems
      by (cases active; cases transfer) (simp_all add: agrees_def)
  next
    case Continue
    then show ?thesis
      using agrees_continue [of transfer _ pl r actions] IH idle Cons.prems by (cases active) (simp_all add: agrees_def)
  next
    case (SendConflictingMultiFrameMessage ch i payload)
    then show ?thesis
      using agrees_conflict [of transfer _ pl r payload ch i actions] IH idle busy Cons.prems
      by (cases active; cases transfer) (simp_all add: agrees_def)
  next
    case (ExceedPayloadSizeLimit h payload)
    then show ?thesis
      using agrees_excess [OF Cons.prems(2), of h payload actions] agrees_clash [of h _ active pl r payload actions] Cons.prems
      by (cases "map_option fst transfer = Some h") auto
  qed
qed

section \<open>One message\<close>

lemma frame_by_frame_later:
  assumes "header_valid h" and "0 < n" and "n < length pl" and "length pl \<le> 4096"
    and "frames_render fs h (map ((@) (header_as_ref h)) (split_chunks 12 (drop n pl)))"
  shows "frame_by_frame h pl fs (InProgress h (take n pl) (of_nat (length pl))) [] (length fs) = Some ()"
  using assms
proof (induction "length pl - n" arbitrary: n fs rule: less_induct)
  case less
  let ?r = "InProgress h (take n pl) (of_nat (length pl))" and ?w = "header_as_ref h @ take 12 (drop n pl)"
  have size: "unat (of_nat (length pl) :: u32) = length pl"
    using less.prems(4) by (simp add: unat_of_nat_u32)
  have accepted: "accept ?r h ?w multiframe_MAX_FRAME_SIZE multiframe_MAX_PAYLOAD_SIZE RequestLimitExceeded = Some
      (if length pl - n \<le> 12 then (Success (CompletedMultiFrame pl), Ready, [])
       else (Success IntermediateMultiFrame, InProgress h (take (n + 12) pl) (of_nat (length pl)), []))"
    using accept_accept_spec [OF model_constants(1), of ?r ?w h] less.prems(1,3)
      accept_spec_later_frame [of "take n pl" "of_nat (length pl)" "take 12 (drop n pl)" multiframe_MAX_FRAME_SIZE _ _ h "[]"]
    by (simp add: receiver_inv_def size min_def le_diff_conv add.commute take_add [symmetric])
  show ?case
  proof (cases "length pl - n \<le> 12")
    case True
    then obtain f where "fs = [f]" "frame_to_bytes f = Some ?w"
      using less.prems(5) frames_render_to_bytes [OF less.prems(5)] by (auto simp: split_chunks_short frames_render_def)
    then show ?thesis
      using accepted True by (simp add: rust_assert_def outcome_map_def)
  next
    case False
    then have "split_chunks 12 (drop n pl) = take 12 (drop n pl) # split_chunks 12 (drop (n + 12) pl)"
      using split_chunks_long [of 12 "drop n pl"] by (simp add: add.commute)
    then obtain f fs' where fs: "fs = f # fs'" "frame_to_bytes f = Some ?w"
        "frames_render fs' h (map ((@) (header_as_ref h)) (split_chunks 12 (drop (n + 12) pl)))"
      using less.prems(5) frames_render_to_bytes [OF less.prems(5)] by (cases fs) (auto simp: frames_render_def)
    then have "frame_by_frame h pl fs' (InProgress h (take (n + 12) pl) (of_nat (length pl))) [] (length fs') = Some ()"
      using less.hyps [of "n + 12" fs'] less.prems False by simp
    then show ?thesis
      using accepted False fs(1,2) by (simp add: rust_assert_def outcome_map_def)
  qed
qed

lemma frame_by_frame_read:
  assumes "header_valid h" and "length pl \<le> 4096"
  shows "single_message_frame_by_frame h pl = Some ()"
proof -
  let ?msg = "outgoing_message_new h (Some pl)" and ?k = "12 - length (leb128 (length pl))"
  let ?w = "header_as_ref h @ leb128 (length pl) @ take ?k pl"
  have fits: "length pl \<le> u32_max" "payload_fits ?msg" and limit: "length pl \<le> unat multiframe_MAX_PAYLOAD_SIZE"
    using assms(2) by (simp_all add: payload_fits_def outgoing_message_new_def)
  have leb: "length (leb128 (length pl)) \<le> 5" "0 < length (leb128 (length pl))"
    using length_leb128_bounds [of "length pl"] fits(1) by simp_all
  obtain fs where fs: "om_frame_iter multiframe_MAX_FRAME_SIZE ?msg = Some fs"
      "frames_render fs h (wire_frames multiframe_MAX_FRAME_SIZE ?msg)"
    using om_frame_iter_wire [OF model_constants(1) fits(2)] by (auto simp: outgoing_message_new_def)
  have frames: "single_message_frame_by_frame h pl = frame_by_frame h pl fs Ready [] (length fs)"
    using om_num_frames_wire [OF model_constants(1) fits(2)] fs frames_render_to_bytes [OF fs(2), THEN map_eq_imp_length_eq]
    by (simp add: single_message_frame_by_frame_def)
  have ready: "accept Ready h ?w multiframe_MAX_FRAME_SIZE multiframe_MAX_PAYLOAD_SIZE RequestLimitExceeded = Some
      (if length pl \<le> ?k then (Success (SingleFrame pl), Ready, [])
       else (Success NewMultiFrame, InProgress h (take ?k pl) (of_nat (length pl)), []))"
    using accept_accept_spec [OF model_constants(1), of Ready ?w h]
      accept_spec_single_frame [OF model_constants(1) limit, of Ready h RequestLimitExceeded "[]"]
      accept_spec_first_frame [OF model_constants(1) limit, of RequestLimitExceeded h "[]"]
    by (simp add: receiver_inv_def)
  show ?thesis
  proof (cases "length pl \<le> ?k")
    case True
    then have "wire_frames multiframe_MAX_FRAME_SIZE ?msg = [?w]"
      using leb by (simp add: wire_frames_def outgoing_message_new_def message_stream_def header_SIZE_def split_chunks_short)
    then obtain f where "fs = [f]" "frame_to_bytes f = Some ?w"
      using fs(2) frames_render_to_bytes [OF fs(2)] by (auto simp: frames_render_def)
    then show ?thesis
      using ready True by (simp add: frames rust_assert_def outcome_map_def)
  next
    case False
    then have "wire_frames multiframe_MAX_FRAME_SIZE ?msg = ?w # map ((@) (header_as_ref h)) (split_chunks 12 (drop ?k pl))"
      using leb by (simp add: wire_frames_def outgoing_message_new_def message_stream_def header_SIZE_def split_chunks_long)
    then obtain f fs' where f: "fs = f # fs'" "frame_to_bytes f = Some ?w"
        "frames_render fs' h (map ((@) (header_as_ref h)) (split_chunks 12 (drop ?k pl)))"
      using fs(2) frames_render_to_bytes [OF fs(2)] by (cases fs) (auto simp: frames_render_def)
    have "frame_by_frame h pl fs' (InProgress h (take ?k pl) (of_nat (length pl))) [] (length fs') = Some ()"
      using frame_by_frame_later [OF assms(1) _ _ assms(2) f(3)] leb False by simp
    then show ?thesis
      using ready False f(1,2) by (simp add: frames rust_assert_def outcome_map_def)
  qed
qed

section \<open>Properties\<close>

text \<open>
  C23: The model test of the receiver, for every list of actions of the test's strategies: short messages, the frames of
  long ones in between, a second long message and messages above the limit are received, without a panic and in finitely
  many steps, with exactly the outcomes that the model predicts, if and only if no message above the limit
  has the header of the transfer in progress at that moment; in that one case the model, not the receiver, is
  wrong, and the test fails. Every single message of up to 4096 bytes, received frame by frame, is read with the last frame.
\<close>

theorem model_sequence_holds:
  assumes "list_all action_strategy actions" and "header_valid h" and "length payload \<le> 4096"
  shows "(model_sequence_test_multi_frame_receiver actions = Some () \<longleftrightarrow> clash_free None actions)
    \<and> single_message_frame_by_frame h payload = Some ()"
proof -
  have "agrees (clash_free None actions) actions None [] Ready"
    by (rule actions_agree [OF assms(1)]) (simp add: in_step_def)
  then obtain i e where "generate_model_sequence_loop actions [] None [] [] = Some (i, e)"
      "check_model_sequence_loop Ready i [] = Some e \<longleftrightarrow> clash_free None actions"
    unfolding agrees_def by (metis append_Nil)
  then show ?thesis
    using frame_by_frame_read [OF assms(2,3)]
    by (auto simp: model_sequence_test_multi_frame_receiver_def generate_model_sequence_def check_model_sequence_def
        rust_assert_def bind_eq_Some_conv)
qed

theorem model_sequence_holds_witness:
  "model_sequence_test_multi_frame_receiver
     [BeginMultiFrameMessage (header_new Request (ChannelId 0) (Id 0)) (gen_payload 1361),
      SendSingleFrame (header_new_error Other (ChannelId 1) (Id 42188)) (gen_payload 10), Continue,
      SendConflictingMultiFrameMessage (ChannelId 0) (Id 1) (gen_payload 106)] = Some ()
   \<and> model_sequence_test_multi_frame_receiver
     [BeginMultiFrameMessage (header_new Request (ChannelId 0) (Id 0)) (gen_payload 30), Continue, Continue,
      ExceedPayloadSizeLimit (header_new Request (ChannelId 0) (Id 0)) (gen_payload 5000)] = Some ()
   \<and> model_sequence_test_multi_frame_receiver
     [BeginMultiFrameMessage (header_new Request (ChannelId 0) (Id 0)) (gen_payload 30), Continue,
      ExceedPayloadSizeLimit (header_new Request (ChannelId 0) (Id 0)) (gen_payload 5000)] \<noteq> Some ()
   \<and> single_message_frame_by_frame (header_new RequestPl (ChannelId 1) (Id 1)) (gen_payload 64) = Some ()"
proof -
  have leb: "length (leb128 30) = 1"
    by (simp add: leb128.simps [of 30])
  have length_gen_payload: "length (gen_payload n) = n" for n
    by (simp add: gen_payload_def)
  then have "header_valid (header_new RequestPl (ChannelId 1) (Id 1))" "length (gen_payload 64) \<le> 4096"
    by simp_all
  note holds = model_sequence_holds [OF _ this]
  show ?thesis
    using holds [of "[]"] by (simp add: holds [THEN conjunct1] length_gen_payload leb)
qed

end
