(* ===== verification/Io_Handle.thy ===== *)
theory Io_Handle
  imports Io_Core
begin

text \<open>
  The handles of \<^verbatim>\<open>src/src/io.rs\<close> through which an application talks to the \<^verbatim>\<open>IoCore\<close>, and its reader
  \<^verbatim>\<open>read_until_bytesmut\<close>. The semaphores, the sender of the channel and the transport are not part of the
  repository; \<open>acquire\<close>, \<open>send\<close> and the list of read results stand for what they do. The state shared by all
  clones of a handle (\<^verbatim>\<open>IoShared\<close> and the counter \<^verbatim>\<open>next_io_id\<close>, both behind an \<^verbatim>\<open>Arc\<close>) is passed along.
\<close>

section \<open>Definitions\<close>

record ('s, 'tx) request_handle =
  rh_buffered_requests :: "'s list"
  rh_sender :: 'tx
  rh_next_io_id :: u64

record 'tx handle =
  h_sender :: 'tx

datatype enqueue_failure =
    EnqueueClosed "bytes option"
  | BufferLimitHit "bytes option"

record 'p request_ticket =
  rt_channel :: channel_id
  rt_permit :: 'p
  rt_io_id :: io_id

datatype reservation_error = NoBufferSpaceAvailable | ReservationClosed

text \<open>\<^verbatim>\<open>tokio\<close>'s \<^verbatim>\<open>TryAcquireError\<close>.\<close>

datatype try_acquire_error = AcquireClosed | AcquireNoPermits

text \<open>The handle that \<^verbatim>\<open>IoCoreBuilder::build\<close> returns; \<open>semaphore_new n\<close> is \<^verbatim>\<open>Semaphore::new(n)\<close>.\<close>

definition io_handle_build :: "(nat \<Rightarrow> 's) \<Rightarrow> 'tx \<Rightarrow> io_core_builder \<Rightarrow> ('s, 'tx) request_handle" where
  "io_handle_build semaphore_new sender self =
     \<lparr>rh_buffered_requests = map semaphore_new (icb_buffer_size self), rh_sender = sender, rh_next_io_id = 0\<rparr>"

definition fetch_add_io_id :: "('s, 'tx) request_handle \<Rightarrow> io_id \<times> ('s, 'tx) request_handle" where
  "fetch_add_io_id self = (IoId (rh_next_io_id self), self\<lparr>rh_next_io_id := rh_next_io_id self + 1\<rparr>)"

definition try_reserve_request ::
  "('s \<Rightarrow> (try_acquire_error + 'p) \<times> 's) \<Rightarrow> channel_id \<Rightarrow> ('s, 'tx) request_handle
   \<Rightarrow> ((reservation_error + 'p request_ticket) \<times> ('s, 'tx) request_handle) option" where
  "try_reserve_request try_acquire ch self =
     do { semaphore \<leftarrow> array_get (rh_buffered_requests self) (unat (channel_get ch));
          let (acquired, semaphore) = try_acquire semaphore;
          let self = self\<lparr>rh_buffered_requests :=
            (rh_buffered_requests self)[unat (channel_get ch) := semaphore]\<rparr>;
          case acquired of
            Inr permit \<Rightarrow>
              let (ioid, self) = fetch_add_io_id self
              in Some (Inr \<lparr>rt_channel = ch, rt_permit = permit, rt_io_id = ioid\<rparr>, self)
          | Inl AcquireClosed \<Rightarrow> Some (Inl ReservationClosed, self)
          | Inl AcquireNoPermits \<Rightarrow> Some (Inl NoBufferSpaceAvailable, self) }"

text \<open>\<open>acquire\<close> is the result of the awaited \<^verbatim>\<open>acquire_owned\<close>: a permit, or the error of a closed semaphore.\<close>

definition reserve_request ::
  "('s \<Rightarrow> (unit + 'p) \<times> 's) \<Rightarrow> channel_id \<Rightarrow> ('s, 'tx) request_handle
   \<Rightarrow> ('p request_ticket option \<times> ('s, 'tx) request_handle) option" where
  "reserve_request acquire ch self =
     do { semaphore \<leftarrow> array_get (rh_buffered_requests self) (unat (channel_get ch));
          let (acquired, semaphore) = acquire semaphore;
          let self = self\<lparr>rh_buffered_requests :=
            (rh_buffered_requests self)[unat (channel_get ch) := semaphore]\<rparr>;
          case acquired of
            Inr permit \<Rightarrow>
              let (ioid, self) = fetch_add_io_id self
              in Some (Some \<lparr>rt_channel = ch, rt_permit = permit, rt_io_id = ioid\<rparr>, self)
          | Inl _ \<Rightarrow> Some (None, self) }"

definition downgrade :: "('s, 'tx) request_handle \<Rightarrow> 'tx handle" where
  "downgrade self = \<lparr>h_sender = rh_sender self\<rparr>"

text \<open>\<open>send item sender\<close> is \<^verbatim>\<open>UnboundedSender::send\<close>: on the left the item that was not sent.\<close>

type_synonym ('p, 'tx) send = "'p queued_item \<Rightarrow> 'tx \<Rightarrow> ('p queued_item + unit) \<times> 'tx"

definition enqueue_request ::
  "('p, 'tx) send \<Rightarrow> 'p request_ticket \<Rightarrow> bytes option \<Rightarrow> 'tx handle
   \<Rightarrow> (bytes option + io_id) \<times> 'tx handle" where
  "enqueue_request send ticket payload self =
     (case send (ItemRequest (rt_channel ticket) (rt_io_id ticket) payload (rt_permit ticket)) (h_sender self) of
        (Inr _, sender) \<Rightarrow> (Inr (rt_io_id ticket), self\<lparr>h_sender := sender\<rparr>)
      | (Inl item, sender) \<Rightarrow> (Inl (into_payload item), self\<lparr>h_sender := sender\<rparr>))"

definition enqueue_item ::
  "('p, 'tx) send \<Rightarrow> 'p queued_item \<Rightarrow> 'tx handle \<Rightarrow> (enqueue_failure + unit) \<times> 'tx handle" where
  "enqueue_item send item self =
     (case send item (h_sender self) of
        (Inr _, sender) \<Rightarrow> (Inr (), self\<lparr>h_sender := sender\<rparr>)
      | (Inl item, sender) \<Rightarrow> (Inl (EnqueueClosed (into_payload item)), self\<lparr>h_sender := sender\<rparr>))"

definition enqueue_response ::
  "('p, 'tx) send \<Rightarrow> channel_id \<Rightarrow> msg_id \<Rightarrow> bytes option \<Rightarrow> 'tx handle
   \<Rightarrow> (enqueue_failure + unit) \<times> 'tx handle" where
  "enqueue_response send ch i payload = enqueue_item send (ItemResponse ch i payload)"

definition enqueue_request_cancellation ::
  "('p, 'tx) send \<Rightarrow> io_id \<Rightarrow> 'tx handle \<Rightarrow> (enqueue_failure + unit) \<times> 'tx handle" where
  "enqueue_request_cancellation send ioid = enqueue_item send (ItemRequestCancellation ioid)"

definition enqueue_response_cancellation ::
  "('p, 'tx) send \<Rightarrow> channel_id \<Rightarrow> msg_id \<Rightarrow> 'tx handle \<Rightarrow> (enqueue_failure + unit) \<times> 'tx handle" where
  "enqueue_response_cancellation send ch i = enqueue_item send (ItemResponseCancellation ch i)"

definition enqueue_error ::
  "('p, 'tx) send \<Rightarrow> channel_id \<Rightarrow> msg_id \<Rightarrow> bytes \<Rightarrow> 'tx handle \<Rightarrow> (enqueue_failure + unit) \<times> 'tx handle" where
  "enqueue_error send ch i payload = enqueue_item send (ItemError ch i payload)"

text \<open>
  What one call of \<^verbatim>\<open>read_buf\<close> does: it appends bytes (none at the end of the stream), is interrupted, or
  fails. The result of \<^verbatim>\<open>read_until_bytesmut\<close> is \<open>None\<close> while it waits for another read.
\<close>

datatype read_result = ReadBytes bytes | ReadInterrupted | ReadError io_error

definition read_reserve :: "nat \<Rightarrow> bytes \<Rightarrow> nat" where
  "read_reserve target bs = min (target - length bs) MAX_ALLOC"

fun read_until_bytesmut ::
  "nat \<Rightarrow> read_result list \<Rightarrow> bytes \<Rightarrow> (io_error + bool) option \<times> bytes \<times> read_result list" where
  "read_until_bytesmut target reads bs =
     (if length bs < target
      then case reads of
        [] \<Rightarrow> (None, bs, [])
      | ReadBytes [] # reads \<Rightarrow> (Some (Inr False), bs, reads)
      | ReadBytes new # reads \<Rightarrow> read_until_bytesmut target reads (bs @ new)
      | ReadInterrupted # reads \<Rightarrow> read_until_bytesmut target reads bs
      | ReadError e # reads \<Rightarrow> (Some (Inl e), bs, reads)
      else (Some (Inr True), bs, reads))"

declare read_until_bytesmut.simps [simp del]

section \<open>Reading\<close>

fun read_data :: "read_result \<Rightarrow> bytes" where
  "read_data (ReadBytes bs) = bs"
| "read_data _ = []"

lemma read_until_step:
  "target \<le> length bs \<Longrightarrow> read_until_bytesmut target reads bs = (Some (Inr True), bs, reads)"
  "length bs < target \<Longrightarrow> read_until_bytesmut target [] bs = (None, bs, [])"
  "length bs < target \<Longrightarrow> read_until_bytesmut target (r # reads) bs = (case r of
     ReadBytes new \<Rightarrow> if new = [] then (Some (Inr False), bs, reads) else read_until_bytesmut target reads (bs @ new)
   | ReadInterrupted \<Rightarrow> read_until_bytesmut target reads bs
   | ReadError e \<Rightarrow> (Some (Inl e), bs, reads))"
  by (subst read_until_bytesmut.simps; simp split: read_result.split list.split)+

lemma read_until_cases:
  assumes "read_until_bytesmut target reads bs = (res, bs', rest)"
  shows "\<exists>used. reads = used @ rest \<and> bs' = bs @ concat (map read_data used)
    \<and> (case res of
         None \<Rightarrow> rest = [] \<and> length bs' < target
       | Some (Inr True) \<Rightarrow> target \<le> length bs'
       | Some (Inr False) \<Rightarrow> length bs' < target \<and> used \<noteq> [] \<and> last used = ReadBytes []
       | Some (Inl e) \<Rightarrow> length bs' < target \<and> used \<noteq> [] \<and> last used = ReadError e)
    \<and> (used \<noteq> [] \<longrightarrow> length (bs @ concat (map read_data (butlast used))) < target)"
  using assms
proof (induction reads arbitrary: bs)
  case Nil
  then show ?case
    by (cases "length bs < target") (auto simp: read_until_step not_less)
next
  case (Cons r reads)
  show ?case
  proof (cases "length bs < target")
    case False
    then show ?thesis
      using Cons.prems by (auto simp: read_until_step not_less)
  next
    case less: True
    have next_read: ?thesis if step: "read_until_bytesmut target reads (bs @ read_data r) = (res, bs', rest)"
    proof -
      obtain used where used: "reads = used @ rest" "bs' = (bs @ read_data r) @ concat (map read_data used)"
        "case res of
           None \<Rightarrow> rest = [] \<and> length bs' < target
         | Some (Inr True) \<Rightarrow> target \<le> length bs'
         | Some (Inr False) \<Rightarrow> length bs' < target \<and> used \<noteq> [] \<and> last used = ReadBytes []
         | Some (Inl e) \<Rightarrow> length bs' < target \<and> used \<noteq> [] \<and> last used = ReadError e"
        "used \<noteq> [] \<longrightarrow> length ((bs @ read_data r) @ concat (map read_data (butlast used))) < target"
        using Cons.IH [OF step] by blast
      have "case res of
           None \<Rightarrow> rest = [] \<and> length bs' < target
         | Some (Inr True) \<Rightarrow> target \<le> length bs'
         | Some (Inr False) \<Rightarrow> length bs' < target \<and> r # used \<noteq> [] \<and> last (r # used) = ReadBytes []
         | Some (Inl e) \<Rightarrow> length bs' < target \<and> r # used \<noteq> [] \<and> last (r # used) = ReadError e"
        using used(3) by (auto split: option.splits sum.splits bool.splits)
      then show ?thesis
        using used(1,2,4) less by (intro exI [of _ "r # used"]) auto
    qed
    show ?thesis
    proof (cases r)
      case (ReadBytes new)
      then show ?thesis
        using Cons.prems less next_read by (cases "new = []") (auto simp: read_until_step intro!: exI [of _ "[r]"])
    next
      case ReadInterrupted
      then show ?thesis
        using Cons.prems less next_read by (simp add: read_until_step)
    next
      case (ReadError e)
      then show ?thesis
        using Cons.prems less by (auto simp: read_until_step intro!: exI [of _ "[r]"])
    qed
  qed
qed

text \<open>
  C36: \<^verbatim>\<open>read_until_bytesmut\<close> appends to the buffer exactly the bytes it reads, in order. It returns \<^verbatim>\<open>true\<close> with at
  least \<^verbatim>\<open>target\<close> bytes, \<^verbatim>\<open>false\<close> with fewer and at the end of the stream, and any error other than an
  interruption; it performs no read once the target is reached. It is cancellation safe: dropped while
  waiting and called again, it behaves as if it had not been interrupted.
\<close>

theorem read_until_bytesmut_spec:
  assumes "read_until_bytesmut target reads bs = (res, bs', rest)"
  shows "(\<exists>used. reads = used @ rest \<and> bs' = bs @ concat (map read_data used)
      \<and> (case res of
           None \<Rightarrow> rest = [] \<and> length bs' < target
         | Some (Inr True) \<Rightarrow> target \<le> length bs'
         | Some (Inr False) \<Rightarrow> length bs' < target \<and> used \<noteq> [] \<and> last used = ReadBytes []
         | Some (Inl e) \<Rightarrow> length bs' < target \<and> used \<noteq> [] \<and> last used = ReadError e)
      \<and> (used \<noteq> [] \<longrightarrow> length (bs @ concat (map read_data (butlast used))) < target))
    \<and> (res = None \<longrightarrow> read_until_bytesmut target (reads @ later) bs = read_until_bytesmut target later bs')"
proof (intro conjI impI)
  show "res = None \<Longrightarrow> read_until_bytesmut target (reads @ later) bs = read_until_bytesmut target later bs'"
    using assms
  proof (induction reads arbitrary: bs)
    case Nil
    then show ?case
      by (cases "length bs < target") (auto simp: read_until_step not_less)
  next
    case (Cons r reads)
    then have "length bs < target"
      by (cases "length bs < target") (auto simp: read_until_step not_less)
    then show ?case
      using Cons by (cases r) (auto simp: read_until_step split: if_splits)
  qed
qed (rule read_until_cases [OF assms])

theorem read_until_bytesmut_spec_witness:
  "read_until_bytesmut 3 ([ReadBytes [1], ReadInterrupted] @ [ReadBytes [2, 3, 4]]) []
     = read_until_bytesmut 3 [ReadBytes [2, 3, 4]] [1]
   \<and> read_until_bytesmut 3 [ReadBytes [2, 3, 4]] [1] = (Some (Inr True), [1, 2, 3, 4], [])"
proof -
  have "read_until_bytesmut 3 [ReadBytes [1], ReadInterrupted] [] = (None, [1], [])"
    by (simp add: read_until_step)
  from read_until_bytesmut_spec [OF this, of "[ReadBytes [2, 3, 4]]"] show ?thesis
    by (simp add: read_until_step)
qed

section \<open>Tickets\<close>

text \<open>A sequence of reservations on one handle, or on its clones.\<close>

fun reserve_all ::
  "('s \<Rightarrow> (try_acquire_error + 'p) \<times> 's) \<Rightarrow> channel_id list \<Rightarrow> ('s, 'tx) request_handle
   \<Rightarrow> ('p request_ticket list \<times> ('s, 'tx) request_handle) option" where
  "reserve_all try_acquire [] self = Some ([], self)"
| "reserve_all try_acquire (ch # chs) self =
     do { (reserved, self) \<leftarrow> try_reserve_request try_acquire ch self;
          (tickets, self) \<leftarrow> reserve_all try_acquire chs self;
          Some (case reserved of Inr ticket \<Rightarrow> ticket # tickets | Inl _ \<Rightarrow> tickets, self) }"

lemma try_reserve_cases:
  assumes "unat (channel_get ch) < length (rh_buffered_requests self)"
  obtains (reserved) permit semaphores where "try_reserve_request try_acquire ch self =
      Some (Inr \<lparr>rt_channel = ch, rt_permit = permit, rt_io_id = IoId (rh_next_io_id self)\<rparr>,
        self\<lparr>rh_buffered_requests := semaphores, rh_next_io_id := rh_next_io_id self + 1\<rparr>)"
      "length semaphores = length (rh_buffered_requests self)"
  | (refused) e semaphores where "try_reserve_request try_acquire ch self =
      Some (Inl e, self\<lparr>rh_buffered_requests := semaphores\<rparr>)"
      "length semaphores = length (rh_buffered_requests self)"
proof -
  obtain acquired semaphore where acquired: "try_acquire (rh_buffered_requests self ! unat (channel_get ch)) = (acquired, semaphore)"
    by (cases "try_acquire (rh_buffered_requests self ! unat (channel_get ch))")
  let ?semaphores = "(rh_buffered_requests self)[unat (channel_get ch) := semaphore]"
  show ?thesis
  proof (cases acquired)
    case (Inr permit)
    then show ?thesis
      using assms acquired that(1) [of permit ?semaphores]
      by (simp add: try_reserve_request_def fetch_add_io_id_def)
  next
    case (Inl e)
    then show ?thesis
      using assms acquired that(2) [of _ ?semaphores]
      by (cases e) (simp_all add: try_reserve_request_def)
  qed
qed

lemma reserve_all_ids:
  assumes "\<forall>ch \<in> set chs. unat (channel_get ch) < length (rh_buffered_requests self)"
  shows "\<exists>tickets self'. reserve_all try_acquire chs self = Some (tickets, self')
    \<and> length tickets \<le> length chs \<and> (\<forall>t \<in> set tickets. rt_channel t \<in> set chs)
    \<and> map rt_io_id tickets = map (\<lambda>k. IoId (rh_next_io_id self + of_nat k)) [0..<length tickets]"
  using assms
proof (induction chs arbitrary: self)
  case Nil
  then show ?case
    by simp
next
  case (Cons ch chs)
  have ch: "unat (channel_get ch) < length (rh_buffered_requests self)"
    using Cons.prems by simp
  from ch show ?case
  proof (cases rule: try_reserve_cases [where try_acquire = try_acquire])
    case (reserved permit semaphores)
    let ?self = "self\<lparr>rh_buffered_requests := semaphores, rh_next_io_id := rh_next_io_id self + 1\<rparr>"
    obtain tickets self' where rest: "reserve_all try_acquire chs ?self = Some (tickets, self')"
        "length tickets \<le> length chs" "(\<forall>t \<in> set tickets. rt_channel t \<in> set chs)"
        "map rt_io_id tickets = map (\<lambda>k. IoId (rh_next_io_id self + 1 + of_nat k)) [0..<length tickets]"
      using Cons.IH [of ?self] Cons.prems reserved(2) by auto
    have "map (\<lambda>k. IoId (rh_next_io_id self + of_nat k)) [0..<Suc (length tickets)]
        = IoId (rh_next_io_id self) # map (\<lambda>k. IoId (rh_next_io_id self + 1 + of_nat k)) [0..<length tickets]"
      by (simp add: upt_conv_Cons map_Suc_upt [symmetric] comp_def algebra_simps del: upt_Suc)
    then show ?thesis
      using reserved(1) rest by auto
  next
    case (refused e semaphores)
    then show ?thesis
      using Cons.IH [of "self\<lparr>rh_buffered_requests := semaphores\<rparr>"] Cons.prems by auto
  qed
qed

lemma of_nat_inj_u64: "inj_on (\<lambda>k. IoId (a + of_nat k)) {0..<2 ^ 64}"
proof (rule inj_onI)
  fix x y :: nat
  assume "x \<in> {0..<2 ^ 64}" "y \<in> {0..<2 ^ 64}" "IoId (a + of_nat x) = IoId (a + of_nat y)"
  then have "unat (of_nat x :: u64) = unat (of_nat y :: u64)"
    by simp
  then show "x = y"
    using \<open>x \<in> _\<close> \<open>y \<in> _\<close> by (simp add: unat_of_nat take_bit_nat_eq_self)
qed

lemma reserve_all_distinct:
  assumes "map rt_io_id tickets = map (\<lambda>k. IoId (a + of_nat k)) [0..<length tickets]" and "length tickets \<le> 2 ^ 64"
  shows "distinct (map rt_io_id tickets)"
  unfolding assms(1) using assms(2)
  by (auto simp: distinct_map intro!: inj_on_subset [OF of_nat_inj_u64])

end
