(* ===== verification/Rpc_Guard.thy ===== *)
theory Rpc_Guard
  imports Io_Core
begin

text \<open>
  Request guards of \<^verbatim>\<open>src/src/rpc.rs\<close>: where the outcome of an outgoing request is stored, and how the
  application waits for it. A \<^verbatim>\<open>RequestGuardInner\<close> is shared, through an \<^verbatim>\<open>Arc\<close>, by the application's
  \<^verbatim>\<open>RequestGuard\<close> and the server, so guards live in a list and a reference is a position in it.

  \<^verbatim>\<open>OnceCell\<close> and \<^verbatim>\<open>Notify\<close> are not part of the repository: their operations are the record \<open>sync_ops\<close>, their
  documented behaviour the locale \<open>once_notify\<close>.
\<close>

section \<open>Cells and notifications\<close>

record ('v, 'c, 'n) sync_ops =
  cell_new :: 'c
  cell_get :: "'c \<Rightarrow> 'v option"
  cell_set :: "'v \<Rightarrow> 'c \<Rightarrow> ('v + unit) \<times> 'c"
  notify_new :: 'n
  notify_one :: "'n \<Rightarrow> 'n"
  notified :: "'n \<Rightarrow> 'n option"

text \<open>
  A cell is written once, \<^verbatim>\<open>set\<close> returns the value it could not store. \<^verbatim>\<open>notified\<close> waits (\<open>None\<close>) until there
  is a permit and consumes it; \<^verbatim>\<open>notify_one\<close> leaves one permit, never more.
\<close>

locale once_notify =
  fixes sync :: "('v, 'c, 'n) sync_ops"
  assumes get_new: "cell_get sync (cell_new sync) = None"
    and set_result: "fst (cell_set sync v c) = (if cell_get sync c = None then Inr () else Inl v)"
    and get_set: "cell_get sync (snd (cell_set sync v c)) =
          (case cell_get sync c of None \<Rightarrow> Some v | Some w \<Rightarrow> Some w)"
    and notified_new: "notified sync (notify_new sync) = None"
    and notified_one: "notified sync (notify_one sync n) \<noteq> None"
    and notified_once: "notified sync n = Some n' \<Longrightarrow> notified sync n' = None"

definition plain_sync :: "('v, 'v option, bool) sync_ops" where
  "plain_sync =
     \<lparr>cell_new = None, cell_get = (\<lambda>c. c),
      cell_set = (\<lambda>v c. case c of None \<Rightarrow> (Inr (), Some v) | Some _ \<Rightarrow> (Inl v, c)),
      notify_new = False, notify_one = (\<lambda>_. True), notified = (\<lambda>permit. if permit then Some False else None)\<rparr>"

interpretation plain_sync: once_notify plain_sync
  by unfold_locales (auto simp: plain_sync_def split: option.splits if_splits)

section \<open>Definitions\<close>

text \<open>Points in time and durations, in nanoseconds.\<close>

type_synonym instant = nat
type_synonym duration = nat

datatype request_error =
    RequestRemoteClosed "bytes option"
  | RequestShutdown
  | RequestTimedOut
  | RequestTimeoutOverflow duration
  | RequestRemoteCancelled
  | RequestCancelled
  | RequestMisuse local_protocol_violation

type_synonym request_outcome = "request_error + bytes option"

record ('c, 'n) request_guard_inner =
  rg_outcome :: 'c
  rg_ready :: "'n option"

type_synonym ('c, 'n) guards = "('c, 'n) request_guard_inner list"
type_synonym guard_ref = nat

definition request_guard_inner_new :: "('v, 'c, 'n) sync_ops \<Rightarrow> ('c, 'n) request_guard_inner" where
  "request_guard_inner_new sync = \<lparr>rg_outcome = cell_new sync, rg_ready = Some (notify_new sync)\<rparr>"

definition set_and_notify ::
  "('v, 'c, 'n) sync_ops \<Rightarrow> 'v \<Rightarrow> ('c, 'n) request_guard_inner \<Rightarrow> ('c, 'n) request_guard_inner" where
  "set_and_notify sync v self =
     (case cell_set sync v (rg_outcome self) of
        (Inr _, outcome) \<Rightarrow>
          (case rg_ready self of
             Some ready \<Rightarrow> self\<lparr>rg_outcome := outcome, rg_ready := Some (notify_one sync ready)\<rparr>
           | None \<Rightarrow> self\<lparr>rg_outcome := outcome\<rparr>)
      | (Inl _, outcome) \<Rightarrow> self\<lparr>rg_outcome := outcome\<rparr>)"

text \<open>\<^verbatim>\<open>Arc::new\<close>, and a call through an \<^verbatim>\<open>Arc\<close>.\<close>

definition arc_new :: "('c, 'n) request_guard_inner \<Rightarrow> ('c, 'n) guards \<Rightarrow> guard_ref \<times> ('c, 'n) guards" where
  "arc_new guard guards = (length guards, guards @ [guard])"

definition notify_guard ::
  "('v, 'c, 'n) sync_ops \<Rightarrow> guard_ref \<Rightarrow> 'v \<Rightarrow> ('c, 'n) guards \<Rightarrow> ('c, 'n) guards" where
  "notify_guard sync r v guards = guards[r := set_and_notify sync v (guards ! r)]"

definition request_guard_new_error ::
  "(request_outcome, 'c, 'n) sync_ops \<Rightarrow> request_error \<Rightarrow> ('c, 'n) guards
   \<Rightarrow> (guard_ref \<times> ('c, 'n) guards) option" where
  "request_guard_new_error sync e guards =
     (case cell_set sync (Inl e) (cell_new sync) of
        (Inr _, outcome) \<Rightarrow> Some (arc_new \<lparr>rg_outcome = outcome, rg_ready = None\<rparr> guards)
      | (Inl _, _) \<Rightarrow> None)"

definition take_inner ::
  "('v, 'c, 'n) sync_ops \<Rightarrow> guard_ref \<Rightarrow> ('c, 'n) guards \<Rightarrow> 'v option" where
  "take_inner sync r guards = cell_get sync (rg_outcome (guards ! r))"

text \<open>The inner option is \<open>None\<close> as long as \<^verbatim>\<open>wait_for_response\<close> waits.\<close>

definition wait_for_response ::
  "('v, 'c, 'n) sync_ops \<Rightarrow> guard_ref \<Rightarrow> ('c, 'n) guards \<Rightarrow> ('v option \<times> ('c, 'n) guards) option" where
  "wait_for_response sync r guards =
     (case rg_ready (guards ! r) of
        Some ready \<Rightarrow>
          (case notified sync ready of
             None \<Rightarrow> Some (None, guards)
           | Some ready \<Rightarrow>
               do { let guards = guards[r := (guards ! r)\<lparr>rg_ready := Some ready\<rparr>];
                    outcome \<leftarrow> take_inner sync r guards;
                    Some (Some outcome, guards) })
      | None \<Rightarrow> do { outcome \<leftarrow> take_inner sync r guards; Some (Some outcome, guards) })"

definition try_get_response ::
  "('v, 'c, 'n) sync_ops \<Rightarrow> guard_ref \<Rightarrow> ('c, 'n) guards \<Rightarrow> (guard_ref + 'v) option" where
  "try_get_response sync r guards =
     (if cell_get sync (rg_outcome (guards ! r)) \<noteq> None
      then do { outcome \<leftarrow> take_inner sync r guards; Some (Inr outcome) }
      else Some (Inl r))"

text \<open>Cancelling and dropping a guard, which the code leaves to be implemented.\<close>

definition guard_do_cancel :: "guard_ref \<Rightarrow> ('c, 'n) guards \<Rightarrow> ('c, 'n) guards" where
  "guard_do_cancel r guards = guards"

definition guard_drop :: "guard_ref \<Rightarrow> ('c, 'n) guards \<Rightarrow> ('c, 'n) guards" where
  "guard_drop r guards = guard_do_cancel r guards"

definition guard_forget :: "guard_ref \<Rightarrow> ('c, 'n) guards \<Rightarrow> ('c, 'n) guards" where
  "guard_forget r guards = guard_drop r guards"

definition guard_cancel :: "guard_ref \<Rightarrow> ('c, 'n) guards \<Rightarrow> ('c, 'n) guards" where
  "guard_cancel r guards = guard_forget r (guard_do_cancel r guards)"

section \<open>Outcomes\<close>

definition outcome_of ::
  "('v, 'c, 'n) sync_ops \<Rightarrow> ('c, 'n) guards \<Rightarrow> guard_ref \<Rightarrow> 'v option" where
  "outcome_of sync guards r = (if r < length guards then cell_get sync (rg_outcome (guards ! r)) else None)"

text \<open>A guard whose outcome is set has a permit for its waiter, unless there is nothing to wait for.\<close>

definition wakes :: "('v, 'c, 'n) sync_ops \<Rightarrow> ('c, 'n) guards \<Rightarrow> guard_ref \<Rightarrow> bool" where
  "wakes sync guards r \<longleftrightarrow>
     (case rg_ready (guards ! r) of None \<Rightarrow> True | Some ready \<Rightarrow> notified sync ready \<noteq> None)"

text \<open>
  What holds of a guard that the application still owns: it wakes the waiter exactly if its outcome is
  set.
\<close>

definition guard_ok :: "('v, 'c, 'n) sync_ops \<Rightarrow> ('c, 'n) guards \<Rightarrow> guard_ref \<Rightarrow> bool" where
  "guard_ok sync guards r \<longleftrightarrow>
     r < length guards \<and> (wakes sync guards r \<longleftrightarrow> outcome_of sync guards r \<noteq> None)"

context once_notify
begin

lemma set_and_notify_outcome:
  "cell_get sync (rg_outcome (set_and_notify sync v g)) =
     (case cell_get sync (rg_outcome g) of None \<Rightarrow> Some v | Some w \<Rightarrow> Some w)"
  using get_set [of v "rg_outcome g"]
  by (auto simp: set_and_notify_def split: prod.splits sum.splits option.splits)

lemma set_and_notify_ready:
  "rg_ready (set_and_notify sync v g) =
     (if cell_get sync (rg_outcome g) = None then map_option (notify_one sync) (rg_ready g) else rg_ready g)"
  using set_result [of v "rg_outcome g"]
  by (auto simp: set_and_notify_def split: prod.splits sum.splits option.splits if_splits)

lemma length_notify_guard [simp]: "length (notify_guard sync r v guards) = length guards"
  by (simp add: notify_guard_def)

lemma outcome_notify_guard:
  "outcome_of sync (notify_guard sync r v guards) r' =
     (if r' = r \<and> r < length guards \<and> outcome_of sync guards r = None then Some v else outcome_of sync guards r')"
  by (auto simp: outcome_of_def notify_guard_def set_and_notify_outcome nth_list_update' split: option.splits)

lemma wakes_notify_guard:
  "r < length guards \<Longrightarrow> wakes sync (notify_guard sync r v guards) r' =
     (if r' = r \<and> outcome_of sync guards r = None then True else wakes sync guards r')"
  using notified_one
  by (auto simp: wakes_def notify_guard_def set_and_notify_ready outcome_of_def nth_list_update
      split: option.splits)

lemma guard_ok_notify:
  "r < length guards \<Longrightarrow> guard_ok sync guards r' \<Longrightarrow> guard_ok sync (notify_guard sync r v guards) r'"
  by (auto simp: guard_ok_def outcome_notify_guard wakes_notify_guard)

lemma outcome_append:
  "outcome_of sync (guards @ [g]) r =
     (if r = length guards then cell_get sync (rg_outcome g) else outcome_of sync guards r)"
  by (auto simp: outcome_of_def nth_append)

lemma guard_ok_append: "guard_ok sync guards r \<Longrightarrow> guard_ok sync (guards @ [g]) r"
  by (auto simp: guard_ok_def outcome_append wakes_def nth_append)

lemma guard_ok_new: "guard_ok sync (guards @ [request_guard_inner_new sync]) (length guards)"
  using notified_new get_new by (simp add: guard_ok_def outcome_append wakes_def request_guard_inner_new_def)

lemma new_error_eq:
  assumes "once_notify sync'"
  shows "\<exists>g. request_guard_new_error sync' e guards' = Some (length guards', guards' @ [g])
    \<and> cell_get sync' (rg_outcome g) = Some (Inl e) \<and> rg_ready g = None"
  using once_notify.set_result [OF assms, of "Inl e" "cell_new sync'"]
    once_notify.get_set [OF assms, of "Inl e" "cell_new sync'"] once_notify.get_new [OF assms]
  by (auto simp: request_guard_new_error_def arc_new_def split: prod.splits sum.splits)

lemma wait_for_response_eq:
  assumes "guard_ok sync guards r"
  shows "case outcome_of sync guards r of
      None \<Rightarrow> wait_for_response sync r guards = Some (None, guards)
    | Some v \<Rightarrow> \<exists>ready. wait_for_response sync r guards
        = Some (Some v, guards[r := (guards ! r)\<lparr>rg_ready := ready\<rparr>])"
proof -
  have "\<exists>ready. guards = guards[r := (guards ! r)\<lparr>rg_ready := ready\<rparr>]"
    by (rule exI [of _ "rg_ready (guards ! r)"]) simp
  then show ?thesis
    using assms
    by (auto simp: guard_ok_def wakes_def wait_for_response_def take_inner_def outcome_of_def
        split: option.splits)
qed

lemma try_get_response_eq:
  assumes "guard_ok sync guards r"
  shows "try_get_response sync r guards = Some (case outcome_of sync guards r of None \<Rightarrow> Inl r | Some v \<Rightarrow> Inr v)"
  using assms by (auto simp: guard_ok_def try_get_response_def take_inner_def outcome_of_def)

end

end
