(* ===== verification/Rpc_Heap.thy ===== *)
theory Rpc_Heap
  imports Io_Core "HOL-Library.Product_Lexorder" "HOL-Library.Multiset"
begin

text \<open>
  The heap of timeouts of \<^verbatim>\<open>src/src/rpc.rs\<close> and the iterator that drains it. A \<^verbatim>\<open>BinaryHeap\<close> of \<^verbatim>\<open>Reverse\<close> values
  yields the smallest value first; equal values cannot be told apart, so it is modelled by the ascending
  list of its values. \<^verbatim>\<open>IoId\<close>s are ordered by their number, as \<^verbatim>\<open>derive(Ord)\<close> does, and pairs
  lexicographically.
\<close>

instantiation io_id :: linorder
begin

definition less_eq_io_id :: "io_id \<Rightarrow> io_id \<Rightarrow> bool" where
  "less_eq_io_id a b \<longleftrightarrow> io_id_get a \<le> io_id_get b"

definition less_io_id :: "io_id \<Rightarrow> io_id \<Rightarrow> bool" where
  "less_io_id a b \<longleftrightarrow> io_id_get a < io_id_get b"

instance
  by intro_classes (auto simp: less_eq_io_id_def less_io_id_def io_id.expand)

end

section \<open>Heaps\<close>

type_synonym 'a binary_heap = "'a list"

definition heap_push :: "'a :: linorder \<Rightarrow> 'a binary_heap \<Rightarrow> 'a binary_heap" where
  "heap_push x heap = insort x heap"

fun heap_peek :: "'a binary_heap \<Rightarrow> 'a option" where
  "heap_peek [] = None"
| "heap_peek (x # _) = Some x"

fun heap_pop :: "'a binary_heap \<Rightarrow> 'a option \<times> 'a binary_heap" where
  "heap_pop [] = (None, [])"
| "heap_pop (x # heap) = (Some x, heap)"

text \<open>The contract of a priority queue, and that the operations above meet it.\<close>

locale min_queue =
  fixes elems :: "'h \<Rightarrow> 'a :: linorder multiset"
    and ok :: "'h \<Rightarrow> bool"
    and push :: "'a \<Rightarrow> 'h \<Rightarrow> 'h"
    and peek :: "'h \<Rightarrow> 'a option"
    and pop :: "'h \<Rightarrow> 'a option \<times> 'h"
  assumes push_ok: "ok h \<Longrightarrow> ok (push x h)"
    and push_elems: "elems (push x h) = add_mset x (elems h)"
    and peek_None: "peek h = None \<longleftrightarrow> elems h = {#}"
    and peek_least: "ok h \<Longrightarrow> peek h = Some x \<Longrightarrow> x \<in># elems h \<and> (\<forall>y \<in># elems h. x \<le> y)"
    and pop_peek: "fst (pop h) = peek h"
    and pop_ok: "ok h \<Longrightarrow> ok (snd (pop h))"
    and pop_elems: "peek h = Some x \<Longrightarrow> elems h = add_mset x (elems (snd (pop h)))"
begin

text \<open>A downward closed set that misses the smallest element is empty.\<close>

lemma peek_stops:
  assumes "ok h" and "peek h = Some x" and "\<not> P x" and "\<And>y z. P z \<Longrightarrow> y \<le> z \<Longrightarrow> P y"
  shows "filter_mset P (elems h) = {#}"
  using peek_least [OF assms(1,2)] assms(3,4) by (auto simp: filter_mset_eq_mempty_iff)

end

interpretation sorted_heap: min_queue mset "sorted :: 'a :: linorder list \<Rightarrow> bool" heap_push heap_peek heap_pop
proof
  fix h :: "'a list" and x :: 'a
  show "heap_peek h = None \<longleftrightarrow> mset h = {#}" "fst (heap_pop h) = heap_peek h"
    "sorted h \<Longrightarrow> sorted (snd (heap_pop h))"
    "heap_peek h = Some x \<Longrightarrow> mset h = add_mset x (mset (snd (heap_pop h)))"
    "sorted h \<Longrightarrow> heap_peek h = Some x \<Longrightarrow> x \<in># mset h \<and> (\<forall>y \<in># mset h. x \<le> y)"
    by (cases h; auto)+
qed (simp_all add: heap_push_def sorted_insort)

section \<open>Draining\<close>

definition drain_conditional_next ::
  "('a \<Rightarrow> bool) \<Rightarrow> 'a binary_heap \<Rightarrow> ('a option \<times> 'a binary_heap) option" where
  "drain_conditional_next predicate heap =
     (case heap_peek heap of
        None \<Rightarrow> Some (None, heap)
      | Some candidate \<Rightarrow>
          if predicate candidate
          then (case heap_pop heap of (Some item, heap) \<Rightarrow> Some (Some item, heap) | (None, _) \<Rightarrow> None)
          else Some (None, heap))"

lemma drain_conditional_next_simps [simp]:
  "drain_conditional_next predicate [] = Some (None, [])"
  "drain_conditional_next predicate (x # heap) =
     (if predicate x then Some (Some x, heap) else Some (None, x # heap))"
  by (simp_all add: drain_conditional_next_def)

lemma drain_conditional_next_less:
  "drain_conditional_next predicate heap = Some (Some x, heap') \<Longrightarrow> length heap' < length heap"
  by (cases heap) (auto split: if_splits)

end
