(* ===== verification/Rpc.thy ===== *)
theory Rpc
  imports Rpc_Guard Rpc_Heap Io_Handle
begin

text \<open>
  The RPC layer of \<^verbatim>\<open>src/src/rpc.rs\<close>: the client and its request builder, the server with its map of pending
  requests and its timeouts, and incoming requests.

  What several parts share is passed along as \<open>rpc_shared\<close>: the guards, the \<^verbatim>\<open>RequestHandle\<close> whose clones
  (and downgraded clones) the client, the server and the incoming requests hold, the channel that carries new
  requests from clients to the server, and the permits of dropped tickets. What the layer uses from
  outside the repository is the record \<open>rpc_env\<close>.
\<close>

section \<open>Channels\<close>

text \<open>
  \<^verbatim>\<open>tokio\<close>'s unbounded channels. \<^verbatim>\<open>recv\<close> waits (\<open>None\<close>), yields a value or reports that the channel has ended;
  \<^verbatim>\<open>try_recv\<close> yields a value unless the channel is empty.
\<close>

record ('a, 'q) channel_ops =
  mpsc_send :: "'a \<Rightarrow> 'q \<Rightarrow> ('a + unit) \<times> 'q"
  mpsc_recv :: "'q \<Rightarrow> 'a option option \<times> 'q"
  mpsc_try_recv :: "'q \<Rightarrow> 'a option \<times> 'q"
  mpsc_close :: "'q \<Rightarrow> 'q"

locale unbounded_channel =
  fixes chan :: "('a, 'q) channel_ops"
    and queued :: "'q \<Rightarrow> 'a list"
    and closed :: "'q \<Rightarrow> bool"
  assumes send_open: "\<not> closed q \<Longrightarrow> fst (mpsc_send chan x q) = Inr () \<and> queued (snd (mpsc_send chan x q)) = queued q @ [x]"
    and send_closed: "closed q \<Longrightarrow> fst (mpsc_send chan x q) = Inl x \<and> queued (snd (mpsc_send chan x q)) = queued q"
    and closed_send: "closed (snd (mpsc_send chan x q)) = closed q"
    and recv_queued: "case mpsc_recv chan q of
          (None, q') \<Rightarrow> queued q' = queued q
        | (Some None, q') \<Rightarrow> queued q = [] \<and> queued q' = []
        | (Some (Some x), q') \<Rightarrow> queued q = x # queued q'"
    and closed_recv: "closed (snd (mpsc_recv chan q)) = closed q"
    and try_recv_queued: "case mpsc_try_recv chan q of
          (None, q') \<Rightarrow> queued q = [] \<and> queued q' = []
        | (Some x, q') \<Rightarrow> queued q = x # queued q'"
    and closed_try_recv: "closed (snd (mpsc_try_recv chan q)) = closed q"
    and queued_close: "queued (mpsc_close chan q) = queued q"
    and closed_close: "closed (mpsc_close chan q)"

text \<open>A queue with a flag that is set once it has been closed.\<close>

definition queue_channel :: "('a, 'a list \<times> bool) channel_ops" where
  "queue_channel =
     \<lparr>mpsc_send = (\<lambda>x (xs, closed). if closed then (Inl x, xs, closed) else (Inr (), xs @ [x], closed)),
      mpsc_recv = (\<lambda>(xs, closed). case xs of
         [] \<Rightarrow> (if closed then Some None else None, [], closed)
       | x # xs \<Rightarrow> (Some (Some x), xs, closed)),
      mpsc_try_recv = (\<lambda>(xs, closed). case xs of [] \<Rightarrow> (None, [], closed) | x # xs \<Rightarrow> (Some x, xs, closed)),
      mpsc_close = (\<lambda>(xs, _). (xs, True))\<rparr>"

interpretation queue_channel: unbounded_channel queue_channel fst snd
  by unfold_locales (auto simp: queue_channel_def split: list.splits if_splits)

section \<open>Data\<close>

record rpc_builder =
  rpcb_core :: io_core_builder
  rpcb_bubble_timeouts :: bool
  rpcb_default_timeout :: "duration option"

record juliet_rpc_client =
  cl_default_timeout :: "duration option"

record rpc_request_builder =
  rb_channel :: channel_id
  rb_payload :: "bytes option"
  rb_timeout :: "duration option"

record 'p new_outgoing_request =
  no_ticket :: "'p request_ticket"
  no_guard :: guard_ref
  no_payload :: "bytes option"
  no_expires :: "instant option"

record ('m, 'p) juliet_rpc_server =
  srv_core :: "('m, 'p) io_core"
  srv_pending :: "io_id \<rightharpoonup> guard_ref"
  srv_timeouts :: "(instant \<times> io_id) binary_heap"
  srv_bubble_timeouts :: bool

record incoming_request =
  ir_channel :: channel_id
  ir_id :: msg_id
  ir_payload :: "bytes option"
  ir_handle :: "unit option"

datatype rpc_server_error =
    RpcCoreError core_error
  | FatalTimeout nat

record ('c, 'n, 's, 'p, 'tx, 'q) rpc_shared =
  sh_guards :: "('c, 'n) guards"
  sh_request_handle :: "('s, 'tx) request_handle"
  sh_new_requests :: 'q
  sh_released :: "'p list"

text \<open>
  \<open>env_instant_max\<close> is the latest point in time an \<^verbatim>\<open>Instant\<close> of the platform represents.
\<close>

record ('m, 'c, 'n, 's, 'p, 'tx, 'q) rpc_env =
  env_requests :: "'m request_bimap"
  env_sync :: "(request_outcome, 'c, 'n) sync_ops"
  env_semaphore_new :: "nat \<Rightarrow> 's"
  env_try_acquire :: "'s \<Rightarrow> (try_acquire_error + 'p) \<times> 's"
  env_acquire :: "'s \<Rightarrow> (unit + 'p) \<times> 's"
  env_send :: "('p, 'tx) send"
  env_channel :: "('p new_outgoing_request, 'q) channel_ops"
  env_instant_max :: instant

definition rpc_as_remote_other_err :: "rpc_server_error \<Rightarrow> (header \<times> bytes) option option" where
  "rpc_as_remote_other_err self = (case self of RpcCoreError e \<Rightarrow> as_remote_other_err e | _ \<Rightarrow> Some None)"

definition rpc_as_local_other_err :: "rpc_server_error \<Rightarrow> (header \<times> bytes) option option" where
  "rpc_as_local_other_err self = (case self of RpcCoreError e \<Rightarrow> as_local_other_err e | _ \<Rightarrow> Some None)"

section \<open>Construction\<close>

definition rpc_builder_new :: "io_core_builder \<Rightarrow> rpc_builder" where
  "rpc_builder_new core = \<lparr>rpcb_core = core, rpcb_bubble_timeouts = False, rpcb_default_timeout = None\<rparr>"

definition with_bubble_timeouts :: "bool \<Rightarrow> rpc_builder \<Rightarrow> rpc_builder" where
  "with_bubble_timeouts bubble_timeouts self = self\<lparr>rpcb_bubble_timeouts := bubble_timeouts\<rparr>"

definition with_default_timeout :: "duration \<Rightarrow> rpc_builder \<Rightarrow> rpc_builder" where
  "with_default_timeout default_timeout self = self\<lparr>rpcb_default_timeout := Some default_timeout\<rparr>"

text \<open>\<open>sender\<close> and \<open>new_requests\<close> are the two new channels.\<close>

definition rpc_build ::
  "('m, 'c, 'n, 's, 'p, 'tx, 'q) rpc_env \<Rightarrow> 'tx \<Rightarrow> 'q \<Rightarrow> rpc_builder
   \<Rightarrow> juliet_rpc_client \<times> ('m, 'p) juliet_rpc_server \<times> ('c, 'n, 's, 'p, 'tx, 'q) rpc_shared" where
  "rpc_build env sender new_requests self =
     (\<lparr>cl_default_timeout = rpcb_default_timeout self\<rparr>,
      \<lparr>srv_core = io_core_build (env_requests env) (rpcb_core self), srv_pending = Map.empty,
       srv_timeouts = [], srv_bubble_timeouts = rpcb_bubble_timeouts self\<rparr>,
      \<lparr>sh_guards = [], sh_request_handle = io_handle_build (env_semaphore_new env) sender (rpcb_core self),
       sh_new_requests = new_requests, sh_released = []\<rparr>)"

section \<open>Shared state\<close>

text \<open>A call through one of the clones of the handle.\<close>

definition via_handle ::
  "('tx handle \<Rightarrow> 'r \<times> 'tx handle) \<Rightarrow> ('c, 'n, 's, 'p, 'tx, 'q) rpc_shared
   \<Rightarrow> 'r \<times> ('c, 'n, 's, 'p, 'tx, 'q) rpc_shared" where
  "via_handle f shared =
     (case f (downgrade (sh_request_handle shared)) of
        (res, h) \<Rightarrow> (res, shared\<lparr>sh_request_handle := (sh_request_handle shared)\<lparr>rh_sender := h_sender h\<rparr>\<rparr>))"

definition set_guard ::
  "('m, 'c, 'n, 's, 'p, 'tx, 'q) rpc_env \<Rightarrow> guard_ref \<Rightarrow> request_outcome
   \<Rightarrow> ('c, 'n, 's, 'p, 'tx, 'q) rpc_shared \<Rightarrow> ('c, 'n, 's, 'p, 'tx, 'q) rpc_shared" where
  "set_guard env r v shared = shared\<lparr>sh_guards := notify_guard (env_sync env) r v (sh_guards shared)\<rparr>"

definition new_error_guard ::
  "('m, 'c, 'n, 's, 'p, 'tx, 'q) rpc_env \<Rightarrow> request_error \<Rightarrow> ('c, 'n, 's, 'p, 'tx, 'q) rpc_shared
   \<Rightarrow> (guard_ref \<times> ('c, 'n, 's, 'p, 'tx, 'q) rpc_shared) option" where
  "new_error_guard env e shared =
     do { (r, guards) \<leftarrow> request_guard_new_error (env_sync env) e (sh_guards shared);
          Some (r, shared\<lparr>sh_guards := guards\<rparr>) }"

definition release ::
  "'p request_ticket \<Rightarrow> ('c, 'n, 's, 'p, 'tx, 'q) rpc_shared \<Rightarrow> ('c, 'n, 's, 'p, 'tx, 'q) rpc_shared" where
  "release ticket shared = shared\<lparr>sh_released := sh_released shared @ [rt_permit ticket]\<rparr>"

definition send_custom_error ::
  "('m, 'c, 'n, 's, 'p, 'tx, 'q) rpc_env \<Rightarrow> channel_id \<Rightarrow> msg_id \<Rightarrow> bytes
   \<Rightarrow> ('c, 'n, 's, 'p, 'tx, 'q) rpc_shared \<Rightarrow> bool \<times> ('c, 'n, 's, 'p, 'tx, 'q) rpc_shared" where
  "send_custom_error env ch i err shared =
     (case via_handle (enqueue_error (env_send env) ch i err) shared of (res, shared) \<Rightarrow> (\<not> isl res, shared))"

section \<open>Making requests\<close>

definition client_create_request :: "channel_id \<Rightarrow> juliet_rpc_client \<Rightarrow> rpc_request_builder" where
  "client_create_request ch self = \<lparr>rb_channel = ch, rb_payload = None, rb_timeout = cl_default_timeout self\<rparr>"

definition rb_into_payload :: "rpc_request_builder \<Rightarrow> bytes option" where
  "rb_into_payload self = rb_payload self"

definition with_payload :: "bytes \<Rightarrow> rpc_request_builder \<Rightarrow> rpc_request_builder" where
  "with_payload payload self = self\<lparr>rb_payload := Some payload\<rparr>"

definition with_timeout :: "duration \<Rightarrow> rpc_request_builder \<Rightarrow> rpc_request_builder" where
  "with_timeout timeout self = self\<lparr>rb_timeout := Some timeout\<rparr>"

definition instant_checked_add :: "instant \<Rightarrow> instant \<Rightarrow> duration \<Rightarrow> instant option" where
  "instant_checked_add instant_max t d = (if t + d \<le> instant_max then Some (t + d) else None)"

text \<open>\<open>now\<close> is what \<^verbatim>\<open>Instant::now()\<close> returns. On an early return the ticket is dropped.\<close>

definition do_enqueue_request ::
  "('m, 'c, 'n, 's, 'p, 'tx, 'q) rpc_env \<Rightarrow> instant \<Rightarrow> 'p request_ticket \<Rightarrow> rpc_request_builder
   \<Rightarrow> ('c, 'n, 's, 'p, 'tx, 'q) rpc_shared
   \<Rightarrow> (guard_ref \<times> ('c, 'n, 's, 'p, 'tx, 'q) rpc_shared) option" where
  "do_enqueue_request env now ticket self shared =
     (let (inner, guards) = arc_new (request_guard_inner_new (env_sync env)) (sh_guards shared);
          shared = shared\<lparr>sh_guards := guards\<rparr>;
          send_request = (\<lambda>expires.
            case mpsc_send (env_channel env)
                   \<lparr>no_ticket = ticket, no_guard = inner, no_payload = rb_payload self, no_expires = expires\<rparr>
                   (sh_new_requests shared) of
              (Inr _, q) \<Rightarrow> Some (inner, shared\<lparr>sh_new_requests := q\<rparr>)
            | (Inl request, q) \<Rightarrow>
                new_error_guard env (RequestRemoteClosed (no_payload request))
                  (release (no_ticket request) (shared\<lparr>sh_new_requests := q\<rparr>)))
      in case rb_timeout self of
           None \<Rightarrow> send_request None
         | Some timeout \<Rightarrow>
             (case instant_checked_add (env_instant_max env) now timeout of
                Some expires \<Rightarrow> send_request (Some expires)
              | None \<Rightarrow> new_error_guard env (RequestTimeoutOverflow timeout) (release ticket shared)))"

definition queue_for_sending ::
  "('m, 'c, 'n, 's, 'p, 'tx, 'q) rpc_env \<Rightarrow> instant \<Rightarrow> rpc_request_builder
   \<Rightarrow> ('c, 'n, 's, 'p, 'tx, 'q) rpc_shared
   \<Rightarrow> (guard_ref \<times> ('c, 'n, 's, 'p, 'tx, 'q) rpc_shared) option" where
  "queue_for_sending env now self shared =
     do { (reserved, h) \<leftarrow> reserve_request (env_acquire env) (rb_channel self) (sh_request_handle shared);
          let shared = shared\<lparr>sh_request_handle := h\<rparr>;
          case reserved of
            Some ticket \<Rightarrow> do_enqueue_request env now ticket self shared
          | None \<Rightarrow> new_error_guard env (RequestRemoteClosed (rb_payload self)) shared }"

definition try_queue_for_sending ::
  "('m, 'c, 'n, 's, 'p, 'tx, 'q) rpc_env \<Rightarrow> instant \<Rightarrow> rpc_request_builder
   \<Rightarrow> ('c, 'n, 's, 'p, 'tx, 'q) rpc_shared
   \<Rightarrow> ((rpc_request_builder + guard_ref) \<times> ('c, 'n, 's, 'p, 'tx, 'q) rpc_shared) option" where
  "try_queue_for_sending env now self shared =
     do { (reserved, h) \<leftarrow> try_reserve_request (env_try_acquire env) (rb_channel self) (sh_request_handle shared);
          let shared = shared\<lparr>sh_request_handle := h\<rparr>;
          case reserved of
            Inr ticket \<Rightarrow> do {
              (r, shared) \<leftarrow> do_enqueue_request env now ticket self shared;
              Some (Inr r, shared) }
          | Inl ReservationClosed \<Rightarrow> do {
              (r, shared) \<leftarrow> new_error_guard env (RequestRemoteClosed (rb_payload self)) shared;
              Some (Inr r, shared) }
          | Inl NoBufferSpaceAvailable \<Rightarrow> Some (Inl self, shared) }"

section \<open>Timeouts\<close>

text \<open>The loop of \<^verbatim>\<open>process_timeouts\<close> over the expired timeouts, with its counter.\<close>

function timeouts_loop ::
  "('m, 'c, 'n, 's, 'p, 'tx, 'q) rpc_env \<Rightarrow> instant \<Rightarrow> nat \<Rightarrow> ('m, 'p) juliet_rpc_server
   \<Rightarrow> ('c, 'n, 's, 'p, 'tx, 'q) rpc_shared
   \<Rightarrow> (nat \<times> ('m, 'p) juliet_rpc_server \<times> ('c, 'n, 's, 'p, 'tx, 'q) rpc_shared) option" where
  "timeouts_loop env now timed_out self shared =
     (case drain_conditional_next (\<lambda>t. fst t \<le> now) (srv_timeouts self) of
        None \<Rightarrow> None
      | Some (None, timeouts) \<Rightarrow> Some (timed_out, self\<lparr>srv_timeouts := timeouts\<rparr>, shared)
      | Some (Some (_, ioid), timeouts) \<Rightarrow>
          let self = self\<lparr>srv_timeouts := timeouts\<rparr>
          in case srv_pending self ioid of
               None \<Rightarrow> timeouts_loop env now timed_out self shared
             | Some guard \<Rightarrow>
                 let self = self\<lparr>srv_pending := (srv_pending self)(ioid := None)\<rparr>;
                     shared = set_guard env guard (Inl RequestTimedOut) shared;
                     (_, shared) = via_handle (enqueue_request_cancellation (env_send env) ioid) shared
                 in timeouts_loop env now (timed_out + 1) self shared)"
  by pat_completeness auto

termination
  by (relation "measure (\<lambda>(_, _, _, self, _). length (srv_timeouts self))")
     (auto dest: drain_conditional_next_less)

declare timeouts_loop.simps [simp del]

definition timeout_dummy :: duration where
  "timeout_dummy = 3600 * 10 ^ 9"

definition process_timeouts ::
  "('m, 'c, 'n, 's, 'p, 'tx, 'q) rpc_env \<Rightarrow> instant \<Rightarrow> ('m, 'p) juliet_rpc_server
   \<Rightarrow> ('c, 'n, 's, 'p, 'tx, 'q) rpc_shared
   \<Rightarrow> (instant \<times> nat \<times> ('m, 'p) juliet_rpc_server \<times> ('c, 'n, 's, 'p, 'tx, 'q) rpc_shared) option" where
  "process_timeouts env now self shared =
     do { (timed_out, self, shared) \<leftarrow> timeouts_loop env now 0 self shared;
          deadline \<leftarrow>
            (case heap_peek (srv_timeouts self) of
               Some (time, _) \<Rightarrow> Some time
             | None \<Rightarrow> instant_checked_add (env_instant_max env) now timeout_dummy);
          Some (deadline, timed_out, self, shared) }"

section \<open>The server\<close>

text \<open>A new request arrives from a client.\<close>

definition new_request_stage ::
  "('m, 'c, 'n, 's, 'p, 'tx, 'q) rpc_env \<Rightarrow> 'p new_outgoing_request \<Rightarrow> ('m, 'p) juliet_rpc_server
   \<Rightarrow> ('c, 'n, 's, 'p, 'tx, 'q) rpc_shared
   \<Rightarrow> ('m, 'p) juliet_rpc_server \<times> ('c, 'n, 's, 'p, 'tx, 'q) rpc_shared" where
  "new_request_stage env request self shared =
     (case via_handle (enqueue_request (env_send env) (no_ticket request) (no_payload request)) shared of
        (Inr ioid, shared) \<Rightarrow>
          let self = self\<lparr>srv_pending := (srv_pending self)(ioid \<mapsto> no_guard request)\<rparr>
          in (case no_expires request of
                Some expires \<Rightarrow> self\<lparr>srv_timeouts := heap_push (expires, ioid) (srv_timeouts self)\<rparr>
              | None \<Rightarrow> self,
              shared)
      | (Inl payload, shared) \<Rightarrow>
          (self, set_guard env (no_guard request) (Inl (RequestRemoteClosed payload))
             (release (no_ticket request) shared)))"

text \<open>
  The core returns from \<^verbatim>\<open>next_event\<close>. A stage of the loop continues it, waits for more to happen, or returns
  from \<^verbatim>\<open>next_request\<close>.
\<close>

type_synonym rpc_result = "rpc_server_error + incoming_request option"

datatype rpc_control = LoopAgain | LoopWaits | LoopReturn rpc_result

definition complete_pending ::
  "('m, 'c, 'n, 's, 'p, 'tx, 'q) rpc_env \<Rightarrow> io_id \<Rightarrow> request_outcome \<Rightarrow> ('m, 'p) juliet_rpc_server
   \<Rightarrow> ('c, 'n, 's, 'p, 'tx, 'q) rpc_shared
   \<Rightarrow> ('m, 'p) juliet_rpc_server \<times> ('c, 'n, 's, 'p, 'tx, 'q) rpc_shared" where
  "complete_pending env ioid outcome self shared =
     (case srv_pending self ioid of
        None \<Rightarrow> (self, shared)
      | Some guard \<Rightarrow>
          (self\<lparr>srv_pending := (srv_pending self)(ioid := None)\<rparr>, set_guard env guard outcome shared))"

definition core_event_stage ::
  "('m, 'c, 'n, 's, 'p, 'tx, 'q) rpc_env \<Rightarrow> io_result \<Rightarrow> ('m, 'p) juliet_rpc_server
   \<Rightarrow> ('c, 'n, 's, 'p, 'tx, 'q) rpc_shared
   \<Rightarrow> rpc_control \<times> ('m, 'p) juliet_rpc_server \<times> ('c, 'n, 's, 'p, 'tx, 'q) rpc_shared" where
  "core_event_stage env event_result self shared =
     (case event_result of
        Inl e \<Rightarrow> (LoopReturn (Inl (RpcCoreError e)), self, shared)
      | Inr None \<Rightarrow> (LoopReturn (Inr None), self, shared)
      | Inr (Some (IoNewRequest ch i payload)) \<Rightarrow>
          (LoopReturn (Inr (Some \<lparr>ir_channel = ch, ir_id = i, ir_payload = payload, ir_handle = Some ()\<rparr>)),
           self, shared)
      | Inr (Some (IoRequestCancelled _ _)) \<Rightarrow> (LoopAgain, self, shared)
      | Inr (Some (IoReceivedResponse ioid payload)) \<Rightarrow>
          (LoopAgain, complete_pending env ioid (Inr payload) self shared)
      | Inr (Some (IoReceivedCancellationResponse ioid)) \<Rightarrow>
          (LoopAgain, complete_pending env ioid (Inl RequestRemoteCancelled) self shared))"

text \<open>
  One iteration of the loop of \<^verbatim>\<open>next_request\<close>: the time at its start, what happens to the core while the select
  polls it (\<open>None\<close> if the select ends before it is polled), and, unless the core returns, the branch
  that ends the select.
\<close>

datatype select_branch = TimeoutCheck | NewRequestBranch | NoBranch

record 'p rpc_iteration =
  it_now :: instant
  it_core :: "'p io_input list option"
  it_branch :: select_branch

definition rpc_select_stage ::
  "('m, 'c, 'n, 's, 'p, 'tx, 'q) rpc_env \<Rightarrow> 'p rpc_iteration \<Rightarrow> ('m, 'p) juliet_rpc_server
   \<Rightarrow> ('c, 'n, 's, 'p, 'tx, 'q) rpc_shared
   \<Rightarrow> (rpc_control \<times> ('m, 'p) juliet_rpc_server \<times> ('c, 'n, 's, 'p, 'tx, 'q) rpc_shared) option" where
  "rpc_select_stage env it self shared =
     do { (event_result, core) \<leftarrow>
            (case it_core it of
               Some inputs \<Rightarrow> next_event (env_requests env) inputs (srv_core self)
             | None \<Rightarrow> Some (None, srv_core self));
          let self = self\<lparr>srv_core := core\<rparr>;
          Some (case event_result of
                  Some event_result \<Rightarrow> core_event_stage env event_result self shared
                | None \<Rightarrow>
                    (case it_branch it of
                       TimeoutCheck \<Rightarrow> (LoopAgain, self, shared)
                     | NewRequestBranch \<Rightarrow>
                         (case mpsc_recv (env_channel env) (sh_new_requests shared) of
                            (None, q) \<Rightarrow> (LoopWaits, self, shared\<lparr>sh_new_requests := q\<rparr>)
                          | (Some None, q) \<Rightarrow> (LoopReturn (Inr None), self, shared\<lparr>sh_new_requests := q\<rparr>)
                          | (Some (Some request), q) \<Rightarrow>
                              (LoopAgain, new_request_stage env request self (shared\<lparr>sh_new_requests := q\<rparr>)))
                     | NoBranch \<Rightarrow> (LoopWaits, self, shared))) }"

definition rpc_iterate ::
  "('m, 'c, 'n, 's, 'p, 'tx, 'q) rpc_env \<Rightarrow> 'p rpc_iteration \<Rightarrow> ('m, 'p) juliet_rpc_server
   \<Rightarrow> ('c, 'n, 's, 'p, 'tx, 'q) rpc_shared
   \<Rightarrow> (rpc_control \<times> ('m, 'p) juliet_rpc_server \<times> ('c, 'n, 's, 'p, 'tx, 'q) rpc_shared) option" where
  "rpc_iterate env it self shared =
     do { (deadline, timed_out, self, shared) \<leftarrow> process_timeouts env (it_now it) self shared;
          if srv_bubble_timeouts self \<and> 0 < timed_out
          then Some (LoopReturn (Inl (FatalTimeout timed_out)), self, shared)
          else rpc_select_stage env it self shared }"

text \<open>The inner option is \<open>None\<close> while \<^verbatim>\<open>next_request\<close> waits.\<close>

fun next_request ::
  "('m, 'c, 'n, 's, 'p, 'tx, 'q) rpc_env \<Rightarrow> 'p rpc_iteration list \<Rightarrow> ('m, 'p) juliet_rpc_server
   \<Rightarrow> ('c, 'n, 's, 'p, 'tx, 'q) rpc_shared
   \<Rightarrow> (rpc_result option \<times> ('m, 'p) juliet_rpc_server \<times> ('c, 'n, 's, 'p, 'tx, 'q) rpc_shared) option" where
  "next_request env [] self shared = Some (None, self, shared)"
| "next_request env (it # its) self shared =
     do { (control, self, shared) \<leftarrow> rpc_iterate env it self shared;
          case control of
            LoopAgain \<Rightarrow> next_request env its self shared
          | LoopWaits \<Rightarrow> Some (None, self, shared)
          | LoopReturn result \<Rightarrow> Some (Some result, self, shared) }"

section \<open>Shutting down\<close>

partial_function (option) drain_new_requests ::
  "('m, 'c, 'n, 's, 'p, 'tx, 'q) rpc_env \<Rightarrow> ('c, 'n, 's, 'p, 'tx, 'q) rpc_shared
   \<Rightarrow> ('c, 'n, 's, 'p, 'tx, 'q) rpc_shared option" where
  "drain_new_requests env shared =
     (case mpsc_try_recv (env_channel env) (sh_new_requests shared) of
        (None, q) \<Rightarrow> Some (shared\<lparr>sh_new_requests := q\<rparr>)
      | (Some request, q) \<Rightarrow>
          drain_new_requests env
            (set_guard env (no_guard request) (Inl (RequestRemoteClosed (no_payload request)))
              (release (no_ticket request) (shared\<lparr>sh_new_requests := q\<rparr>))))"

text \<open>
  Dropping the server. \<open>drained\<close> lists the pending requests in the order in which \<^verbatim>\<open>HashMap::drain\<close> yields
  them, which is not specified.
\<close>

definition server_drop ::
  "('m, 'c, 'n, 's, 'p, 'tx, 'q) rpc_env \<Rightarrow> (io_id \<times> guard_ref) list
   \<Rightarrow> ('c, 'n, 's, 'p, 'tx, 'q) rpc_shared \<Rightarrow> ('c, 'n, 's, 'p, 'tx, 'q) rpc_shared option" where
  "server_drop env drained shared =
     (let shared = shared\<lparr>sh_new_requests := mpsc_close (env_channel env) (sh_new_requests shared)\<rparr>;
          shared = fold (\<lambda>(_, guard) shared. set_guard env guard (Inl RequestShutdown) shared) drained shared
      in drain_new_requests env shared)"

section \<open>Incoming requests\<close>

text \<open>\<open>None\<close> is the panic of the \<^verbatim>\<open>unreachable!\<close>.\<close>

definition discard_closed :: "(enqueue_failure + unit) \<Rightarrow> unit option" where
  "discard_closed res =
     (case res of Inr _ \<Rightarrow> Some () | Inl (EnqueueClosed _) \<Rightarrow> Some () | Inl (BufferLimitHit _) \<Rightarrow> None)"

definition incoming_do_cancel ::
  "('m, 'c, 'n, 's, 'p, 'tx, 'q) rpc_env \<Rightarrow> incoming_request \<Rightarrow> ('c, 'n, 's, 'p, 'tx, 'q) rpc_shared
   \<Rightarrow> (incoming_request \<times> ('c, 'n, 's, 'p, 'tx, 'q) rpc_shared) option" where
  "incoming_do_cancel env self shared =
     (case ir_handle self of
        None \<Rightarrow> Some (self, shared)
      | Some _ \<Rightarrow>
          let (res, shared) =
                via_handle (enqueue_response_cancellation (env_send env) (ir_channel self) (ir_id self)) shared
          in do { discard_closed res; Some (self\<lparr>ir_handle := None\<rparr>, shared) })"

definition incoming_drop ::
  "('m, 'c, 'n, 's, 'p, 'tx, 'q) rpc_env \<Rightarrow> incoming_request \<Rightarrow> ('c, 'n, 's, 'p, 'tx, 'q) rpc_shared
   \<Rightarrow> ('c, 'n, 's, 'p, 'tx, 'q) rpc_shared option" where
  "incoming_drop env self shared = do { (_, shared) \<leftarrow> incoming_do_cancel env self shared; Some shared }"

text \<open>\<^verbatim>\<open>respond\<close> and \<^verbatim>\<open>cancel\<close> take the request by value, so it is dropped when they end.\<close>

definition incoming_cancel ::
  "('m, 'c, 'n, 's, 'p, 'tx, 'q) rpc_env \<Rightarrow> incoming_request \<Rightarrow> ('c, 'n, 's, 'p, 'tx, 'q) rpc_shared
   \<Rightarrow> ('c, 'n, 's, 'p, 'tx, 'q) rpc_shared option" where
  "incoming_cancel env self shared =
     do { (self, shared) \<leftarrow> incoming_do_cancel env self shared; incoming_drop env self shared }"

definition incoming_respond ::
  "('m, 'c, 'n, 's, 'p, 'tx, 'q) rpc_env \<Rightarrow> bytes option \<Rightarrow> incoming_request
   \<Rightarrow> ('c, 'n, 's, 'p, 'tx, 'q) rpc_shared \<Rightarrow> ('c, 'n, 's, 'p, 'tx, 'q) rpc_shared option" where
  "incoming_respond env payload self shared =
     do { (self, shared) \<leftarrow>
            (case ir_handle self of
               None \<Rightarrow> Some (self, shared)
             | Some _ \<Rightarrow>
                 let (res, shared) =
                       via_handle (enqueue_response (env_send env) (ir_channel self) (ir_id self) payload) shared
                 in do { discard_closed res; Some (self\<lparr>ir_handle := None\<rparr>, shared) });
          incoming_drop env self shared }"

section \<open>Shutting down with an error\<close>

text \<open>
  The loop of \<^verbatim>\<open>send_custom_error_and_shutdown\<close>; the incoming requests are dropped. One element of the list
  is what happens during one call of \<^verbatim>\<open>next_request\<close>; the timeout around the loop may end it at any time.
\<close>

fun shutdown_loop ::
  "('m, 'c, 'n, 's, 'p, 'tx, 'q) rpc_env \<Rightarrow> 'p rpc_iteration list list \<Rightarrow> ('m, 'p) juliet_rpc_server
   \<Rightarrow> ('c, 'n, 's, 'p, 'tx, 'q) rpc_shared
   \<Rightarrow> (('m, 'p) juliet_rpc_server \<times> ('c, 'n, 's, 'p, 'tx, 'q) rpc_shared) option" where
  "shutdown_loop env [] self shared = Some (self, shared)"
| "shutdown_loop env (its # calls) self shared =
     do { (res, self, shared) \<leftarrow> next_request env its self shared;
          case res of
            Some (Inr (Some incoming)) \<Rightarrow> do {
              shared \<leftarrow> incoming_drop env incoming shared;
              shutdown_loop env calls self shared }
          | _ \<Rightarrow> Some (self, shared) }"

definition server_send_custom_error ::
  "('m, 'c, 'n, 's, 'p, 'tx, 'q) rpc_env \<Rightarrow> channel_id \<Rightarrow> msg_id \<Rightarrow> bytes
   \<Rightarrow> ('c, 'n, 's, 'p, 'tx, 'q) rpc_shared \<Rightarrow> bool \<times> ('c, 'n, 's, 'p, 'tx, 'q) rpc_shared" where
  "server_send_custom_error env ch i err shared =
     (case via_handle (enqueue_error (env_send env) ch i err) shared of (res, shared) \<Rightarrow> (\<not> isl res, shared))"

definition send_custom_error_and_shutdown ::
  "('m, 'c, 'n, 's, 'p, 'tx, 'q) rpc_env \<Rightarrow> ((io_id \<rightharpoonup> guard_ref) \<Rightarrow> (io_id \<times> guard_ref) list)
   \<Rightarrow> 'p rpc_iteration list list \<Rightarrow> channel_id \<Rightarrow> msg_id \<Rightarrow> bytes \<Rightarrow> ('m, 'p) juliet_rpc_server
   \<Rightarrow> ('c, 'n, 's, 'p, 'tx, 'q) rpc_shared \<Rightarrow> ('c, 'n, 's, 'p, 'tx, 'q) rpc_shared option" where
  "send_custom_error_and_shutdown env drain_order calls ch i err self shared =
     (let (queued, shared) = server_send_custom_error env ch i err shared
      in do { (self, shared) \<leftarrow> (if queued then shutdown_loop env calls self shared else Some (self, shared));
              server_drop env (drain_order (srv_pending self)) shared })"

end
