(* ===== verification/Rpc_Inv.thy ===== *)
theory Rpc_Inv
  imports Rpc
begin

text \<open>
  The invariant of the RPC layer: which requests are in flight, that no two of them share a guard or an
  \<^verbatim>\<open>IoId\<close>, and that every guard without an outcome belongs to one of them.
\<close>

declare next_event.simps [simp del]

section \<open>Guards in flight\<close>

text \<open>
  \<open>guards_ok sync fixed next flight guards owned\<close>: \<open>flight\<close> relates the \<^verbatim>\<open>IoId\<close>s and the guards of the
  requests in flight, \<open>owned\<close> are the guards that the application holds, \<open>next\<close> is the next \<^verbatim>\<open>IoId\<close>. \<open>fixed\<close>
  holds outcomes that must not change.
\<close>

definition guards_ok ::
  "('v, 'c, 'n) sync_ops \<Rightarrow> (guard_ref \<rightharpoonup> 'v) \<Rightarrow> u64 \<Rightarrow> (io_id \<times> guard_ref) set \<Rightarrow> ('c, 'n) guards
   \<Rightarrow> guard_ref set \<Rightarrow> bool" where
  "guards_ok sync fixed nxt flight guards owned \<longleftrightarrow>
     (\<forall>r v. fixed r = Some v \<longrightarrow> outcome_of sync guards r = Some v) \<and>
     (\<forall>r \<in> owned. guard_ok sync guards r \<and> (outcome_of sync guards r = None \<longrightarrow> r \<in> snd ` flight)) \<and>
     (\<forall>(x, r) \<in> flight. r < length guards \<and> outcome_of sync guards r = None \<and> io_id_get x < nxt) \<and>
     inj_on fst flight \<and> inj_on snd flight"

lemma guards_okD:
  assumes "guards_ok sync fixed nxt flight guards owned"
  shows "fixed r = Some v \<Longrightarrow> outcome_of sync guards r = Some v"
    and "r \<in> owned \<Longrightarrow> guard_ok sync guards r"
    and "r \<in> owned \<Longrightarrow> outcome_of sync guards r = None \<Longrightarrow> r \<in> snd ` flight"
    and "(x, r) \<in> flight \<Longrightarrow> r < length guards"
    and "(x, r) \<in> flight \<Longrightarrow> outcome_of sync guards r = None"
    and "(x, r) \<in> flight \<Longrightarrow> io_id_get x < nxt"
    and "(x, r) \<in> flight \<Longrightarrow> (x, r') \<in> flight \<Longrightarrow> r = r'"
    and "(x, r) \<in> flight \<Longrightarrow> (x', r) \<in> flight \<Longrightarrow> x = x'"
  using assms by (fastforce simp: guards_ok_def inj_on_def)+

lemma guards_okI:
  assumes "\<And>r v. fixed r = Some v \<Longrightarrow> outcome_of sync guards r = Some v"
    and "\<And>r. r \<in> owned \<Longrightarrow> guard_ok sync guards r"
    and "\<And>r. r \<in> owned \<Longrightarrow> outcome_of sync guards r = None \<Longrightarrow> \<exists>x. (x, r) \<in> flight"
    and "\<And>x r. (x, r) \<in> flight \<Longrightarrow> r < length guards \<and> outcome_of sync guards r = None \<and> io_id_get x < nxt"
    and "inj_on fst flight" and "inj_on snd flight"
  shows "guards_ok sync fixed nxt flight guards owned"
  unfolding guards_ok_def using assms by (auto simp: image_iff Bex_def)

lemma outcome_Some_less: "outcome_of sync guards r = Some v \<Longrightarrow> r < length guards"
  by (simp add: outcome_of_def split: if_splits)

context once_notify
begin

lemma guards_ok_resolve:
  assumes "guards_ok sync fixed nxt flight guards owned" and "(x, r) \<in> flight"
  shows "guards_ok sync fixed nxt (flight - {(x, r)}) (notify_guard sync r v guards) owned"
proof -
  note ok = guards_okD [OF assms(1)]
  have r: "r < length guards" "outcome_of sync guards r = None"
    using ok(4,5) assms(2) by blast+
  show ?thesis
  proof (rule guards_okI)
    show "outcome_of sync (notify_guard sync r v guards) r' = Some w" if "fixed r' = Some w" for r' w
      using ok(1) [OF that] r by (auto simp: outcome_notify_guard)
    show "guard_ok sync (notify_guard sync r v guards) r'" if "r' \<in> owned" for r'
      using guard_ok_notify [OF r(1) ok(2) [OF that]] .
    show "\<exists>x'. (x', r') \<in> flight - {(x, r)}"
      if "r' \<in> owned" "outcome_of sync (notify_guard sync r v guards) r' = None" for r'
      using that ok(3) [OF that(1)] r by (auto simp: outcome_notify_guard split: if_splits)
    show "r' < length (notify_guard sync r v guards) \<and> outcome_of sync (notify_guard sync r v guards) r' = None
        \<and> io_id_get x' < nxt" if "(x', r') \<in> flight - {(x, r)}" for x' r'
      using that ok(4,5,6) [of x' r'] ok(8) [of x' r' x] assms(2) by (auto simp: outcome_notify_guard)
  qed (use assms(1) in \<open>auto simp: guards_ok_def intro: inj_on_diff\<close>)
qed

lemma guards_ok_append:
  assumes "guards_ok sync fixed nxt flight guards owned"
  shows "guards_ok sync fixed nxt flight (guards @ [g]) owned"
proof -
  note ok = guards_okD [OF assms]
  have old: "outcome_of sync (guards @ [g]) r = outcome_of sync guards r" if "r < length guards" for r
    using that by (simp add: outcome_append)
  show ?thesis
  proof (rule guards_okI)
    show "outcome_of sync (guards @ [g]) r = Some v" if "fixed r = Some v" for r v
      using ok(1) [OF that] old outcome_Some_less [of sync guards r v] by simp
    show "\<exists>x. (x, r) \<in> flight" if "r \<in> owned" "outcome_of sync (guards @ [g]) r = None" for r
      using that ok(2,3) [OF that(1)] old by (auto simp: guard_ok_def)
    show "r < length (guards @ [g]) \<and> outcome_of sync (guards @ [g]) r = None \<and> io_id_get x < nxt"
      if "(x, r) \<in> flight" for x r
      using ok(4,5,6) [OF that] old by simp
  qed (use assms ok(2) guard_ok_append in \<open>auto simp: guards_ok_def\<close>)
qed

lemma guards_ok_own_resolved:
  assumes "guards_ok sync fixed nxt flight guards owned" and "outcome_of sync guards r = Some v"
    and "rg_ready (guards ! r) = None"
  shows "guards_ok sync fixed nxt flight guards (insert r owned)"
proof -
  have "r < length guards"
    using assms(2) by (simp add: outcome_of_def split: if_splits)
  then show ?thesis
    using assms by (auto simp: guards_ok_def guard_ok_def wakes_def)
qed

lemma guards_ok_next:
  "guards_ok sync fixed nxt flight guards owned \<Longrightarrow> nxt \<le> nxt' \<Longrightarrow> guards_ok sync fixed nxt' flight guards owned"
  by (fastforce simp: guards_ok_def)

lemma guards_ok_subset:
  "guards_ok sync fixed nxt flight guards owned \<Longrightarrow> owned' \<subseteq> owned \<Longrightarrow> guards_ok sync fixed nxt flight guards owned'"
  by (auto simp: guards_ok_def)

lemma guards_ok_new:
  assumes "guards_ok sync fixed nxt flight guards owned" and "nxt < nxt'"
  shows "guards_ok sync fixed nxt' (insert (IoId nxt, length guards) flight)
    (guards @ [request_guard_inner_new sync]) (insert (length guards) owned)"
proof -
  note ok = guards_okD [OF assms(1)]
  note appended = guards_ok_next [OF guards_ok_append [OF assms(1)], of nxt' "request_guard_inner_new sync"]
  note ok' = guards_okD [OF appended [OF less_imp_le [OF assms(2)]]]
  have fresh: "IoId nxt \<notin> fst ` flight" "length guards \<notin> snd ` flight"
    using ok(4,6) by fastforce+
  have none: "outcome_of sync (guards @ [request_guard_inner_new sync]) (length guards) = None"
    using get_new by (simp add: outcome_append request_guard_inner_new_def)
  show ?thesis
  proof (rule guards_okI)
    show "inj_on fst (insert (IoId nxt, length guards) flight)" "inj_on snd (insert (IoId nxt, length guards) flight)"
      using assms(1) fresh by (auto simp: guards_ok_def)
    show "\<exists>x. (x, r) \<in> insert (IoId nxt, length guards) flight"
      if "r \<in> insert (length guards) owned"
        "outcome_of sync (guards @ [request_guard_inner_new sync]) r = None" for r
      using that ok'(3) [of r] by (auto simp: image_iff Bex_def)
  qed (use ok'(1,2,4,5,6) guard_ok_new none assms(2) in auto)
qed

lemma guards_ok_taken:
  assumes "guards_ok sync fixed nxt flight guards owned"
  shows "guards_ok sync fixed nxt flight (guards[r := (guards ! r)\<lparr>rg_ready := ready\<rparr>]) (owned - {r})"
proof -
  let ?guards = "guards[r := (guards ! r)\<lparr>rg_ready := ready\<rparr>]"
  have same: "outcome_of sync ?guards r' = outcome_of sync guards r'" for r'
    by (simp add: outcome_of_def nth_list_update')
  have "guard_ok sync ?guards r' = guard_ok sync guards r'" if "r' \<noteq> r" for r'
    using that by (simp add: guard_ok_def same wakes_def)
  then show ?thesis
    using assms by (simp add: guards_ok_def same)
qed

lemma guards_ok_fix:
  "guards_ok sync fixed nxt flight guards owned \<Longrightarrow> guards_ok sync (outcome_of sync guards) nxt flight guards owned"
  by (simp add: guards_ok_def)

end

section \<open>Requests in flight\<close>

definition request_entry :: "'p new_outgoing_request \<Rightarrow> io_id \<times> guard_ref" where
  "request_entry request = (rt_io_id (no_ticket request), no_guard request)"

text \<open>A request in flight is in the map of pending requests or, once, in the channel.\<close>

definition in_flight ::
  "(io_id \<rightharpoonup> guard_ref) \<Rightarrow> 'p new_outgoing_request list \<Rightarrow> (io_id \<times> guard_ref) set \<Rightarrow> bool" where
  "in_flight pending requests flight \<longleftrightarrow>
     flight = Map.graph pending \<union> set (map request_entry requests) \<and>
     Map.graph pending \<inter> set (map request_entry requests) = {} \<and> distinct (map request_entry requests)"

lemma in_flight_empty: "in_flight Map.empty [] {}"
  by (simp add: in_flight_def)

lemma in_flight_send:
  "in_flight pending requests flight \<Longrightarrow> request_entry request \<notin> flight \<Longrightarrow>
     in_flight pending (requests @ [request]) (insert (request_entry request) flight)"
  by (auto simp: in_flight_def)

lemma in_flight_discard:
  "in_flight pending (request # requests) flight \<Longrightarrow> in_flight pending requests (flight - {request_entry request})"
  by (auto simp: in_flight_def)

lemma in_flight_accept:
  assumes "in_flight pending (request # requests) flight" and "inj_on fst flight"
  shows "in_flight (pending(rt_io_id (no_ticket request) \<mapsto> no_guard request)) requests flight"
proof -
  obtain x r where entry: "request_entry request = (x, r)"
    by (cases "request_entry request")
  have "(x, r') \<notin> Map.graph pending" for r'
    using assms(1) inj_onD [OF assms(2), of "(x, r)" "(x, r')"] entry by (auto simp: in_flight_def)
  then have "pending x = None"
    by (meson in_graphI not_None_eq)
  then have "Map.graph (pending(x \<mapsto> r)) = insert (x, r) (Map.graph pending)"
    by (auto simp: Map.graph_def split: if_splits)
  then show ?thesis
    using assms(1) entry by (auto simp: in_flight_def request_entry_def)
qed

lemma graph_remove: "pending x = Some r \<Longrightarrow> Map.graph (pending(x := None)) = Map.graph pending - {(x, r)}"
  by (auto simp: Map.graph_def split: if_splits)

lemma in_flight_complete:
  assumes "in_flight pending requests flight" and "pending x = Some r"
  shows "in_flight (pending(x := None)) requests (flight - {(x, r)})" and "(x, r) \<in> flight"
proof -
  have graph: "(x, r) \<in> Map.graph pending"
    using assms(2) by (rule in_graphI)
  show "in_flight (pending(x := None)) requests (flight - {(x, r)})"
    using assms(1) graph graph_remove [of pending x r, OF assms(2)] by (auto simp: in_flight_def)
  show "(x, r) \<in> flight"
    using assms(1) graph by (auto simp: in_flight_def)
qed

section \<open>Timeouts\<close>

lemma timeouts_loop_rules:
  "srv_timeouts self = [] \<Longrightarrow> timeouts_loop env now n self shared = Some (n, self, shared)"
  "srv_timeouts self = (t, x) # timeouts \<Longrightarrow> now < t \<Longrightarrow> timeouts_loop env now n self shared = Some (n, self, shared)"
  "srv_timeouts self = (t, x) # timeouts \<Longrightarrow> t \<le> now \<Longrightarrow> srv_pending self x = None \<Longrightarrow>
     timeouts_loop env now n self shared = timeouts_loop env now n (self\<lparr>srv_timeouts := timeouts\<rparr>) shared"
  "srv_timeouts self = (t, x) # timeouts \<Longrightarrow> t \<le> now \<Longrightarrow> srv_pending self x = Some r \<Longrightarrow>
     timeouts_loop env now n self shared = timeouts_loop env now (Suc n)
       (self\<lparr>srv_timeouts := timeouts, srv_pending := (srv_pending self)(x := None)\<rparr>)
       (snd (via_handle (enqueue_request_cancellation (env_send env) x)
         (set_guard env r (Inl RequestTimedOut) shared)))"
proof -
  have same: "srv_timeouts self = timeouts \<Longrightarrow> self\<lparr>srv_timeouts := timeouts\<rparr> = self" for timeouts
    by (cases self) simp
  note step = timeouts_loop.simps [of env now n self shared]
  show "srv_timeouts self = [] \<Longrightarrow> timeouts_loop env now n self shared = Some (n, self, shared)"
    and "srv_timeouts self = (t, x) # timeouts \<Longrightarrow> now < t \<Longrightarrow> timeouts_loop env now n self shared = Some (n, self, shared)"
    by (simp_all add: step same)
  show "srv_timeouts self = (t, x) # timeouts \<Longrightarrow> t \<le> now \<Longrightarrow> srv_pending self x = None \<Longrightarrow>
     timeouts_loop env now n self shared = timeouts_loop env now n (self\<lparr>srv_timeouts := timeouts\<rparr>) shared"
    and "srv_timeouts self = (t, x) # timeouts \<Longrightarrow> t \<le> now \<Longrightarrow> srv_pending self x = Some r \<Longrightarrow>
     timeouts_loop env now n self shared = timeouts_loop env now (Suc n)
       (self\<lparr>srv_timeouts := timeouts, srv_pending := (srv_pending self)(x := None)\<rparr>)
       (snd (via_handle (enqueue_request_cancellation (env_send env) x)
         (set_guard env r (Inl RequestTimedOut) shared)))"
    by (simp_all add: step Let_def split: prod.split)
qed

text \<open>What every expiry keeps, the loop keeps.\<close>

lemma timeouts_loop_invariant:
  assumes "\<And>x r pending shared. pending x = Some r \<Longrightarrow> P pending shared \<Longrightarrow> P (pending(x := None))
      (snd (via_handle (enqueue_request_cancellation (env_send env) x) (set_guard env r (Inl RequestTimedOut) shared)))"
    and "P (srv_pending self) shared"
  shows "\<exists>n' self' shared'. timeouts_loop env now n self shared = Some (n', self', shared') \<and> P (srv_pending self') shared'"
  using assms(2)
proof (induction "srv_timeouts self" arbitrary: n self shared)
  case Nil
  then show ?case
    by (simp add: timeouts_loop_rules)
next
  case (Cons timeout timeouts)
  obtain t x where t: "timeout = (t, x)"
    by (cases timeout)
  note heap = Cons(2) [symmetric, unfolded t]
  consider "now < t" | "t \<le> now" "srv_pending self x = None" | r where "t \<le> now" "srv_pending self x = Some r"
    by fastforce
  then show ?case
  proof cases
    case 1
    then show ?thesis
      using Cons.prems heap by (simp add: timeouts_loop_rules)
  next
    case 2
    then show ?thesis
      using Cons.hyps(1) [of "self\<lparr>srv_timeouts := timeouts\<rparr>" shared n] Cons.prems heap by (simp add: timeouts_loop_rules)
  next
    case (3 r)
    let ?self = "self\<lparr>srv_timeouts := timeouts, srv_pending := (srv_pending self)(x := None)\<rparr>"
    have "P (srv_pending ?self) (snd (via_handle (enqueue_request_cancellation (env_send env) x)
        (set_guard env r (Inl RequestTimedOut) shared)))"
      using assms(1) [OF 3(2) Cons.prems] by simp
    from Cons.hyps(1) [OF _ this, of "Suc n"] show ?thesis
      using 3 heap by (simp add: timeouts_loop_rules)
  qed
qed

section \<open>The invariant of the layer\<close>

definition rpc_ok ::
  "('m, 'c, 'n, 's, 'p, 'tx, 'q) rpc_env \<Rightarrow> (guard_ref \<rightharpoonup> request_outcome) \<Rightarrow> (io_id \<rightharpoonup> guard_ref)
   \<Rightarrow> 'p new_outgoing_request list \<Rightarrow> ('c, 'n, 's, 'p, 'tx, 'q) rpc_shared \<Rightarrow> guard_ref set \<Rightarrow> bool" where
  "rpc_ok env fixed pending requests shared owned \<longleftrightarrow>
     (\<exists>flight. in_flight pending requests flight
        \<and> guards_ok (env_sync env) fixed (rh_next_io_id (sh_request_handle shared)) flight (sh_guards shared) owned)"

definition rpc_inv ::
  "('m, 'c, 'n, 's, 'p, 'tx, 'q) rpc_env \<Rightarrow> ('q \<Rightarrow> 'p new_outgoing_request list)
   \<Rightarrow> (guard_ref \<rightharpoonup> request_outcome) \<Rightarrow> (io_id \<rightharpoonup> guard_ref)
   \<Rightarrow> ('c, 'n, 's, 'p, 'tx, 'q) rpc_shared \<Rightarrow> guard_ref set \<Rightarrow> bool" where
  "rpc_inv env queued fixed pending shared owned \<longleftrightarrow>
     rpc_ok env fixed pending (queued (sh_new_requests shared)) shared owned"

text \<open>The parts of the shared state that the invariant does not depend on.\<close>

lemma rpc_ok_cong:
  "sh_guards shared' = sh_guards shared \<Longrightarrow>
   rh_next_io_id (sh_request_handle shared') = rh_next_io_id (sh_request_handle shared) \<Longrightarrow>
   rpc_ok env fixed pending requests shared' owned = rpc_ok env fixed pending requests shared owned"
  by (simp add: rpc_ok_def)

lemma via_handle_simps:
  assumes "via_handle f shared = (res, shared')"
  shows "sh_guards shared' = sh_guards shared" "sh_new_requests shared' = sh_new_requests shared"
    "sh_released shared' = sh_released shared"
    "rh_next_io_id (sh_request_handle shared') = rh_next_io_id (sh_request_handle shared)"
    "rh_buffered_requests (sh_request_handle shared') = rh_buffered_requests (sh_request_handle shared)"
    "res = fst (f (downgrade (sh_request_handle shared)))"
  using assms by (auto simp: via_handle_def split: prod.splits)

lemma via_handle_snd [simp]:
  "sh_guards (snd (via_handle f shared)) = sh_guards shared"
  "sh_new_requests (snd (via_handle f shared)) = sh_new_requests shared"
  "sh_released (snd (via_handle f shared)) = sh_released shared"
  "rh_next_io_id (sh_request_handle (snd (via_handle f shared))) = rh_next_io_id (sh_request_handle shared)"
  by (simp_all add: via_handle_def split: prod.split)

lemma set_guard_simps [simp]:
  "sh_new_requests (set_guard env r v shared) = sh_new_requests shared"
  "sh_request_handle (set_guard env r v shared) = sh_request_handle shared"
  "sh_released (set_guard env r v shared) = sh_released shared"
  "sh_guards (set_guard env r v shared) = notify_guard (env_sync env) r v (sh_guards shared)"
  by (simp_all add: set_guard_def)

lemma release_simps [simp]:
  "sh_new_requests (release ticket shared) = sh_new_requests shared"
  "sh_request_handle (release ticket shared) = sh_request_handle shared"
  "sh_guards (release ticket shared) = sh_guards shared"
  by (simp_all add: release_def)

locale rpc_layer =
  once_notify "env_sync env" + unbounded_channel "env_channel env" queued closed
  for env :: "('m, 'c, 'n, 's, 'p, 'tx, 'q) rpc_env"
    and queued :: "'q \<Rightarrow> 'p new_outgoing_request list" and closed :: "'q \<Rightarrow> bool"
begin

lemma rpc_ok_complete:
  assumes "rpc_ok env fixed pending requests shared owned" and "pending x = Some r"
  shows "rpc_ok env fixed (pending(x := None)) requests (set_guard env r v shared) owned"
  using assms in_flight_complete [of pending requests _ x r] guards_ok_resolve
  unfolding rpc_ok_def by fastforce

lemma rpc_ok_discard:
  assumes "rpc_ok env fixed pending (request # requests) shared owned"
  shows "rpc_ok env fixed pending requests (set_guard env (no_guard request) v shared) owned"
proof -
  obtain flight where flight: "in_flight pending (request # requests) flight"
    "guards_ok (env_sync env) fixed (rh_next_io_id (sh_request_handle shared)) flight (sh_guards shared) owned"
    using assms by (auto simp: rpc_ok_def)
  moreover have "(rt_io_id (no_ticket request), no_guard request) \<in> flight"
    using flight(1) by (auto simp: in_flight_def request_entry_def)
  ultimately show ?thesis
    using guards_ok_resolve [of fixed _ flight] in_flight_discard [OF flight(1)]
    by (auto simp: rpc_ok_def request_entry_def)
qed

lemma rpc_ok_accept:
  assumes "rpc_ok env fixed pending (request # requests) shared owned"
  shows "rpc_ok env fixed (pending(rt_io_id (no_ticket request) \<mapsto> no_guard request)) requests shared owned"
  using assms in_flight_accept by (fastforce simp: rpc_ok_def guards_ok_def)

end

section \<open>What the operations of the server keep\<close>

text \<open>
  A property of the pending requests, the requests in the channel and the shared state that is kept when a
  request is accepted by the core or refused, when one is completed, and when a cancellation is queued
  is kept by the loop of the server and by its drop.
\<close>

locale rpc_invariant = rpc_layer env queued closed
  for env :: "('m, 'c, 'n, 's, 'p, 'tx, 'q) rpc_env"
    and queued :: "'q \<Rightarrow> 'p new_outgoing_request list" and closed :: "'q \<Rightarrow> bool" +
  fixes P :: "(io_id \<rightharpoonup> guard_ref) \<Rightarrow> 'p new_outgoing_request list \<Rightarrow> ('c, 'n, 's, 'p, 'tx, 'q) rpc_shared \<Rightarrow> bool"
  assumes complete: "P pending requests shared \<Longrightarrow> pending x = Some r \<Longrightarrow> P (pending(x := None)) requests (set_guard env r v shared)"
    and discard: "P pending (request # requests) shared \<Longrightarrow>
      P pending requests (set_guard env (no_guard request) v (release (no_ticket request) shared))"
    and accept: "P pending (request # requests) shared \<Longrightarrow>
      via_handle (enqueue_request (env_send env) (no_ticket request) payload) shared = (Inr x, shared') \<Longrightarrow>
      P (pending(rt_io_id (no_ticket request) \<mapsto> no_guard request)) requests shared'"
    and refuse: "P pending (request # requests) shared \<Longrightarrow>
      via_handle (enqueue_request (env_send env) (no_ticket request) payload) shared = (Inl x', shared') \<Longrightarrow>
      P pending (request # requests) shared'"
    and cancelled: "P pending requests shared \<Longrightarrow>
      P pending requests (snd (via_handle (enqueue_request_cancellation (env_send env) x) shared))"
    and channel: "P pending requests (shared\<lparr>sh_new_requests := q\<rparr>) = P pending requests shared"
begin

lemma keeps_new_request:
  assumes "new_request_stage env request self shared = (self', shared')"
    and "P (srv_pending self) (request # requests) shared"
  shows "P (srv_pending self') requests shared'" and "sh_new_requests shared' = sh_new_requests shared"
proof -
  obtain res shared1 where sent:
    "via_handle (enqueue_request (env_send env) (no_ticket request) (no_payload request)) shared = (res, shared1)"
    by fastforce
  note [simp] = via_handle_simps(2) [OF sent]
  have "P (srv_pending self') requests shared' \<and> sh_new_requests shared' = sh_new_requests shared"
  proof (cases res)
    case (Inl payload)
    then show ?thesis
      using assms(1) sent discard [OF refuse [OF assms(2)]] by (auto simp: new_request_stage_def)
  next
    case (Inr ioid)
    then have "ioid = rt_io_id (no_ticket request)"
      using via_handle_simps(6) [OF sent] by (auto simp: enqueue_request_def split: prod.splits sum.splits)
    then show ?thesis
      using assms(1) sent Inr accept [OF assms(2), of "no_payload request" ioid shared1]
      by (auto simp: new_request_stage_def Let_def split: option.splits dest: via_handle_simps(2))
  qed
  then show "P (srv_pending self') requests shared'" "sh_new_requests shared' = sh_new_requests shared"
    by simp_all
qed

lemma keeps_timeouts:
  assumes "process_timeouts env now self shared = Some (deadline, n, self', shared')"
    and "P (srv_pending self) requests shared"
  shows "P (srv_pending self') requests shared'" and "sh_new_requests shared' = sh_new_requests shared"
proof -
  have "\<exists>n' self' shared'. timeouts_loop env now 0 self shared = Some (n', self', shared')
      \<and> P (srv_pending self') requests shared' \<and> sh_new_requests shared' = sh_new_requests shared"
    by (rule timeouts_loop_invariant [where P = "\<lambda>pending sh. P pending requests sh \<and> sh_new_requests sh = sh_new_requests shared"])
       (use assms(2) cancelled complete in auto)
  then show "P (srv_pending self') requests shared'" "sh_new_requests shared' = sh_new_requests shared"
    using assms(1) by (auto simp: process_timeouts_def split: Option.bind_splits)
qed

lemma keeps_pending:
  assumes "complete_pending env x v self shared = (self', shared')" and "P (srv_pending self) requests shared"
  shows "P (srv_pending self') requests shared'" and "sh_new_requests shared' = sh_new_requests shared"
  using assms complete by (auto simp: complete_pending_def split: option.splits)

lemma keeps_core_event:
  assumes "core_event_stage env res self shared = (control, self', shared')" and "P (srv_pending self) requests shared"
  shows "P (srv_pending self') requests shared'" and "sh_new_requests shared' = sh_new_requests shared"
  using assms keeps_pending
  by (auto simp: core_event_stage_def split: sum.splits option.splits io_event.splits)

lemma keeps_select:
  assumes "rpc_select_stage env it self shared = Some (control, self', shared')"
    and "P (srv_pending self) (queued (sh_new_requests shared)) shared"
  shows "P (srv_pending self') (queued (sh_new_requests shared')) shared'
    \<and> closed (sh_new_requests shared') = closed (sh_new_requests shared)"
proof -
  obtain res core where core: "(case it_core it of Some inputs \<Rightarrow> next_event (env_requests env) inputs (srv_core self)
      | None \<Rightarrow> Some (None, srv_core self)) = Some (res, core)"
    using assms(1) by (auto simp: rpc_select_stage_def split: Option.bind_splits)
  obtain got q where got: "mpsc_recv (env_channel env) (sh_new_requests shared) = (got, q)"
    by fastforce
  let ?self = "self\<lparr>srv_core := core\<rparr>" and ?shared = "shared\<lparr>sh_new_requests := q\<rparr>"
  have recv: "case got of None \<Rightarrow> queued q = queued (sh_new_requests shared)
      | Some None \<Rightarrow> queued (sh_new_requests shared) = queued q
      | Some (Some request) \<Rightarrow> queued (sh_new_requests shared) = request # queued q"
    "closed q = closed (sh_new_requests shared)"
    using recv_queued [of "sh_new_requests shared"] closed_recv [of "sh_new_requests shared"] got
    by (auto split: option.splits)
  have ok: "P (srv_pending ?self) (queued (sh_new_requests shared)) ?shared"
    using assms(2) by (simp add: channel)
  have selected: "(case res of
        Some event_result \<Rightarrow> core_event_stage env event_result ?self shared
      | None \<Rightarrow> (case it_branch it of
          TimeoutCheck \<Rightarrow> (LoopAgain, ?self, shared)
        | NewRequestBranch \<Rightarrow> (case got of
            None \<Rightarrow> (LoopWaits, ?self, ?shared)
          | Some None \<Rightarrow> (LoopReturn (Inr None), ?self, ?shared)
          | Some (Some request) \<Rightarrow> (LoopAgain, new_request_stage env request ?self ?shared))
        | NoBranch \<Rightarrow> (LoopWaits, ?self, shared))) = (control, self', shared')"
    using assms(1) unfolding rpc_select_stage_def core got prod.case by (simp add: Let_def)
  consider event_result where "res = Some event_result" | "res = None" "shared' = shared" "srv_pending self' = srv_pending self"
    | "res = None" "shared' = ?shared" "srv_pending self' = srv_pending self" "got = None \<or> got = Some None"
    | request where "got = Some (Some request)" "new_request_stage env request ?self ?shared = (self', shared')"
    using selected by (auto split: select_branch.splits option.splits)
  then show ?thesis
  proof cases
    case (1 event_result)
    then show ?thesis
      using assms(2) selected keeps_core_event [of event_result ?self shared control self' shared'] by simp
  next
    case (4 request)
    then show ?thesis
      using keeps_new_request [OF 4(2), of "queued q"] ok recv by simp
  qed (use assms(2) ok recv in \<open>auto split: option.splits\<close>)
qed

lemma keeps_iterate:
  assumes "rpc_iterate env it self shared = Some (control, self', shared')"
    and "P (srv_pending self) (queued (sh_new_requests shared)) shared"
  shows "P (srv_pending self') (queued (sh_new_requests shared')) shared'
    \<and> closed (sh_new_requests shared') = closed (sh_new_requests shared)"
proof -
  obtain deadline n self1 shared1 where timeouts:
    "process_timeouts env (it_now it) self shared = Some (deadline, n, self1, shared1)"
    using assms(1) by (auto simp: rpc_iterate_def split: Option.bind_splits)
  note ok = keeps_timeouts [OF timeouts assms(2)]
  then show ?thesis
    using assms(1) timeouts keeps_select [of it self1 shared1 control self' shared']
    by (auto simp: rpc_iterate_def split: if_splits)
qed

text \<open>Dropping the server.\<close>

lemma keeps_drain:
  assumes "P pending (queued (sh_new_requests shared)) shared"
  shows "\<exists>shared'. drain_new_requests env shared = Some shared' \<and> P pending (queued (sh_new_requests shared')) shared'
    \<and> queued (sh_new_requests shared') = [] \<and> closed (sh_new_requests shared') = closed (sh_new_requests shared)"
  using assms
proof (induction "queued (sh_new_requests shared)" arbitrary: shared)
  case Nil
  obtain q where "mpsc_try_recv (env_channel env) (sh_new_requests shared) = (None, q)" "queued q = []"
      "closed q = closed (sh_new_requests shared)"
    using Nil(1) try_recv_queued [of "sh_new_requests shared"] closed_try_recv [of "sh_new_requests shared"]
    by (auto split: prod.splits option.splits)
  then show ?case
    using Nil by (subst drain_new_requests.simps) (simp add: channel)
next
  case (Cons request requests)
  obtain q where recv: "mpsc_try_recv (env_channel env) (sh_new_requests shared) = (Some request, q)"
      "queued q = requests" "closed q = closed (sh_new_requests shared)"
    using Cons(2) try_recv_queued [of "sh_new_requests shared"] closed_try_recv [of "sh_new_requests shared"]
    by (auto split: prod.splits option.splits)
  let ?shared = "set_guard env (no_guard request) (Inl (RequestRemoteClosed (no_payload request)))
      (release (no_ticket request) (shared\<lparr>sh_new_requests := q\<rparr>))"
  have "P pending (request # requests) (shared\<lparr>sh_new_requests := q\<rparr>)"
    using Cons.prems Cons(2) by (simp add: channel)
  from discard [OF this] have "P pending requests ?shared" .
  with Cons.hyps(1) [of ?shared] recv show ?case
    by (subst drain_new_requests.simps) simp
qed

lemma keeps_shutdown:
  assumes "P pending requests shared" and "set drained = Map.graph pending" and "distinct drained"
  shows "P Map.empty requests (fold (\<lambda>(_, guard) shared. set_guard env guard (Inl RequestShutdown) shared) drained shared)
    \<and> sh_new_requests (fold (\<lambda>(_, guard) shared. set_guard env guard (Inl RequestShutdown) shared) drained shared)
      = sh_new_requests shared"
  using assms
proof (induction drained arbitrary: pending shared)
  case Nil
  then have "pending = Map.empty"
    by (metis Map.graph_empty empty_set in_graphI emptyE ext not_None_eq)
  then show ?case
    using Nil by simp
next
  case (Cons entry drained)
  obtain x r where entry: "entry = (x, r)"
    by (cases entry)
  then have pending: "pending x = Some r"
    using Cons.prems(2) by (metis in_graphD list.set_intros(1))
  have drained: "set drained = Map.graph (pending(x := None))"
    using Cons.prems(2,3) entry graph_remove [of pending x r, OF pending] by auto
  have "P (pending(x := None)) requests (set_guard env r (Inl RequestShutdown) shared)"
    using Cons.prems(1) pending by (rule complete)
  from Cons.IH [OF this drained] show ?case
    using Cons.prems(3) entry by simp
qed

lemma keeps_drop:
  assumes "P pending (queued (sh_new_requests shared)) shared" and "set drained = Map.graph pending" and "distinct drained"
  shows "\<exists>shared'. server_drop env drained shared = Some shared' \<and> P Map.empty (queued (sh_new_requests shared')) shared'
    \<and> queued (sh_new_requests shared') = [] \<and> closed (sh_new_requests shared')"
proof -
  let ?shared = "shared\<lparr>sh_new_requests := mpsc_close (env_channel env) (sh_new_requests shared)\<rparr>"
  let ?folded = "fold (\<lambda>(_, guard) shared. set_guard env guard (Inl RequestShutdown) shared) drained ?shared"
  have "P pending (queued (sh_new_requests shared)) ?shared"
    using assms(1) by (simp add: channel)
  note folded = keeps_shutdown [OF this assms(2,3)]
  then have "P Map.empty (queued (sh_new_requests ?folded)) ?folded"
    by (simp add: queued_close)
  from keeps_drain [OF this] show ?thesis
    using folded by (auto simp: server_drop_def Let_def closed_close)
qed

end

text \<open>The invariant of the guards is such a property.\<close>

sublocale rpc_layer \<subseteq> guards: rpc_invariant env queued closed "\<lambda>pending requests shared. rpc_ok env fixed pending requests shared owned"
  for fixed owned
proof
  fix pending requests request v x x' r payload q and shared shared' :: "('c, 'n, 's, 'p, 'tx, 'q) rpc_shared"
  show "rpc_ok env fixed pending requests shared owned \<Longrightarrow> pending x = Some r \<Longrightarrow>
      rpc_ok env fixed (pending(x := None)) requests (set_guard env r v shared) owned"
    by (rule rpc_ok_complete)
  show "rpc_ok env fixed pending (request # requests) shared owned \<Longrightarrow>
      rpc_ok env fixed pending requests (set_guard env (no_guard request) v (release (no_ticket request) shared)) owned"
    by (rule rpc_ok_discard) (simp add: rpc_ok_cong [of "release (no_ticket request) shared" shared])
  show "rpc_ok env fixed pending (request # requests) shared owned \<Longrightarrow>
      via_handle (enqueue_request (env_send env) (no_ticket request) payload) shared = (Inr x, shared') \<Longrightarrow>
      rpc_ok env fixed (pending(rt_io_id (no_ticket request) \<mapsto> no_guard request)) requests shared' owned"
    by (rule rpc_ok_accept) (simp add: rpc_ok_cong [of shared' shared] via_handle_simps)
  show "rpc_ok env fixed pending (request # requests) shared owned \<Longrightarrow>
      via_handle (enqueue_request (env_send env) (no_ticket request) payload) shared = (Inl x', shared') \<Longrightarrow>
      rpc_ok env fixed pending (request # requests) shared' owned"
    by (simp add: rpc_ok_cong [of shared' shared] via_handle_simps)
  show "rpc_ok env fixed pending requests shared owned \<Longrightarrow>
      rpc_ok env fixed pending requests (snd (via_handle (enqueue_request_cancellation (env_send env) x) shared)) owned"
    by (simp add: rpc_ok_def)
  show "rpc_ok env fixed pending requests (shared\<lparr>sh_new_requests := q\<rparr>) owned = rpc_ok env fixed pending requests shared owned"
    by (simp add: rpc_ok_def)
qed

context rpc_layer
begin

lemma rpc_iterate_ok:
  assumes "rpc_iterate env it self shared = Some (control, self', shared')"
    and "rpc_inv env queued fixed (srv_pending self) shared owned"
  shows "rpc_inv env queued fixed (srv_pending self') shared' owned
    \<and> closed (sh_new_requests shared') = closed (sh_new_requests shared)"
  using guards.keeps_iterate [OF assms(1)] assms(2) by (simp add: rpc_inv_def)

lemma server_drop_ok:
  assumes "rpc_inv env queued fixed pending shared owned" and "set drained = Map.graph pending" and "distinct drained"
  shows "\<exists>shared'. server_drop env drained shared = Some shared' \<and> rpc_inv env queued fixed Map.empty shared' owned
    \<and> queued (sh_new_requests shared') = [] \<and> closed (sh_new_requests shared')"
  using guards.keeps_drop [OF _ assms(2,3)] assms(1) by (simp add: rpc_inv_def)

end

end
