(* ===== verification/Rpc_System.thy ===== *)
theory Rpc_System
  imports Rpc_Inv
begin

text \<open>
  The RPC layer in use: clients that queue requests, the loop of the server, its drop, incoming requests
  that are answered, and the application that waits for outcomes, interleaved in any order. Every guard
  that the application holds is resolved, once.
\<close>

section \<open>Queueing requests\<close>

text \<open>When a request expires; on the left a timeout beyond the end of the clock.\<close>

definition expiry ::
  "('m, 'c, 'n, 's, 'p, 'tx, 'q) rpc_env \<Rightarrow> instant \<Rightarrow> rpc_request_builder \<Rightarrow> duration + instant option" where
  "expiry env now rb = (case rb_timeout rb of
       None \<Rightarrow> Inr None
     | Some timeout \<Rightarrow> if env_instant_max env < now + timeout then Inl timeout else Inr (Some (now + timeout)))"

definition with_guard ::
  "('m, 'c, 'n, 's, 'p, 'tx, 'q) rpc_env \<Rightarrow> ('c, 'n, 's, 'p, 'tx, 'q) rpc_shared
   \<Rightarrow> ('c, 'n, 's, 'p, 'tx, 'q) rpc_shared" where
  "with_guard env shared = shared\<lparr>sh_guards := sh_guards shared @ [request_guard_inner_new (env_sync env)]\<rparr>"

lemma do_enqueue_request_eq:
  "do_enqueue_request env now ticket rb shared = (case expiry env now rb of
     Inl timeout \<Rightarrow> new_error_guard env (RequestTimeoutOverflow timeout) (release ticket (with_guard env shared))
   | Inr expires \<Rightarrow>
       (case mpsc_send (env_channel env) \<lparr>no_ticket = ticket, no_guard = length (sh_guards shared),
               no_payload = rb_payload rb, no_expires = expires\<rparr> (sh_new_requests shared) of
          (Inr _, q) \<Rightarrow> Some (length (sh_guards shared), (with_guard env shared)\<lparr>sh_new_requests := q\<rparr>)
        | (Inl request, q) \<Rightarrow> new_error_guard env (RequestRemoteClosed (no_payload request))
            (release (no_ticket request) ((with_guard env shared)\<lparr>sh_new_requests := q\<rparr>))))"
  unfolding do_enqueue_request_def with_guard_def
  by (simp add: arc_new_def Let_def instant_checked_add_def expiry_def split: option.split)

lemma reserve_request_cases:
  assumes "reserve_request acquire ch self = Some (reserved, self')"
  shows "rh_next_io_id self' = rh_next_io_id self + (if reserved = None then 0 else 1)"
    and "reserved = Some ticket \<Longrightarrow> rt_io_id ticket = IoId (rh_next_io_id self)"
  using assms by (auto simp: reserve_request_def fetch_add_io_id_def Let_def split: Option.bind_splits prod.splits sum.splits)

lemma try_reserve_request_cases:
  assumes "try_reserve_request try_acquire ch self = Some (reserved, self')"
  shows "rh_next_io_id self' = rh_next_io_id self + (if isl reserved then 0 else 1)"
    and "reserved = Inr ticket \<Longrightarrow> rt_io_id ticket = IoId (rh_next_io_id self)"
  using assms by (auto simp: try_reserve_request_def fetch_add_io_id_def Let_def
      split: Option.bind_splits prod.splits sum.splits try_acquire_error.splits)

section \<open>Answering requests\<close>

lemma discard_closed_item [simp]: "discard_closed (fst (enqueue_item send item h)) = Some ()"
  by (simp add: discard_closed_def enqueue_item_def split: prod.splits sum.splits)

lemma incoming_do_cancel_eq:
  "incoming_do_cancel env self shared = Some (self\<lparr>ir_handle := None\<rparr>,
     if ir_handle self = None then shared
     else snd (via_handle (enqueue_response_cancellation (env_send env) (ir_channel self) (ir_id self)) shared))"
  using via_handle_simps(6) [of "enqueue_response_cancellation (env_send env) (ir_channel self) (ir_id self)" shared]
  by (auto simp: incoming_do_cancel_def enqueue_response_cancellation_def split: option.split prod.split)

lemma incoming_eqs:
  "incoming_drop env self shared = Some (if ir_handle self = None then shared
     else snd (via_handle (enqueue_response_cancellation (env_send env) (ir_channel self) (ir_id self)) shared))"
  "incoming_cancel env self shared = Some (if ir_handle self = None then shared
     else snd (via_handle (enqueue_response_cancellation (env_send env) (ir_channel self) (ir_id self)) shared))"
  "incoming_respond env payload self shared = Some (if ir_handle self = None then shared
     else snd (via_handle (enqueue_response (env_send env) (ir_channel self) (ir_id self) payload) shared))"
  using via_handle_simps(6) [of "enqueue_response (env_send env) (ir_channel self) (ir_id self) payload" shared]
  by (auto simp: incoming_drop_def incoming_cancel_def incoming_respond_def incoming_do_cancel_eq
      enqueue_response_def split: option.split prod.split)

section \<open>The invariant\<close>

lemma increment_less: "unat (x :: u64) + 1 < 2 ^ 64 \<Longrightarrow> x < x + 1"
  by (simp add: word_less_nat_alt unat_word_ariths take_bit_nat_eq_self)

context rpc_layer
begin

lemma new_error_guard_ok:
  assumes "rpc_ok env fixed pending requests shared owned"
  shows "\<exists>shared'. new_error_guard env e shared = Some (length (sh_guards shared), shared')
    \<and> rpc_ok env fixed pending requests shared' (insert (length (sh_guards shared)) owned)
    \<and> sh_new_requests shared' = sh_new_requests shared \<and> sh_request_handle shared' = sh_request_handle shared
    \<and> sh_released shared' = sh_released shared
    \<and> outcome_of (env_sync env) (sh_guards shared') (length (sh_guards shared)) = Some (Inl e)"
proof -
  obtain g where g: "request_guard_new_error (env_sync env) e (sh_guards shared)
      = Some (length (sh_guards shared), sh_guards shared @ [g])"
      "cell_get (env_sync env) (rg_outcome g) = Some (Inl e)" "rg_ready g = None"
    using new_error_eq [OF once_notify_axioms] by blast
  let ?shared = "shared\<lparr>sh_guards := sh_guards shared @ [g]\<rparr>"
  have outcome: "outcome_of (env_sync env) (sh_guards shared @ [g]) (length (sh_guards shared)) = Some (Inl e)"
    using g(2) by (simp add: outcome_append)
  obtain flight where "in_flight pending requests flight"
      "guards_ok (env_sync env) fixed (rh_next_io_id (sh_request_handle shared)) flight (sh_guards shared) owned"
    using assms by (auto simp: rpc_ok_def)
  then have "rpc_ok env fixed pending requests ?shared (insert (length (sh_guards shared)) owned)"
    using guards_ok_own_resolved [OF guards_ok_append outcome] g(3) by (auto simp: rpc_ok_def)
  then show ?thesis
    using g(1) outcome by (simp add: new_error_guard_def)
qed

text \<open>The three ways through \<^verbatim>\<open>do_enqueue_request\<close>.\<close>

lemma do_enqueue_request_cases:
  obtains (overflow) timeout where "expiry env now rb = Inl timeout"
      "do_enqueue_request env now ticket rb shared =
         new_error_guard env (RequestTimeoutOverflow timeout) (release ticket (with_guard env shared))"
  | (refused) expires q where "expiry env now rb = Inr expires" "closed (sh_new_requests shared)" "closed q"
      "queued q = queued (sh_new_requests shared)"
      "do_enqueue_request env now ticket rb shared =
         new_error_guard env (RequestRemoteClosed (rb_payload rb))
           (release ticket ((with_guard env shared)\<lparr>sh_new_requests := q\<rparr>))"
  | (queued) expires q where "expiry env now rb = Inr expires" "\<not> closed (sh_new_requests shared)" "\<not> closed q"
      "queued q = queued (sh_new_requests shared) @ [\<lparr>no_ticket = ticket, no_guard = length (sh_guards shared),
         no_payload = rb_payload rb, no_expires = expires\<rparr>]"
      "do_enqueue_request env now ticket rb shared =
         Some (length (sh_guards shared), (with_guard env shared)\<lparr>sh_new_requests := q\<rparr>)"
proof (cases "expiry env now rb")
  case (Inl timeout)
  then show thesis
    using overflow by (auto simp: do_enqueue_request_eq)
next
  case (Inr expires)
  let ?request = "\<lparr>no_ticket = ticket, no_guard = length (sh_guards shared), no_payload = rb_payload rb, no_expires = expires\<rparr>"
  obtain res q where q: "mpsc_send (env_channel env) ?request (sh_new_requests shared) = (res, q)"
    by fastforce
  have "closed q = closed (sh_new_requests shared)"
    using closed_send [of ?request "sh_new_requests shared"] q by simp
  then show thesis
    using refused [OF Inr] queued [OF Inr] send_open [of "sh_new_requests shared" ?request]
      send_closed [of "sh_new_requests shared" ?request] q Inr
    by (cases "closed (sh_new_requests shared)") (auto simp: do_enqueue_request_eq)
qed

lemma do_enqueue_request_ok:
  assumes "rpc_inv env queued fixed pending shared owned"
    and "rh_next_io_id (sh_request_handle shared) < rh_next_io_id h"
    and "rt_io_id ticket = IoId (rh_next_io_id (sh_request_handle shared))"
  shows "\<exists>r shared'. do_enqueue_request env now ticket rb (shared\<lparr>sh_request_handle := h\<rparr>) = Some (r, shared')
    \<and> rpc_inv env queued fixed pending shared' (insert r owned)
    \<and> closed (sh_new_requests shared') = closed (sh_new_requests shared)
    \<and> (closed (sh_new_requests shared) \<longrightarrow> queued (sh_new_requests shared') = queued (sh_new_requests shared))"
proof -
  let ?shared = "shared\<lparr>sh_request_handle := h\<rparr>"
  obtain flight where flight: "in_flight pending (queued (sh_new_requests shared)) flight"
      "guards_ok (env_sync env) fixed (rh_next_io_id (sh_request_handle shared)) flight (sh_guards shared) owned"
    using assms(1) by (auto simp: rpc_inv_def rpc_ok_def)
  note ok = guards_ok_next [OF guards_ok_append [OF flight(2)] less_imp_le [OF assms(2)]]
  have error: ?thesis if "do_enqueue_request env now ticket rb ?shared = new_error_guard env e (release ticket sh)"
      "sh_guards sh = sh_guards (with_guard env ?shared)" "sh_request_handle sh = h"
      "queued (sh_new_requests sh) = queued (sh_new_requests shared)"
      "closed (sh_new_requests sh) = closed (sh_new_requests shared)" for e sh
  proof -
    have "rpc_ok env fixed pending (queued (sh_new_requests shared)) (release ticket sh) owned"
      using flight(1) ok that(2,3) by (auto simp: rpc_ok_def with_guard_def)
    from new_error_guard_ok [OF this, of e] show ?thesis
      using that by (auto simp: rpc_inv_def)
  qed
  show ?thesis
  proof (cases rule: do_enqueue_request_cases [of now rb ticket ?shared])
    case (overflow timeout)
    then show ?thesis
      using error [OF overflow(2)] by (simp add: with_guard_def)
  next
    case (refused expires q)
    then show ?thesis
      using error [OF refused(5)] by (simp add: with_guard_def)
  next
    case (queued expires q)
    let ?request = "\<lparr>no_ticket = ticket, no_guard = length (sh_guards shared), no_payload = rb_payload rb, no_expires = expires\<rparr>"
    have "request_entry ?request \<notin> flight"
      using guards_okD(4) [OF flight(2)] by (force simp: request_entry_def)
    then have "rpc_inv env queued fixed pending ((with_guard env ?shared)\<lparr>sh_new_requests := q\<rparr>) (insert (length (sh_guards shared)) owned)"
      using queued(4) in_flight_send [OF flight(1), of ?request] guards_ok_new [OF flight(2) assms(2)] assms(3)
      by (auto simp: rpc_inv_def rpc_ok_def request_entry_def with_guard_def)
    then show ?thesis
      using queued(2,3,5) by (simp add: with_guard_def)
  qed
qed

lemma queue_for_sending_ok:
  assumes "queue_for_sending env now rb shared = Some (r, shared')"
    and "rpc_inv env queued fixed pending shared owned"
    and "unat (rh_next_io_id (sh_request_handle shared)) + 1 < 2 ^ 64"
  shows "rpc_inv env queued fixed pending shared' (insert r owned)
    \<and> closed (sh_new_requests shared') = closed (sh_new_requests shared)
    \<and> (closed (sh_new_requests shared) \<longrightarrow> queued (sh_new_requests shared') = queued (sh_new_requests shared))"
proof -
  obtain reserved h where reserved:
    "reserve_request (env_acquire env) (rb_channel rb) (sh_request_handle shared) = Some (reserved, h)"
    using assms(1) by (auto simp: queue_for_sending_def split: Option.bind_splits)
  note facts = reserve_request_cases [OF reserved]
  show ?thesis
  proof (cases reserved)
    case None
    then have "rpc_ok env fixed pending (queued (sh_new_requests shared)) (shared\<lparr>sh_request_handle := h\<rparr>) owned"
      using facts(1) assms(2) by (simp add: rpc_inv_def rpc_ok_def)
    from new_error_guard_ok [OF this, of "RequestRemoteClosed (rb_payload rb)"] show ?thesis
      using assms(1) reserved None by (auto simp: queue_for_sending_def rpc_inv_def)
  next
    case (Some ticket)
    then have "rh_next_io_id (sh_request_handle shared) < rh_next_io_id h"
      using facts(1) increment_less [OF assms(3)] by simp
    from do_enqueue_request_ok [OF assms(2) this facts(2) [OF Some], of now rb] show ?thesis
      using assms(1) reserved Some by (auto simp: queue_for_sending_def)
  qed
qed

lemma try_queue_for_sending_ok:
  assumes "try_queue_for_sending env now rb shared = Some (res, shared')"
    and "rpc_inv env queued fixed pending shared owned"
    and "unat (rh_next_io_id (sh_request_handle shared)) + 1 < 2 ^ 64"
  shows "rpc_inv env queued fixed pending shared' (case res of Inl _ \<Rightarrow> owned | Inr r \<Rightarrow> insert r owned)
    \<and> closed (sh_new_requests shared') = closed (sh_new_requests shared)
    \<and> (closed (sh_new_requests shared) \<longrightarrow> queued (sh_new_requests shared') = queued (sh_new_requests shared))"
proof -
  obtain reserved h where reserved:
    "try_reserve_request (env_try_acquire env) (rb_channel rb) (sh_request_handle shared) = Some (reserved, h)"
    using assms(1) by (auto simp: try_queue_for_sending_def split: Option.bind_splits)
  note facts = try_reserve_request_cases [OF reserved]
  show ?thesis
  proof (cases reserved)
    case (Inl e)
    then have ok: "rpc_ok env fixed pending (queued (sh_new_requests shared)) (shared\<lparr>sh_request_handle := h\<rparr>) owned"
      using facts(1) assms(2) by (simp add: rpc_inv_def rpc_ok_def)
    show ?thesis
      using assms(1) reserved Inl ok new_error_guard_ok [OF ok, of "RequestRemoteClosed (rb_payload rb)"]
      by (cases e) (auto simp: try_queue_for_sending_def rpc_inv_def)
  next
    case (Inr ticket)
    then have "rh_next_io_id (sh_request_handle shared) < rh_next_io_id h"
      using facts(1) increment_less [OF assms(3)] by simp
    from do_enqueue_request_ok [OF assms(2) this facts(2) [OF Inr], of now rb] show ?thesis
      using assms(1) reserved Inr by (auto simp: try_queue_for_sending_def)
  qed
qed

lemma incoming_ok:
  assumes "incoming_drop env incoming shared = Some shared' \<or> incoming_cancel env incoming shared = Some shared'
      \<or> incoming_respond env payload incoming shared = Some shared'"
    and "rpc_inv env queued fixed pending shared owned"
  shows "rpc_inv env queued fixed pending shared' owned \<and> sh_new_requests shared' = sh_new_requests shared"
  using assms by (auto simp: incoming_eqs rpc_inv_def rpc_ok_def split: if_splits)

end

section \<open>Steps\<close>

text \<open>
  The state: the server until it is dropped, the shared state, and the guards that the application owns.
  The counter of \<^verbatim>\<open>IoId\<close>s must not wrap around.
\<close>

inductive rpc_step ::
  "('m, 'c, 'n, 's, 'p, 'tx, 'q) rpc_env
   \<Rightarrow> ('m, 'p) juliet_rpc_server option \<times> ('c, 'n, 's, 'p, 'tx, 'q) rpc_shared \<times> guard_ref set
   \<Rightarrow> ('m, 'p) juliet_rpc_server option \<times> ('c, 'n, 's, 'p, 'tx, 'q) rpc_shared \<times> guard_ref set \<Rightarrow> bool"
  for env :: "('m, 'c, 'n, 's, 'p, 'tx, 'q) rpc_env" where
  step_queue: "queue_for_sending env now rb shared = Some (r, shared') \<Longrightarrow>
     unat (rh_next_io_id (sh_request_handle shared)) + 1 < 2 ^ 64 \<Longrightarrow>
     rpc_step env (srv, shared, owned) (srv, shared', insert r owned)"
| step_try_queue: "try_queue_for_sending env now rb shared = Some (res, shared') \<Longrightarrow>
     unat (rh_next_io_id (sh_request_handle shared)) + 1 < 2 ^ 64 \<Longrightarrow>
     rpc_step env (srv, shared, owned) (srv, shared', case res of Inl _ \<Rightarrow> owned | Inr r \<Rightarrow> insert r owned)"
| step_error: "send_custom_error env ch i err shared = (res, shared') \<Longrightarrow>
     rpc_step env (srv, shared, owned) (srv, shared', owned)"
| step_iterate: "rpc_iterate env it self shared = Some (control, self', shared') \<Longrightarrow>
     rpc_step env (Some self, shared, owned) (Some self', shared', owned)"
| step_incoming: "incoming_drop env incoming shared = Some shared' \<or> incoming_cancel env incoming shared = Some shared'
     \<or> incoming_respond env payload incoming shared = Some shared' \<Longrightarrow>
     rpc_step env (srv, shared, owned) (srv, shared', owned)"
| step_drop: "set drained = Map.graph (srv_pending self) \<Longrightarrow> distinct drained \<Longrightarrow>
     server_drop env drained shared = Some shared' \<Longrightarrow>
     rpc_step env (Some self, shared, owned) (None, shared', owned)"
| step_wait: "r \<in> owned \<Longrightarrow> wait_for_response (env_sync env) r (sh_guards shared) = Some (res, guards') \<Longrightarrow>
     rpc_step env (srv, shared, owned)
       (srv, shared\<lparr>sh_guards := guards'\<rparr>, if res = None then owned else owned - {r})"
| step_try_get: "r \<in> owned \<Longrightarrow> try_get_response (env_sync env) r (sh_guards shared) = Some res \<Longrightarrow>
     rpc_step env (srv, shared, owned) (srv, shared, if isl res then owned else owned - {r})"
| step_abandon: "r \<in> owned \<Longrightarrow> guards' \<in> {guard_cancel r (sh_guards shared), guard_forget r (sh_guards shared),
       guard_drop r (sh_guards shared)} \<Longrightarrow>
     rpc_step env (srv, shared, owned) (srv, shared\<lparr>sh_guards := guards'\<rparr>, owned - {r})"

definition pending_of :: "('m, 'p) juliet_rpc_server option \<Rightarrow> io_id \<rightharpoonup> guard_ref" where
  "pending_of srv = (case srv of None \<Rightarrow> Map.empty | Some self \<Rightarrow> srv_pending self)"

fun system_inv ::
  "('m, 'c, 'n, 's, 'p, 'tx, 'q) rpc_env \<Rightarrow> ('q \<Rightarrow> 'p new_outgoing_request list) \<Rightarrow> ('q \<Rightarrow> bool)
   \<Rightarrow> (guard_ref \<rightharpoonup> request_outcome)
   \<Rightarrow> ('m, 'p) juliet_rpc_server option \<times> ('c, 'n, 's, 'p, 'tx, 'q) rpc_shared \<times> guard_ref set \<Rightarrow> bool" where
  "system_inv env queued closed fixed (srv, shared, owned) \<longleftrightarrow>
     rpc_inv env queued fixed (pending_of srv) shared owned \<and>
     (srv = None \<longrightarrow> closed (sh_new_requests shared) \<and> queued (sh_new_requests shared) = [])"

context rpc_layer
begin

lemma step_keeps_inv:
  assumes "rpc_step env sys sys'" and "system_inv env queued closed fixed sys"
  shows "system_inv env queued closed fixed sys'"
  using assms
proof (cases rule: rpc_step.cases)
  case (step_queue now rb shared r shared' srv owned)
  then show ?thesis
    using assms(2) queue_for_sending_ok [OF step_queue(3) _ step_queue(4)] by auto
next
  case (step_try_queue now rb shared res shared' srv owned)
  then show ?thesis
    using assms(2) try_queue_for_sending_ok [OF step_try_queue(3) _ step_try_queue(4)] by auto
next
  case (step_error ch i err shared res shared' srv owned)
  then show ?thesis
    using assms(2) via_handle_simps [of "enqueue_error (env_send env) ch i err" shared]
    by (auto simp: send_custom_error_def rpc_inv_def rpc_ok_def split: prod.splits)
next
  case (step_iterate it self shared control self' shared' owned)
  then show ?thesis
    using assms(2) rpc_iterate_ok [OF step_iterate(3)] by (auto simp: pending_of_def)
next
  case (step_incoming incoming shared shared' payload srv owned)
  then show ?thesis
    using assms(2) incoming_ok [OF step_incoming(3)] by auto
next
  case (step_drop drained self shared shared' owned)
  then show ?thesis
    using assms(2) server_drop_ok [of fixed "srv_pending self" shared owned drained] by (auto simp: pending_of_def)
next
  case (step_wait r owned shared res guards' srv)
  then obtain flight where flight: "in_flight (pending_of srv) (queued (sh_new_requests shared)) flight"
      "guards_ok (env_sync env) fixed (rh_next_io_id (sh_request_handle shared)) flight (sh_guards shared) owned"
    using assms(2) by (auto simp: rpc_inv_def rpc_ok_def)
  have "guards_ok (env_sync env) fixed (rh_next_io_id (sh_request_handle shared)) flight guards'
      (if res = None then owned else owned - {r})"
    using wait_for_response_eq [OF guards_okD(2) [OF flight(2) step_wait(3)]] step_wait(4) flight(2)
      guards_ok_taken [OF flight(2), of r] by (auto split: option.splits)
  then show ?thesis
    using assms(2) step_wait(1,2) flight(1) by (auto simp: rpc_inv_def rpc_ok_def)
next
  case (step_try_get r owned shared res srv)
  then show ?thesis
    using assms(2) guards_ok_subset [of fixed _ _ _ owned "owned - {r}"] by (auto simp: rpc_inv_def rpc_ok_def)
next
  case (step_abandon r owned guards' shared srv)
  then have "guards' = sh_guards shared"
    by (auto simp: guard_cancel_def guard_forget_def guard_drop_def guard_do_cancel_def)
  then show ?thesis
    using assms(2) step_abandon(1,2) guards_ok_subset [of fixed _ _ _ owned "owned - {r}"]
    by (auto simp: rpc_inv_def rpc_ok_def)
qed

end

end
