(* ===== verification/Rpc_Props.thy ===== *)
theory Rpc_Props
  imports Rpc_System Io_Props
begin

text \<open>
  Properties of the RPC layer, for every implementation of the libraries that meets their contracts.
  The witnesses use lists for the channels, counters for the semaphores and \<open>plain_sync\<close> for the guards.
\<close>

declare next_event.simps [simp del]

section \<open>A concrete environment\<close>

definition list_env ::
  "((io_id, channel_id \<times> msg_id) alist_bimap, request_outcome option, bool, nat, unit, unit queued_item list,
    unit new_outgoing_request list \<times> bool) rpc_env" where
  "list_env =
     \<lparr>env_requests = alist_bimap_ops, env_sync = plain_sync, env_semaphore_new = (\<lambda>n. n),
      env_try_acquire = (\<lambda>n. if n = 0 then (Inl AcquireNoPermits, 0) else (Inr (), n - 1)),
      env_acquire = (\<lambda>n. (Inr (), n - 1)),
      env_send = (\<lambda>item items. (Inr (), items @ [item])),
      env_channel = queue_channel, env_instant_max = 10 ^ 20\<rparr>"

lemma list_env_simps [simp]:
  "env_requests list_env = alist_bimap_ops" "env_sync list_env = plain_sync" "env_semaphore_new list_env = (\<lambda>n. n)"
  "env_try_acquire list_env = (\<lambda>n. if n = 0 then (Inl AcquireNoPermits, 0) else (Inr (), n - 1))"
  "env_acquire list_env = (\<lambda>n. (Inr (), n - 1))" "env_send list_env = (\<lambda>item items. (Inr (), items @ [item]))"
  "env_channel list_env = queue_channel" "env_instant_max list_env = 10 ^ 20"
  by (simp_all add: list_env_def)

interpretation list_rpc: rpc_layer list_env fst snd
  by (simp add: rpc_layer_def plain_sync.once_notify_axioms queue_channel.unbounded_channel_axioms)

section \<open>Guards\<close>

context rpc_layer
begin

lemma built_inv:
  assumes "rpc_build env sender new_requests b = (client, server, shared)" and "queued new_requests = []"
  shows "system_inv env queued closed Map.empty (Some server, shared, {})"
proof -
  have "rpc_ok env Map.empty Map.empty [] shared {}"
    unfolding rpc_ok_def by (rule exI [of _ "{}"]) (auto simp: in_flight_empty guards_ok_def)
  then show ?thesis
    using assms by (auto simp: rpc_build_def rpc_inv_def pending_of_def)
qed

lemma steps_keep_inv:
  assumes "(rpc_step env)\<^sup>*\<^sup>* sys sys'" and "system_inv env queued closed fixed sys"
  shows "system_inv env queued closed fixed sys'"
  using assms by (induction rule: rtranclp_induct) (auto intro: step_keeps_inv)

lemma steps_keep_outcome:
  assumes "(rpc_step env)\<^sup>*\<^sup>* (srv, shared, owned) (srv', shared', owned')"
    and "system_inv env queued closed fixed (srv, shared, owned)"
    and "outcome_of (env_sync env) (sh_guards shared) r = Some v"
  shows "outcome_of (env_sync env) (sh_guards shared') r = Some v"
proof -
  have "system_inv env queued closed (outcome_of (env_sync env) (sh_guards shared)) (srv, shared, owned)"
    using assms(2) guards_ok_fix by (auto simp: rpc_inv_def rpc_ok_def)
  from steps_keep_inv [OF assms(1) this] show ?thesis
    using assms(3) guards_okD(1) by (fastforce simp: rpc_inv_def rpc_ok_def)
qed

lemma dropped_resolved:
  assumes "rpc_inv env queued fixed Map.empty shared owned" and "queued (sh_new_requests shared) = []" and "r \<in> owned"
  shows "outcome_of (env_sync env) (sh_guards shared) r \<noteq> None"
  using assms guards_okD(3) by (fastforce simp: rpc_inv_def rpc_ok_def in_flight_def)

lemma owned_ok:
  "rpc_inv env queued fixed pending shared owned \<Longrightarrow> r \<in> owned \<Longrightarrow> guard_ok (env_sync env) (sh_guards shared) r"
  using guards_okD(2) by (fastforce simp: rpc_inv_def rpc_ok_def)

end

text \<open>
  C2: However clients, server, incoming requests and the application interleave, a guard that the application
  holds is in order: \<^verbatim>\<open>wait_for_response\<close> and \<^verbatim>\<open>try_get_response\<close> never panic, both return the outcome once
  it is set and only then, and a set outcome never changes. Nobody waits forever for a server that is
  gone: dropping the server always returns, and afterwards every guard has an outcome, also the guards of
  requests made later.
\<close>

theorem request_guards_resolved:
  assumes "rpc_layer env queued closed"
    and "rpc_build env sender new_requests b = (client, server, shared\<^sub>0)" and "queued new_requests = []"
    and "(rpc_step env)\<^sup>*\<^sup>* (Some server, shared\<^sub>0, {}) (srv, shared, owned)" and "r \<in> owned"
  shows "(case outcome_of (env_sync env) (sh_guards shared) r of
        None \<Rightarrow> wait_for_response (env_sync env) r (sh_guards shared) = Some (None, sh_guards shared)
          \<and> try_get_response (env_sync env) r (sh_guards shared) = Some (Inl r)
      | Some v \<Rightarrow> map_option fst (wait_for_response (env_sync env) r (sh_guards shared)) = Some (Some v)
          \<and> try_get_response (env_sync env) r (sh_guards shared) = Some (Inr v))
    \<and> (srv = None \<longrightarrow> outcome_of (env_sync env) (sh_guards shared) r \<noteq> None)
    \<and> (\<forall>self drained. srv = Some self \<longrightarrow> set drained = Map.graph (srv_pending self) \<longrightarrow> distinct drained \<longrightarrow>
         (\<exists>shared'. server_drop env drained shared = Some shared'
            \<and> outcome_of (env_sync env) (sh_guards shared') r \<noteq> None))
    \<and> (\<forall>srv' shared' owned' v. (rpc_step env)\<^sup>*\<^sup>* (srv, shared, owned) (srv', shared', owned') \<longrightarrow>
         outcome_of (env_sync env) (sh_guards shared) r = Some v \<longrightarrow>
         outcome_of (env_sync env) (sh_guards shared') r = Some v)"
proof -
  note layer = assms(1)
  have inv: "system_inv env queued closed Map.empty (srv, shared, owned)"
    using rpc_layer.steps_keep_inv [OF layer assms(4) rpc_layer.built_inv [OF layer assms(2,3)]] .
  then have pending: "rpc_inv env queued Map.empty (pending_of srv) shared owned"
    by simp
  have sync: "once_notify (env_sync env)"
    using layer by (simp add: rpc_layer_def)
  note guard = rpc_layer.owned_ok [OF layer pending assms(5)]
  have "\<exists>shared'. server_drop env drained shared = Some shared' \<and> outcome_of (env_sync env) (sh_guards shared') r \<noteq> None"
    if "srv = Some self" "set drained = Map.graph (srv_pending self)" "distinct drained" for self drained
    using rpc_layer.server_drop_ok [OF layer pending, of drained] rpc_layer.dropped_resolved [OF layer _ _ assms(5)] that
    by (auto simp: pending_of_def)
  moreover have "outcome_of (env_sync env) (sh_guards shared) r \<noteq> None" if "srv = None"
    using rpc_layer.dropped_resolved [OF layer _ _ assms(5), of Map.empty shared] inv that
    by (simp add: pending_of_def)
  ultimately show ?thesis
    using once_notify.wait_for_response_eq [OF sync guard] once_notify.try_get_response_eq [OF sync guard]
      rpc_layer.steps_keep_outcome [OF layer _ inv]
    by (auto split: option.splits)
qed

section \<open>Incoming requests\<close>

text \<open>Handing one item to the core.\<close>

definition handed_over ::
  "('m, 'c, 'n, 's, 'p, 'tx, 'q) rpc_env \<Rightarrow> 'p queued_item \<Rightarrow> ('c, 'n, 's, 'p, 'tx, 'q) rpc_shared
   \<Rightarrow> ('c, 'n, 's, 'p, 'tx, 'q) rpc_shared" where
  "handed_over env item shared = shared\<lparr>sh_request_handle := (sh_request_handle shared)\<lparr>rh_sender :=
     snd (env_send env item (rh_sender (sh_request_handle shared)))\<rparr>\<rparr>"

lemma via_handle_item: "snd (via_handle (enqueue_item (env_send env) item) shared) = handed_over env item shared"
  by (simp add: via_handle_def enqueue_item_def handed_over_def downgrade_def split: prod.split sum.split)

lemma core_event_incoming:
  "core_event_stage env res self shared = (LoopReturn (Inr (Some incoming)), self', shared') \<Longrightarrow>
     ir_handle incoming = Some ()"
  by (auto simp: core_event_stage_def split: sum.splits option.splits io_event.splits)

lemma next_request_incoming:
  assumes "next_request env its self shared = Some (Some (Inr (Some incoming)), self', shared')"
  shows "ir_handle incoming = Some ()"
  using assms
proof (induction its arbitrary: self shared)
  case (Cons it its)
  have stage: "ir_handle incoming = Some ()"
    if "rpc_iterate env it self shared = Some (LoopReturn (Inr (Some incoming)), self', shared')" for self shared self' shared'
    using that
    by (auto simp: rpc_iterate_def rpc_select_stage_def Let_def dest: core_event_incoming
        split: Option.bind_splits if_splits option.splits select_branch.splits prod.splits)
  then show ?case
    using Cons by (auto split: Option.bind_splits rpc_control.splits)
qed simp

text \<open>
  C19: An incoming request that the server returns is answered exactly once, however it ends: \<^verbatim>\<open>respond\<close>, \<^verbatim>\<open>cancel\<close>
  and being dropped hand exactly one item to the core, a response with the given payload or a
  cancellation, for the request's channel and id; the drop at the end of \<^verbatim>\<open>respond\<close> and \<^verbatim>\<open>cancel\<close> adds
  nothing. None of them panics.
\<close>

theorem incoming_answered_once:
  assumes "next_request env its self shared = Some (Some (Inr (Some incoming)), self', shared')"
  shows "incoming_respond env payload incoming later
      = Some (handed_over env (ItemResponse (ir_channel incoming) (ir_id incoming) payload) later)
    \<and> incoming_cancel env incoming later
      = Some (handed_over env (ItemResponseCancellation (ir_channel incoming) (ir_id incoming)) later)
    \<and> incoming_drop env incoming later
      = Some (handed_over env (ItemResponseCancellation (ir_channel incoming) (ir_id incoming)) later)"
  using next_request_incoming [OF assms] via_handle_item [of env _ later]
  by (simp add: incoming_eqs enqueue_response_def enqueue_response_cancellation_def)

text \<open>A server that receives a request, for the witnesses.\<close>

definition demo_rpc ::
  "juliet_rpc_client
   \<times> ((io_id, channel_id \<times> msg_id) alist_bimap, unit) juliet_rpc_server
   \<times> (request_outcome option, bool, nat, unit, unit queued_item list, unit new_outgoing_request list \<times> bool) rpc_shared"
where
  "demo_rpc = rpc_build list_env [] ([], False) (with_default_timeout 5 (rpc_builder_new two_channel_io))"

lemmas demo_defs = demo_rpc_def rpc_build_def rpc_builder_new_def with_default_timeout_def io_handle_build_def
  two_channel_io_def io_core_builder_new_def io_core_builder_with_default_buffer_size_def
  juliet_protocol_builder_def client_create_request_def

lemma demo_read:
  "\<exists>core. next_event alist_bimap_ops [ReadProgress [0, 1, 7, 0], ReadDone (Inr True)]
     (io_core_build alist_bimap_ops two_channel_io :: ((io_id, channel_id \<times> msg_id) alist_bimap, unit) io_core)
   = Some (Some (Inr (Some (IoNewRequest (ChannelId 1) (Id 7) None))), core)"
proof -
  have empty: "process_incoming two_channel_protocol [] = Some (Incomplete 4, two_channel_protocol, [])"
    by (simp add: process_incoming.simps process_frame_def header_SIZE_def outcome_incomplete_def)
  show ?thesis
    using read_request_example
    by (auto simp: next_event.simps parse_stage_def outcome_stage_def empty select_frame_def select_stage_def
        success_stage_def handle_completed_read_def io_core_build_def Let_def two_channel_io_protocol)
qed

theorem incoming_answered_once_witness:
  "\<exists>self shared incoming. next_request list_env
     [\<lparr>it_now = 0, it_core = Some [ReadProgress [0, 1, 7, 0], ReadDone (Inr True)], it_branch = NoBranch\<rparr>]
     (fst (snd demo_rpc)) (snd (snd demo_rpc)) = Some (Some (Inr (Some incoming)), self, shared)
   \<and> ir_channel incoming = ChannelId 1 \<and> ir_id incoming = Id 7
   \<and> map_option (rh_sender \<circ> sh_request_handle) (incoming_respond list_env (Some [9]) incoming shared)
       = Some [ItemResponse (ChannelId 1) (Id 7) (Some [9])]"
proof -
  obtain self shared incoming where run: "next_request list_env
     [\<lparr>it_now = 0, it_core = Some [ReadProgress [0, 1, 7, 0], ReadDone (Inr True)], it_branch = NoBranch\<rparr>]
     (fst (snd demo_rpc)) (snd (snd demo_rpc)) = Some (Some (Inr (Some incoming)), self, shared)"
     "ir_channel incoming = ChannelId 1" "ir_id incoming = Id 7" "rh_sender (sh_request_handle shared) = []"
    using demo_read
    by (auto simp: demo_rpc_def rpc_build_def rpc_builder_new_def with_default_timeout_def rpc_iterate_def
        process_timeouts_def timeouts_loop_rules instant_checked_add_def timeout_dummy_def
        rpc_select_stage_def core_event_stage_def Let_def io_handle_build_def)
  with incoming_answered_once [OF run(1), of "Some [9]" shared] show ?thesis
    by (auto simp: handed_over_def)
qed

section \<open>Timeouts\<close>

text \<open>What happens to the shared state when the request \<open>x\<close> times out.\<close>

definition expire ::
  "('m, 'c, 'n, 's, 'p, 'tx, 'q) rpc_env \<Rightarrow> (io_id \<rightharpoonup> guard_ref) \<Rightarrow> io_id
   \<Rightarrow> ('c, 'n, 's, 'p, 'tx, 'q) rpc_shared \<Rightarrow> ('c, 'n, 's, 'p, 'tx, 'q) rpc_shared" where
  "expire env pending x shared =
     handed_over env (ItemRequestCancellation x) (set_guard env (the (pending x)) (Inl RequestTimedOut) shared)"

definition expired :: "instant \<Rightarrow> ('m, 'p) juliet_rpc_server \<Rightarrow> io_id set" where
  "expired now self = {x \<in> dom (srv_pending self). \<exists>t \<le> now. (t, x) \<in> set (srv_timeouts self)}"

lemma fold_expire_cong:
  "x \<notin> set xs \<Longrightarrow> fold (expire env (pending(x := None))) xs shared = fold (expire env pending) xs shared"
  by (intro fold_cong) (auto simp: expire_def fun_eq_iff)

lemma timeouts_loop_eq:
  assumes "sorted (srv_timeouts self)"
  shows "\<exists>xs. distinct xs \<and> set xs = expired now self \<and> timeouts_loop env now n self shared =
    Some (n + length xs, self\<lparr>srv_pending := srv_pending self |` (- set xs),
        srv_timeouts := filter (\<lambda>t. now < fst t) (srv_timeouts self)\<rparr>, fold (expire env (srv_pending self)) xs shared)"
  using assms
proof (induction "srv_timeouts self" arbitrary: n self shared)
  case Nil
  then show ?case
    by (cases self) (auto simp: timeouts_loop_rules expired_def intro!: exI [of _ "[]"])
next
  case (Cons timeout timeouts)
  obtain t x where t: "timeout = (t, x)"
    by (cases timeout)
  note heap = Cons(2) [symmetric, unfolded t]
  let ?self = "self\<lparr>srv_timeouts := timeouts\<rparr>"
  have sorted: "sorted timeouts" "\<forall>(t', x') \<in> set timeouts. t \<le> t'"
    using Cons.prems heap by (fastforce simp: less_eq_prod_def)+
  consider "now < t" | "t \<le> now" "srv_pending self x = None" | r where "t \<le> now" "srv_pending self x = Some r"
    by fastforce
  then show ?case
  proof cases
    case 1
    then have "filter (\<lambda>t. now < fst t) (srv_timeouts self) = srv_timeouts self"
      using heap sorted(2) by (auto intro!: filter_True)
    moreover have "expired now self = {}"
      using 1 heap sorted(2) by (fastforce simp: expired_def)
    ultimately show ?thesis
      using 1 heap by (cases self) (auto simp: timeouts_loop_rules intro!: exI [of _ "[]"])
  next
    case 2
    have "expired now ?self = expired now self"
      using 2 heap by (auto simp: expired_def)
    then show ?thesis
      using Cons.hyps(1) [of ?self n shared] 2 heap sorted(1) by (cases self) (simp add: timeouts_loop_rules)
  next
    case (3 r)
    let ?next = "self\<lparr>srv_timeouts := timeouts, srv_pending := (srv_pending self)(x := None)\<rparr>"
    have expire: "snd (via_handle (enqueue_request_cancellation (env_send env) x)
        (set_guard env r (Inl RequestTimedOut) shared)) = expire env (srv_pending self) x shared"
      using 3(2) by (simp add: enqueue_request_cancellation_def via_handle_item expire_def)
    have ids: "expired now self = insert x (expired now ?next)" "x \<notin> expired now ?next"
      using 3 heap by (auto simp: expired_def)
    obtain xs where xs: "distinct xs" "set xs = expired now ?next"
      "timeouts_loop env now (Suc n) ?next (expire env (srv_pending self) x shared) =
         Some (Suc n + length xs, ?next\<lparr>srv_pending := srv_pending ?next |` (- set xs),
           srv_timeouts := filter (\<lambda>t. now < fst t) timeouts\<rparr>,
           fold (expire env (srv_pending ?next)) xs (expire env (srv_pending self) x shared))"
      using Cons.hyps(1) [of ?next "Suc n" "expire env (srv_pending self) x shared"] sorted(1) by auto
    have "srv_pending ?next |` (- set xs) = srv_pending self |` (- set (x # xs))"
      by (auto simp: restrict_map_def fun_eq_iff)
    then show ?thesis
      using 3 heap xs ids fold_expire_cong [of x xs env "srv_pending self"]
      by (intro exI [of _ "x # xs"]) (cases self, simp add: timeouts_loop_rules expire)
  qed
qed

lemma fold_expire_simps:
  "sh_new_requests (fold (expire env pending) xs shared) = sh_new_requests shared"
  "rh_sender (sh_request_handle (fold (expire env pending) xs shared)) =
     fold (\<lambda>x tx. snd (env_send env (ItemRequestCancellation x) tx)) xs (rh_sender (sh_request_handle shared))"
  "sh_guards (fold (expire env pending) xs shared) =
     fold (\<lambda>x. notify_guard (env_sync env) (the (pending x)) (Inl RequestTimedOut)) xs (sh_guards shared)"
  by (induction xs arbitrary: shared) (simp_all add: expire_def handed_over_def)

context once_notify
begin

lemma fold_notify_outcome:
  "outcome_of sync (fold (\<lambda>x. notify_guard sync (f x) v) xs guards) r =
     (if r \<in> f ` set xs \<and> r < length guards \<and> outcome_of sync guards r = None then Some v
      else outcome_of sync guards r)"
  by (induction xs arbitrary: guards) (auto simp: outcome_notify_guard)

end

text \<open>
  C18: \<^verbatim>\<open>process_timeouts\<close> ends and expires exactly the pending requests whose time has come, each once: their
  guards get \<^verbatim>\<open>TimedOut\<close>, they leave the map, and a cancellation is queued for each; the count it returns is
  their number. Timeouts of requests that were answered in the meantime are dropped without effect, later
  timeouts stay. The deadline lies strictly in the future, so the loop of the server does not spin, and
  no remaining timeout is due before it.
\<close>

theorem process_timeouts_spec:
  assumes "once_notify (env_sync env)" and "sorted (srv_timeouts self)"
    and "\<forall>x r. srv_pending self x = Some r \<longrightarrow>
      r < length (sh_guards shared) \<and> outcome_of (env_sync env) (sh_guards shared) r = None"
    and "now + timeout_dummy \<le> env_instant_max env"
  shows "\<exists>deadline xs shared'. process_timeouts env now self shared =
      Some (deadline, length xs, self\<lparr>srv_pending := srv_pending self |` (- set xs),
        srv_timeouts := filter (\<lambda>t. now < fst t) (srv_timeouts self)\<rparr>, shared')
    \<and> distinct xs \<and> set xs = expired now self
    \<and> now < deadline \<and> (\<forall>(t, x) \<in> set (srv_timeouts self). now < t \<longrightarrow> deadline \<le> t)
    \<and> (\<forall>r. outcome_of (env_sync env) (sh_guards shared') r =
         (if r \<in> (the \<circ> srv_pending self) ` expired now self then Some (Inl RequestTimedOut)
          else outcome_of (env_sync env) (sh_guards shared) r))
    \<and> rh_sender (sh_request_handle shared') =
        fold (\<lambda>x tx. snd (env_send env (ItemRequestCancellation x) tx)) xs (rh_sender (sh_request_handle shared))"
proof -
  obtain xs where xs: "distinct xs" "set xs = expired now self" "timeouts_loop env now 0 self shared =
      Some (length xs, self\<lparr>srv_pending := srv_pending self |` (- set xs),
        srv_timeouts := filter (\<lambda>t. now < fst t) (srv_timeouts self)\<rparr>, fold (expire env (srv_pending self)) xs shared)"
    using timeouts_loop_eq [OF assms(2), of now env 0 shared] by auto
  let ?shared = "fold (expire env (srv_pending self)) xs shared"
  let ?later = "filter (\<lambda>t. now < fst t) (srv_timeouts self)"
  have outcome: "outcome_of (env_sync env) (sh_guards ?shared) r =
      (if r \<in> (the \<circ> srv_pending self) ` expired now self then Some (Inl RequestTimedOut)
       else outcome_of (env_sync env) (sh_guards shared) r)" for r
    using assms(3) xs(2)
    by (auto simp: once_notify.fold_notify_outcome [OF assms(1)] fold_expire_simps expired_def)
  obtain deadline where deadline: "(case heap_peek ?later of Some (time, _) \<Rightarrow> Some time
      | None \<Rightarrow> instant_checked_add (env_instant_max env) now timeout_dummy) = Some deadline"
      "now < deadline" "\<forall>(t, x) \<in> set (srv_timeouts self). now < t \<longrightarrow> deadline \<le> t"
  proof (cases ?later)
    case Nil
    then have "\<forall>(t, x) \<in> set (srv_timeouts self). \<not> now < t"
      by (auto simp: filter_empty_conv)
    then show ?thesis
      using that [of "now + timeout_dummy"] Nil assms(4)
      by (auto simp: instant_checked_add_def timeout_dummy_def)
  next
    case (Cons timeout later)
    have "sorted ?later"
      using sorted_filter [of "\<lambda>t. t"] assms(2) by simp
    then have "fst timeout \<le> fst t" if "t \<in> set ?later" for t
      using that Cons by (auto simp: less_eq_prod_def)
    then have "\<forall>(t, x) \<in> set (srv_timeouts self). now < t \<longrightarrow> fst timeout \<le> t"
      by fastforce
    moreover have "timeout \<in> set ?later"
      by (simp only: Cons list.set_intros)
    then have "now < fst timeout"
      by (simp only: set_filter mem_Collect_eq)
    ultimately show ?thesis
      using that [of "fst timeout"] Cons by (auto split: prod.splits)
  qed
  have "process_timeouts env now self shared = Some (deadline, length xs,
      self\<lparr>srv_pending := srv_pending self |` (- set xs), srv_timeouts := ?later\<rparr>, ?shared)"
    using xs(3) deadline(1) by (simp add: process_timeouts_def)
  with xs deadline(2,3) outcome fold_expire_simps(2) [of env "srv_pending self" xs shared] show ?thesis
    by blast
qed

theorem process_timeouts_spec_witness:
  "\<exists>deadline xs shared'. process_timeouts list_env 10
      \<lparr>srv_core = io_core_build alist_bimap_ops two_channel_io, srv_pending = [IoId 0 \<mapsto> 0, IoId 2 \<mapsto> 1],
       srv_timeouts = [(5, IoId 0), (5, IoId 1), (20, IoId 2)], srv_bubble_timeouts = False\<rparr>
      ((snd (snd demo_rpc))\<lparr>sh_guards := [request_guard_inner_new plain_sync, request_guard_inner_new plain_sync]\<rparr>)
    = Some (deadline, length xs, \<lparr>srv_core = io_core_build alist_bimap_ops two_channel_io,
        srv_pending = [IoId 0 \<mapsto> 0, IoId 2 \<mapsto> 1] |` (- set xs),
        srv_timeouts = [(20, IoId 2)], srv_bubble_timeouts = False\<rparr>, shared')
    \<and> set xs = {IoId 0} \<and> 10 < deadline \<and> deadline \<le> 20
    \<and> outcome_of plain_sync (sh_guards shared') 0 = Some (Inl RequestTimedOut)"
proof -
  let ?self = "\<lparr>srv_core = io_core_build alist_bimap_ops two_channel_io, srv_pending = [IoId 0 \<mapsto> 0, IoId 2 \<mapsto> 1],
       srv_timeouts = [(5, IoId 0), (5, IoId 1), (20, IoId 2)], srv_bubble_timeouts = False\<rparr>"
  let ?shared = "(snd (snd demo_rpc))\<lparr>sh_guards := [request_guard_inner_new plain_sync, request_guard_inner_new plain_sync]\<rparr>"
  have "sorted (srv_timeouts ?self)"
    by (simp add: less_eq_prod_def less_eq_io_id_def)
  moreover have "\<forall>x r. srv_pending ?self x = Some r \<longrightarrow>
      r < length (sh_guards ?shared) \<and> outcome_of (env_sync list_env) (sh_guards ?shared) r = None"
    by (auto simp: outcome_of_def request_guard_inner_new_def plain_sync_def split: if_splits)
  moreover have "(10 :: nat) + timeout_dummy \<le> env_instant_max list_env"
    by (simp add: timeout_dummy_def)
  moreover have "expired 10 ?self = {IoId 0}"
    by (auto simp: expired_def split: if_splits)
  moreover have "once_notify (env_sync list_env)"
    by (simp add: plain_sync.once_notify_axioms)
  ultimately show ?thesis
    using process_timeouts_spec [of list_env ?self ?shared 10] by fastforce
qed

text \<open>A request on its way: queued by the client, accepted by the server.\<close>

lemma demo_served:
  "\<exists>shared self shared'.
     rpc_step list_env (Some (fst (snd demo_rpc)), snd (snd demo_rpc), {}) (Some (fst (snd demo_rpc)), shared, {0})
     \<and> rpc_iterate list_env \<lparr>it_now = 4, it_core = None, it_branch = NewRequestBranch\<rparr> (fst (snd demo_rpc)) shared
         = Some (LoopAgain, self, shared')
     \<and> srv_pending self = [IoId 0 \<mapsto> 0] \<and> sh_guards shared' = [request_guard_inner_new plain_sync]
     \<and> rh_sender (sh_request_handle shared') = [ItemRequest (ChannelId 1) (IoId 0) None ()]"
proof -
  let ?rb = "client_create_request (ChannelId 1) (fst demo_rpc)"
  obtain shared where queued: "try_queue_for_sending list_env 3 ?rb (snd (snd demo_rpc)) = Some (Inr 0, shared)"
      "sh_new_requests shared = ([\<lparr>no_ticket = \<lparr>rt_channel = ChannelId 1, rt_permit = (), rt_io_id = IoId 0\<rparr>,
         no_guard = 0, no_payload = None, no_expires = Some 8\<rparr>], False)"
      "sh_guards shared = [request_guard_inner_new plain_sync]" "rh_sender (sh_request_handle shared) = []"
    by (simp add: try_queue_for_sending_def try_reserve_request_def Let_def demo_defs fetch_add_io_id_def
        do_enqueue_request_def arc_new_def instant_checked_add_def queue_channel_def)
  obtain self shared' where served: "rpc_iterate list_env
        \<lparr>it_now = 4, it_core = None, it_branch = NewRequestBranch\<rparr> (fst (snd demo_rpc)) shared = Some (LoopAgain, self, shared')"
      "srv_pending self = [IoId 0 \<mapsto> 0]" "sh_guards shared' = [request_guard_inner_new plain_sync]"
      "rh_sender (sh_request_handle shared') = [ItemRequest (ChannelId 1) (IoId 0) None ()]"
    using queued(2,3,4)
    by (simp add: rpc_iterate_def process_timeouts_def timeouts_loop_rules demo_defs instant_checked_add_def
        timeout_dummy_def rpc_select_stage_def Let_def new_request_stage_def queue_channel_def
        via_handle_def enqueue_request_def downgrade_def)
  have "rpc_step list_env (Some (fst (snd demo_rpc)), snd (snd demo_rpc), {}) (Some (fst (snd demo_rpc)), shared, {0})"
    using rpc_step.step_try_queue [OF queued(1), of _ "{}"] by (simp add: demo_defs)
  then show ?thesis
    using served by blast
qed

lemma demo_run:
  "\<exists>self shared. (rpc_step list_env)\<^sup>*\<^sup>* (Some (fst (snd demo_rpc)), snd (snd demo_rpc), {}) (Some self, shared, {0})
     \<and> srv_pending self = [IoId 0 \<mapsto> 0] \<and> sh_guards shared = [request_guard_inner_new plain_sync]
     \<and> rh_sender (sh_request_handle shared) = [ItemRequest (ChannelId 1) (IoId 0) None ()]"
  using demo_served by (meson rpc_step.step_iterate r_into_rtranclp rtranclp.rtrancl_into_rtrancl)

lemma demo_build:
  "rpc_build list_env [] ([], False) (with_default_timeout 5 (rpc_builder_new two_channel_io))
     = (fst demo_rpc, fst (snd demo_rpc), snd (snd demo_rpc))"
  by (simp add: demo_rpc_def)

theorem request_guards_resolved_witness:
  "\<exists>self shared. (rpc_step list_env)\<^sup>*\<^sup>* (Some (fst (snd demo_rpc)), snd (snd demo_rpc), {}) (Some self, shared, {0})
     \<and> srv_pending self = [IoId 0 \<mapsto> 0] \<and> wait_for_response plain_sync 0 (sh_guards shared) = Some (None, sh_guards shared)
     \<and> (\<exists>shared'. server_drop list_env [(IoId 0, 0)] shared = Some shared'
          \<and> outcome_of plain_sync (sh_guards shared') 0 \<noteq> None)"
proof -
  obtain self shared where run:
    "(rpc_step list_env)\<^sup>*\<^sup>* (Some (fst (snd demo_rpc)), snd (snd demo_rpc), {}) (Some self, shared, {0})"
    "srv_pending self = [IoId 0 \<mapsto> 0]" "sh_guards shared = [request_guard_inner_new plain_sync]"
    using demo_run by blast
  have "outcome_of plain_sync (sh_guards shared) 0 = None" "Map.graph (srv_pending self) = {(IoId 0, 0)}"
    using run(2,3)
    by (auto simp: outcome_of_def request_guard_inner_new_def plain_sync_def Map.graph_def split: if_splits)
  then show ?thesis
    using request_guards_resolved [OF list_rpc.rpc_layer_axioms demo_build _ run(1), of 0] run(1,2)
    by (intro exI [of _ self] exI [of _ shared]) simp
qed

section \<open>The loop of the server\<close>

text \<open>
  An application that calls \<^verbatim>\<open>next_request\<close> as long as it returns requests. One element of the list is one call:
  what the clients and the rest of the application have done to the shared state before it, and the
  iterations of its loop. The result holds the requests, and what the last call returned.
\<close>

fun serve ::
  "('m, 'c, 'n, 's, 'p, 'tx, 'q) rpc_env
   \<Rightarrow> ((('c, 'n, 's, 'p, 'tx, 'q) rpc_shared \<Rightarrow> ('c, 'n, 's, 'p, 'tx, 'q) rpc_shared) \<times> 'p rpc_iteration list) list
   \<Rightarrow> ('m, 'p) juliet_rpc_server \<Rightarrow> ('c, 'n, 's, 'p, 'tx, 'q) rpc_shared
   \<Rightarrow> (incoming_request list \<times> rpc_result option) option" where
  "serve env [] self shared = Some ([], None)"
| "serve env ((others, its) # calls) self shared =
     do { (res, self, shared) \<leftarrow> next_request env its self (others shared);
          case res of
            Some (Inr (Some incoming)) \<Rightarrow> do {
              (requests, last) \<leftarrow> serve env calls self shared;
              Some (incoming # requests, last) }
          | _ \<Rightarrow> Some ([], res) }"

definition it_inputs :: "'p rpc_iteration \<Rightarrow> 'p io_input list" where
  "it_inputs it = (case it_core it of None \<Rightarrow> [] | Some inputs \<Rightarrow> inputs)"

definition core_inputs :: "'p rpc_iteration list \<Rightarrow> 'p io_input list" where
  "core_inputs its = concat (map it_inputs its)"

definition clock_ok :: "('m, 'c, 'n, 's, 'p, 'tx, 'q) rpc_env \<Rightarrow> 'p rpc_iteration list \<Rightarrow> bool" where
  "clock_ok env its \<longleftrightarrow> (\<forall>it \<in> set its. it_now it + timeout_dummy \<le> env_instant_max env)"

definition server_ok ::
  "max_frame_size \<Rightarrow> channel_configuration list \<Rightarrow> ('m \<Rightarrow> (io_id \<times> channel_id \<times> msg_id) set)
   \<Rightarrow> 'p queued_item multiset \<Rightarrow> ('m, 'p) juliet_rpc_server \<Rightarrow> bool" where
  "server_ok m cfgs pairs todo self \<longleftrightarrow> sorted (srv_timeouts self) \<and> io_inv m cfgs pairs todo (srv_core self)"

text \<open>The results that \<^verbatim>\<open>next_request\<close> may return.\<close>

fun result_ok :: "bool \<Rightarrow> rpc_result \<Rightarrow> bool" where
  "result_ok bubble (Inl (RpcCoreError e)) \<longleftrightarrow> error_ok e"
| "result_ok bubble (Inl (FatalTimeout n)) \<longleftrightarrow> bubble \<and> 0 < n"
| "result_ok bubble (Inr incoming) \<longleftrightarrow> True"

text \<open>Whether the loop of the server goes on, in this call or the next.\<close>

fun goes_on :: "rpc_control \<Rightarrow> bool" where
  "goes_on (LoopReturn (Inl _)) = False"
| "goes_on (LoopReturn (Inr None)) = False"
| "goes_on _ = True"

lemma server_stages [simp]:
  "srv_core (fst (new_request_stage env request self shared)) = srv_core self"
  "srv_bubble_timeouts (fst (new_request_stage env request self shared)) = srv_bubble_timeouts self"
  "sorted (srv_timeouts self) \<Longrightarrow> sorted (srv_timeouts (fst (new_request_stage env request self shared)))"
  "srv_core (fst (complete_pending env x v self shared)) = srv_core self"
  "srv_bubble_timeouts (fst (complete_pending env x v self shared)) = srv_bubble_timeouts self"
  "srv_timeouts (fst (complete_pending env x v self shared)) = srv_timeouts self"
  by (simp_all add: new_request_stage_def complete_pending_def Let_def sorted_heap.push_ok
      split: prod.split sum.split option.split)

lemma core_event_stage_sound:
  assumes "\<forall>e. res = Inl e \<longrightarrow> error_ok e"
  obtains control self' shared' where "core_event_stage env res self shared = (control, self', shared')"
    "srv_core self' = srv_core self" "srv_bubble_timeouts self' = srv_bubble_timeouts self"
    "srv_timeouts self' = srv_timeouts self" "\<forall>r. control = LoopReturn r \<longrightarrow> result_ok b r"
    "goes_on control \<longrightarrow> (\<exists>event. res = Inr (Some event))"
proof -
  let ?stage = "core_event_stage env res self shared"
  have "srv_core (fst (snd ?stage)) = srv_core self" "srv_bubble_timeouts (fst (snd ?stage)) = srv_bubble_timeouts self"
    "srv_timeouts (fst (snd ?stage)) = srv_timeouts self" "\<forall>r. fst ?stage = LoopReturn r \<longrightarrow> result_ok b r"
    "goes_on (fst ?stage) \<longrightarrow> (\<exists>event. res = Inr (Some event))"
    using assms by (auto simp: core_event_stage_def split: sum.split option.split io_event.split)
  then show thesis
    using that [of "fst ?stage" "fst (snd ?stage)" "snd (snd ?stage)"] by simp
qed

lemma rpc_select_stage_sound:
  assumes "request_map (env_requests env) pairs"
    and "server_ok m cfgs pairs (inputs_items (it_inputs it) + todo) self" and "inputs_ok cfgs (it_inputs it)"
  shows "\<exists>control self' shared'. rpc_select_stage env it self shared = Some (control, self', shared')
    \<and> (\<forall>r. control = LoopReturn r \<longrightarrow> result_ok (srv_bubble_timeouts self) r)
    \<and> (goes_on control \<longrightarrow> server_ok m cfgs pairs todo self' \<and> srv_bubble_timeouts self' = srv_bubble_timeouts self)"
proof -
  have inv: "io_inv m cfgs pairs (inputs_items (it_inputs it) + todo) (srv_core self)" "sorted (srv_timeouts self)"
    using assms(2) by (simp_all add: server_ok_def)
  obtain res core where core: "(case it_core it of
        Some inputs \<Rightarrow> next_event (env_requests env) inputs (srv_core self)
      | None \<Rightarrow> Some (None, srv_core self)) = Some (res, core)"
    "res = None \<or> (\<exists>event. res = Some (Inr (Some event))) \<longrightarrow> io_inv m cfgs pairs todo core"
    "\<forall>e. res = Some (Inl e) \<longrightarrow> error_ok e"
  proof (cases "it_core it")
    case None
    then show ?thesis
      using that inv by (simp add: it_inputs_def inputs_items_def)
  next
    case (Some inputs)
    then show ?thesis
      using request_map.polled_inv [OF assms(1), of m cfgs inputs todo "srv_core self"] inv(1) assms(3) that
      by (fastforce simp: it_inputs_def split: option.splits sum.splits)
  qed
  let ?self = "self\<lparr>srv_core := core\<rparr>"
  show ?thesis
  proof (cases res)
    case (Some event_result)
    have "\<forall>e. event_result = Inl e \<longrightarrow> error_ok e"
      using core(3) Some by simp
    from this show ?thesis
      using core(1,2) Some inv(2)
      by (cases rule: core_event_stage_sound [where env = env and self = ?self and shared = shared and b = "srv_bubble_timeouts self"])
         (auto simp: rpc_select_stage_def server_ok_def)
  next
    case None
    have ok: "server_ok m cfgs pairs todo ?self"
      using core(2) None inv(2) by (simp add: server_ok_def)
    then have "server_ok m cfgs pairs todo (fst (new_request_stage env request ?self sh))" for request sh
      by (simp add: server_ok_def)
    then show ?thesis
      using ok unfolding rpc_select_stage_def core(1) None
      by (auto simp: Let_def prod_eq_iff split: select_branch.split prod.split option.split)
  qed
qed

lemma core_inputs_simps [simp]:
  "core_inputs [] = []" "core_inputs (it # its) = it_inputs it @ core_inputs its"
  "core_inputs (its @ its') = core_inputs its @ core_inputs its'"
  by (simp_all add: core_inputs_def)

lemma inputs_append:
  "inputs_items (xs @ ys) = inputs_items xs + inputs_items ys" "inputs_ok cfgs (xs @ ys) \<longleftrightarrow> inputs_ok cfgs xs \<and> inputs_ok cfgs ys"
  by (simp_all add: inputs_items_def inputs_ok_def)

lemma rpc_iterate_sound:
  assumes "request_map (env_requests env) pairs"
    and "server_ok m cfgs pairs (inputs_items (it_inputs it) + todo) self" and "inputs_ok cfgs (it_inputs it)"
    and "it_now it + timeout_dummy \<le> env_instant_max env"
  shows "\<exists>control self' shared'. rpc_iterate env it self shared = Some (control, self', shared')
    \<and> (\<forall>r. control = LoopReturn r \<longrightarrow> result_ok (srv_bubble_timeouts self) r)
    \<and> (goes_on control \<longrightarrow> server_ok m cfgs pairs todo self' \<and> srv_bubble_timeouts self' = srv_bubble_timeouts self)"
proof -
  have sorted: "sorted (srv_timeouts self)"
    using assms(2) by (simp add: server_ok_def)
  obtain xs where "timeouts_loop env (it_now it) 0 self shared =
      Some (length xs, self\<lparr>srv_pending := srv_pending self |` (- set xs),
        srv_timeouts := filter (\<lambda>t. it_now it < fst t) (srv_timeouts self)\<rparr>, fold (expire env (srv_pending self)) xs shared)"
    using timeouts_loop_eq [OF sorted, of "it_now it" env 0 shared] by auto
  moreover have "\<exists>deadline. (case heap_peek (filter (\<lambda>t. it_now it < fst t) (srv_timeouts self)) of
      Some (time, _) \<Rightarrow> Some time | None \<Rightarrow> instant_checked_add (env_instant_max env) (it_now it) timeout_dummy) = Some deadline"
    using assms(4) by (auto simp: instant_checked_add_def split: option.split)
  ultimately obtain deadline self1 shared1 where timeouts:
      "process_timeouts env (it_now it) self shared = Some (deadline, length xs, self1, shared1)"
      "srv_core self1 = srv_core self" "srv_bubble_timeouts self1 = srv_bubble_timeouts self" "sorted (srv_timeouts self1)"
    using sorted sorted_filter [of "\<lambda>t. t"] by (fastforce simp: process_timeouts_def)
  then have "server_ok m cfgs pairs (inputs_items (it_inputs it) + todo) self1"
    using assms(2) by (simp add: server_ok_def)
  from rpc_select_stage_sound [OF assms(1) this assms(3), of shared1] show ?thesis
    using timeouts(1,3) by (auto simp: rpc_iterate_def)
qed

lemma server_ok_mono: "server_ok m cfgs pairs (extra + todo) self \<Longrightarrow> server_ok m cfgs pairs todo self"
  using coherent_mono [of pairs "{}" extra todo "srv_core self"]
  by (auto simp: server_ok_def io_inv_def)

lemma next_request_sound:
  assumes "request_map (env_requests env) pairs"
    and "server_ok m cfgs pairs (inputs_items (core_inputs its) + todo) self" and "inputs_ok cfgs (core_inputs its)"
    and "clock_ok env its"
  shows "\<exists>res self' shared'. next_request env its self shared = Some (res, self', shared')
    \<and> (\<forall>r. res = Some r \<longrightarrow> result_ok (srv_bubble_timeouts self) r)
    \<and> (\<forall>incoming. res = Some (Inr (Some incoming)) \<longrightarrow>
         server_ok m cfgs pairs todo self' \<and> srv_bubble_timeouts self' = srv_bubble_timeouts self)"
  using assms(2-)
proof (induction its arbitrary: self shared)
  case Nil
  then show ?case
    by simp
next
  case (Cons it its)
  let ?rest = "inputs_items (core_inputs its) + todo"
  have "server_ok m cfgs pairs (inputs_items (it_inputs it) + ?rest) self" "inputs_ok cfgs (it_inputs it)"
      "it_now it + timeout_dummy \<le> env_instant_max env" "inputs_ok cfgs (core_inputs its)" "clock_ok env its"
    using Cons.prems by (simp_all add: inputs_append add.assoc clock_ok_def)
  note step = this
  obtain control self1 shared1 where it: "rpc_iterate env it self shared = Some (control, self1, shared1)"
    "\<forall>r. control = LoopReturn r \<longrightarrow> result_ok (srv_bubble_timeouts self) r"
    "goes_on control \<longrightarrow> server_ok m cfgs pairs ?rest self1 \<and> srv_bubble_timeouts self1 = srv_bubble_timeouts self"
    using rpc_iterate_sound [OF assms(1) step(1-3), of shared] by blast
  show ?case
  proof (cases control)
    case LoopAgain
    then show ?thesis
      using it Cons.IH [OF _ step(4,5), of self1 shared1] by simp
  next
    case LoopWaits
    then show ?thesis
      using it by simp
  next
    case (LoopReturn r)
    then show ?thesis
      using it server_ok_mono [of m cfgs pairs "inputs_items (core_inputs its)" todo self1] by auto
  qed
qed

lemma serve_sound:
  assumes "request_map (env_requests env) pairs"
    and "server_ok m cfgs pairs (inputs_items (core_inputs (concat (map snd calls)))) self"
    and "inputs_ok cfgs (core_inputs (concat (map snd calls)))" and "clock_ok env (concat (map snd calls))"
  shows "\<exists>requests last. serve env calls self shared = Some (requests, last)
    \<and> (\<forall>r. last = Some r \<longrightarrow> result_ok (srv_bubble_timeouts self) r)"
  using assms(2-)
proof (induction calls arbitrary: self shared)
  case Nil
  then show ?case
    by simp
next
  case (Cons call calls)
  obtain others its where call: "call = (others, its)"
    by (cases call)
  have split: "server_ok m cfgs pairs (inputs_items (core_inputs its) + inputs_items (core_inputs (concat (map snd calls)))) self"
      "inputs_ok cfgs (core_inputs its)" "clock_ok env its"
      "inputs_ok cfgs (core_inputs (concat (map snd calls)))" "clock_ok env (concat (map snd calls))"
    using Cons.prems call by (simp_all add: inputs_append clock_ok_def)
  obtain res self1 shared1 where res: "next_request env its self (others shared) = Some (res, self1, shared1)"
      "\<forall>r. res = Some r \<longrightarrow> result_ok (srv_bubble_timeouts self) r"
      "\<forall>incoming. res = Some (Inr (Some incoming)) \<longrightarrow>
         server_ok m cfgs pairs (inputs_items (core_inputs (concat (map snd calls)))) self1
         \<and> srv_bubble_timeouts self1 = srv_bubble_timeouts self"
    using next_request_sound [OF assms(1) split(1-3), of "others shared"] by blast
  show ?case
  proof (cases "\<exists>incoming. res = Some (Inr (Some incoming))")
    case True
    then show ?thesis
      using res call Cons.IH [OF _ split(4,5), of self1 shared1] by auto
  next
    case False
    then show ?thesis
      using res call by (auto split: option.splits sum.splits)
  qed
qed

lemma built_server_ok:
  assumes "request_map (env_requests env) pairs" and "protocol_inv (builder_build (icb_protocol (rpcb_core b)))"
    and "fresh_items todo" and "rpc_build env sender new_requests b = (client, server, shared)"
  shows "server_ok (pb_max_frame_size (icb_protocol (rpcb_core b))) (pb_channel_config (icb_protocol (rpcb_core b))) pairs todo server"
proof -
  have "srv_core server = io_core_build (env_requests env) (rpcb_core b)" "srv_timeouts server = []"
    using assms(4) by (auto simp: rpc_build_def)
  then show ?thesis
    using request_map.build_inv [OF assms(1-3)] by (simp add: server_ok_def)
qed

lemma built_server_sound:
  assumes "request_map (env_requests env) pairs" and "protocol_inv (builder_build (icb_protocol (rpcb_core b)))"
    and "inputs_ok (pb_channel_config (icb_protocol (rpcb_core b))) (core_inputs (concat (map snd calls)))"
    and "fresh_items (inputs_items (core_inputs (concat (map snd calls))))"
    and "clock_ok env (concat (map snd calls))"
    and "rpc_build env sender new_requests b = (client, server, shared)"
  shows "\<exists>requests last. serve env calls server shared = Some (requests, last)
    \<and> (\<forall>r. last = Some r \<longrightarrow> result_ok (rpcb_bubble_timeouts b) r)"
proof -
  have "srv_bubble_timeouts server = rpcb_bubble_timeouts b"
    using assms(6) by (auto simp: rpc_build_def)
  then show ?thesis
    using serve_sound [OF assms(1) built_server_ok [OF assms(1,2,4,6)] assms(3,5), of shared] by auto
qed

text \<open>
  C3: A server that is built and then served runs without a panic, whatever the peer sends, however the timers, the
  clients, the IO and the application interleave. What it returns last is in order: an error of the core
  is never an \<^verbatim>\<open>InternalError\<close> and its accessors do not panic; a \<^verbatim>\<open>FatalTimeout\<close> occurs only if timeouts
  bubble, with a positive count. The items that reach the core meet the conditions of the IO layer, and
  the clock is more than an hour away from its end.
\<close>

theorem rpc_server_sound:
  assumes "request_map (env_requests env) pairs" and "protocol_inv (builder_build (icb_protocol (rpcb_core b)))"
    and "inputs_ok (pb_channel_config (icb_protocol (rpcb_core b))) (core_inputs (concat (map snd calls)))"
    and "fresh_items (inputs_items (core_inputs (concat (map snd calls))))"
    and "clock_ok env (concat (map snd calls))"
    and "rpc_build env sender new_requests b = (client, server, shared)"
  shows "\<exists>requests last. serve env calls server shared = Some (requests, last)
    \<and> (\<forall>e. last = Some (Inl (RpcCoreError e)) \<longrightarrow> (\<forall>s. e \<noteq> InternalError s))
    \<and> (\<forall>e. last = Some (Inl e) \<longrightarrow> rpc_as_remote_other_err e \<noteq> None \<and> rpc_as_local_other_err e \<noteq> None)
    \<and> (\<forall>n. last = Some (Inl (FatalTimeout n)) \<longrightarrow> rpcb_bubble_timeouts b \<and> 0 < n)"
proof -
  obtain requests last where run: "serve env calls server shared = Some (requests, last)"
      "\<forall>r. last = Some r \<longrightarrow> result_ok (rpcb_bubble_timeouts b) r"
    using built_server_sound [OF assms] by blast
  have "rpc_as_remote_other_err e \<noteq> None \<and> rpc_as_local_other_err e \<noteq> None" if "last = Some (Inl e)" for e
    using run(2) that by (cases e) (auto simp: rpc_as_remote_other_err_def rpc_as_local_other_err_def error_ok_def)
  then show ?thesis
    using run by (auto simp: error_ok_def)
qed

text \<open>A client queues a request, the server sends it, the peer answers with a response and closes the connection.\<close>

definition demo_iterations :: "unit rpc_iteration list" where
  "demo_iterations =
     [\<lparr>it_now = 4, it_core = None, it_branch = NewRequestBranch\<rparr>,
      \<lparr>it_now = 4, it_core = Some [ItemsReceived [ItemRequest (ChannelId 1) (IoId 0) None ()] False], it_branch = TimeoutCheck\<rparr>,
      \<lparr>it_now = 9, it_core = Some [FrameProgress 4, ReadProgress [3, 1], ReadProgress [1, 0], ReadDone (Inr True)],
       it_branch = NoBranch\<rparr>]"

abbreviation demo_calls where
  "demo_calls \<equiv>
     [(\<lambda>shared. case try_queue_for_sending list_env 3 (client_create_request (ChannelId 1) (fst demo_rpc)) shared of
          Some (_, shared) \<Rightarrow> shared | None \<Rightarrow> shared, demo_iterations)]"

lemma demo_calls_ok:
  fixes b :: rpc_builder
  assumes "rpcb_core b = two_channel_io"
  shows "request_map (env_requests list_env) (\<lambda>m. set (alist_pairs m))"
    and "protocol_inv (builder_build (icb_protocol (rpcb_core b)))"
    and "inputs_ok (pb_channel_config (icb_protocol (rpcb_core b))) (core_inputs (concat (map snd demo_calls)))"
    and "fresh_items (inputs_items (core_inputs (concat (map snd demo_calls))))"
    and "clock_ok list_env (concat (map snd demo_calls))"
  using two_channel_protocol_inv
  by (simp_all add: assms alist_requests.request_map_axioms two_channel_io_protocol demo_iterations_def
      it_inputs_def inputs_ok_def item_ok_def fits_def fresh_items_def inputs_items_def item_io_id_def
      clock_ok_def timeout_dummy_def)

theorem rpc_server_sound_witness:
  "\<exists>requests last. serve list_env demo_calls (fst (snd demo_rpc)) (snd (snd demo_rpc)) = Some (requests, last)
   \<and> (\<forall>n. last \<noteq> Some (Inl (FatalTimeout n)))"
proof -
  let ?b = "with_default_timeout 5 (rpc_builder_new two_channel_io)"
  have b: "rpcb_core ?b = two_channel_io" "\<not> rpcb_bubble_timeouts ?b"
    by (simp_all add: with_default_timeout_def rpc_builder_new_def)
  from rpc_server_sound [OF demo_calls_ok [OF b(1)] demo_build] show ?thesis
    using b(2) by blast
qed

section \<open>Making requests\<close>

text \<open>
  What \<^verbatim>\<open>do_enqueue_request\<close> leaves behind: the new guard is resolved with an error and the permit is given back, or the
  request is in the channel.
\<close>

definition request_refused ::
  "('m, 'c, 'n, 's, 'p, 'tx, 'q) rpc_env \<Rightarrow> ('q \<Rightarrow> 'p new_outgoing_request list) \<Rightarrow> request_error \<Rightarrow> 'p list
   \<Rightarrow> ('c, 'n, 's, 'p, 'tx, 'q) rpc_shared \<Rightarrow> guard_ref \<Rightarrow> ('c, 'n, 's, 'p, 'tx, 'q) rpc_shared \<Rightarrow> bool" where
  "request_refused env queued e freed shared r shared' \<longleftrightarrow>
     outcome_of (env_sync env) (sh_guards shared) r = None \<and>
     outcome_of (env_sync env) (sh_guards shared') r = Some (Inl e) \<and>
     queued (sh_new_requests shared') = queued (sh_new_requests shared) \<and>
     sh_released shared' = sh_released shared @ freed"

definition request_accepted ::
  "('m, 'c, 'n, 's, 'p, 'tx, 'q) rpc_env \<Rightarrow> ('q \<Rightarrow> 'p new_outgoing_request list) \<Rightarrow> 'p request_ticket \<Rightarrow> bytes option
   \<Rightarrow> instant option \<Rightarrow> ('c, 'n, 's, 'p, 'tx, 'q) rpc_shared \<Rightarrow> guard_ref \<Rightarrow> ('c, 'n, 's, 'p, 'tx, 'q) rpc_shared \<Rightarrow> bool" where
  "request_accepted env queued ticket payload expires shared r shared' \<longleftrightarrow>
     outcome_of (env_sync env) (sh_guards shared') r = None \<and>
     queued (sh_new_requests shared') = queued (sh_new_requests shared)
       @ [\<lparr>no_ticket = ticket, no_guard = r, no_payload = payload, no_expires = expires\<rparr>] \<and>
     sh_released shared' = sh_released shared"

definition request_settled ::
  "('m, 'c, 'n, 's, 'p, 'tx, 'q) rpc_env \<Rightarrow> ('q \<Rightarrow> 'p new_outgoing_request list) \<Rightarrow> ('q \<Rightarrow> bool) \<Rightarrow> instant
   \<Rightarrow> 'p request_ticket \<Rightarrow> rpc_request_builder \<Rightarrow> ('c, 'n, 's, 'p, 'tx, 'q) rpc_shared \<Rightarrow> guard_ref
   \<Rightarrow> ('c, 'n, 's, 'p, 'tx, 'q) rpc_shared \<Rightarrow> bool" where
  "request_settled env queued closed now ticket rb shared r shared' \<longleftrightarrow>
    (case expiry env now rb of
       Inl timeout \<Rightarrow> request_refused env queued (RequestTimeoutOverflow timeout) [rt_permit ticket] shared r shared'
     | Inr expires \<Rightarrow>
         if closed (sh_new_requests shared)
         then request_refused env queued (RequestRemoteClosed (rb_payload rb)) [rt_permit ticket] shared r shared'
         else request_accepted env queued ticket (rb_payload rb) expires shared r shared')"

context rpc_layer
begin

lemma new_error_guard_outcome:
  "\<exists>shared'. new_error_guard env e shared = Some (length (sh_guards shared), shared')
    \<and> outcome_of (env_sync env) (sh_guards shared') (length (sh_guards shared)) = Some (Inl e)
    \<and> sh_new_requests shared' = sh_new_requests shared \<and> sh_released shared' = sh_released shared"
  using new_error_eq [OF once_notify_axioms, of e "sh_guards shared"]
  by (auto simp: new_error_guard_def outcome_append)

lemma do_enqueue_request_outcome:
  "\<exists>r shared'. do_enqueue_request env now ticket rb shared = Some (r, shared') \<and>
    request_settled env queued closed now ticket rb shared r shared'"
proof -
  have error: "\<exists>r shared'. new_error_guard env e (release ticket sh) = Some (r, shared')
      \<and> request_refused env queued e [rt_permit ticket] shared r shared'"
    if "sh_guards sh = sh_guards (with_guard env shared)" "queued (sh_new_requests sh) = queued (sh_new_requests shared)"
      "sh_released sh = sh_released shared" for e sh
  proof -
    have "outcome_of (env_sync env) (sh_guards shared) (Suc (length (sh_guards shared))) = None"
      by (simp add: outcome_of_def)
    then show ?thesis
      using new_error_guard_outcome [of e "release ticket sh"] that
      by (auto simp: request_refused_def release_def with_guard_def)
  qed
  show ?thesis
  proof (cases rule: do_enqueue_request_cases [of now rb ticket shared])
    case (overflow timeout)
    then show ?thesis
      using error [of "with_guard env shared" "RequestTimeoutOverflow timeout"]
      by (simp add: request_settled_def with_guard_def)
  next
    case (refused expires q)
    then show ?thesis
      using error [of "(with_guard env shared)\<lparr>sh_new_requests := q\<rparr>" "RequestRemoteClosed (rb_payload rb)"]
      by (simp add: request_settled_def with_guard_def)
  next
    case (queued expires q)
    have "outcome_of (env_sync env) (sh_guards (with_guard env shared)) (length (sh_guards shared)) = None"
      using get_new by (simp add: with_guard_def outcome_append request_guard_inner_new_def)
    then show ?thesis
      using queued by (simp add: request_settled_def request_accepted_def) (simp add: with_guard_def)
  qed
qed

end

text \<open>
  C20: \<^verbatim>\<open>try_queue_for_sending\<close> on an existing channel never panics. Without buffer space it returns the builder,
  unchanged, and nothing has happened but the attempt. Otherwise the guard it returns tells the truth: if
  the channel of the core or the server is closed, or the timeout overflows the clock, the guard holds
  that error, with the payload in the first two cases, and the permit is given back; in all other cases
  exactly one request, with a fresh \<^verbatim>\<open>IoId\<close>, the payload and the expiry time, is on its way to the server.
\<close>

theorem try_queue_for_sending_spec:
  assumes "rpc_layer env queued closed"
    and "unat (channel_get (rb_channel rb)) < length (rh_buffered_requests (sh_request_handle shared))"
    and "try_acquired = fst (env_try_acquire env (rh_buffered_requests (sh_request_handle shared) ! unat (channel_get (rb_channel rb))))"
  shows "\<exists>res shared'. try_queue_for_sending env now rb shared = Some (res, shared') \<and>
    (case try_acquired of
       Inl AcquireNoPermits \<Rightarrow> res = Inl rb \<and> sh_guards shared' = sh_guards shared
         \<and> sh_new_requests shared' = sh_new_requests shared
     | Inl AcquireClosed \<Rightarrow> \<exists>r. res = Inr r
         \<and> request_refused env queued (RequestRemoteClosed (rb_payload rb)) [] shared r shared'
     | Inr permit \<Rightarrow> \<exists>r. res = Inr r \<and> request_settled env queued closed now
         \<lparr>rt_channel = rb_channel rb, rt_permit = permit, rt_io_id = IoId (rh_next_io_id (sh_request_handle shared))\<rparr>
         rb shared r shared')"
proof -
  let ?h = "sh_request_handle shared" and ?n = "unat (channel_get (rb_channel rb))"
  obtain semaphore where acquired: "env_try_acquire env (rh_buffered_requests ?h ! ?n) = (try_acquired, semaphore)"
    using assms(3) by (cases "env_try_acquire env (rh_buffered_requests ?h ! ?n)") simp
  let ?semaphores = "?h\<lparr>rh_buffered_requests := (rh_buffered_requests ?h)[?n := semaphore]\<rparr>"
  have shared_eq: "request_settled env queued closed now ticket rb (shared\<lparr>sh_request_handle := h\<rparr>)
      = request_settled env queued closed now ticket rb shared" for h ticket
    by (simp add: fun_eq_iff request_settled_def request_refused_def request_accepted_def split: sum.split)
  have none: "outcome_of (env_sync env) (sh_guards shared) (length (sh_guards shared)) = None"
    by (simp add: outcome_of_def)
  show ?thesis
  proof (cases try_acquired)
    case (Inl e)
    then show ?thesis
      using assms(2) acquired rpc_layer.new_error_guard_outcome [OF assms(1), of "RequestRemoteClosed (rb_payload rb)"
          "shared\<lparr>sh_request_handle := ?semaphores\<rparr>"]
      by (cases e) (auto simp: try_queue_for_sending_def try_reserve_request_def request_refused_def none Let_def)
  next
    case (Inr permit)
    then show ?thesis
      using assms(2) acquired rpc_layer.do_enqueue_request_outcome [OF assms(1), of now
          "\<lparr>rt_channel = rb_channel rb, rt_permit = permit, rt_io_id = IoId (rh_next_io_id ?h)\<rparr>" rb
          "shared\<lparr>sh_request_handle := ?semaphores\<lparr>rh_next_io_id := rh_next_io_id ?h + 1\<rparr>\<rparr>"]
      by (auto simp: try_queue_for_sending_def try_reserve_request_def fetch_add_io_id_def shared_eq Let_def)
  qed
qed

theorem try_queue_for_sending_spec_witness:
  "\<exists>r shared'. try_queue_for_sending list_env 3 (with_timeout (10 ^ 21) (with_payload [7]
       (client_create_request (ChannelId 1) (fst demo_rpc)))) (snd (snd demo_rpc)) = Some (Inr r, shared')
     \<and> request_refused list_env fst (RequestTimeoutOverflow (10 ^ 21)) [()] (snd (snd demo_rpc)) r shared'"
proof -
  let ?rb = "with_timeout (10 ^ 21) (with_payload [7] (client_create_request (ChannelId 1) (fst demo_rpc)))"
  let ?shared = "snd (snd demo_rpc)"
  have "unat (channel_get (rb_channel ?rb)) < length (rh_buffered_requests (sh_request_handle ?shared))"
    and "Inr () = fst (env_try_acquire list_env (rh_buffered_requests (sh_request_handle ?shared) ! unat (channel_get (rb_channel ?rb))))"
    by (simp_all add: demo_defs with_timeout_def with_payload_def)
  from try_queue_for_sending_spec [OF list_rpc.rpc_layer_axioms this, of 3] show ?thesis
    by (auto simp: with_timeout_def with_payload_def client_create_request_def request_settled_def expiry_def)
qed

end
