(* ===== verification/Rpc_Sent.thy ===== *)
theory Rpc_Sent
  imports Rpc_Props
begin

text \<open>
  What the RPC layer hands to the IO core. The requests that clients, server and application together
  put into the core's queue carry pairwise different \<^verbatim>\<open>IoId\<close>s, and the server waits only for
  requests that are in the queue: this is what the theorems on the core rely on.
\<close>

section \<open>The queue of the core\<close>

text \<open>The contract of the sender: \<open>sent\<close> are the items that were accepted, in order.\<close>

locale rpc_sending = rpc_layer env queued closed
  for env :: "('m, 'c, 'n, 's, 'p, 'tx, 'q) rpc_env"
    and queued :: "'q \<Rightarrow> 'p new_outgoing_request list" and closed :: "'q \<Rightarrow> bool" +
  fixes sent :: "'tx \<Rightarrow> 'p queued_item list"
  assumes send_sent: "sent (snd (env_send env item tx)) =
    (case fst (env_send env item tx) of Inr _ \<Rightarrow> sent tx @ [item] | Inl _ \<Rightarrow> sent tx)"

interpretation list_sending: rpc_sending list_env fst snd "\<lambda>items. items"
  by unfold_locales simp

definition sent_ids :: "'p queued_item list \<Rightarrow> io_id list" where
  "sent_ids items = List.map_filter item_io_id items"

lemma sent_ids_simps [simp]:
  "sent_ids [] = []"
  "sent_ids (items @ [item]) = sent_ids items @ (case item_io_id item of None \<Rightarrow> [] | Some x \<Rightarrow> [x])"
  by (simp_all add: sent_ids_def map_filter_def split: option.split)

lemma item_io_id_simps [simp]:
  "item_io_id (ItemRequest ch x payload permit) = Some x" "item_io_id (ItemRequestCancellation x) = None"
  "item_io_id (ItemResponse ch i payload) = None" "item_io_id (ItemResponseCancellation ch i) = None"
  "item_io_id (ItemError ch i e) = None"
  by (simp_all add: item_io_id_def)

lemma id_count_sent: "id_count x (mset items) = count_list (sent_ids items) x"
  by (induction items rule: rev_induct) (auto simp: split: option.split)

lemma count_list_distinct: "distinct xs \<Longrightarrow> count_list xs x = (if x \<in> set xs then 1 else 0)"
  by (induction xs) auto

lemma set_sent_ids: "set (sent_ids items) = {x. \<exists>ch payload permit. ItemRequest ch x payload permit \<in> set items}"
proof (induction items rule: rev_induct)
  case (snoc item items)
  then show ?case
    by (cases item) auto
qed simp

definition sent_ok ::
  "'p queued_item list \<Rightarrow> 'p new_outgoing_request list \<Rightarrow> u64 \<Rightarrow> (io_id \<rightharpoonup> guard_ref) \<Rightarrow> bool" where
  "sent_ok items requests nxt pending \<longleftrightarrow>
     distinct (sent_ids items @ map (rt_io_id \<circ> no_ticket) requests) \<and>
     (\<forall>x \<in> set (sent_ids items @ map (rt_io_id \<circ> no_ticket) requests). io_id_get x < nxt) \<and>
     dom pending \<subseteq> set (sent_ids items)"

lemma sent_ok_other: "item_io_id item = None \<Longrightarrow> sent_ok (items @ [item]) requests nxt pending = sent_ok items requests nxt pending"
  by (simp add: sent_ok_def)

lemma sent_ok_less: "sent_ok items requests nxt pending \<Longrightarrow> dom pending' \<subseteq> dom pending \<Longrightarrow> sent_ok items requests nxt pending'"
  unfolding sent_ok_def by (meson subset_trans)

lemma sent_ok_discard: "sent_ok items (request # requests) nxt pending \<Longrightarrow> sent_ok items requests nxt pending"
  by (auto simp: sent_ok_def)

lemma sent_ok_next: "sent_ok items requests nxt pending \<Longrightarrow> nxt \<le> nxt' \<Longrightarrow> sent_ok items requests nxt' pending"
  unfolding sent_ok_def by (meson less_le_trans)

lemma sent_ok_new:
  assumes "sent_ok items requests nxt pending" and "nxt < nxt'" and "rt_io_id (no_ticket request) = IoId nxt"
  shows "sent_ok items (requests @ [request]) nxt' pending"
proof -
  have old: "\<forall>x \<in> set (sent_ids items @ map (rt_io_id \<circ> no_ticket) requests). io_id_get x < nxt"
    using assms(1) by (simp add: sent_ok_def)
  then have "IoId nxt \<notin> set (sent_ids items @ map (rt_io_id \<circ> no_ticket) requests)"
    by (metis io_id.sel less_irrefl)
  moreover have "\<forall>x \<in> set (sent_ids items @ map (rt_io_id \<circ> no_ticket) requests). io_id_get x < nxt'"
    using old assms(2) less_trans by blast
  ultimately show ?thesis
    using assms by (auto simp: sent_ok_def)
qed

lemma sent_ok_accept:
  "sent_ok items (request # requests) nxt pending \<Longrightarrow> item_io_id item = Some (rt_io_id (no_ticket request)) \<Longrightarrow>
     sent_ok (items @ [item]) requests nxt (pending(rt_io_id (no_ticket request) \<mapsto> r))"
  by (auto simp: sent_ok_def)

context rpc_sending
begin

abbreviation sent_inv :: "(io_id \<rightharpoonup> guard_ref) \<Rightarrow> 'p new_outgoing_request list \<Rightarrow> ('c, 'n, 's, 'p, 'tx, 'q) rpc_shared \<Rightarrow> bool" where
  "sent_inv pending requests shared \<equiv>
     sent_ok (sent (rh_sender (sh_request_handle shared))) requests (rh_next_io_id (sh_request_handle shared)) pending"

lemma handed_over_inv:
  "item_io_id item = None \<Longrightarrow> sent_inv pending requests (handed_over env item shared) = sent_inv pending requests shared"
  using send_sent [of item "rh_sender (sh_request_handle shared)"]
  by (auto simp: handed_over_def sent_ok_other split: sum.splits)

lemma enqueue_request_sent:
  assumes "via_handle (enqueue_request (env_send env) ticket payload) shared = (res, shared')"
  shows "sent (rh_sender (sh_request_handle shared')) = sent (rh_sender (sh_request_handle shared))
    @ (if isl res then [] else [ItemRequest (rt_channel ticket) (rt_io_id ticket) payload (rt_permit ticket)])"
  using assms send_sent [of "ItemRequest (rt_channel ticket) (rt_io_id ticket) payload (rt_permit ticket)"
      "rh_sender (sh_request_handle shared)"]
  by (auto simp: via_handle_def enqueue_request_def downgrade_def split: prod.splits sum.splits)

end

sublocale rpc_sending \<subseteq> items: rpc_invariant env queued closed
  "\<lambda>pending requests shared. sent_ok (sent (rh_sender (sh_request_handle shared))) requests
     (rh_next_io_id (sh_request_handle shared)) pending"
proof
  fix pending requests request v x x' r payload q and shared shared' :: "('c, 'n, 's, 'p, 'tx, 'q) rpc_shared"
  show "sent_inv pending requests shared \<Longrightarrow> pending x = Some r \<Longrightarrow> sent_inv (pending(x := None)) requests (set_guard env r v shared)"
    by (auto elim!: sent_ok_less split: if_splits)
  show "sent_inv pending (request # requests) shared \<Longrightarrow>
      sent_inv pending requests (set_guard env (no_guard request) v (release (no_ticket request) shared))"
    by (auto dest: sent_ok_discard)
  show "sent_inv (pending(rt_io_id (no_ticket request) \<mapsto> no_guard request)) requests shared'"
    if "sent_inv pending (request # requests) shared"
      "via_handle (enqueue_request (env_send env) (no_ticket request) payload) shared = (Inr x, shared')"
    using that(1) enqueue_request_sent [OF that(2)] via_handle_simps(4) [OF that(2)] by (auto intro: sent_ok_accept)
  show "sent_inv pending (request # requests) shared'"
    if "sent_inv pending (request # requests) shared"
      "via_handle (enqueue_request (env_send env) (no_ticket request) payload) shared = (Inl x', shared')"
    using that(1) enqueue_request_sent [OF that(2)] via_handle_simps(4) [OF that(2)] by simp
  show "sent_inv pending requests shared \<Longrightarrow>
      sent_inv pending requests (snd (via_handle (enqueue_request_cancellation (env_send env) x) shared))"
    by (simp add: enqueue_request_cancellation_def via_handle_item handed_over_inv)
  show "sent_inv pending requests (shared\<lparr>sh_new_requests := q\<rparr>) = sent_inv pending requests shared"
    by simp
qed

section \<open>Requests of clients\<close>

lemma do_enqueue_request_handle:
  "do_enqueue_request env now ticket rb shared = Some (r, shared') \<Longrightarrow> sh_request_handle shared' = sh_request_handle shared"
  by (auto simp: do_enqueue_request_def arc_new_def new_error_guard_def Let_def
      split: option.splits prod.splits sum.splits Option.bind_splits)

context rpc_sending
begin

abbreviation system_sent ::
  "('m, 'p) juliet_rpc_server option \<times> ('c, 'n, 's, 'p, 'tx, 'q) rpc_shared \<times> guard_ref set \<Rightarrow> bool" where
  "system_sent sys \<equiv> sent_inv (pending_of (fst sys)) (queued (sh_new_requests (fst (snd sys)))) (fst (snd sys))"

lemma do_enqueue_request_sent:
  assumes "do_enqueue_request env now ticket rb (shared\<lparr>sh_request_handle := h\<rparr>) = Some (r, shared')"
    and "sent_inv pending (queued (sh_new_requests shared)) shared" and "rh_sender h = rh_sender (sh_request_handle shared)"
    and "rh_next_io_id (sh_request_handle shared) < rh_next_io_id h"
    and "rt_io_id ticket = IoId (rh_next_io_id (sh_request_handle shared))"
  shows "sent_inv pending (queued (sh_new_requests shared')) shared'"
proof -
  let ?shared = "shared\<lparr>sh_request_handle := h\<rparr>"
  have "\<exists>request. no_ticket request = ticket \<and> queued (sh_new_requests shared') = queued (sh_new_requests shared) @ [request]"
    if "queued (sh_new_requests shared') \<noteq> queued (sh_new_requests shared)"
    using do_enqueue_request_outcome [of now ticket rb ?shared] assms(1) that
    by (auto simp: request_settled_def request_refused_def request_accepted_def split: sum.splits if_splits)
  then show ?thesis
    using do_enqueue_request_handle [OF assms(1)] sent_ok_next [OF assms(2) less_imp_le [OF assms(4)]]
      sent_ok_new [OF assms(2,4)] assms(3,5)
    by (cases "queued (sh_new_requests shared') = queued (sh_new_requests shared)") auto
qed

lemma new_error_sent:
  assumes "new_error_guard env e (shared\<lparr>sh_request_handle := h\<rparr>) = Some (r, shared')"
    and "sent_inv pending (queued (sh_new_requests shared)) shared" and "rh_sender h = rh_sender (sh_request_handle shared)"
    and "rh_next_io_id h = rh_next_io_id (sh_request_handle shared)"
  shows "sent_inv pending (queued (sh_new_requests shared')) shared'"
  using assms by (auto simp: new_error_guard_def split: Option.bind_splits)

lemma queue_for_sending_sent:
  assumes "queue_for_sending env now rb shared = Some (r, shared')"
    and "sent_inv pending (queued (sh_new_requests shared)) shared"
    and "unat (rh_next_io_id (sh_request_handle shared)) + 1 < 2 ^ 64"
  shows "sent_inv pending (queued (sh_new_requests shared')) shared'"
proof -
  obtain reserved h where reserved:
    "reserve_request (env_acquire env) (rb_channel rb) (sh_request_handle shared) = Some (reserved, h)"
    using assms(1) by (auto simp: queue_for_sending_def split: Option.bind_splits)
  have sender: "rh_sender h = rh_sender (sh_request_handle shared)"
    using reserved by (auto simp: reserve_request_def fetch_add_io_id_def Let_def
        split: Option.bind_splits prod.splits sum.splits)
  note facts = reserve_request_cases [OF reserved]
  show ?thesis
    using assms(1) reserved facts(1) increment_less [OF assms(3)]
      do_enqueue_request_sent [OF _ assms(2) sender _ facts(2)] new_error_sent [OF _ assms(2) sender]
    by (cases reserved) (auto simp: queue_for_sending_def)
qed

lemma try_queue_for_sending_sent:
  assumes "try_queue_for_sending env now rb shared = Some (res, shared')"
    and "sent_inv pending (queued (sh_new_requests shared)) shared"
    and "unat (rh_next_io_id (sh_request_handle shared)) + 1 < 2 ^ 64"
  shows "sent_inv pending (queued (sh_new_requests shared')) shared'"
proof -
  obtain reserved h where reserved:
    "try_reserve_request (env_try_acquire env) (rb_channel rb) (sh_request_handle shared) = Some (reserved, h)"
    using assms(1) by (auto simp: try_queue_for_sending_def split: Option.bind_splits)
  have sender: "rh_sender h = rh_sender (sh_request_handle shared)"
    using reserved by (auto simp: try_reserve_request_def fetch_add_io_id_def Let_def
        split: Option.bind_splits prod.splits sum.splits try_acquire_error.splits)
  note facts = try_reserve_request_cases [OF reserved]
  show ?thesis
    using assms reserved facts(1) increment_less [OF assms(3)] sender
      do_enqueue_request_sent [OF _ assms(2) sender _ facts(2)] new_error_sent [OF _ assms(2) sender]
    by (cases reserved)
       (auto simp: try_queue_for_sending_def Let_def split: reservation_error.splits Option.bind_splits)
qed

lemma step_keeps_sent:
  assumes "rpc_step env sys sys'" and "system_sent sys"
  shows "system_sent sys'"
  using assms
proof (cases rule: rpc_step.cases)
  case (step_queue now rb shared r shared' srv owned)
  then show ?thesis
    using assms(2) queue_for_sending_sent [OF step_queue(3) _ step_queue(4)] by simp
next
  case (step_try_queue now rb shared res shared' srv owned)
  then show ?thesis
    using assms(2) try_queue_for_sending_sent [OF step_try_queue(3) _ step_try_queue(4)] by simp
next
  case (step_error ch i err shared res shared' srv owned)
  then have "shared' = handed_over env (ItemError ch i err) shared"
    using via_handle_item [of env "ItemError ch i err" shared]
    by (auto simp: send_custom_error_def enqueue_error_def split: prod.splits)
  then show ?thesis
    using assms(2) step_error(1,2) by (simp add: handed_over_inv) (simp add: handed_over_def)
next
  case (step_iterate it self shared control self' shared' owned)
  then show ?thesis
    using assms(2) items.keeps_iterate [OF step_iterate(3)] by (simp add: pending_of_def)
next
  case (step_incoming incoming shared shared' payload srv owned)
  then have "shared' = shared \<or> (\<exists>item. item_io_id item = None \<and> shared' = handed_over env item shared)"
    by (auto simp: incoming_eqs enqueue_response_def enqueue_response_cancellation_def via_handle_item
        intro: item_io_id_simps split: if_splits)
  then show ?thesis
    using assms(2) step_incoming(1,2) by (auto simp: handed_over_inv) (simp add: handed_over_def)
next
  case (step_drop drained self shared shared' owned)
  then show ?thesis
    using assms(2) items.keeps_drop [OF _ step_drop(3,4), of shared] by (auto simp: pending_of_def)
qed simp_all

lemma steps_keep_sent:
  "(rpc_step env)\<^sup>*\<^sup>* sys sys' \<Longrightarrow> system_sent sys \<Longrightarrow> system_sent sys'"
  by (induction rule: rtranclp_induct) (auto intro: step_keeps_sent)

end

text \<open>
  C4: The RPC layer gives the IO core what it relies on. However clients, server and application interleave, the
  requests put into the core's queue carry pairwise different \<^verbatim>\<open>IoId\<close>s, also in relation to the requests that
  are still on their way to the server, so as long as there are fewer than 65536 they are the fresh items
  of the theorems on the core; and every request that the server waits for is in the queue.
\<close>

theorem rpc_requests_fresh:
  assumes "rpc_sending env queued closed sent"
    and "rpc_build env sender new_requests b = (client, server, shared\<^sub>0)"
    and "queued new_requests = []" and "sent sender = []"
    and "(rpc_step env)\<^sup>*\<^sup>* (Some server, shared\<^sub>0, {}) (srv, shared, owned)"
    and "items = sent (rh_sender (sh_request_handle shared))"
  shows "(\<forall>x. id_count x (mset items) \<le> 1)
    \<and> (request_count (mset items) < 65536 \<longrightarrow> fresh_items (mset items))
    \<and> (\<forall>request \<in> set (queued (sh_new_requests shared)). id_count (rt_io_id (no_ticket request)) (mset items) = 0)
    \<and> (\<forall>x \<in> dom (pending_of srv). \<exists>ch payload permit. ItemRequest ch x payload permit \<in> set items)"
proof -
  have "sent_ok (sent (rh_sender (sh_request_handle shared\<^sub>0))) (queued (sh_new_requests shared\<^sub>0))
      (rh_next_io_id (sh_request_handle shared\<^sub>0)) (pending_of (Some server))"
    using assms(2-4) by (auto simp: rpc_build_def io_handle_build_def pending_of_def sent_ok_def)
  from rpc_sending.steps_keep_sent [OF assms(1,5)] this
  have ok: "sent_ok items (queued (sh_new_requests shared)) (rh_next_io_id (sh_request_handle shared)) (pending_of srv)"
    using assms(6) by simp
  then have distinct: "distinct (sent_ids items)"
    by (simp add: sent_ok_def)
  have count: "id_count x (mset items) = (if x \<in> set (sent_ids items) then 1 else 0)" for x
    using distinct by (simp add: id_count_sent count_list_distinct)
  show ?thesis
    using ok by (auto simp: count fresh_items_def sent_ok_def set_sent_ids)
qed

theorem rpc_requests_fresh_witness:
  "\<exists>self shared. (rpc_step list_env)\<^sup>*\<^sup>* (Some (fst (snd demo_rpc)), snd (snd demo_rpc), {}) (Some self, shared, {0})
     \<and> rh_sender (sh_request_handle shared) = [ItemRequest (ChannelId 1) (IoId 0) None ()]
     \<and> fresh_items (mset (rh_sender (sh_request_handle shared)))"
proof -
  obtain self shared where run:
    "(rpc_step list_env)\<^sup>*\<^sup>* (Some (fst (snd demo_rpc)), snd (snd demo_rpc), {}) (Some self, shared, {0})"
    "rh_sender (sh_request_handle shared) = [ItemRequest (ChannelId 1) (IoId 0) None ()]"
    using demo_run by blast
  have "request_count (mset (rh_sender (sh_request_handle shared))) < 65536"
    by (simp add: run(2) request_count_def)
  then show ?thesis
    using rpc_requests_fresh [OF list_sending.rpc_sending_axioms demo_build _ _ run(1) refl] run
    by (intro exI [of _ self] exI [of _ shared]) auto
qed

end
