(* ===== verification/Rpc_Shutdown.thy ===== *)
theory Rpc_Shutdown
  imports Rpc_Props
begin

text \<open>
  \<^verbatim>\<open>send_custom_error_and_shutdown\<close>: the server queues an error, goes on serving until the connection ends or the
  error timeout strikes, drops every request that comes in, and is dropped itself. In terms of the steps of
  the RPC layer this is one run, so that the invariant of the guards holds to its end.
\<close>

section \<open>The shutdown as a run\<close>

lemma next_request_steps:
  "next_request env its self shared = Some (res, self', shared') \<Longrightarrow>
     (rpc_step env)\<^sup>*\<^sup>* (Some self, shared, owned) (Some self', shared', owned)"
proof (induction its arbitrary: self shared)
  case (Cons it its)
  then obtain control self1 shared1 where it: "rpc_iterate env it self shared = Some (control, self1, shared1)"
    by (auto simp: bind_eq_Some_conv)
  note step = rpc_step.step_iterate [OF it, of owned]
  show ?case
  proof (cases control)
    case LoopAgain
    then show ?thesis
      using Cons.prems Cons.IH [of self1 shared1] it converse_rtranclp_into_rtranclp [of "rpc_step env", OF step] by simp
  qed (use Cons.prems it r_into_rtranclp [of "rpc_step env", OF step] in auto)
qed simp

lemma shutdown_loop_steps:
  "shutdown_loop env calls self shared = Some (self', shared') \<Longrightarrow>
     (rpc_step env)\<^sup>*\<^sup>* (Some self, shared, owned) (Some self', shared', owned)"
proof (induction calls arbitrary: self shared)
  case (Cons its calls)
  then obtain res self1 shared1 where call: "next_request env its self shared = Some (res, self1, shared1)"
    by (auto simp: bind_eq_Some_conv)
  note steps = next_request_steps [OF call, of owned]
  show ?case
  proof (cases "\<exists>incoming. res = Some (Inr (Some incoming))")
    case True
    then obtain incoming shared2 where drop: "incoming_drop env incoming shared1 = Some shared2"
        "shutdown_loop env calls self1 shared2 = Some (self', shared')"
      using Cons.prems call by (auto simp: bind_eq_Some_conv)
    have "rpc_step env (Some self1, shared1, owned) (Some self1, shared2, owned)"
      using rpc_step.step_incoming [of env incoming shared1 shared2 _ "Some self1" owned] drop(1) by blast
    then show ?thesis
      using steps Cons.IH [OF drop(2)] by (meson converse_rtranclp_into_rtranclp rtranclp_trans)
  next
    case False
    then show ?thesis
      using Cons.prems call steps by (auto split: option.splits sum.splits)
  qed
qed simp

lemma shutdown_loop_sound:
  assumes "request_map (env_requests env) pairs"
    and "server_ok m cfgs pairs (inputs_items (core_inputs (concat calls))) self"
    and "inputs_ok cfgs (core_inputs (concat calls))" and "clock_ok env (concat calls)"
  shows "\<exists>self' shared'. shutdown_loop env calls self shared = Some (self', shared')"
  using assms(2-)
proof (induction calls arbitrary: self shared)
  case (Cons its calls)
  have split: "server_ok m cfgs pairs (inputs_items (core_inputs its) + inputs_items (core_inputs (concat calls))) self"
      "inputs_ok cfgs (core_inputs its)" "clock_ok env its"
      "inputs_ok cfgs (core_inputs (concat calls))" "clock_ok env (concat calls)"
    using Cons.prems by (simp_all add: inputs_append clock_ok_def)
  obtain res self1 shared1 where res: "next_request env its self shared = Some (res, self1, shared1)"
      "\<forall>incoming. res = Some (Inr (Some incoming)) \<longrightarrow>
         server_ok m cfgs pairs (inputs_items (core_inputs (concat calls))) self1"
    using next_request_sound [OF assms(1) split(1-3), of shared] by blast
  show ?case
  proof (cases "\<exists>incoming. res = Some (Inr (Some incoming))")
    case True
    then show ?thesis
      using res Cons.IH [OF _ split(4,5), of self1] by (auto simp: incoming_eqs)
  next
    case False
    then show ?thesis
      using res by (auto split: option.splits sum.splits)
  qed
qed simp

text \<open>The map of pending requests is finite, so that its entries can be enumerated.\<close>

lemma pending_finite:
  assumes "rpc_inv env queued fixed pending shared owned"
  shows "finite (dom pending)"
proof -
  obtain flight where flight: "Map.graph pending \<subseteq> flight"
      "guards_ok (env_sync env) fixed (rh_next_io_id (sh_request_handle shared)) flight (sh_guards shared) owned"
    using assms by (auto simp: rpc_inv_def rpc_ok_def in_flight_def)
  then have "snd ` Map.graph pending \<subseteq> {..< length (sh_guards shared)}" "inj_on snd (Map.graph pending)"
    using guards_okD(4) [OF flight(2)] by (auto simp: guards_ok_def intro: inj_on_subset)
  then have "finite (Map.graph pending)"
    by (meson finite_imageD finite_lessThan finite_subset)
  then show ?thesis
    by (simp add: finite_graph_iff_finite_dom)
qed

lemma server_send_custom_error_step:
  assumes "server_send_custom_error env ch i err shared = (res, shared')"
  shows "rpc_step env (srv, shared, owned) (srv, shared', owned)"
  by (rule rpc_step.step_error [of env ch i err _ res]) (use assms in \<open>simp add: server_send_custom_error_def send_custom_error_def\<close>)

text \<open>
  A server in service: one that was built and has run the given iterations of its loop, none of which ended the
  connection (by an error or the end of the stream), with anything the clients and the application do
  in between. The core is in order at every moment of such a run.
\<close>

inductive rpc_run ::
  "('m, 'c, 'n, 's, 'p, 'tx, 'q) rpc_env \<Rightarrow> ('m, 'p) juliet_rpc_server \<Rightarrow> ('c, 'n, 's, 'p, 'tx, 'q) rpc_shared
   \<Rightarrow> 'p rpc_iteration list \<Rightarrow> ('m, 'p) juliet_rpc_server \<Rightarrow> ('c, 'n, 's, 'p, 'tx, 'q) rpc_shared \<Rightarrow> guard_ref set \<Rightarrow> bool"
  for env server shared\<^sub>0 where
  run_built: "rpc_run env server shared\<^sub>0 [] server shared\<^sub>0 {}"
| run_iteration: "rpc_run env server shared\<^sub>0 its self shared owned \<Longrightarrow>
     rpc_iterate env it self shared = Some (control, self', shared') \<Longrightarrow> goes_on control \<Longrightarrow>
     rpc_run env server shared\<^sub>0 (its @ [it]) self' shared' owned"
| run_others: "rpc_run env server shared\<^sub>0 its self shared owned \<Longrightarrow>
     rpc_step env (Some self, shared, owned) (Some self, shared', owned') \<Longrightarrow>
     rpc_run env server shared\<^sub>0 its self shared' owned'"

lemma rpc_run_steps:
  "rpc_run env server shared\<^sub>0 its self shared owned \<Longrightarrow>
     (rpc_step env)\<^sup>*\<^sup>* (Some server, shared\<^sub>0, {}) (Some self, shared, owned)"
  by (induction rule: rpc_run.induct) (blast intro: rpc_step.step_iterate rtranclp.intros)+

lemma rpc_run_server_ok:
  assumes "rpc_run env server shared\<^sub>0 its self shared owned" and "request_map (env_requests env) pairs"
    and "server_ok m cfgs pairs (inputs_items (core_inputs its) + todo) server"
    and "inputs_ok cfgs (core_inputs its)" and "clock_ok env its"
  shows "server_ok m cfgs pairs todo self"
  using assms(1,3-)
proof (induction arbitrary: todo rule: rpc_run.induct)
  case (run_iteration its self shared owned it control self' shared')
  have "server_ok m cfgs pairs (inputs_items (it_inputs it) + todo) self"
    using run_iteration.IH [of "inputs_items (it_inputs it) + todo"] run_iteration.prems
    by (simp add: inputs_append clock_ok_def add.assoc)
  then show ?case
    using rpc_iterate_sound [OF assms(2), of m cfgs it todo self shared] run_iteration.hyps(2,3) run_iteration.prems
    by (auto simp: inputs_append clock_ok_def)
qed simp_all

text \<open>
  C5: Shutting the server down with a custom error always works out. From every state that a server in service
  can reach, with clients and application interleaved in any way, \<^verbatim>\<open>send_custom_error_and_shutdown\<close>
  ends without a panic, whether the error can be queued or not, whatever the peer sends meanwhile and
  whenever the error timeout strikes; afterwards every guard that the application holds has an outcome, and
  an outcome that was set before is unchanged. As for the server itself, the items that reach
  the core, over the whole run and the shutdown, meet the conditions of the IO layer (distinct \<^verbatim>\<open>IoId\<close>s, fewer than
  65536 requests, responses on existing channels, payloads below 4 GiB), and the clock is more than an hour
  away from its end. A server whose loop has already returned an error or the end of the stream is excluded.
\<close>

theorem shutdown_resolves_guards:
  assumes "rpc_layer env queued closed" and "request_map (env_requests env) pairs"
    and "rpc_build env sender new_requests b = (client, server, shared\<^sub>0)" and "queued new_requests = []"
    and "protocol_inv (builder_build (icb_protocol (rpcb_core b)))"
    and "rpc_run env server shared\<^sub>0 its self shared owned"
    and "inputs_ok (pb_channel_config (icb_protocol (rpcb_core b))) (core_inputs (its @ concat calls))"
    and "fresh_items (inputs_items (core_inputs (its @ concat calls)))" and "clock_ok env (its @ concat calls)"
    and "\<And>pending. finite (dom pending) \<Longrightarrow> set (drain_order pending) = Map.graph pending \<and> distinct (drain_order pending)"
  shows "\<exists>shared'. send_custom_error_and_shutdown env drain_order calls ch i err self shared = Some shared'
    \<and> (\<forall>r \<in> owned. outcome_of (env_sync env) (sh_guards shared') r \<noteq> None)
    \<and> (\<forall>r v. outcome_of (env_sync env) (sh_guards shared) r = Some v \<longrightarrow>
         outcome_of (env_sync env) (sh_guards shared') r = Some v)"
proof -
  note layer = assms(1)
  let ?m = "pb_max_frame_size (icb_protocol (rpcb_core b))" and ?cfgs = "pb_channel_config (icb_protocol (rpcb_core b))"
  have inv: "system_inv env queued closed Map.empty (Some self, shared, owned)"
    using rpc_layer.steps_keep_inv [OF layer rpc_run_steps [OF assms(6)] rpc_layer.built_inv [OF layer assms(3,4)]] .
  have split: "inputs_ok ?cfgs (core_inputs its)" "inputs_ok ?cfgs (core_inputs (concat calls))"
      "clock_ok env its" "clock_ok env (concat calls)"
    using assms(7,9) by (auto simp: inputs_append clock_ok_def)
  have "server_ok ?m ?cfgs pairs (inputs_items (core_inputs its) + inputs_items (core_inputs (concat calls))) server"
    using built_server_ok [OF assms(2,5,8,3)] by (simp add: inputs_append)
  from rpc_run_server_ok [OF assms(6,2) this split(1,3)]
  have ok: "server_ok ?m ?cfgs pairs (inputs_items (core_inputs (concat calls))) self" .
  obtain res shared1 where err: "server_send_custom_error env ch i err shared = (res, shared1)"
    by (metis prod.exhaust)
  obtain self2 shared2 where looped: "(if res then shutdown_loop env calls self shared1 else Some (self, shared1))
      = Some (self2, shared2)"
    using shutdown_loop_sound [OF assms(2) ok split(2,4), of shared1] by (cases res) auto
  have steps: "(rpc_step env)\<^sup>*\<^sup>* (Some self, shared, owned) (Some self2, shared2, owned)"
    using server_send_custom_error_step [OF err, of "Some self" owned] shutdown_loop_steps [of env calls self shared1 self2 shared2 owned]
      looped by (cases res) (auto intro: converse_rtranclp_into_rtranclp)
  from rpc_layer.steps_keep_inv [OF layer this inv] have inv2: "rpc_inv env queued Map.empty (srv_pending self2) shared2 owned"
    by (simp add: pending_of_def)
  note order = assms(10) [OF pending_finite [OF inv2]]
  obtain shared' where drop: "server_drop env (drain_order (srv_pending self2)) shared2 = Some shared'"
      "rpc_inv env queued Map.empty Map.empty shared' owned" "queued (sh_new_requests shared') = []"
    using rpc_layer.server_drop_ok [OF layer inv2, of "drain_order (srv_pending self2)"] order by blast
  have "rpc_step env (Some self2, shared2, owned) (None, shared', owned)"
    using rpc_step.step_drop [OF _ _ drop(1)] order by blast
  with steps have "(rpc_step env)\<^sup>*\<^sup>* (Some self, shared, owned) (None, shared', owned)"
    by (rule rtranclp.rtrancl_into_rtrancl)
  then have "outcome_of (env_sync env) (sh_guards shared') r = Some v"
    if "outcome_of (env_sync env) (sh_guards shared) r = Some v" for r v
    using rpc_layer.steps_keep_outcome [OF layer _ inv that] by blast
  moreover have "send_custom_error_and_shutdown env drain_order calls ch i err self shared = Some shared'"
    using err looped drop(1) by (simp add: send_custom_error_and_shutdown_def)
  ultimately show ?thesis
    using rpc_layer.dropped_resolved [OF layer drop(2,3)] by blast
qed

text \<open>The order in which the witness enumerates the pending requests.\<close>

definition by_io_id :: "(io_id \<rightharpoonup> guard_ref) \<Rightarrow> (io_id \<times> guard_ref) list" where
  "by_io_id pending = map (\<lambda>x. (x, the (pending x))) (sorted_list_of_set (dom pending))"

lemma by_io_id_enumerates:
  assumes "finite (dom pending)"
  shows "set (by_io_id pending) = Map.graph pending \<and> distinct (by_io_id pending)"
proof
  show "set (by_io_id pending) = Map.graph pending"
    using assms by (force simp: by_io_id_def Map.graph_def image_iff dom_def)
  show "distinct (by_io_id pending)"
    by (simp add: by_io_id_def distinct_map inj_on_def)
qed

text \<open>The request of a client has been accepted by the server and waits for its response when the server is shut down.\<close>

theorem shutdown_resolves_guards_witness:
  "\<exists>self shared shared'. rpc_run list_env (fst (snd demo_rpc)) (snd (snd demo_rpc)) [hd demo_iterations] self shared {0}
     \<and> srv_pending self = [IoId 0 \<mapsto> 0]
     \<and> send_custom_error_and_shutdown list_env by_io_id [tl demo_iterations] (ChannelId 0) (Id 0) [1, 2] self shared
       = Some shared'
     \<and> outcome_of plain_sync (sh_guards shared') 0 \<noteq> None"
proof -
  let ?b = "with_default_timeout 5 (rpc_builder_new two_channel_io)" and ?first = "hd demo_iterations"
  have b: "rpcb_core ?b = two_channel_io" and its: "[?first] @ concat [tl demo_iterations] = demo_iterations"
    by (simp_all add: with_default_timeout_def rpc_builder_new_def demo_iterations_def)
  note ok = demo_calls_ok [OF b]
  obtain shared\<^sub>1 self shared where served: "rpc_step list_env (Some (fst (snd demo_rpc)), snd (snd demo_rpc), {})
        (Some (fst (snd demo_rpc)), shared\<^sub>1, {0})"
      "rpc_iterate list_env ?first (fst (snd demo_rpc)) shared\<^sub>1 = Some (LoopAgain, self, shared)" "srv_pending self = [IoId 0 \<mapsto> 0]"
    using demo_served by (auto simp: demo_iterations_def)
  have run: "rpc_run list_env (fst (snd demo_rpc)) (snd (snd demo_rpc)) [?first] self shared {0}"
    using run_iteration [OF run_others [OF run_built served(1)] served(2)] by simp
  have "\<exists>shared'. send_custom_error_and_shutdown list_env by_io_id [tl demo_iterations] (ChannelId 0) (Id 0) [1, 2] self shared
      = Some shared' \<and> (\<forall>r \<in> {0}. outcome_of (env_sync list_env) (sh_guards shared') r \<noteq> None)"
    using shutdown_resolves_guards [OF list_rpc.rpc_layer_axioms ok(1) demo_build _ ok(2) run, of "[tl demo_iterations]" by_io_id
        "ChannelId 0" "Id 0" "[1, 2]"] ok(3-5) by_io_id_enumerates unfolding its by auto
  with run served(3) show ?thesis
    by auto
qed

end
