(* ===== verification/Display.thy ===== *)
theory Display
  imports Text Rpc_Props
begin

text \<open>
  The \<^verbatim>\<open>Display\<close> and \<^verbatim>\<open>Debug\<close> implementations of the crate and the messages of its error types
  (\<^verbatim>\<open>#[error(..)]\<close>), over the printers of \<open>Text\<close>. An accessor that panics makes the whole text
  \<^const>\<open>None\<close>. The derived \<^verbatim>\<open>Debug\<close> of an enum without fields prints the name of the variant; that of
  \<^verbatim>\<open>Instant\<close> depends on the platform, and that of \<^verbatim>\<open>Duration\<close> is left open, so both are parameters.

  The header printed into a log identifies the header: the text of a header that parses is defined,
  and different headers have different texts.
\<close>

section \<open>Identifiers and headers\<close>

definition display_channel_id :: "channel_id \<Rightarrow> string" where
  "display_channel_id self = decimal (unat (channel_get self))"

definition display_id :: "msg_id \<Rightarrow> string" where
  "display_id self = decimal (unat (id_get self))"

definition display_io_id :: "io_id \<Rightarrow> string" where
  "display_io_id self = decimal (unat (io_id_get self))"

primrec debug_error_kind :: "error_kind \<Rightarrow> string" where
  "debug_error_kind Other = ''Other''"
| "debug_error_kind MaxFrameSizeExceeded = ''MaxFrameSizeExceeded''"
| "debug_error_kind InvalidHeader = ''InvalidHeader''"
| "debug_error_kind SegmentViolation = ''SegmentViolation''"
| "debug_error_kind BadVarInt = ''BadVarInt''"
| "debug_error_kind error_kind.InvalidChannel = ''InvalidChannel''"
| "debug_error_kind error_kind.InProgress = ''InProgress''"
| "debug_error_kind ResponseTooLarge = ''ResponseTooLarge''"
| "debug_error_kind RequestTooLarge = ''RequestTooLarge''"
| "debug_error_kind DuplicateRequest = ''DuplicateRequest''"
| "debug_error_kind FictitiousRequest = ''FictitiousRequest''"
| "debug_error_kind RequestLimitExceeded = ''RequestLimitExceeded''"
| "debug_error_kind FictitiousCancel = ''FictitiousCancel''"
| "debug_error_kind CancellationLimitExceeded = ''CancellationLimitExceeded''"

primrec display_error_kind :: "error_kind \<Rightarrow> string" where
  "display_error_kind Other = ''application defined error''"
| "display_error_kind MaxFrameSizeExceeded = ''maximum frame size exceeded''"
| "display_error_kind InvalidHeader = ''invalid header''"
| "display_error_kind SegmentViolation = ''segment violation''"
| "display_error_kind BadVarInt = ''bad varint''"
| "display_error_kind error_kind.InvalidChannel = ''invalid channel''"
| "display_error_kind error_kind.InProgress = ''multi-frame in progress''"
| "display_error_kind ResponseTooLarge = ''response too large''"
| "display_error_kind RequestTooLarge = ''request too large''"
| "display_error_kind DuplicateRequest = ''duplicate request''"
| "display_error_kind FictitiousRequest = ''response for fictitious request''"
| "display_error_kind RequestLimitExceeded = ''request limit exceeded''"
| "display_error_kind FictitiousCancel = ''cancellation for fictitious request''"
| "display_error_kind CancellationLimitExceeded = ''cancellation limit exceeded''"

primrec debug_frame_kind :: "frame_kind \<Rightarrow> string" where
  "debug_frame_kind Request = ''Request''"
| "debug_frame_kind Response = ''Response''"
| "debug_frame_kind RequestPl = ''RequestPl''"
| "debug_frame_kind ResponsePl = ''ResponsePl''"
| "debug_frame_kind CancelReq = ''CancelReq''"
| "debug_frame_kind CancelResp = ''CancelResp''"

definition debug_header :: "header \<Rightarrow> string option" where
  "debug_header self =
     (if header_is_error self then
        do { kind \<leftarrow> header_error_kind self;
             Some (''[err:'' @ debug_error_kind kind @ '' c:'' @ display_channel_id (header_channel self)
                   @ '' id:'' @ display_id (header_id self) @ '']'') }
      else
        do { kind \<leftarrow> header_kind self;
             Some (''['' @ debug_frame_kind kind @ '' c:'' @ display_channel_id (header_channel self)
                   @ '' id:'' @ display_id (header_id self) @ '']'') })"

definition display_header :: "header \<Rightarrow> string option" where
  "display_header self = debug_header self"

section \<open>Frames\<close>

text \<open>The \<^verbatim>\<open>Debug\<close> of an array: the elements between brackets, separated by commas.\<close>

fun debug_u8_array :: "bytes \<Rightarrow> string" where
  "debug_u8_array [] = ''''"
| "debug_u8_array [b] = decimal (unat b)"
| "debug_u8_array (b # bs) = decimal (unat b) @ '', '' @ debug_u8_array bs"

definition debug_varint32 :: "varint32 \<Rightarrow> string" where
  "debug_varint32 self =
     (if varint32_is_sentinel self then ''Varint32::SENTINEL''
      else ''Varint32(['' @ debug_u8_array (varint32_raw self) @ ''])'')"

definition display_preamble :: "preamble \<Rightarrow> string option" where
  "display_preamble self =
     do { h \<leftarrow> display_header (pre_header self);
          Some (h @ (if \<not> varint32_is_sentinel (pre_payload_length self)
                     then '' [len='' @ decimal (unat (varint32_decode (pre_payload_length self))) @ '']''
                     else '''')) }"

definition display_outgoing_frame :: "outgoing_frame \<Rightarrow> string option" where
  "display_outgoing_frame self =
     do { p \<leftarrow> display_preamble (of_preamble self);
          Some (''<'' @ p @ (if of_segment self \<noteq> [] then '' '' @ payload_format (of_segment self) else '''')
                @ ''>'') }"

section \<open>Protocol\<close>

text \<open>The optional last field of several structs.\<close>

definition display_payload_field :: "string \<Rightarrow> bytes option \<Rightarrow> string" where
  "display_payload_field name payload =
     (case payload of None \<Rightarrow> '''' | Some data \<Rightarrow> '', '' @ name @ '': '' @ payload_format data)"

definition display_channel_and_id :: "channel_id \<Rightarrow> msg_id \<Rightarrow> string" where
  "display_channel_and_id ch i = '' { channel: '' @ display_channel_id ch @ '', id: '' @ display_id i"

definition display_completed_read :: "completed_read \<Rightarrow> string option" where
  "display_completed_read self =
     (case self of
        ErrorReceived h data \<Rightarrow>
          do { s \<leftarrow> display_header h;
               Some (''ErrorReceived { header: '' @ s @ display_payload_field ''data'' data @ '' }'') }
      | NewRequest ch i payload \<Rightarrow>
          Some (''NewRequest'' @ display_channel_and_id ch i
                @ display_payload_field ''payload'' payload @ '' }'')
      | ReceivedResponse ch i payload \<Rightarrow>
          Some (''ReceivedResponse'' @ display_channel_and_id ch i
                @ display_payload_field ''payload'' payload @ '' }'')
      | RequestCancellation ch i \<Rightarrow>
          Some (''RequestCancellation'' @ display_channel_and_id ch i @ '' }'')
      | ResponseCancellation ch i \<Rightarrow>
          Some (''ResponseCancellation'' @ display_channel_and_id ch i @ '' }''))"

definition display_local_protocol_violation :: "local_protocol_violation \<Rightarrow> string" where
  "display_local_protocol_violation self =
     (case self of
        WouldExceedRequestLimit limit \<Rightarrow>
          ''sending would exceed request limit of '' @ decimal (unat limit)
      | InvalidChannel ch channel_count \<Rightarrow>
          ''channel '' @ display_channel_id ch @ '' not a member of configured ''
          @ decimal channel_count @ '' channels''
      | PayloadExceedsLimit payload_length limit \<Rightarrow>
          ''payload length of '' @ decimal payload_length @ '' bytes exceeds configured limit of ''
          @ decimal limit
      | ErrorPayloadIsMultiFrame payload_length frame_size \<Rightarrow>
          ''error payload of '' @ decimal payload_length
          @ '' bytes exceeds a single frame with configured max size of ''
          @ decimal (unat frame_size) @ '')'')"

section \<open>IO layer\<close>

definition display_queued_item :: "'p queued_item \<Rightarrow> string" where
  "display_queued_item self =
     (case self of
        ItemRequest ch ioid payload _ \<Rightarrow>
          ''Request { channel: '' @ display_channel_id ch @ '', io_id: '' @ display_io_id ioid
          @ display_payload_field ''payload'' payload @ '' }''
      | ItemRequestCancellation ioid \<Rightarrow> ''RequestCancellation { io_id: '' @ display_io_id ioid @ '' }''
      | ItemResponse ch i payload \<Rightarrow>
          ''Response'' @ display_channel_and_id ch i @ display_payload_field ''payload'' payload @ '' }''
      | ItemResponseCancellation ch i \<Rightarrow> ''ResponseCancellation'' @ display_channel_and_id ch i @ '' }''
      | ItemError ch i payload \<Rightarrow>
          ''Error'' @ display_channel_and_id ch i @ '', payload: '' @ payload_format payload @ '' }'')"

text \<open>The arguments that two messages share.\<close>

definition display_error_header :: "string \<Rightarrow> header \<Rightarrow> bytes option \<Rightarrow> string option" where
  "display_error_header what h data =
     do { kind \<leftarrow> header_error_kind h;
          Some (what @ '' [channel '' @ display_channel_id (header_channel h) @ ''/id ''
                @ display_id (header_id h) @ '']: '' @ display_error_kind kind @ '' (payload: ''
                @ decimal (case data of Some b \<Rightarrow> length b | None \<Rightarrow> 0) @ '' bytes)'') }"

definition display_core_error :: "core_error \<Rightarrow> string option" where
  "display_core_error self =
     (case self of
        ReadFailed _ \<Rightarrow> Some ''read failed''
      | WriteFailed _ \<Rightarrow> Some ''write failed''
      | ErrorWriteTimeout \<Rightarrow> Some ''peer did not accept error in timely manner''
      | RemoteReportedError h data \<Rightarrow> display_error_header ''remote peer sent error'' h data
      | RemoteProtocolViolation h data \<Rightarrow> display_error_header ''error sent to peer'' h data
      | LocalProtocolViolation _ \<Rightarrow> Some ''local protocol violation''
      | InternalError what \<Rightarrow> Some (''internal consistency error: '' @ what))"

definition display_io_event :: "io_event \<Rightarrow> string" where
  "display_io_event self =
     (case self of
        IoNewRequest ch i payload \<Rightarrow>
          ''NewRequest'' @ display_channel_and_id ch i @ display_payload_field ''payload'' payload @ '' }''
      | IoRequestCancelled ch i \<Rightarrow> ''RequestCancalled'' @ display_channel_and_id ch i @ '' }''
      | IoReceivedResponse ioid payload \<Rightarrow>
          ''ReceivedResponse { io_id: '' @ display_io_id ioid
          @ display_payload_field ''payload'' payload @ '' }''
      | IoReceivedCancellationResponse ioid \<Rightarrow>
          ''ReceivedCancellationResponse { io_id: '' @ display_io_id ioid @ '' }'')"

primrec display_enqueue_failure :: "enqueue_failure \<Rightarrow> string" where
  "display_enqueue_failure (EnqueueClosed _) = ''IO closed''"
| "display_enqueue_failure (BufferLimitHit _) = ''request limit hit''"

definition display_request_ticket :: "'p request_ticket \<Rightarrow> string" where
  "display_request_ticket self =
     ''RequestTicket { channel: '' @ display_channel_id (rt_channel self) @ '', io_id: ''
     @ display_io_id (rt_io_id self) @ '' }''"

section \<open>RPC layer\<close>

definition display_new_outgoing_request ::
  "(instant \<Rightarrow> string) \<Rightarrow> 'p new_outgoing_request \<Rightarrow> string" where
  "display_new_outgoing_request debug_instant self =
     ''NewOutgoingRequest { ticket: '' @ display_request_ticket (no_ticket self)
     @ (case no_expires self of None \<Rightarrow> '''' | Some expires \<Rightarrow> '', expires: '' @ debug_instant expires)
     @ display_payload_field ''payload'' (no_payload self) @ '' }}''"

definition display_rpc_server_error :: "rpc_server_error \<Rightarrow> string option" where
  "display_rpc_server_error self =
     (case self of
        RpcCoreError e \<Rightarrow> display_core_error e
      | FatalTimeout timed_out \<Rightarrow>
          Some (''connection error after '' @ decimal timed_out @ '' request(s) timed out''))"

definition display_request_error :: "(duration \<Rightarrow> string) \<Rightarrow> request_error \<Rightarrow> string" where
  "display_request_error debug_duration self =
     (case self of
        RequestRemoteClosed _ \<Rightarrow> ''remote closed connection before request could be sent''
      | RequestShutdown \<Rightarrow> ''never received reply before remote closed connection''
      | RequestTimedOut \<Rightarrow> ''request timed out''
      | RequestTimeoutOverflow timeout \<Rightarrow>
          ''requested timeout ('' @ debug_duration timeout @ '') would cause clock overflow''
      | RequestRemoteCancelled \<Rightarrow> ''remote cancelled our request''
      | RequestCancelled \<Rightarrow> ''request cancelled locally''
      | RequestMisuse _ \<Rightarrow> ''API misused or other internal error'')"

definition display_incoming_request :: "incoming_request \<Rightarrow> string" where
  "display_incoming_request self =
     ''IncomingRequest { channel: '' @ display_channel_id (ir_channel self) @ '', id: ''
     @ display_id (ir_id self) @ '', payload: ''
     @ (case ir_payload self of Some payload \<Rightarrow> decimal (length payload) @ '' bytes }'' | None \<Rightarrow> ''none>'')"

section \<open>Headers in log messages\<close>

interpretation channel_name: field_printer display_channel_id is_digit
  by unfold_locales
     (auto simp: display_channel_id_def decimal_digits word_unat_eq_iff intro: channel_id.expand)

interpretation id_name: field_printer display_id is_digit
  by unfold_locales
     (auto simp: display_id_def decimal_digits word_unat_eq_iff intro: msg_id.expand)

interpretation io_id_name: field_printer display_io_id is_digit
  by unfold_locales
     (auto simp: display_io_id_def decimal_digits word_unat_eq_iff intro: io_id.expand)

interpretation error_kind_name: field_printer debug_error_kind "\<lambda>c. c \<noteq> CHR '' ''"
proof
  fix e e' :: error_kind
  assume "debug_error_kind e = debug_error_kind e'"
  then show "e = e'" by (cases e; cases e'; simp)
next
  fix e :: error_kind
  show "list_all (\<lambda>c. c \<noteq> CHR '' '') (debug_error_kind e)" by (cases e) simp_all
qed

interpretation frame_kind_name: field_printer debug_frame_kind "\<lambda>c. c \<noteq> CHR '' ''"
proof
  fix k k' :: frame_kind
  assume "debug_frame_kind k = debug_frame_kind k'"
  then show "k = k'" by (cases k; cases k'; simp)
next
  fix k :: frame_kind
  show "list_all (\<lambda>c. c \<noteq> CHR '' '') (debug_frame_kind k)" by (cases k) simp_all
qed

text \<open>What follows the kind: channel and identifier, each ended by a character that is no digit.\<close>

definition display_address :: "channel_id \<Rightarrow> msg_id \<Rightarrow> string" where
  "display_address c i = ''c:'' @ display_channel_id c @ '' id:'' @ display_id i @ '']''"

lemma display_address_eq_iff: "display_address c i = display_address c' i' \<longleftrightarrow> c = c' \<and> i = i'"
  using channel_name.field_eq_iff [of "CHR '' ''" c "''id:'' @ display_id i @ '']''" c' "''id:'' @ display_id i' @ '']''"]
    id_name.field_eq_iff [of "CHR '']''" i "''''" i' "''''"]
  by (simp add: display_address_def is_digit_def)

lemma display_header_new:
  "display_header (header_new k c i) = Some (CHR ''['' # debug_frame_kind k @ CHR '' '' # display_address c i)"
  by (simp add: display_header_def debug_header_def display_address_def)

lemma display_header_new_error:
  "display_header (header_new_error e c i)
     = Some (''[err:'' @ debug_error_kind e @ CHR '' '' # display_address c i)"
  by (simp add: display_header_def debug_header_def display_address_def)

lemma frame_kind_not_err: "debug_frame_kind k @ xs \<noteq> CHR ''e'' # ys" "CHR ''e'' # ys \<noteq> debug_frame_kind k @ xs"
  by (cases k; simp)+

lemma display_header_inject:
  assumes "header_valid h" and "header_valid h'" and "display_header h = display_header h'"
  shows "h = h'"
  using assms
  by (auto simp: header_valid_iff display_header_new display_header_new_error frame_kind_not_err
      frame_kind_name.field_eq_iff error_kind_name.field_eq_iff display_address_eq_iff)

lemma display_header_valid: "header_valid h \<Longrightarrow> \<exists>s. display_header h = Some s"
  by (auto simp: header_valid_iff display_header_new display_header_new_error)

text \<open>
  Printing a header that was received never panics, and the text identifies the header: two headers
  that parse are printed alike only if they are the same header, so a log shows exactly which kind of
  frame or error arrived, on which channel and with which identifier.
\<close>

theorem display_header_identifies:
  assumes "header_parse r0 r1 r2 r3 = Some h" and "header_parse r0' r1' r2' r3' = Some h'"
  shows "(\<exists>s. display_header h = Some s) \<and> (display_header h = display_header h' \<longleftrightarrow> h = h')"
  using assms display_header_inject display_header_valid header_parse_valid by metis

theorem display_header_identifies_witness:
  "display_header (header_new RequestPl (ChannelId 12) (Id 300)) = Some ''[RequestPl c:12 id:300]''
   \<and> display_header (header_new RequestPl (ChannelId 12) (Id 300))
      \<noteq> display_header (header_new_error DuplicateRequest (ChannelId 12) (Id 300))"
proof -
  have parsed: "header_parse 2 12 44 1 = Some (header_new RequestPl (ChannelId 12) (Id 300))"
      "header_parse 137 12 44 1 = Some (header_new_error DuplicateRequest (ChannelId 12) (Id 300))"
    by code_simp+
  have "header_new RequestPl (ChannelId 12) (Id 300) \<noteq> header_new_error DuplicateRequest (ChannelId 12) (Id 300)"
    by code_simp
  moreover have "display_header (header_new RequestPl (ChannelId 12) (Id 300)) = Some ''[RequestPl c:12 id:300]''"
    by code_simp
  ultimately show ?thesis
    using display_header_identifies [OF parsed] by blast
qed

section \<open>Traced values and errors\<close>

lemma display_error_header_ok: "error_header h \<Longrightarrow> \<exists>s. display_error_header what h data = Some s"
  using error_header_kind by (fastforce simp: display_error_header_def)

lemma display_core_error_ok: "error_ok e \<Longrightarrow> \<exists>s. display_core_error e = Some s"
  by (cases e) (simp_all add: display_core_error_def error_ok_def display_error_header_ok)

lemma display_read_ok:
  assumes "process_incoming p b = Some (Success v, p', b')" and "protocol_inv p"
  shows "\<exists>s. display_completed_read v = Some s"
proof (cases v)
  case (ErrorReceived h data)
  then have "header_valid h"
    using process_incoming_effect [OF assms] by (simp add: read_effect_def other_has_data_def error_header_def)
  then show ?thesis
    using display_header_valid [of h] by (auto simp: ErrorReceived display_completed_read_def)
qed (simp_all add: display_completed_read_def)

lemma display_frame_ok: "header_valid (frame_header f) \<Longrightarrow> \<exists>s. display_outgoing_frame f = Some s"
  using display_header_valid [of "frame_header f"]
  by (auto simp: display_outgoing_frame_def display_preamble_def frame_header_def)

text \<open>
  C26: What the RPC layer reports and traces can be printed. The errors a served connection ends with are
  printed without a panic of \<^verbatim>\<open>Header::error_kind\<close>, so that a server may log them; so are the items that
  \<^verbatim>\<open>process_incoming\<close> returns and the frames a message is sent in.
\<close>

theorem server_errors_displayable:
  assumes "request_map (env_requests env) pairs" and "protocol_inv (builder_build (icb_protocol (rpcb_core b)))"
    and "inputs_ok (pb_channel_config (icb_protocol (rpcb_core b))) (core_inputs (concat (map snd calls)))"
    and "fresh_items (inputs_items (core_inputs (concat (map snd calls))))"
    and "clock_ok env (concat (map snd calls))"
    and "rpc_build env sender new_requests b = (client, server, shared)"
    and "mfs_valid m" and "payload_fits msg" and "header_valid (om_header msg)" and "protocol_inv p"
  shows "\<exists>requests last. serve env calls server shared = Some (requests, last)
    \<and> (\<forall>e. last = Some (Inl e) \<longrightarrow> display_rpc_server_error e \<noteq> None)
    \<and> (\<forall>buffer v p' rest. process_incoming p buffer = Some (Success v, p', rest) \<longrightarrow> display_completed_read v \<noteq> None)
    \<and> (\<forall>fs f. om_frame_iter m msg = Some fs \<longrightarrow> f \<in> set fs \<longrightarrow> display_outgoing_frame f \<noteq> None)"
proof -
  obtain requests last where run: "serve env calls server shared = Some (requests, last)"
      "\<forall>r. last = Some r \<longrightarrow> result_ok (rpcb_bubble_timeouts b) r"
    using built_server_sound [OF assms(1-6)] by blast
  have "display_rpc_server_error e \<noteq> None" if "last = Some (Inl e)" for e
    using run(2) that display_core_error_ok by (cases e) (auto simp: display_rpc_server_error_def)
  moreover have "display_outgoing_frame f \<noteq> None" if "om_frame_iter m msg = Some fs" "f \<in> set fs" for fs f
    using om_frame_iter_wire [OF assms(7,8)] frames_render_headers display_frame_ok [of f] assms(9) that
    by (metis option.inject option.distinct(1))
  ultimately show ?thesis
    using run(1) display_read_ok [OF _ assms(10)] by blast
qed

theorem server_errors_displayable_witness:
  "\<exists>requests last. serve list_env demo_calls (fst (snd demo_rpc)) (snd (snd demo_rpc)) = Some (requests, last)
   \<and> (\<forall>e. last = Some (Inl e) \<longrightarrow> display_rpc_server_error e \<noteq> None)
   \<and> (\<forall>buffer v p' rest. process_incoming two_channel_protocol buffer = Some (Success v, p', rest)
         \<longrightarrow> display_completed_read v \<noteq> None)"
proof -
  let ?b = "with_default_timeout 5 (rpc_builder_new two_channel_io)"
  let ?msg = "outgoing_message_new (header_new Request (ChannelId 1) (Id 2)) None"
  have b: "rpcb_core ?b = two_channel_io"
    by (simp add: with_default_timeout_def rpc_builder_new_def)
  have "mfs_valid (MaxFrameSize 10)" "payload_fits ?msg" "header_valid (om_header ?msg)"
    by (simp_all add: mfs_valid_def payload_fits_def outgoing_message_new_def)
  from server_errors_displayable [OF demo_calls_ok [OF b] demo_build this two_channel_protocol_inv]
  show ?thesis by blast
qed

section \<open>Braces\<close>

text \<open>The texts of structs imitate the notation of the language: a name, then the fields between braces.\<close>

definition open_braces :: "string \<Rightarrow> int" where
  "open_braces s = int (count_list s CHR ''{'') - int (count_list s CHR ''}'')"

lemma open_braces_simps [simp]:
  "open_braces [] = 0"
  "open_braces (c # s) = (if c = CHR ''{'' then 1 else if c = CHR ''}'' then -1 else 0) + open_braces s"
  "open_braces (s @ t) = open_braces s + open_braces t"
  by (simp_all add: open_braces_def)

lemma open_braces_digit [simp]: "d < 16 \<Longrightarrow> digit d \<noteq> CHR ''{'' \<and> digit d \<noteq> CHR ''}''"
  using of_char_digit [of d] by (auto split: if_splits)

lemma open_braces_decimal [simp]: "open_braces (decimal n) = 0"
  by (induction n rule: decimal.induct) (subst decimal.simps, simp)

lemma open_braces_payload_bytes [simp]: "open_braces (payload_bytes bs) = 0"
  using unat_u8_less by (induction bs) (simp_all add: hex_byte_def div_less_iff_less_mult)

lemma open_braces_fields [simp]:
  "open_braces (payload_format raw) = 0"
  "open_braces (display_channel_id ch) = 0" "open_braces (display_id i) = 0" "open_braces (display_io_id x) = 0"
  "open_braces (display_channel_and_id ch i) = 1"
  "open_braces (display_request_ticket ticket) = 0"
  by (simp_all add: payload_format_split display_channel_id_def display_id_def display_io_id_def
      display_channel_and_id_def display_request_ticket_def)

lemma open_braces_payload_field [simp]:
  "open_braces name = 0 \<Longrightarrow> open_braces (display_payload_field name payload) = 0"
  by (cases payload) (simp_all add: display_payload_field_def)

text \<open>
  The texts of queued items, events and tickets have as many opening as closing braces. Two texts of the
  RPC layer do not: \<^verbatim>\<open>NewOutgoingRequest\<close> ends in two closing braces, since \<^verbatim>\<open>write_str\<close> does not treat
  \<^verbatim>\<open>}}\<close> as an escape, and an \<^verbatim>\<open>IncomingRequest\<close> without payload ends in \<^verbatim>\<open>none>\<close> and never closes its brace.
\<close>

theorem display_braces:
  assumes "\<And>t. open_braces (debug_instant t) = 0"
  shows "open_braces (display_queued_item item) = 0 \<and> open_braces (display_io_event event) = 0
    \<and> open_braces (display_request_ticket ticket) = 0
    \<and> open_braces (display_new_outgoing_request debug_instant request) = - 1
    \<and> open_braces (display_incoming_request incoming) = (if ir_payload incoming = None then 1 else 0)"
  using assms
  by (cases item; cases event; cases "no_expires request"; cases "ir_payload incoming")
     (simp_all add: display_queued_item_def display_io_event_def display_new_outgoing_request_def
       display_incoming_request_def)

theorem display_braces_witness:
  "open_braces (display_new_outgoing_request (\<lambda>_. ''Instant'')
     \<lparr>no_ticket = \<lparr>rt_channel = ChannelId 1, rt_permit = (), rt_io_id = IoId 7\<rparr>, no_guard = 0,
      no_payload = Some [1, 2], no_expires = Some 5\<rparr>) = - 1"
proof -
  have "open_braces ((\<lambda>_. ''Instant'') t) = 0" for t :: instant by simp
  from display_braces [of "\<lambda>_. ''Instant''", OF this] show ?thesis by blast
qed

end
