(* ===== verification/Fizzbuzz.thy ===== *)
theory Fizzbuzz
  imports Display Protocol_Sending
begin

text \<open>
  \<^verbatim>\<open>src/examples/fizzbuzz.rs\<close>: the configuration of the connection, the server that answers each request
  in a task of its own, and the client that sends the numbers one after the other. The command line,
  the sockets, the log and the random delay before an answer are left out. A task that panics is
  unwound, which drops the request it owns.
\<close>

section \<open>Configuration\<close>

definition fizzbuzz_channel :: channel_configuration where
  "fizzbuzz_channel =
     with_max_response_payload_size 512 (with_max_request_payload_size 4
       (with_request_limit 3 channel_configuration_default))"

definition fizzbuzz_builder :: "rpc_builder option" where
  "fizzbuzz_builder =
     (let protocol_builder = builder_with_default_channel_config 2 fizzbuzz_channel
      in do { io_builder \<leftarrow> io_core_builder_buffer_size (ChannelId 0) 2 (io_core_builder_new protocol_builder);
              io_builder \<leftarrow> io_core_builder_buffer_size (ChannelId 1) 2 io_builder;
              Some (rpc_builder_new io_builder) })"

section \<open>Numbers and text\<close>

definition u32_to_be_bytes :: "u32 \<Rightarrow> bytes" where
  "u32_to_be_bytes n = [ucast (drop_bit 24 n), ucast (drop_bit 16 n), ucast (drop_bit 8 n), ucast n]"

fun u32_from_be_bytes :: "bytes \<Rightarrow> u32 option" where
  "u32_from_be_bytes [a, b, c, d] =
     Some (push_bit 24 (ucast a) OR push_bit 16 (ucast b) OR push_bit 8 (ucast c) OR ucast d)"
| "u32_from_be_bytes _ = None"

text \<open>
  \<^verbatim>\<open>String::from_utf8\<close>: the code points, or \<^const>\<open>None\<close> if the bytes are not well-formed. Overlong encodings,
  surrogates and code points above \<^verbatim>\<open>10FFFF\<close> are not well-formed.
\<close>

definition utf8_tail :: "nat \<Rightarrow> bool" where
  "utf8_tail b \<longleftrightarrow> 0x80 \<le> b \<and> b \<le> 0xBF"

definition utf8_second :: "nat \<Rightarrow> nat \<Rightarrow> bool" where
  "utf8_second a b \<longleftrightarrow> utf8_tail b \<and> (a = 0xE0 \<longrightarrow> 0xA0 \<le> b) \<and> (a = 0xED \<longrightarrow> b \<le> 0x9F)
     \<and> (a = 0xF0 \<longrightarrow> 0x90 \<le> b) \<and> (a = 0xF4 \<longrightarrow> b \<le> 0x8F)"

fun utf8_decode :: "nat list \<Rightarrow> nat list option" where
  "utf8_decode [] = Some []"
| "utf8_decode (a # bs) =
     (if a < 0x80 then map_option (Cons a) (utf8_decode bs)
      else case bs of
        b # cs \<Rightarrow>
          if 0xC2 \<le> a \<and> a \<le> 0xDF then
            if utf8_tail b then map_option (Cons ((a - 0xC0) * 0x40 + (b - 0x80))) (utf8_decode cs) else None
          else (case cs of
            c # ds \<Rightarrow>
              if 0xE0 \<le> a \<and> a \<le> 0xEF then
                if utf8_second a b \<and> utf8_tail c
                then map_option (Cons ((a - 0xE0) * 0x1000 + (b - 0x80) * 0x40 + (c - 0x80))) (utf8_decode ds)
                else None
              else (case ds of
                d # es \<Rightarrow>
                  if 0xF0 \<le> a \<and> a \<le> 0xF4 \<and> utf8_second a b \<and> utf8_tail c \<and> utf8_tail d
                  then map_option (Cons ((a - 0xF0) * 0x40000 + (b - 0x80) * 0x1000
                         + (c - 0x80) * 0x40 + (d - 0x80))) (utf8_decode es)
                  else None
              | [] \<Rightarrow> None)
          | [] \<Rightarrow> None)
      | [] \<Rightarrow> None)"

definition string_from_utf8 :: "bytes \<Rightarrow> nat list option" where
  "string_from_utf8 bs = utf8_decode (map unat bs)"

section \<open>Server\<close>

text \<open>The part of \<^verbatim>\<open>handle_request\<close> that may panic, up to the response.\<close>

definition fizzbuzz_response :: "bytes option \<Rightarrow> bytes option" where
  "fizzbuzz_response request =
     do { payload \<leftarrow> request;
          num \<leftarrow> u32_from_be_bytes payload;
          let response_payload = [];
          let response_payload =
            (if num mod 3 = 0 then response_payload @ string_bytes ''Fizz '' else response_payload);
          let response_payload =
            (if num mod 5 = 0 then response_payload @ string_bytes ''Buzz '' else response_payload);
          Some (if response_payload = [] then response_payload @ string_bytes (decimal (unat num))
                else response_payload) }"

definition fizzbuzz_handle_request ::
  "('m, 'c, 'n, 's, 'p, 'tx, 'q) rpc_env \<Rightarrow> incoming_request
   \<Rightarrow> ('c, 'n, 's, 'p, 'tx, 'q) rpc_shared \<Rightarrow> ('c, 'n, 's, 'p, 'tx, 'q) rpc_shared option" where
  "fizzbuzz_handle_request env incoming shared =
     (case fizzbuzz_response (ir_payload incoming) of
        None \<Rightarrow> incoming_drop env incoming shared
      | Some response_payload \<Rightarrow> incoming_respond env (Some response_payload) incoming shared)"

text \<open>
  \<^verbatim>\<open>handle_client\<close>. Before each call of \<^verbatim>\<open>next_request\<close> other tasks may have run, among them those that were
  spawned for the requests returned so far.
\<close>

definition fizzbuzz_handle_client where
  "fizzbuzz_handle_client env sender new_requests b calls =
     (case rpc_build env sender new_requests b of (client, server, shared) \<Rightarrow> serve env calls server shared)"

section \<open>Client\<close>

definition fizzbuzz_request :: "u32 \<Rightarrow> juliet_rpc_client \<Rightarrow> rpc_request_builder" where
  "fizzbuzz_request num client = with_payload (u32_to_be_bytes num) (client_create_request (ChannelId 0) client)"

text \<open>
  What the client does with the outcome of \<^verbatim>\<open>wait_for_response\<close>: the text it prints, or the error it ends
  the loop with.
\<close>

definition fizzbuzz_receive :: "request_outcome \<Rightarrow> (request_error + nat list) option" where
  "fizzbuzz_receive res =
     (case res of
        Inl err \<Rightarrow> Some (Inl err)
      | Inr response \<Rightarrow> do { payload \<leftarrow> response; decoded \<leftarrow> string_from_utf8 payload; Some (Inr decoded) })"

text \<open>
  The loop: the numbers from \<open>num\<close> on, with the outcomes of their requests in order. The result is what is
  printed; the loop ends after the last number, with the first error, or with the outcomes given.
\<close>

fun fizzbuzz_client_loop :: "u32 \<Rightarrow> request_outcome list \<Rightarrow> (u32 \<times> nat list) list option" where
  "fizzbuzz_client_loop num [] = Some []"
| "fizzbuzz_client_loop num (res # outcomes) =
     (if num < 0xFFFFFFFF then
        do { received \<leftarrow> fizzbuzz_receive res;
             case received of
               Inl err \<Rightarrow> Some []
             | Inr decoded \<Rightarrow> do {
                 printed \<leftarrow> fizzbuzz_client_loop (num + 1) outcomes;
                 Some ((num, decoded) # printed) } }
      else Some [])"

section \<open>What the answers are\<close>

text \<open>The rules of the game.\<close>

definition fizzbuzz_text :: "nat \<Rightarrow> string" where
  "fizzbuzz_text n =
     (if 15 dvd n then ''Fizz Buzz '' else if 3 dvd n then ''Fizz '' else if 5 dvd n then ''Buzz '' else decimal n)"

lemma be_bytes_roundtrip: "u32_from_be_bytes (u32_to_be_bytes n) = Some n"
  unfolding u32_to_be_bytes_def u32_from_be_bytes.simps option.inject
proof (rule bit_eqI)
  fix k
  assume "possible_bit TYPE(u32) k"
  then consider "k < 8" | "8 \<le> k" "k < 16" | "16 \<le> k" "k < 24" | "24 \<le> k" "k < 32"
    by fastforce
  then show "bit (push_bit 24 (ucast (ucast (drop_bit 24 n) :: u8)) OR push_bit 16 (ucast (ucast (drop_bit 16 n) :: u8))
      OR push_bit 8 (ucast (ucast (drop_bit 8 n) :: u8)) OR ucast (ucast n :: u8) :: u32) k \<longleftrightarrow> bit n k"
    by cases (auto simp: bit_simps)
qed

lemma u32_from_be_bytes_None_iff: "u32_from_be_bytes bs = None \<longleftrightarrow> length bs \<noteq> 4"
  by (cases bs rule: u32_from_be_bytes.cases) auto

lemma string_bytes_append: "string_bytes (s @ t) = string_bytes s @ string_bytes t"
  by (simp add: string_bytes_def)

lemma u32_mod_eq_0: "num mod 3 = 0 \<longleftrightarrow> 3 dvd unat (num :: u32)" "num mod 5 = 0 \<longleftrightarrow> 5 dvd unat (num :: u32)"
  by (simp_all add: word_unat_eq_iff unat_mod dvd_eq_mod_eq_0)

lemma fizzbuzz_response_text:
  "u32_from_be_bytes payload = Some num \<Longrightarrow>
     fizzbuzz_response (Some payload) = Some (string_bytes (fizzbuzz_text (unat num)))"
proof -
  assume "u32_from_be_bytes payload = Some num"
  moreover have "15 dvd n \<longleftrightarrow> 3 dvd n \<and> 5 dvd n" for n :: nat by presburger
  ultimately show ?thesis
    by (simp add: fizzbuzz_response_def fizzbuzz_text_def u32_mod_eq_0 string_bytes_append [symmetric])
       (simp add: string_bytes_def)
qed

lemma length_fizzbuzz_text: "n < 2 ^ 32 \<Longrightarrow> length (fizzbuzz_text n) \<le> 10"
  using length_decimal_le [of n 9] by (simp add: fizzbuzz_text_def)

lemma u32_less: "unat (num :: u32) < 2 ^ 32"
  by (rule order_less_le_trans [OF unsigned_less]) simp

lemma utf8_decode_ascii: "list_all (\<lambda>a. a < 0x80) bs \<Longrightarrow> utf8_decode bs = Some bs"
  by (induction bs) simp_all

lemma unat_char [simp]: "unat (of_nat (of_char c) :: u8) = of_char c"
  using nat_of_char_less_256 [of c] by (simp add: unat_of_nat)

lemma string_from_utf8_string_bytes:
  "list_all (\<lambda>c. of_char c < (0x80 :: nat)) s \<Longrightarrow> string_from_utf8 (string_bytes s) = Some (map of_char s)"
  by (simp add: string_from_utf8_def string_bytes_def comp_def)
     (subst utf8_decode_ascii, simp_all add: list_all_iff)

lemma ascii_fizzbuzz_text: "list_all (\<lambda>c. of_char c < (0x80 :: nat)) (fizzbuzz_text n)"
  using decimal_digits [of n] by (auto simp: fizzbuzz_text_def list_all_iff is_digit_def)

lemma fizzbuzz_receive_response:
  "fizzbuzz_receive (Inr (fizzbuzz_response (Some (u32_to_be_bytes num))))
     = Some (Inr (map of_char (fizzbuzz_text (unat num))))"
  by (simp add: fizzbuzz_receive_def fizzbuzz_response_text [OF be_bytes_roundtrip]
      string_from_utf8_string_bytes ascii_fizzbuzz_text)

section \<open>Answers\<close>

lemma fizzbuzz_builder_eq:
  "\<exists>b. fizzbuzz_builder = Some b \<and> rpcb_core b = io_core_builder_new (builder_with_default_channel_config 2 fizzbuzz_channel)
         \<lparr>icb_buffer_size := [2, 2]\<rparr> \<and> \<not> rpcb_bubble_timeouts b"
  by (simp add: fizzbuzz_builder_def io_core_builder_buffer_size_def io_core_builder_new_def
      io_core_builder_with_default_buffer_size_def builder_with_default_channel_config_def
      rpc_builder_new_def numeral_2_eq_2 Let_def)

text \<open>
  The client of the example prints the solution of the game. For any run of numbers below the last, if
  each outcome is the response the server computes for the number the client has sent, the loop neither
  panics nor ends early and prints each number with the text the rules of the game give. A request whose
  payload is missing or has another length than four makes the handler panic.
\<close>

theorem fizzbuzz_client_prints_solution:
  assumes "unat start + n \<le> u32_max"
  shows "fizzbuzz_client_loop start
      (map (\<lambda>k. Inr (fizzbuzz_response (rb_payload (fizzbuzz_request (start + of_nat k) client)))) [0..<n])
    = Some (map (\<lambda>k. (start + of_nat k, map of_char (fizzbuzz_text (unat start + k)))) [0..<n])
   \<and> (fizzbuzz_response request = None \<longleftrightarrow> (\<forall>payload. request = Some payload \<longrightarrow> length payload \<noteq> 4))"
proof
  have step: "unat (start + of_nat k) = unat start + k" if "k < n" for k
    using assms that by (simp add: unat_word_ariths unat_of_nat take_bit_nat_eq_self)
  have loop: "unat start + n \<le> u32_max \<Longrightarrow> fizzbuzz_client_loop start
      (map (\<lambda>k. Inr (fizzbuzz_response (Some (u32_to_be_bytes (start + of_nat k))))) [0..<n])
    = Some (map (\<lambda>k. (start + of_nat k, map of_char (fizzbuzz_text (unat (start + of_nat k))))) [0..<n])" for start
  proof (induction n arbitrary: start)
    case (Suc n)
    have less: "start < 0xFFFFFFFF" and succ: "unat (start + 1) = unat start + 1"
      using Suc.prems by (simp_all add: word_less_nat_alt unat_word_ariths)
    have shift: "[0..<Suc n] = 0 # map Suc [0..<n]"
      by (simp add: map_Suc_upt upt_conv_Cons)
    show ?case
      using Suc.IH [of "start + 1"] Suc.prems less succ
      by (simp add: shift comp_def fizzbuzz_receive_response add.assoc del: upt_Suc)
  qed simp
  show "fizzbuzz_client_loop start
      (map (\<lambda>k. Inr (fizzbuzz_response (rb_payload (fizzbuzz_request (start + of_nat k) client)))) [0..<n])
    = Some (map (\<lambda>k. (start + of_nat k, map of_char (fizzbuzz_text (unat start + k)))) [0..<n])"
    using loop [OF assms] step
    by (simp add: fizzbuzz_request_def with_payload_def client_create_request_def cong: map_cong)
  show "fizzbuzz_response request = None \<longleftrightarrow> (\<forall>payload. request = Some payload \<longrightarrow> length payload \<noteq> 4)"
    by (cases request) (auto simp: fizzbuzz_response_def Let_def u32_from_be_bytes_None_iff [symmetric] split: Option.bind_splits)
qed

theorem fizzbuzz_client_prints_solution_witness:
  "fizzbuzz_client_loop 14
      (map (\<lambda>k. Inr (fizzbuzz_response (rb_payload (fizzbuzz_request (14 + of_nat k) \<lparr>cl_default_timeout = None\<rparr>)))) [0..<2])
    = Some [(14, map of_char ''14''), (15, map of_char ''Fizz Buzz '')]"
proof -
  have "fizzbuzz_text 14 = ''14''" "fizzbuzz_text 15 = ''Fizz Buzz ''"
    by code_simp+
  moreover have "unat (14 :: u32) + 2 \<le> u32_max" by simp
  ultimately show ?thesis
    using fizzbuzz_client_prints_solution [of 14 2 "\<lparr>cl_default_timeout = None\<rparr>"]
    by (simp add: upt_rec)
qed

lemma create_response_fits:
  assumes "channel_exists ch p" and "i \<in> incoming_requests (chan_of ch p)"
    and "length payload \<le> unat (max_response_payload_size (config (chan_of ch p)))"
  shows "\<exists>msg p'. create_response ch i (Some payload) p = (Inr (Some msg), p')"
  using assms by (simp add: create_response_def lookup_channel_def channel_exists_def chan_of_def Let_def not_less)

lemma fizzbuzz_response_limit:
  assumes "map config (channels p) = replicate 2 fizzbuzz_channel" and "channel_exists ch p"
  shows "unat (max_response_payload_size (config (chan_of ch p))) = 512"
proof -
  have "config (chan_of ch p) = map config (channels p) ! unat (channel_get ch)"
    using assms(2) by (simp add: chan_of_def channel_exists_def)
  moreover have "length (channels p) = 2"
    using arg_cong [OF assms(1), of length] by simp
  ultimately have "config (chan_of ch p) = fizzbuzz_channel"
    using assms by (simp add: channel_exists_def nth_replicate)
  then show ?thesis
    by (simp add: fizzbuzz_channel_def with_max_response_payload_size_def)
qed

text \<open>
  C27: The server of the example answers every request exactly once. If the payload is a number, the task
  hands over one response with the text the game asks for, and the protocol accepts it: it stays below
  the configured 512 bytes. If the handler panics because the payload is missing or not four bytes long,
  the unwinding drops the request, and the peer gets a cancellation.
\<close>

theorem fizzbuzz_request_answered:
  assumes "next_request env its self shared = Some (Some (Inr (Some incoming)), self', shared')"
    and "map config (channels p) = replicate 2 fizzbuzz_channel"
    and "channel_exists (ir_channel incoming) p"
    and "ir_id incoming \<in> incoming_requests (chan_of (ir_channel incoming) p)"
  shows "case Option.bind (ir_payload incoming) u32_from_be_bytes of
      Some num \<Rightarrow>
        let text = string_bytes (fizzbuzz_text (unat num)) in
        fizzbuzz_handle_request env incoming later
          = Some (handed_over env (ItemResponse (ir_channel incoming) (ir_id incoming) (Some text)) later)
        \<and> (\<exists>msg p'. create_response (ir_channel incoming) (ir_id incoming) (Some text) p = (Inr (Some msg), p'))
    | None \<Rightarrow>
        fizzbuzz_handle_request env incoming later
          = Some (handed_over env (ItemResponseCancellation (ir_channel incoming) (ir_id incoming)) later)"
proof (cases "Option.bind (ir_payload incoming) u32_from_be_bytes")
  case None
  then have "fizzbuzz_response (ir_payload incoming) = None"
    by (auto simp: fizzbuzz_response_def split: Option.bind_splits)
  then show ?thesis
    using None next_request_incoming [OF assms(1)] via_handle_item [of env _ later]
    by (simp add: fizzbuzz_handle_request_def incoming_eqs enqueue_response_cancellation_def)
next
  case (Some num)
  then have response: "fizzbuzz_response (ir_payload incoming) = Some (string_bytes (fizzbuzz_text (unat num)))"
    using fizzbuzz_response_text by (auto simp: bind_eq_Some_conv)
  have "length (string_bytes (fizzbuzz_text (unat num))) \<le> 512"
    using length_fizzbuzz_text [OF u32_less, of num] by (simp add: string_bytes_def)
  then have "\<exists>msg p'. create_response (ir_channel incoming) (ir_id incoming)
      (Some (string_bytes (fizzbuzz_text (unat num)))) p = (Inr (Some msg), p')"
    using create_response_fits assms(3,4) fizzbuzz_response_limit [OF assms(2,3)] by simp
  then show ?thesis
    using Some response next_request_incoming [OF assms(1)] via_handle_item [of env _ later]
    by (simp add: fizzbuzz_handle_request_def incoming_eqs enqueue_response_def Let_def)
qed

text \<open>A request with the number 15, received by a server that was built with the configuration of the example.\<close>

definition fizzbuzz_protocol :: juliet_protocol where
  "fizzbuzz_protocol = builder_build (builder_with_default_channel_config 2 fizzbuzz_channel)"

lemma fizzbuzz_read:
  "\<exists>p'. process_incoming fizzbuzz_protocol [2, 1, 7, 0, 4, 0, 0, 0, 15]
     = Some (Success (NewRequest (ChannelId 1) (Id 7) (Some [0, 0, 0, 15])), p', [])
   \<and> map config (channels p') = replicate 2 fizzbuzz_channel \<and> channel_exists (ChannelId 1) p'
   \<and> Id 7 \<in> incoming_requests (chan_of (ChannelId 1) p')"
proof -
  have "header_parse 2 1 7 0 = Some (header_new RequestPl (ChannelId 1) (Id 7))"
    by code_simp
  moreover have "decode_varint32 [4, 0, 0, 0, 15] = Success \<lparr>parsed_offset = 1, parsed_value = 4\<rparr>"
    by code_simp
  ultimately show ?thesis
    by (simp add: process_incoming.simps process_frame_def header_SIZE_def fizzbuzz_protocol_def fizzbuzz_channel_def
        builder_build_def builder_with_default_channel_config_def handle_frame_def handle_request_pl_def accept_def
        detect_starting_segment_def ifd_is_complete_def mfs_DEFAULT_def
        is_at_max_incoming_requests_def channel_new_def channel_configuration_defs Let_def
        put_channel_def channel_exists_def chan_of_def increment_cancellation_allowance_def)
       (simp add: numeral_2_eq_2)
qed

lemma built_server_reads:
  fixes b :: rpc_builder
  assumes "process_incoming (builder_build (icb_protocol (rpcb_core b))) bs
      = Some (Success (NewRequest ch i payload), p', [])"
    and "4 \<le> length bs" and "rpc_build list_env [] ([], False) b = (client, server, shared)"
  shows "\<exists>self shared'. next_request list_env
      [\<lparr>it_now = 0, it_core = Some [ReadProgress bs, ReadDone (Inr True)], it_branch = NoBranch\<rparr>] server shared
    = Some (Some (Inr (Some \<lparr>ir_channel = ch, ir_id = i, ir_payload = payload, ir_handle = Some ()\<rparr>)), self, shared')
    \<and> sh_request_handle shared' = sh_request_handle shared"
proof -
  have empty: "process_incoming p [] = Some (Incomplete 4, p, [])" for p
    by (simp add: process_incoming.simps process_frame_def header_SIZE_def outcome_incomplete_def)
  have "\<exists>core. next_event alist_bimap_ops [ReadProgress bs, ReadDone (Inr True)]
      (io_core_build alist_bimap_ops (rpcb_core b) :: ((io_id, channel_id \<times> msg_id) alist_bimap, unit) io_core)
    = Some (Some (Inr (Some (IoNewRequest ch i payload))), core)"
    using assms(1,2)
    by (simp add: next_event.simps parse_stage_def outcome_stage_def empty select_frame_def select_stage_def
        success_stage_def handle_completed_read_def io_core_build_def Let_def)
  then show ?thesis
    using assms(3)
    by (auto simp: rpc_build_def rpc_iterate_def process_timeouts_def timeouts_loop_rules instant_checked_add_def
        timeout_dummy_def rpc_select_stage_def core_event_stage_def Let_def io_handle_build_def)
qed

theorem fizzbuzz_request_answered_witness:
  "\<exists>b client server shared self shared' incoming.
     fizzbuzz_builder = Some b \<and> rpc_build list_env [] ([], False) b = (client, server, shared)
   \<and> next_request list_env
      [\<lparr>it_now = 0, it_core = Some [ReadProgress [2, 1, 7, 0, 4, 0, 0, 0, 15], ReadDone (Inr True)], it_branch = NoBranch\<rparr>]
      server shared = Some (Some (Inr (Some incoming)), self, shared')
   \<and> fizzbuzz_handle_request list_env incoming shared'
      = Some (handed_over list_env (ItemResponse (ChannelId 1) (Id 7) (Some (string_bytes ''Fizz Buzz ''))) shared')"
proof -
  obtain b where b: "fizzbuzz_builder = Some b"
      "builder_build (icb_protocol (rpcb_core b)) = fizzbuzz_protocol"
    using fizzbuzz_builder_eq
    by (auto simp: fizzbuzz_protocol_def io_core_builder_new_def io_core_builder_with_default_buffer_size_def)
  obtain p' where read: "process_incoming fizzbuzz_protocol [2, 1, 7, 0, 4, 0, 0, 0, 15]
      = Some (Success (NewRequest (ChannelId 1) (Id 7) (Some [0, 0, 0, 15])), p', [])"
      "map config (channels p') = replicate 2 fizzbuzz_channel" "channel_exists (ChannelId 1) p'"
      "Id 7 \<in> incoming_requests (chan_of (ChannelId 1) p')"
    using fizzbuzz_read by blast
  obtain client server shared where built: "rpc_build list_env [] ([], False) b = (client, server, shared)"
    by (metis prod.exhaust)
  let ?incoming = "\<lparr>ir_channel = ChannelId 1, ir_id = Id 7, ir_payload = Some [0, 0, 0, 15], ir_handle = Some ()\<rparr>"
  obtain self shared' where run: "next_request list_env
      [\<lparr>it_now = 0, it_core = Some [ReadProgress [2, 1, 7, 0, 4, 0, 0, 0, 15], ReadDone (Inr True)], it_branch = NoBranch\<rparr>]
      server shared = Some (Some (Inr (Some ?incoming)), self, shared')"
    using built_server_reads [OF _ _ built, of "[2, 1, 7, 0, 4, 0, 0, 0, 15]"] read(1) b(2) by auto
  have "u32_from_be_bytes [0, 0, 0, 15] = Some 15" "fizzbuzz_text 15 = ''Fizz Buzz ''"
    by code_simp+
  then have "fizzbuzz_handle_request list_env ?incoming shared'
      = Some (handed_over list_env (ItemResponse (ChannelId 1) (Id 7) (Some (string_bytes ''Fizz Buzz ''))) shared')"
    using fizzbuzz_request_answered [OF run, of p' shared'] read(2-4) by (simp add: Let_def)
  then show ?thesis
    using b(1) built run by blast
qed

section \<open>The connection\<close>

text \<open>The configuration of the example meets the hypotheses of the theorems on served connections.\<close>

lemma fizzbuzz_server_sound:
  assumes "request_map (env_requests env) pairs" and "fizzbuzz_builder = Some b"
    and "inputs_ok [fizzbuzz_channel, fizzbuzz_channel] (core_inputs (concat (map snd calls)))"
    and "fresh_items (inputs_items (core_inputs (concat (map snd calls))))"
    and "clock_ok env (concat (map snd calls))"
  shows "\<exists>requests last. fizzbuzz_handle_client env sender new_requests b calls = Some (requests, last)
    \<and> (\<forall>n. last \<noteq> Some (Inl (FatalTimeout n)))
    \<and> (\<forall>e. last = Some (Inl (RpcCoreError e)) \<longrightarrow> (\<exists>s. display_core_error e = Some s))"
proof -
  obtain client server shared where built: "rpc_build env sender new_requests b = (client, server, shared)"
    by (metis prod.exhaust)
  have b: "icb_protocol (rpcb_core b) = juliet_protocol_builder 2 fizzbuzz_channel" "\<not> rpcb_bubble_timeouts b"
    using fizzbuzz_builder_eq unfolding assms(2)
    by (auto simp: io_core_builder_new_def io_core_builder_with_default_buffer_size_def
        builder_with_default_channel_config_def juliet_protocol_builder_def)
  have protocol: "protocol_inv (builder_build (icb_protocol (rpcb_core b)))"
    by (simp add: b default_protocol_inv)
  have inputs: "inputs_ok (pb_channel_config (icb_protocol (rpcb_core b))) (core_inputs (concat (map snd calls)))"
    using assms(3) by (simp add: b juliet_protocol_builder_def numeral_2_eq_2)
  obtain requests last where "serve env calls server shared = Some (requests, last)"
      "\<forall>r. last = Some r \<longrightarrow> result_ok (rpcb_bubble_timeouts b) r"
    using built_server_sound [OF assms(1) protocol inputs assms(4,5) built] by blast
  then show ?thesis
    using b(2) display_core_error_ok built by (fastforce simp: fizzbuzz_handle_client_def)
qed

end
