(* ===== verification/Spec2Isabelle.thy ===== *)
theory Spec2Isabelle
  imports Session Io_Sending Cancel_In_Flight Testing_Scripts Multiframe_Model Io_Handle Rpc_Sent Rpc_Shutdown Fizzbuzz
begin

text \<open>
  A verification of \<^verbatim>\<open>juliet\<close> (\<^verbatim>\<open>src/src/\<close>), a protocol for requests and responses over a byte stream, with
  several channels, payloads divided into frames, request limits and cancellations, in three layers:

  \<^item> the protocol layer, a state machine without IO: \<^verbatim>\<open>varint.rs\<close>, \<^verbatim>\<open>header.rs\<close>, \<^verbatim>\<open>protocol.rs\<close> and
    \<^verbatim>\<open>protocol/\<close>, over the types of \<^verbatim>\<open>lib.rs\<close>. \<^verbatim>\<open>process_incoming\<close> turns received bytes into reads; the
    \<^verbatim>\<open>create_\<close> operations produce \<^verbatim>\<open>OutgoingMessage\<close>s, which \<^verbatim>\<open>FrameIter\<close> and \<^verbatim>\<open>ByteIter\<close> turn into bytes;
  \<^item> the IO layer, \<^verbatim>\<open>io.rs\<close>: \<^verbatim>\<open>IoCore\<close> owns a protocol and a transport, schedules the items that
    handles queue, and reports events from \<^verbatim>\<open>next_event\<close>;
  \<^item> the RPC layer, \<^verbatim>\<open>rpc.rs\<close>: clients make requests and wait on guards, a server owns an \<^verbatim>\<open>IoCore\<close>,
    completes the guards, expires timeouts and hands incoming requests to the application.

  Beside the layers there is the text of log messages and errors (\<^verbatim>\<open>Display\<close> and \<^verbatim>\<open>Debug\<close> in every file, \<^verbatim>\<open>util.rs\<close>) and
  an application, \<^verbatim>\<open>src/examples/fizzbuzz.rs\<close>.

  \<^bold>\<open>Conventions.\<close> A Rust value is translated field by field: a struct is a record, an enum a datatype, an
  integer of \<open>w\<close> bits a word of that width, \<^verbatim>\<open>usize\<close> a natural number with checked subtraction, \<^verbatim>\<open>Bytes\<close> and
  \<^verbatim>\<open>BytesMut\<close> byte lists. A method that mutates \<^verbatim>\<open>self\<close> returns the new value. A computation that may panic
  has an option type whose \<open>None\<close> is the panic; a \<^verbatim>\<open>Result\<close> is a sum with the error on the left. Loops that
  end by a measure are recursive functions with a termination proof; those that end for another reason (the
  search for a free identifier, collecting frames, \<^verbatim>\<open>process_incoming\<close>, draining a channel) are partial
  functions that are proved to return. There is no fuel. Asynchronous functions are cut at their await points: what
  the awaited operations do is an input (\<open>io_input\<close>, \<open>rpc_iteration\<close>, \<open>read_result\<close>) and the theorems
  hold for every sequence of inputs, so for every interleaving. Code from other crates is a parameter: the
  request map (\<open>bimap_ops\<close>), semaphores, senders and channels (\<open>send\<close>, \<open>channel_ops\<close>), cells and
  notifications (\<open>sync_ops\<close>); what is documented of it is a locale (\<open>bimap\<close>, \<open>unbounded_channel\<close>,
  \<open>once_notify\<close>), interpreted on a concrete implementation that the witnesses use.

  \<^bold>\<open>Theories.\<close>

  \<^item> \<open>Prelude\<close>: integer types, panicking primitives, facts on lists and words.
  \<^item> \<open>Core_Types\<close>: \<^verbatim>\<open>ChannelId\<close>, \<^verbatim>\<open>Id\<close>, \<^verbatim>\<open>Outcome\<close>, \<^verbatim>\<open>try_outcome!\<close>, \<^verbatim>\<open>ChannelConfiguration\<close> (\<^verbatim>\<open>lib.rs\<close>).
  \<^item> \<open>Varint\<close>, \<open>Header\<close>: the two codecs. Round trips, equality of the encoder with a reference on natural
    numbers, incremental decoding, and which bytes are a header.
  \<^item> \<open>Buf\<close>: the contract of \<^verbatim>\<open>bytes::Buf\<close> (locale \<open>byte_source\<close>) and its consumers.
  \<^item> \<open>Outgoing_Message\<close>: messages, frames, \<^verbatim>\<open>FrameIter\<close>, \<^verbatim>\<open>ByteIter\<close>, \<^verbatim>\<open>MaxFrameSize\<close>. Both iterators
    refine \<open>wire_frames\<close>; two interpretations of \<open>byte_source\<close>.
  \<^item> \<open>Multiframe\<close>: the receiver of multi-frame messages; \<open>accept\<close> refines \<open>accept_spec\<close>, keeps its
    invariant and never looks beyond one frame.
  \<^item> \<open>Multiframe_Model\<close>: the model-based test of the receiver. Its generator and its check are definitions, and the test
    is shown to hold exactly for the lists of actions in which no message above the limit has the header of the
    transfer in progress (\<open>clash_free\<close>); there the model itself is wrong.
  \<^item> \<open>Stream_Parser\<close>: contracts of incremental parsers (locales \<open>stream_parser\<close> and \<open>frame_loop\<close>, the second
    a sublocale of the first): independence of how the stream is cut.
  \<^item> \<open>Channel\<close>, \<open>Protocol\<close>: the state of a channel, \<^verbatim>\<open>JulietProtocol\<close>, its builder, every operation, the
    invariant \<open>protocol_inv\<close> and the interpretation of \<open>frame_loop\<close>.
  \<^item> \<open>Protocol_Reading\<close>, \<open>Protocol_Sending\<close>: \<^verbatim>\<open>process_incoming\<close> on arbitrary input, with the number of bytes it
    asks for (\<open>missing_bytes\<close>, from the length of the frame), and the operations that create messages, on every branch.
  \<^item> \<open>Delivery\<close>, \<open>Message_Types\<close>, \<open>Session\<close>: a message sent as frames has at the receiver exactly the
    effect \<open>receive_message\<close>; the operations keep the type of the protocol and create well-typed messages; two peers that use the protocol never report a violation to each other.
  \<^item> \<open>Bimap\<close>: the contract of the request map.
  \<^item> \<open>Io_Core\<close>: \<^verbatim>\<open>IoCore\<close> and its builder, \<^verbatim>\<open>next_event\<close> in stages. \<open>Io_Handle\<close>: handles, tickets and
    \<^verbatim>\<open>read_until_bytesmut\<close>.
  \<^item> \<open>Io_Reads\<close>, \<open>Io_Inv\<close>, \<open>Io_Events\<close>, \<open>Io_Props\<close>: the invariant of the core and what follows from it, in
    the locale \<open>request_map\<close>: no panic, no internal error, every answer belongs to a queued request, no
    permit is lost. \<open>Io_Findings\<close>: behaviours of the core that contradict its documentation.
  \<^item> \<open>Ready_Queue\<close>: the core sends the frames of queued messages in rounds, one frame of each message per
    round (equal to reading the lists of frames by columns). \<open>send_ready\<close> repeats \<^verbatim>\<open>ready_next_frame\<close> until
    the queue is empty; it stands for no function of the code.
  \<^item> \<open>Multiplexing\<close>: the frames of many messages, interleaved in any way the protocol allows
    (\<open>multiplexed\<close>, of which the rounds of the ready queue are a case), leave the receiver in the state, and
    make it report the reads, that the whole messages in the order of their first frames would.
  \<^item> \<open>Io_Sending\<close>: the sending side of the core keeps to these rules. A run of the core is a sequence of the
    stages that \<^verbatim>\<open>next_event\<close> is made of (\<open>core_run\<close>, \<open>next_event_runs\<close>); the invariant \<open>legal\<close> relates
    \<^verbatim>\<open>active_multi_frame\<close>, the ready queue and the current frame to the frames already sent. It gives the
    delivery of what the core sends in an undisturbed run to a peer. \<open>Cancel_In_Flight\<close>: what \<^verbatim>\<open>next_event\<close> sends when a
    request is cancelled while its frames are being written, and what the peer makes of it.
  \<^item> \<open>Testing_Setup\<close>: the test environment of \<^verbatim>\<open>protocol.rs\<close>, two peers that exchange messages received at once
    and in chunks of every size. \<open>Testing_Scenarios\<close>, \<open>Testing_Creation\<close>, \<open>Testing_Frames\<close>: the scenarios that run
    in it, with the payload as a parameter; they succeed for every payload of the right size, not only for the
    payloads of the tests. \<open>Testing_Scripts\<close>: arbitrary sequences of operations of both peers, whose reads an account of
    the open requests predicts (\<open>predict_all\<close>), and every kind of violation in every state they lead to.
  \<^item> \<open>Rpc_Guard\<close>: request guards in a store of shared objects. \<open>Rpc_Heap\<close>: the heap of timeouts, with the
    contract \<open>min_queue\<close>, and the iterator that drains it. \<open>Rpc\<close>: the rest of \<^verbatim>\<open>rpc.rs\<close>.
  \<^item> \<open>Rpc_Inv\<close>, \<open>Rpc_System\<close>, \<open>Rpc_Props\<close>: which requests are in flight; the steps of clients, server and
    application as the relation \<open>rpc_step\<close>; every guard is resolved once, and by a drop of the server at
    the latest; timeouts; incoming requests; the server over the core (locale \<open>rpc_layer\<close>).
  \<^item> \<open>Rpc_Sent\<close>: what the RPC layer puts into the queue of the core is what the theorems on the core rely on.
  \<^item> \<open>Rpc_Shutdown\<close>: the runs of a server in service between the steps of clients and application (\<open>rpc_run\<close>), in
    which the invariant of the core holds; the shutdown with a custom error ends with every guard resolved.
  \<^item> \<open>Text\<close>, \<open>Display\<close>: decimal and hexadecimal numbers, \<^verbatim>\<open>Index\<close> and \<^verbatim>\<open>PayloadFormat\<close> (\<^verbatim>\<open>util.rs\<close>), every
    \<^verbatim>\<open>Display\<close>, \<^verbatim>\<open>Debug\<close> and error message of the crate. Printed fields are readable (locale
    \<open>field_printer\<close>), a printed header identifies the header, and what is logged never panics.
  \<^item> \<open>Fizzbuzz\<close>: configuration, server and client of the example. Every request is answered once, the client
    prints the solution of the game, and the configuration meets the hypotheses of the theorems above.
  \<^item> this theory: tickets and handles in relation to the invariant of the core.

  \<^bold>\<open>Hypotheses.\<close> The theorems on the core suppose that the requests given to one core have pairwise
  different \<^verbatim>\<open>IoId\<close>s, which the tickets of a handle provide, and that there are fewer than 65536 of them.
  The second bound is needed: protocol identifiers have 16 bits, and once they are reused the core
  may report a response for the wrong request (\<open>reused_identifier_misattributes_response\<close>). Payloads are
  below 4 GiB, the range of the length prefix. The RPC layer supposes that the 64 bit counter of \<^verbatim>\<open>IoId\<close>s does
  not wrap around and that the clock is more than an hour from its end. The theorems on interleaved frames suppose that
  no request is cancelled while its frames are being sent (\<open>cancel_during_send_makes_request\<close> shows why) and
  that no second message with the header of a long message enters the ready queue before the long one is sent, which
  only a peer that reuses the identifier of an unanswered request can bring about.

  The theorem on the shutdown supposes the same of the whole run that leads to it.

  \<^bold>\<open>Abstractions.\<close> The inputs of \<^verbatim>\<open>next_event\<close> are more than a real transport can provide: the end of the item
  channel (\<open>ReceiverEnded\<close>) may come at any time, while a closed channel of \<^verbatim>\<open>tokio\<close> first yields the items that are
  still queued, and the end of a write or read is not tied to the bytes that are left. So what is shown for all
  inputs holds for the real ones, and theorems that name inputs say which. The fields \<open>io_released\<close> and
  \<open>io_receiver_closed\<close> record the permits that were dropped and whether \<^verbatim>\<open>inject_error\<close> has closed the receiver; the
  struct has the receiver and the permits themselves. The write of a pending error is one input: if the future of
  \<^verbatim>\<open>next_event\<close> is dropped in the middle of it and polled again, the data reported with \<^verbatim>\<open>RemoteProtocolViolation\<close> may be
  shorter in the program than in the model.

  \<^bold>\<open>Not modelled.\<close> Tracing has no effect on the state; the values it prints are in \<open>Display\<close>. The \<^verbatim>\<open>Debug\<close> of \<^verbatim>\<open>Instant\<close> and
  \<^verbatim>\<open>Duration\<close> is a parameter, and derived \<^verbatim>\<open>Debug\<close> implementations of structs are left out. Scheduling by \<^verbatim>\<open>tokio\<close> and memory
  allocation are outside the repository; that a future is polled is what the input sequences stand for. Of the
  example, the sockets, the command line and the delay before an answer are left out. Of the test modules,
  the environment \<^verbatim>\<open>TestingSetup\<close> of the protocol with its scenarios and the model test of the multi-frame receiver are
  modelled; unit tests of single functions and the asynchronous tests are not.
\<close>

section \<open>Handles and the IO core\<close>

text \<open>The items that the tickets of a handle put into the queue.\<close>

definition ticket_item :: "'p request_ticket \<Rightarrow> bytes option \<Rightarrow> 'p queued_item" where
  "ticket_item ticket payload = ItemRequest (rt_channel ticket) (rt_io_id ticket) payload (rt_permit ticket)"

lemma id_count_tickets:
  "distinct (map rt_io_id tickets) \<Longrightarrow> id_count x (mset (map2 ticket_item tickets payloads)) \<le> 1"
proof (induction tickets arbitrary: payloads)
  case Nil
  then show ?case
    by simp
next
  case (Cons t tickets)
  have none: "id_count x (mset (map2 ticket_item ts ps)) = 0" if "x \<notin> rt_io_id ` set ts" for ts :: "'a request_ticket list" and ps
    using that by (induction ts arbitrary: ps; case_tac ps) (auto simp: ticket_item_def item_io_id_def)
  show ?case
    using Cons none [of tickets "tl payloads"]
    by (cases payloads) (auto simp: ticket_item_def item_io_id_def)
qed

lemma request_count_tickets: "request_count (mset (map2 ticket_item tickets payloads)) \<le> length tickets"
proof -
  have "request_count items \<le> size items" for items :: "'a queued_item multiset"
    by (simp add: request_count_def size_filter_mset_lesseq)
  from this [of "mset (map2 ticket_item tickets payloads)"] show ?thesis
    by simp
qed

text \<open>
  Tickets from one handle carry pairwise different \<^verbatim>\<open>IoId\<close>s, also across channels and whichever reservations
  fail, until the 64 bit counter wraps around; reserving never panics on an existing channel. So the
  requests queued with them satisfy what the event loop of the core relies on.
\<close>

theorem reserved_tickets_fresh:
  assumes "\<forall>ch \<in> set chs. unat (channel_get ch) < length (icb_buffer_size b)" and "length chs \<le> 2 ^ 64"
  shows "\<exists>tickets h. reserve_all try_acquire chs (io_handle_build semaphore_new sender b) = Some (tickets, h)
    \<and> distinct (map rt_io_id tickets) \<and> (\<forall>t \<in> set tickets. rt_channel t \<in> set chs)
    \<and> (length chs < 65536 \<longrightarrow> fresh_items (mset (map2 ticket_item tickets payloads)))"
proof -
  obtain tickets h where reserved: "reserve_all try_acquire chs (io_handle_build semaphore_new sender b) = Some (tickets, h)"
      "length tickets \<le> length chs" "\<forall>t \<in> set tickets. rt_channel t \<in> set chs"
      "map rt_io_id tickets = map (\<lambda>k. IoId (0 + of_nat k)) [0..<length tickets]"
    using reserve_all_ids [of chs "io_handle_build semaphore_new sender b" try_acquire] assms(1)
    by (auto simp: io_handle_build_def)
  moreover from this have distinct: "distinct (map rt_io_id tickets)"
    using reserve_all_distinct assms(2) by (metis le_trans)
  ultimately show ?thesis
    using id_count_tickets [OF distinct] request_count_tickets [of tickets payloads]
    by (auto simp: fresh_items_def intro: le_less_trans)
qed

theorem reserved_tickets_fresh_witness:
  "\<exists>tickets h. reserve_all (\<lambda>n. if n = 0 then (Inl AcquireNoPermits, 0) else (Inr n, n - 1 :: nat))
       [ChannelId 1, ChannelId 1, ChannelId 0] (io_handle_build (\<lambda>n. n) () two_channel_io) = Some (tickets, h)
     \<and> distinct (map rt_io_id tickets) \<and> fresh_items (mset (map2 ticket_item tickets [None, Some [1], None]))"
proof -
  have "\<forall>ch \<in> set [ChannelId 1, ChannelId 1, ChannelId 0].
      unat (channel_get ch) < length (icb_buffer_size two_channel_io)"
    by (simp add: two_channel_io_def io_core_builder_new_def io_core_builder_with_default_buffer_size_def
        juliet_protocol_builder_def)
  from reserved_tickets_fresh [OF this, of "\<lambda>n. if n = 0 then (Inl AcquireNoPermits, 0) else (Inr n, n - 1 :: nat)"
      "\<lambda>n. n" "()" "[None, Some [1], None]"] show ?thesis
    by auto
qed

end
